(* ===== verification/Prelude.thy ===== *)
theory Prelude
  imports Main "HOL-Library.Word"
begin

text \<open>
  Shared vocabulary of the development: the Rust machine integers as words, the outcome of a
  fallible Rust function as a sum type, Rust slicing with its panics, and generic facts on
  words, congruences and lists that the component theories use.
\<close>

section \<open>Machine integers\<close>

type_synonym u8 = "8 word"
type_synonym u64 = "64 word"
type_synonym u128 = "128 word"

text \<open>Rust's \<^verbatim>\<open>overflowing_add\<close> and \<^verbatim>\<open>overflowing_sub\<close> on \<^verbatim>\<open>u64\<close>.\<close>

definition overflowing_add :: "u64 \<Rightarrow> u64 \<Rightarrow> u64 \<times> bool" where
  "overflowing_add a b = (a + b, 2 ^ 64 \<le> unat a + unat b)"

definition overflowing_sub :: "u64 \<Rightarrow> u64 \<Rightarrow> u64 \<times> bool" where
  "overflowing_sub a b = (a - b, unat a < unat b)"

section \<open>Outcomes of fallible code\<close>

text \<open>
  A function returning \<^verbatim>\<open>Result<T, E>\<close> that may also panic is modelled by a value of
  \<open>fault + 'a\<close>. \<open>Err\<close> is a returned error with its message, \<open>Panic\<close> an
  \<^verbatim>\<open>unwrap\<close>, \<^verbatim>\<open>expect\<close>, out-of-range index or \<^verbatim>\<open>unreachable!\<close> that was hit, and
  \<open>OutOfFuel\<close> says that a loop had not returned when its fuel was used up.
\<close>

datatype fault = Err string | Panic string | OutOfFuel

type_synonym 'a outcome = "fault + 'a"

definition bind_outcome :: "'e + 'a \<Rightarrow> ('a \<Rightarrow> 'e + 'b) \<Rightarrow> 'e + 'b" where
  "bind_outcome m f = (case m of Inl e \<Rightarrow> Inl e | Inr x \<Rightarrow> f x)"

definition expect_some :: "string \<Rightarrow> 'a option \<Rightarrow> 'a outcome" where
  "expect_some msg v = (case v of None \<Rightarrow> Inl (Panic msg) | Some x \<Rightarrow> Inr x)"

definition context_some :: "string \<Rightarrow> 'a option \<Rightarrow> 'a outcome" where
  "context_some msg v = (case v of None \<Rightarrow> Inl (Err msg) | Some x \<Rightarrow> Inr x)"

text \<open>Indexing and slicing: out of range is a panic, never an unspecified value.\<close>

definition index_panic :: "'a list \<Rightarrow> nat \<Rightarrow> 'a outcome" where
  "index_panic xs i = (if i < length xs then Inr (xs ! i) else Inl (Panic ''index out of bounds''))"

definition slice_from :: "'a list \<Rightarrow> nat \<Rightarrow> 'a list outcome" where
  "slice_from xs i = (if i \<le> length xs then Inr (drop i xs) else Inl (Panic ''slice out of bounds''))"

definition slice_range :: "'a list \<Rightarrow> nat \<Rightarrow> nat \<Rightarrow> 'a list outcome" where
  "slice_range xs i n = (if i + n \<le> length xs then Inr (take n (drop i xs))
     else Inl (Panic ''slice out of bounds''))"

named_theorems outcome_simps \<open>equations that run fallible code\<close>

lemma bind_outcome_simps [simp, outcome_simps]:
  "bind_outcome (Inl e) f = Inl e"
  "bind_outcome (Inr x) f = f x"
  by (simp_all add: bind_outcome_def)

lemma bind_outcome_Inr_iff:
  "bind_outcome m f = Inr y \<longleftrightarrow> (\<exists>x. m = Inr x \<and> f x = Inr y)"
  by (cases m) simp_all

lemma bind_outcome_InrE [elim!]:
  assumes "bind_outcome m f = Inr y"
  obtains x where "m = Inr x" and "f x = Inr y"
  using assms by (auto simp: bind_outcome_Inr_iff)

lemma expect_some_simps [simp, outcome_simps]:
  "expect_some msg (Some x) = Inr x"
  "expect_some msg None = Inl (Panic msg)"
  by (simp_all add: expect_some_def)

lemma context_some_simps [simp, outcome_simps]:
  "context_some msg (Some x) = Inr x"
  "context_some msg None = Inl (Err msg)"
  by (simp_all add: context_some_def)

lemma slice_ok [simp]:
  "i < length xs \<Longrightarrow> index_panic xs i = Inr (xs ! i)"
  "i \<le> length xs \<Longrightarrow> slice_from xs i = Inr (drop i xs)"
  "i + n \<le> length xs \<Longrightarrow> slice_range xs i n = Inr (take n (drop i xs))"
  by (simp_all add: index_panic_def slice_from_def slice_range_def)

section \<open>Congruences\<close>

lemma mod_eq_iff_dvd_int: "(a :: int) mod p = b mod p \<longleftrightarrow> p dvd (a - b)"
  by (simp add: mod_eq_dvd_iff)

lemma mod_mult_cancel_left_nat:
  fixes a b c p :: nat
  assumes "coprime c p" and "(c * a) mod p = (c * b) mod p"
  shows "a mod p = b mod p"
proof -
  have "(int c * int a) mod int p = (int c * int b) mod int p"
    using assms(2) by (metis of_nat_mod of_nat_mult)
  then have "int p dvd int c * (int a - int b)"
    by (simp add: mod_eq_iff_dvd_int algebra_simps)
  moreover have "coprime (int p) (int c)"
    using assms(1) by (simp add: coprime_commute)
  ultimately have "int p dvd int a - int b"
    by (simp add: coprime_dvd_mult_right_iff)
  then have "int a mod int p = int b mod int p"
    by (simp add: mod_eq_iff_dvd_int)
  then show ?thesis by (metis of_nat_eq_iff of_nat_mod)
qed

lemma mod_certificate: "n = p * q + r \<Longrightarrow> r < p \<Longrightarrow> n mod p = (r :: nat)"
  by simp

lemma mod_unique_nat: "a mod p = b mod p \<Longrightarrow> a < p \<Longrightarrow> b < p \<Longrightarrow> a = (b :: nat)"
  by simp

end
