(* ===== verification/Limbs.thy ===== *)
theory Limbs
  imports Prelude
begin

text \<open>
  Multi-precision building blocks, \<^verbatim>\<open>crates/crypto/src/algebra/field/core.rs\<close>: 64-bit
  add with carry, subtract with borrow and multiply-accumulate, in the \<^verbatim>\<open>const\<close> form
  (built on \<^verbatim>\<open>overflowing_add\<close>) and in the run-time form (through \<^verbatim>\<open>u128\<close>), with
  the integer equation each of them satisfies.
\<close>

section \<open>Definitions\<close>

definition const_adc :: "u64 \<Rightarrow> u64 \<Rightarrow> u64 \<Rightarrow> u64 \<times> u64" where
  "const_adc a b carry =
     (let (s, c1) = overflowing_add a b;
          (s, c2) = overflowing_add s carry
      in (s, of_bool (c1 \<or> c2)))"

text \<open>The portable branch of \<^verbatim>\<open>adc\<close>; \<^verbatim>\<open>*a\<close> is the first component of the result.\<close>

definition adc :: "u64 \<Rightarrow> u64 \<Rightarrow> u8 \<Rightarrow> u64 \<times> u8" where
  "adc a b carry =
     (let tmp = (ucast a :: u128) + ucast b + ucast carry
      in (ucast tmp, ucast (drop_bit 64 tmp)))"

definition acc :: "u64 \<Rightarrow> u64 \<Rightarrow> u64 \<times> u64" where
  "acc a carry =
     (let t = (ucast a :: u128) + ucast carry
      in (ucast t, ucast (drop_bit 64 t)))"

definition const_sbb :: "u64 \<Rightarrow> u64 \<Rightarrow> u64 \<Rightarrow> u64 \<times> u64" where
  "const_sbb a b borrow =
     (let (d, b1) = overflowing_sub a b;
          (d, b2) = overflowing_sub d borrow
      in (d, of_bool (b1 \<or> b2)))"

definition sbb :: "u64 \<Rightarrow> u64 \<Rightarrow> u8 \<Rightarrow> u64 \<times> u8" where
  "sbb a b borrow =
     (let tmp = push_bit 64 (1 :: u128) + ucast a - ucast b - ucast borrow
      in (ucast tmp, of_bool (drop_bit 64 tmp = 0)))"

definition const_mac :: "u64 \<Rightarrow> u64 \<Rightarrow> u64 \<Rightarrow> u64 \<Rightarrow> u64 \<times> u64" where
  "const_mac a b c carry =
     (let tmp = (ucast a :: u128) * ucast b + ucast c + ucast carry
      in (ucast tmp, ucast (drop_bit 64 tmp)))"

text \<open>\<^verbatim>\<open>mac\<close> returns the low word and writes the high word through \<^verbatim>\<open>carry\<close>.\<close>

definition mac :: "u64 \<Rightarrow> u64 \<Rightarrow> u64 \<Rightarrow> u64 \<Rightarrow> u64 \<times> u64" where
  "mac a b c carry =
     (let tmp = (ucast a :: u128) * ucast b + ucast c + ucast carry
      in (ucast tmp, ucast (drop_bit 64 tmp)))"

section \<open>The integer equations\<close>

lemma u64_less: "unat (a :: u64) < 2 ^ 64"
  using unsigned_less [of a, where ?'a = nat] by simp

lemma mod_once: "x < 2 * n \<Longrightarrow> x mod n = (if x < n then x else x - n)" for x n :: nat
  by (simp add: mod_if)

lemma ucast_u64_parts:
  fixes t :: u128
  shows "unat (ucast t :: u64) + 2 ^ 64 * unat (ucast (drop_bit 64 t) :: u64) = unat t"
proof -
  have "unat (ucast t :: u64) = unat t mod 2 ^ 64"
    by (simp add: unsigned_ucast_eq take_bit_eq_mod)
  moreover have "unat (ucast (drop_bit 64 t) :: u64) = unat t div 2 ^ 64"
  proof -
    have "unat t < 2 ^ 128" using unsigned_less [of t, where ?'a = nat] by simp
    then have "unat t div 2 ^ 64 < 2 ^ 64" by (simp add: less_mult_imp_div_less)
    then show ?thesis
      by (simp add: unsigned_ucast_eq take_bit_eq_mod unat_div drop_bit_eq_div)
  qed
  ultimately show ?thesis by (simp add: mod_mult_div_eq)
qed

lemma unat_ucast_u64_u128 [simp]: "unat (ucast (a :: u64) :: u128) = unat a"
  using u64_less [of a] by (simp add: unsigned_ucast_eq take_bit_eq_mod)

lemma unat_ucast_u8_u128 [simp]: "unat (ucast (a :: u8) :: u128) = unat a"
  using unsigned_less [of a, where ?'a = nat] by (simp add: unsigned_ucast_eq take_bit_eq_mod)

lemma u64_le: "unat (a :: u64) \<le> 2 ^ 64 - 1"
  using u64_less [of a] by simp

lemma u64_mult_le: "unat (a :: u64) * unat (b :: u64) \<le> (2 ^ 64 - 1) * (2 ^ 64 - 1)"
  by (intro mult_le_mono u64_le)

lemma const_mac_eq:
  assumes "const_mac a b c carry = (lo, hi)"
  shows "unat lo + 2 ^ 64 * unat hi = unat a * unat b + unat c + unat carry"
proof -
  let ?t = "(ucast a :: u128) * ucast b + ucast c + ucast carry"
  have *: "unat a * unat b + unat c + unat carry < 2 ^ 128"
    using u64_mult_le [of a b] u64_le [of c] u64_le [of carry] by simp
  then have "unat ?t = unat a * unat b + unat c + unat carry"
    by (simp add: unat_word_ariths mod_simps)
  then show ?thesis
    using assms ucast_u64_parts [of ?t] by (auto simp: const_mac_def Let_def)
qed

lemma unat_add_u64:
  fixes a b :: u64
  shows "unat (a + b) = (if unat a + unat b < 2 ^ 64 then unat a + unat b else unat a + unat b - 2 ^ 64)"
  using mod_once [of "unat a + unat b" "2 ^ 64"] u64_less [of a] u64_less [of b]
  by (simp add: unat_word_ariths)

lemma unat_sub_u64:
  fixes a b :: u64
  shows "unat (a - b) = (if unat b \<le> unat a then unat a - unat b else 2 ^ 64 + unat a - unat b)"
  using mod_once [of "2 ^ 64 + unat a - unat b" "2 ^ 64"] u64_less [of a] u64_less [of b]
  by (auto simp: unat_sub_if' word_le_nat_alt)

lemma const_adc_eq:
  assumes "const_adc a b c = (lo, hi)" and "unat a + unat b + unat c < 2 ^ 65"
  shows "unat lo + 2 ^ 64 * unat hi = unat a + unat b + unat c"
  using assms unat_add_u64 [of a b] unat_add_u64 [of "a + b" c]
    u64_less [of a] u64_less [of b] u64_less [of c]
  by (auto simp: const_adc_def overflowing_add_def Let_def split: if_splits)

lemma const_adc_hi: "const_adc a b c = (lo, hi) \<Longrightarrow> unat hi \<le> 1"
  by (auto simp: const_adc_def Let_def split: prod.splits)

lemma const_sbb_eq:
  assumes "const_sbb a b c = (lo, hi)" and "unat c \<le> 1"
  shows "unat lo + unat b + unat c = unat a + 2 ^ 64 * unat hi"
  using assms unat_sub_u64 [of a b] unat_sub_u64 [of "a - b" c]
    u64_less [of a] u64_less [of b] u64_less [of c]
  by (auto simp: const_sbb_def overflowing_sub_def Let_def split: if_splits)

lemma const_sbb_hi: "const_sbb a b c = (lo, hi) \<Longrightarrow> unat hi \<le> 1"
  by (auto simp: const_sbb_def Let_def split: prod.splits)

lemma ucast_u8_hi:
  fixes t :: u128
  assumes "unat t < 2 ^ 65"
  shows "unat (ucast (drop_bit 64 t) :: u8) = unat (ucast (drop_bit 64 t) :: u64)"
proof -
  have "unat t div 2 ^ 64 < 2" using assms by (simp add: less_mult_imp_div_less)
  then show ?thesis
    by (simp add: unsigned_ucast_eq take_bit_eq_mod unat_div drop_bit_eq_div)
qed

lemma adc_eq:
  assumes "adc a b c = (lo, hi)" and "unat c \<le> 1"
  shows "unat lo + 2 ^ 64 * unat hi = unat a + unat b + unat c" and "unat hi \<le> 1"
proof -
  let ?t = "(ucast a :: u128) + ucast b + ucast c"
  have lt: "unat a + unat b + unat c < 2 ^ 65"
    using u64_less [of a] u64_less [of b] assms(2) by simp
  then have t: "unat ?t = unat a + unat b + unat c"
    by (simp add: unat_word_ariths mod_simps)
  show eq: "unat lo + 2 ^ 64 * unat hi = unat a + unat b + unat c"
    using assms(1) ucast_u64_parts [of ?t] ucast_u8_hi [of ?t] t lt
    by (auto simp: adc_def Let_def)
  show "unat hi \<le> 1" using eq lt by simp
qed

lemma sbb_eq:
  assumes "sbb a b c = (lo, hi)" and "unat c \<le> 1"
  shows "unat lo + unat b + unat c = unat a + 2 ^ 64 * unat hi" and "unat hi \<le> 1"
proof -
  let ?t = "push_bit 64 (1 :: u128) + ucast a - ucast b - ucast c"
  have t: "unat ?t = 2 ^ 64 + unat a - unat b - unat c"
    using u64_less [of a] u64_less [of b] assms(2)
    by (simp add: unat_sub_if' unat_word_ariths word_le_nat_alt push_bit_eq_mult)
  have "unat (drop_bit 64 ?t) = unat ?t div 2 ^ 64"
    by (simp only: unat_div drop_bit_eq_div) simp
  then have "drop_bit 64 ?t = 0 \<longleftrightarrow> unat ?t < 2 ^ 64"
    by (simp add: unat_eq_zero [symmetric] div_eq_0_iff)
  moreover have "unat lo = unat ?t mod 2 ^ 64"
    using assms(1) by (auto simp: sbb_def Let_def unsigned_ucast_eq take_bit_eq_mod)
  moreover have "unat ?t < 2 * 2 ^ 64" using t u64_less [of a] by simp
  ultimately show "unat lo + unat b + unat c = unat a + 2 ^ 64 * unat hi"
    using assms t u64_less [of a] u64_less [of b] mod_once [of "unat ?t" "2 ^ 64"]
    by (auto simp: sbb_def Let_def split: if_splits)
  show "unat hi \<le> 1" using assms(1) by (auto simp: sbb_def Let_def)
qed

lemma mac_eq: "mac = const_mac"
  by (intro ext) (simp add: mac_def const_mac_def)

lemma acc_eq:
  assumes "acc a c = (lo, hi)"
  shows "unat lo + 2 ^ 64 * unat hi = unat a + unat c" and "unat hi \<le> 1"
proof -
  let ?t = "(ucast a :: u128) + ucast c"
  have lt: "unat a + unat c < 2 ^ 65" using u64_less [of a] u64_less [of c] by simp
  then have "unat ?t = unat a + unat c" by (simp add: unat_word_ariths mod_simps)
  then show eq: "unat lo + 2 ^ 64 * unat hi = unat a + unat c"
    using assms ucast_u64_parts [of ?t] by (auto simp: acc_def Let_def)
  show "unat hi \<le> 1" using eq lt by simp
qed

section \<open>Four-limb integers\<close>

text \<open>
  \<^verbatim>\<open>MontFelt([u64; 4])\<close> and \<^verbatim>\<open>CurveOrderMontFelt([u64; 4])\<close>, least significant limb
  first; \<open>lval\<close> is the integer the limbs spell.
\<close>

datatype limbs = Limbs u64 u64 u64 u64

fun lval :: "limbs \<Rightarrow> nat" where
  "lval (Limbs x0 x1 x2 x3) = unat x0 + 2 ^ 64 * unat x1 + 2 ^ 128 * unat x2 + 2 ^ 192 * unat x3"

definition limbs_of_nat :: "nat \<Rightarrow> limbs" where
  "limbs_of_nat n = Limbs (of_nat n) (of_nat (n div 2 ^ 64)) (of_nat (n div 2 ^ 128))
     (of_nat (n div 2 ^ 192))"

lemma lval_less: "lval x < 2 ^ 256"
proof (cases x)
  case (Limbs x0 x1 x2 x3)
  then show ?thesis
    using u64_less [of x0] u64_less [of x1] u64_less [of x2] u64_less [of x3] by simp
qed

lemma lval_inj: "lval x = lval y \<longleftrightarrow> x = y"
proof
  assume eq: "lval x = lval y"
  obtain a0 a1 a2 a3 where x: "x = Limbs a0 a1 a2 a3" by (cases x)
  obtain b0 b1 b2 b3 where y: "y = Limbs b0 b1 b2 b3" by (cases y)
  have split: "unat a = unat b \<and> m = n" if "unat a + 2 ^ 64 * m = unat b + 2 ^ 64 * n" for a b :: u64 and m n
  proof -
    have "unat a = unat b"
      using arg_cong [OF that, of "\<lambda>x. x mod 2 ^ 64"] u64_less [of a] u64_less [of b] by simp
    with that show ?thesis by simp
  qed
  have "unat a0 = unat b0 \<and> unat a1 + 2 ^ 64 * (unat a2 + 2 ^ 64 * unat a3) =
      unat b1 + 2 ^ 64 * (unat b2 + 2 ^ 64 * unat b3)"
    using eq by (intro split) (simp add: x y algebra_simps)
  moreover from this have "unat a1 = unat b1 \<and> unat a2 + 2 ^ 64 * unat a3 = unat b2 + 2 ^ 64 * unat b3"
    by (intro split) simp
  moreover from this have "unat a2 = unat b2 \<and> unat a3 = unat b3"
    by (intro split) simp
  ultimately show "x = y" by (simp add: x y word_unat_eq_iff)
qed simp

lemma recompose4:
  fixes n q1 q2 q3 r0 r1 r2 :: nat
  assumes "n = 2 ^ 64 * q1 + r0" and "q1 = 2 ^ 64 * q2 + r1" and "q2 = 2 ^ 64 * q3 + r2"
  shows "r0 + 2 ^ 64 * r1 + 2 ^ 128 * r2 + 2 ^ 192 * q3 = n"
  using assms by simp

lemma lval_limbs_of_nat:
  assumes "n < 2 ^ 256"
  shows "lval (limbs_of_nat n) = n"
proof -
  have 1: "n div 2 ^ 192 < 2 ^ 64" using assms by (simp add: less_mult_imp_div_less)
  have 2: "n div 2 ^ 128 = 2 ^ 64 * (n div 2 ^ 192) + n div 2 ^ 128 mod 2 ^ 64"
    using mult_div_mod_eq [of "2 ^ 64" "n div 2 ^ 128"] by (simp add: div_mult2_eq [symmetric])
  have 3: "n div 2 ^ 64 = 2 ^ 64 * (n div 2 ^ 128) + n div 2 ^ 64 mod 2 ^ 64"
    using mult_div_mod_eq [of "2 ^ 64" "n div 2 ^ 64"] by (simp add: div_mult2_eq [symmetric])
  have 4: "n = 2 ^ 64 * (n div 2 ^ 64) + n mod 2 ^ 64"
    using mult_div_mod_eq [of "2 ^ 64" n] by simp
  have "lval (limbs_of_nat n) = n mod 2 ^ 64 + 2 ^ 64 * (n div 2 ^ 64 mod 2 ^ 64)
      + 2 ^ 128 * (n div 2 ^ 128 mod 2 ^ 64) + 2 ^ 192 * (n div 2 ^ 192)"
    using 1 by (simp add: limbs_of_nat_def unsigned_of_nat take_bit_eq_mod)
  also have "\<dots> = n" by (rule recompose4 [OF 4 3 2])
  finally show ?thesis .
qed

end
