(* ===== verification/Montgomery.thy ===== *)
theory Montgomery
  imports Limbs
begin

text \<open>
  Montgomery arithmetic on four 64-bit limbs. The modules
  \<^verbatim>\<open>crates/crypto/src/algebra/field/montfelt\<close> and \<^verbatim>\<open>\<dots>/curveorder\<close> contain the same
  code for two moduli; here it is written once, with the constants \<^verbatim>\<open>P\<close>, \<^verbatim>\<open>R\<close>,
  \<^verbatim>\<open>R2\<close> and \<^verbatim>\<open>M0\<close> of the module as a record argument. Loops over the four limbs are
  unrolled; a method on \<^verbatim>\<open>&mut self\<close> returns the new value.
\<close>

unbundle bit_operations_syntax

record modulus =
  mod_P :: limbs
  mod_R :: limbs
  mod_R2 :: limbs
  mod_M0 :: u64

section \<open>Comparison and parity: \<^verbatim>\<open>cmp.rs\<close>, \<^verbatim>\<open>parity.rs\<close>, \<^verbatim>\<open>division.rs\<close>\<close>

datatype ordering = Less | Equal | Greater

definition is_zero :: "limbs \<Rightarrow> bool" where
  "is_zero x = (case x of Limbs x0 x1 x2 x3 \<Rightarrow> x0 = 0 \<and> x1 = 0 \<and> x2 = 0 \<and> x3 = 0)"

definition is_one :: "modulus \<Rightarrow> limbs \<Rightarrow> bool" where
  "is_one m x = (case (x, mod_R m) of (Limbs x0 x1 x2 x3, Limbs r0 r1 r2 r3) \<Rightarrow>
     x0 = r0 \<and> x1 = r1 \<and> x2 = r2 \<and> x3 = r3)"

definition const_cmp :: "limbs \<Rightarrow> limbs \<Rightarrow> ordering" where
  "const_cmp x y = (case (x, y) of (Limbs x0 x1 x2 x3, Limbs y0 y1 y2 y3) \<Rightarrow>
     if x3 < y3 then Less else if x3 > y3 then Greater
     else if x2 < y2 then Less else if x2 > y2 then Greater
     else if x1 < y1 then Less else if x1 > y1 then Greater
     else if x0 < y0 then Less else if x0 > y0 then Greater
     else Equal)"

definition const_eq :: "limbs \<Rightarrow> limbs \<Rightarrow> bool" where
  "const_eq x y = (const_cmp x y = Equal)"

definition const_gt :: "limbs \<Rightarrow> limbs \<Rightarrow> bool" where
  "const_gt x y = (const_cmp x y = Greater)"

definition const_geq :: "limbs \<Rightarrow> limbs \<Rightarrow> bool" where
  "const_geq x y = (const_cmp x y = Greater \<or> const_cmp x y = Equal)"

definition const_lt :: "limbs \<Rightarrow> limbs \<Rightarrow> bool" where
  "const_lt x y = (const_cmp x y = Less)"

definition const_leq :: "limbs \<Rightarrow> limbs \<Rightarrow> bool" where
  "const_leq x y = (const_cmp x y = Less \<or> const_cmp x y = Equal)"

definition is_odd :: "limbs \<Rightarrow> bool" where
  "is_odd x = (case x of Limbs x0 x1 x2 x3 \<Rightarrow> x0 AND 1 = 1)"

definition is_even :: "limbs \<Rightarrow> bool" where
  "is_even x = (case x of Limbs x0 x1 x2 x3 \<Rightarrow> x0 AND 1 = 0)"

definition div2 :: "limbs \<Rightarrow> limbs" where
  "div2 x = (case x of Limbs x0 x1 x2 x3 \<Rightarrow>
     Limbs (drop_bit 1 x0 OR push_bit 63 x1) (drop_bit 1 x1 OR push_bit 63 x2)
       (drop_bit 1 x2 OR push_bit 63 x3) (drop_bit 1 x3))"

section \<open>Addition and subtraction: \<^verbatim>\<open>additive.rs\<close>, \<^verbatim>\<open>reduce.rs\<close>\<close>

definition const_add_noreduce :: "limbs \<Rightarrow> limbs \<Rightarrow> limbs" where
  "const_add_noreduce x y = (case (x, y) of (Limbs x0 x1 x2 x3, Limbs y0 y1 y2 y3) \<Rightarrow>
     let (r0, carry) = const_adc x0 y0 0;
         (r1, carry) = const_adc x1 y1 carry;
         (r2, carry) = const_adc x2 y2 carry;
         (r3, carry) = const_adc x3 y3 carry
     in Limbs r0 r1 r2 r3)"

definition const_sub_noreduce :: "limbs \<Rightarrow> limbs \<Rightarrow> limbs" where
  "const_sub_noreduce x y = (case (x, y) of (Limbs x0 x1 x2 x3, Limbs y0 y1 y2 y3) \<Rightarrow>
     let (r0, borrow) = const_sbb x0 y0 0;
         (r1, borrow) = const_sbb x1 y1 borrow;
         (r2, borrow) = const_sbb x2 y2 borrow;
         (r3, borrow) = const_sbb x3 y3 borrow
     in Limbs r0 r1 r2 r3)"

definition const_reduce_partial :: "modulus \<Rightarrow> limbs \<Rightarrow> limbs" where
  "const_reduce_partial m x =
     (if const_geq x (mod_P m) then const_sub_noreduce x (mod_P m) else x)"

definition const_neg :: "modulus \<Rightarrow> limbs \<Rightarrow> limbs" where
  "const_neg m x = (if is_zero x then x else const_sub_noreduce (mod_P m) x)"

definition const_double :: "modulus \<Rightarrow> limbs \<Rightarrow> limbs" where
  "const_double m x = const_reduce_partial m (const_add_noreduce x x)"

definition const_add :: "modulus \<Rightarrow> limbs \<Rightarrow> limbs \<Rightarrow> limbs" where
  "const_add m x y = const_reduce_partial m (const_add_noreduce x y)"

definition const_sub :: "modulus \<Rightarrow> limbs \<Rightarrow> limbs \<Rightarrow> limbs" where
  "const_sub m x y =
     (if const_gt y x then const_sub_noreduce (const_add_noreduce x (mod_P m)) y
      else const_sub_noreduce x y)"

definition double_noreduce :: "limbs \<Rightarrow> limbs" where
  "double_noreduce x = (case x of Limbs x0 x1 x2 x3 \<Rightarrow>
     let (r0, carry) = adc x0 x0 0;
         (r1, carry) = adc x1 x1 carry;
         (r2, carry) = adc x2 x2 carry;
         (r3, carry) = adc x3 x3 carry
     in Limbs r0 r1 r2 r3)"

definition add_noreduce :: "limbs \<Rightarrow> limbs \<Rightarrow> limbs" where
  "add_noreduce x y = (case (x, y) of (Limbs x0 x1 x2 x3, Limbs y0 y1 y2 y3) \<Rightarrow>
     let (r0, carry) = adc x0 y0 0;
         (r1, carry) = adc x1 y1 carry;
         (r2, carry) = adc x2 y2 carry;
         (r3, carry) = adc x3 y3 carry
     in Limbs r0 r1 r2 r3)"

definition sub_noreduce :: "limbs \<Rightarrow> limbs \<Rightarrow> limbs" where
  "sub_noreduce x y = (case (x, y) of (Limbs x0 x1 x2 x3, Limbs y0 y1 y2 y3) \<Rightarrow>
     let (r0, borrow) = sbb x0 y0 0;
         (r1, borrow) = sbb x1 y1 borrow;
         (r2, borrow) = sbb x2 y2 borrow;
         (r3, borrow) = sbb x3 y3 borrow
     in Limbs r0 r1 r2 r3)"

definition reduce_partial :: "modulus \<Rightarrow> limbs \<Rightarrow> limbs" where
  "reduce_partial m x =
     (if const_geq x (mod_P m) then sub_noreduce x (mod_P m) else x)"

definition mont_negate :: "modulus \<Rightarrow> limbs \<Rightarrow> limbs" where
  "mont_negate m x = (if \<not> is_zero x then sub_noreduce (mod_P m) x else x)"

definition mont_double :: "modulus \<Rightarrow> limbs \<Rightarrow> limbs" where
  "mont_double m x = reduce_partial m (double_noreduce x)"

definition mont_add :: "modulus \<Rightarrow> limbs \<Rightarrow> limbs \<Rightarrow> limbs" where
  "mont_add m x y = reduce_partial m (add_noreduce x y)"

definition mont_sub :: "modulus \<Rightarrow> limbs \<Rightarrow> limbs \<Rightarrow> limbs" where
  "mont_sub m x y =
     (let x = (if const_gt y x then add_noreduce x (mod_P m) else x) in sub_noreduce x y)"

section \<open>Montgomery reduction and multiplication: \<^verbatim>\<open>reduce.rs\<close>, \<^verbatim>\<open>multiplicative.rs\<close>\<close>

definition const_mont_reduce ::
  "modulus \<Rightarrow> u64 \<Rightarrow> u64 \<Rightarrow> u64 \<Rightarrow> u64 \<Rightarrow> u64 \<Rightarrow> u64 \<Rightarrow> u64 \<Rightarrow> u64 \<Rightarrow> limbs" where
  "const_mont_reduce m r0 r1 r2 r3 r4 r5 r6 r7 = (case mod_P m of Limbs p0 p1 p2 p3 \<Rightarrow>
     let k = r0 * mod_M0 m;
         (_, carry) = const_mac k p0 r0 0;
         (r1, carry) = const_mac k p1 r1 carry;
         (r2, carry) = const_mac k p2 r2 carry;
         (r3, carry) = const_mac k p3 r3 carry;
         (r4, carry2) = const_adc r4 0 carry;

         k = r1 * mod_M0 m;
         (_, carry) = const_mac k p0 r1 0;
         (r2, carry) = const_mac k p1 r2 carry;
         (r3, carry) = const_mac k p2 r3 carry;
         (r4, carry) = const_mac k p3 r4 carry;
         (r5, carry2) = const_adc r5 carry2 carry;

         k = r2 * mod_M0 m;
         (_, carry) = const_mac k p0 r2 0;
         (r3, carry) = const_mac k p1 r3 carry;
         (r4, carry) = const_mac k p2 r4 carry;
         (r5, carry) = const_mac k p3 r5 carry;
         (r6, carry2) = const_adc r6 carry2 carry;

         k = r3 * mod_M0 m;
         (_, carry) = const_mac k p0 r3 0;
         (r4, carry) = const_mac k p1 r4 carry;
         (r5, carry) = const_mac k p2 r5 carry;
         (r6, carry) = const_mac k p3 r6 carry;
         (r7, _) = const_adc r7 carry2 carry;

         r = Limbs r4 r5 r6 r7
     in const_reduce_partial m r)"

definition mont_reduce ::
  "modulus \<Rightarrow> u64 \<Rightarrow> u64 \<Rightarrow> u64 \<Rightarrow> u64 \<Rightarrow> u64 \<Rightarrow> u64 \<Rightarrow> u64 \<Rightarrow> u64 \<Rightarrow> limbs" where
  "mont_reduce m r0 r1 r2 r3 r4 r5 r6 r7 = (case mod_P m of Limbs p0 p1 p2 p3 \<Rightarrow>
     let k = r0 * mod_M0 m;
         (_, carry) = const_mac k p0 r0 0;
         (r1, carry) = const_mac k p1 r1 carry;
         (r2, carry) = const_mac k p2 r2 carry;
         (r3, carry) = const_mac k p3 r3 carry;
         (r4, carry2) = const_adc r4 0 carry;

         k = r1 * mod_M0 m;
         (_, carry) = const_mac k p0 r1 0;
         (r2, carry) = const_mac k p1 r2 carry;
         (r3, carry) = const_mac k p2 r3 carry;
         (r4, carry) = const_mac k p3 r4 carry;
         (r5, carry2) = const_adc r5 carry2 carry;

         k = r2 * mod_M0 m;
         (_, carry) = const_mac k p0 r2 0;
         (r3, carry) = const_mac k p1 r3 carry;
         (r4, carry) = const_mac k p2 r4 carry;
         (r5, carry) = const_mac k p3 r5 carry;
         (r6, carry2) = const_adc r6 carry2 carry;

         k = r3 * mod_M0 m;
         (_, carry) = const_mac k p0 r3 0;
         (r4, carry) = const_mac k p1 r4 carry;
         (r5, carry) = const_mac k p2 r5 carry;
         (r6, carry) = const_mac k p3 r6 carry;
         (r7, _) = const_adc r7 carry2 carry;

         r = Limbs r4 r5 r6 r7
     in reduce_partial m r)"

definition const_reduce_full :: "modulus \<Rightarrow> limbs \<Rightarrow> limbs" where
  "const_reduce_full m x = (case x of Limbs x0 x1 x2 x3 \<Rightarrow>
     const_mont_reduce m x0 x1 x2 x3 0 0 0 0)"

definition reduce_full :: "modulus \<Rightarrow> limbs \<Rightarrow> limbs" where
  "reduce_full m x = (case x of Limbs x0 x1 x2 x3 \<Rightarrow> mont_reduce m x0 x1 x2 x3 0 0 0 0)"

definition const_mul :: "modulus \<Rightarrow> limbs \<Rightarrow> limbs \<Rightarrow> limbs" where
  "const_mul m x y = (case (x, y) of (Limbs a0 a1 a2 a3, Limbs b0 b1 b2 b3) \<Rightarrow>
     let carry = 0;
         (r0, carry) = const_mac a0 b0 0 carry;
         (r1, carry) = const_mac a0 b1 0 carry;
         (r2, carry) = const_mac a0 b2 0 carry;
         (r3, carry) = const_mac a0 b3 0 carry;
         r4 = carry;

         carry = 0;
         (r1, carry) = const_mac a1 b0 r1 carry;
         (r2, carry) = const_mac a1 b1 r2 carry;
         (r3, carry) = const_mac a1 b2 r3 carry;
         (r4, carry) = const_mac a1 b3 r4 carry;
         r5 = carry;

         carry = 0;
         (r2, carry) = const_mac a2 b0 r2 carry;
         (r3, carry) = const_mac a2 b1 r3 carry;
         (r4, carry) = const_mac a2 b2 r4 carry;
         (r5, carry) = const_mac a2 b3 r5 carry;
         r6 = carry;

         carry = 0;
         (r3, carry) = const_mac a3 b0 r3 carry;
         (r4, carry) = const_mac a3 b1 r4 carry;
         (r5, carry) = const_mac a3 b2 r5 carry;
         (r6, carry) = const_mac a3 b3 r6 carry;
         r7 = carry
     in const_mont_reduce m r0 r1 r2 r3 r4 r5 r6 r7)"

definition const_square :: "modulus \<Rightarrow> limbs \<Rightarrow> limbs" where
  "const_square m x = (case x of Limbs a0 a1 a2 a3 \<Rightarrow>
     let carry = 0;
         (r1, carry) = const_mac a0 a1 0 carry;
         (r2, carry) = const_mac a0 a2 0 carry;
         (r3, carry) = const_mac a0 a3 0 carry;
         r4 = carry;

         carry = 0;
         (r3, carry) = const_mac a1 a2 r3 carry;
         (r4, carry) = const_mac a1 a3 r4 carry;
         r5 = carry;

         carry = 0;
         (r5, carry) = const_mac a2 a3 r5 carry;
         r6 = carry;

         r7 = drop_bit 63 r6;
         r6 = push_bit 1 r6 OR drop_bit 63 r5;
         r5 = push_bit 1 r5 OR drop_bit 63 r4;
         r4 = push_bit 1 r4 OR drop_bit 63 r3;
         r3 = push_bit 1 r3 OR drop_bit 63 r2;
         r2 = push_bit 1 r2 OR drop_bit 63 r1;
         r1 = push_bit 1 r1;

         (r0, carry) = const_mac a0 a0 0 0;
         (r1, carry) = const_adc r1 0 carry;
         (r2, carry) = const_mac a1 a1 r2 carry;
         (r3, carry) = const_adc r3 0 carry;
         (r4, carry) = const_mac a2 a2 r4 carry;
         (r5, carry) = const_adc r5 0 carry;
         (r6, carry) = const_mac a3 a3 r6 carry;
         (r7, _) = const_adc r7 0 carry
     in const_mont_reduce m r0 r1 r2 r3 r4 r5 r6 r7)"

definition mont_mul :: "modulus \<Rightarrow> limbs \<Rightarrow> limbs \<Rightarrow> limbs" where
  "mont_mul m x y = (case (x, y) of (Limbs a0 a1 a2 a3, Limbs b0 b1 b2 b3) \<Rightarrow>
     let carry = 0;
         (r0, carry) = mac a0 b0 0 carry;
         (r1, carry) = mac a0 b1 0 carry;
         (r2, carry) = mac a0 b2 0 carry;
         (r3, carry) = mac a0 b3 0 carry;
         r4 = carry;

         carry = 0;
         (r1, carry) = mac a1 b0 r1 carry;
         (r2, carry) = mac a1 b1 r2 carry;
         (r3, carry) = mac a1 b2 r3 carry;
         (r4, carry) = mac a1 b3 r4 carry;
         r5 = carry;

         carry = 0;
         (r2, carry) = mac a2 b0 r2 carry;
         (r3, carry) = mac a2 b1 r3 carry;
         (r4, carry) = mac a2 b2 r4 carry;
         (r5, carry) = mac a2 b3 r5 carry;
         r6 = carry;

         carry = 0;
         (r3, carry) = mac a3 b0 r3 carry;
         (r4, carry) = mac a3 b1 r4 carry;
         (r5, carry) = mac a3 b2 r5 carry;
         (r6, carry) = mac a3 b3 r6 carry;
         r7 = carry
     in mont_reduce m r0 r1 r2 r3 r4 r5 r6 r7)"

definition mont_square :: "modulus \<Rightarrow> limbs \<Rightarrow> limbs" where
  "mont_square m x = (case x of Limbs a0 a1 a2 a3 \<Rightarrow>
     let carry = 0;
         (r1, carry) = mac a0 a1 0 carry;
         (r2, carry) = mac a0 a2 0 carry;
         (r3, carry) = mac a0 a3 0 carry;
         r4 = carry;

         carry = 0;
         (r3, carry) = mac a1 a2 r3 carry;
         (r4, carry) = mac a1 a3 r4 carry;
         r5 = carry;

         carry = 0;
         (r5, carry) = mac a2 a3 r5 carry;
         r6 = carry;

         r7 = drop_bit 63 r6;
         r6 = push_bit 1 r6 OR drop_bit 63 r5;
         r5 = push_bit 1 r5 OR drop_bit 63 r4;
         r4 = push_bit 1 r4 OR drop_bit 63 r3;
         r3 = push_bit 1 r3 OR drop_bit 63 r2;
         r2 = push_bit 1 r2 OR drop_bit 63 r1;
         r1 = push_bit 1 r1;

         carry = 0;
         (r0, carry) = mac a0 a0 0 carry;
         (r1, carry) = acc r1 carry;
         (r2, carry) = mac a1 a1 r2 carry;
         (r3, carry) = acc r3 carry;
         (r4, carry) = mac a2 a2 r4 carry;
         (r5, carry) = acc r5 carry;
         (r6, carry) = mac a3 a3 r6 carry;
         (r7, carry) = acc r7 carry
     in mont_reduce m r0 r1 r2 r3 r4 r5 r6 r7)"

text \<open>
  One iteration of the outer loop of \<^verbatim>\<open>const_mul_cios\<close>: \<open>r\<close> is the running array and
  \<open>b\<close> the limb \<^verbatim>\<open>x.0[i]\<close>; the loop runs it for the four limbs of the second factor.
\<close>

definition cios_step :: "modulus \<Rightarrow> limbs \<Rightarrow> u64 \<Rightarrow> limbs \<Rightarrow> limbs" where
  "cios_step m x b r = (case (x, mod_P m, r) of
       (Limbs a0 a1 a2 a3, Limbs p0 p1 p2 p3, Limbs r0 r1 r2 r3) \<Rightarrow>
     let (r0, carry1) = const_mac a0 b r0 0;
         k = r0 * mod_M0 m;
         (_, carry2) = const_mac k p0 r0 0;

         (r1, carry1) = const_mac a1 b r1 carry1;
         (r0, carry2) = const_mac k p1 r1 carry2;

         (r2, carry1) = const_mac a2 b r2 carry1;
         (r1, carry2) = const_mac k p2 r2 carry2;

         (r3, carry1) = const_mac a3 b r3 carry1;
         (r2, carry2) = const_mac k p3 r3 carry2;
         r3 = carry1 + carry2
     in Limbs r0 r1 r2 r3)"

definition const_mul_cios :: "modulus \<Rightarrow> limbs \<Rightarrow> limbs \<Rightarrow> limbs" where
  "const_mul_cios m x y = (case y of Limbs b0 b1 b2 b3 \<Rightarrow>
     let r = Limbs 0 0 0 0;
         r = cios_step m x b0 r;
         r = cios_step m x b1 r;
         r = cios_step m x b2 r;
         r = cios_step m x b3 r
     in const_reduce_partial m r)"

section \<open>Inversion: \<^verbatim>\<open>inverse.rs\<close>\<close>

text \<open>
  \<^verbatim>\<open>while u.is_even() { \<dots> }\<close>: halve \<open>u\<close>, and halve \<open>b\<close> modulo \<open>P\<close> with it.
\<close>

fun halve_while_even :: "nat \<Rightarrow> modulus \<Rightarrow> limbs \<Rightarrow> limbs \<Rightarrow> (limbs \<times> limbs) outcome" where
  "halve_while_even 0 m u b = Inl OutOfFuel"
| "halve_while_even (Suc fuel) m u b =
     (if is_even u then
        let u = div2 u;
            b = (if is_even b then div2 b else div2 (add_noreduce b (mod_P m)))
        in halve_while_even fuel m u b
      else Inr (u, b))"

text \<open>The outer loop; it returns \<^verbatim>\<open>Some(b)\<close> or \<^verbatim>\<open>Some(c)\<close>.\<close>

fun inverse_loop :: "nat \<Rightarrow> modulus \<Rightarrow> limbs \<Rightarrow> limbs \<Rightarrow> limbs \<Rightarrow> limbs \<Rightarrow> limbs outcome" where
  "inverse_loop 0 m u v b c = Inl OutOfFuel"
| "inverse_loop (Suc fuel) m u v b c =
     (let one = Limbs 1 0 0 0 in
      if u \<noteq> one \<and> v \<noteq> one then
        bind_outcome (halve_while_even 257 m u b) (\<lambda>(u, b).
        bind_outcome (halve_while_even 257 m v c) (\<lambda>(v, c).
          if const_lt v u then
            inverse_loop fuel m (sub_noreduce u v) v (const_sub m b c) c
          else
            inverse_loop fuel m u (sub_noreduce v u) b (const_sub m c b)))
      else if u = one then Inr b else Inr c)"

definition mont_inverse :: "modulus \<Rightarrow> limbs \<Rightarrow> limbs option outcome" where
  "mont_inverse m x =
     (if is_zero x then Inr None
      else bind_outcome (inverse_loop 512 m x (mod_P m) (mod_R2 m) (Limbs 0 0 0 0))
        (\<lambda>r. Inr (Some r)))"

declare halve_while_even.simps [simp del] inverse_loop.simps [simp del]

section \<open>Reading a representation\<close>

text \<open>
  \<open>native\<close> is the field element a representation stands for, the limbs divided by
  \<open>2\<^sup>2\<^sup>5\<^sup>6\<close> modulo \<open>P\<close> as \<^verbatim>\<open>reduce_full\<close> computes it; \<open>reduced\<close> is the
  invariant every operation keeps.
\<close>

definition native :: "modulus \<Rightarrow> limbs \<Rightarrow> nat" where
  "native m x = lval (const_reduce_full m x)"

definition reduced :: "modulus \<Rightarrow> limbs \<Rightarrow> bool" where
  "reduced m x \<longleftrightarrow> lval x < lval (mod_P m)"

end
