(* ===== verification/Montgomery_Correct.thy ===== *)
theory Montgomery_Correct
  imports Montgomery
begin

text \<open>
  Correctness of the Montgomery arithmetic: each limb routine as an equation between
  integers, then, for every modulus whose constants satisfy the laws of the locale
  \<open>montgomery\<close>, each operation as the operation of the ring of integers modulo \<open>P\<close>
  under \<open>native\<close>.
\<close>

unbundle bit_operations_syntax

section \<open>Limb routines as integer equations\<close>

lemma lex_digit:
  fixes a b :: u64 and m n :: nat
  shows "unat a + 2 ^ 64 * m < unat b + 2 ^ 64 * n \<longleftrightarrow> m < n \<or> m = n \<and> a < b"
proof (cases m n rule: linorder_cases)
  case less
  then have "2 ^ 64 * (m + 1) \<le> 2 ^ 64 * n" by (intro mult_le_mono2) simp
  with less u64_less [of a] show ?thesis by simp
next
  case equal
  then show ?thesis by (simp add: word_less_nat_alt)
next
  case greater
  then have "2 ^ 64 * (n + 1) \<le> 2 ^ 64 * m" by (intro mult_le_mono2) simp
  with greater u64_less [of b] show ?thesis by simp
qed

lemma lval_horner:
  "lval (Limbs x0 x1 x2 x3) = unat x0 + 2 ^ 64 * (unat x1 + 2 ^ 64 * (unat x2 + 2 ^ 64 * unat x3))"
  by simp

lemma cmp_digit:
  fixes a b :: u64 and m n :: nat
  defines "x \<equiv> unat a + 2 ^ 64 * m" and "y \<equiv> unat b + 2 ^ 64 * n"
  shows "(if x < y then l else if y < x then g else e) =
    (if m < n then l else if n < m then g else if a < b then l else if b < a then g else e)"
  unfolding assms lex_digit by auto

lemma const_cmp_lval:
  "const_cmp x y = (if lval x < lval y then Less else if lval y < lval x then Greater else Equal)"
  by (cases x; cases y)
    (simp only: const_cmp_def lval_horner cmp_digit word_less_nat_alt [symmetric] limbs.case prod.case)

lemma const_cmp_simps [simp]:
  "const_eq x y \<longleftrightarrow> x = y"
  "const_gt x y \<longleftrightarrow> lval y < lval x"
  "const_geq x y \<longleftrightarrow> lval y \<le> lval x"
  "const_lt x y \<longleftrightarrow> lval x < lval y"
  "const_leq x y \<longleftrightarrow> lval x \<le> lval y"
  by (auto simp: const_eq_def const_gt_def const_geq_def const_lt_def const_leq_def
      const_cmp_lval lval_inj [symmetric] split: if_splits)

lemma is_zero_lval [simp]: "is_zero x \<longleftrightarrow> lval x = 0"
  by (cases x) (auto simp: is_zero_def unat_eq_zero)

lemma is_one_iff [simp]: "is_one m x \<longleftrightarrow> x = mod_R m"
  by (cases x; cases "mod_R m") (auto simp: is_one_def)

lemma const_add_noreduce_lval:
  assumes "lval x + lval y < 2 ^ 256"
  shows "lval (const_add_noreduce x y) = lval x + lval y"
proof (cases x; cases y)
  fix x0 x1 x2 x3 y0 y1 y2 y3
  assume x: "x = Limbs x0 x1 x2 x3" and y: "y = Limbs y0 y1 y2 y3"
  obtain r0 c0 where 0: "const_adc x0 y0 0 = (r0, c0)" by fastforce
  obtain r1 c1 where 1: "const_adc x1 y1 c0 = (r1, c1)" by fastforce
  obtain r2 c2 where 2: "const_adc x2 y2 c1 = (r2, c2)" by fastforce
  obtain r3 c3 where 3: "const_adc x3 y3 c2 = (r3, c3)" by fastforce
  have c: "unat c0 \<le> 1" "unat c1 \<le> 1" "unat c2 \<le> 1" "unat c3 \<le> 1"
    using 0 1 2 3 const_adc_hi by blast+
  have "unat a + unat b + unat c < 2 ^ 65" if "unat c \<le> 1" for a b c :: u64
    using that u64_less [of a] u64_less [of b] by simp
  note e = const_adc_eq [OF 0 this, simplified] const_adc_eq [OF 1 this [OF c(1)]]
    const_adc_eq [OF 2 this [OF c(2)]] const_adc_eq [OF 3 this [OF c(3)]]
  have "lval (Limbs r0 r1 r2 r3) + 2 ^ 256 * unat c3 = lval x + lval y"
    using e by (simp add: x y)
  moreover from this assms have "unat c3 = 0" by simp
  ultimately show ?thesis by (simp add: const_add_noreduce_def x y 0 1 2 3)
qed

lemma const_sub_noreduce_lval:
  assumes "lval y \<le> lval x"
  shows "lval (const_sub_noreduce x y) = lval x - lval y"
proof (cases x; cases y)
  fix x0 x1 x2 x3 y0 y1 y2 y3
  assume x: "x = Limbs x0 x1 x2 x3" and y: "y = Limbs y0 y1 y2 y3"
  obtain r0 c0 where 0: "const_sbb x0 y0 0 = (r0, c0)" by fastforce
  obtain r1 c1 where 1: "const_sbb x1 y1 c0 = (r1, c1)" by fastforce
  obtain r2 c2 where 2: "const_sbb x2 y2 c1 = (r2, c2)" by fastforce
  obtain r3 c3 where 3: "const_sbb x3 y3 c2 = (r3, c3)" by fastforce
  have c: "unat c0 \<le> 1" "unat c1 \<le> 1" "unat c2 \<le> 1" "unat c3 \<le> 1"
    using 0 1 2 3 const_sbb_hi by blast+
  note e = const_sbb_eq [OF 0, simplified] const_sbb_eq [OF 1 c(1)]
    const_sbb_eq [OF 2 c(2)] const_sbb_eq [OF 3 c(3)]
  have "lval (Limbs r0 r1 r2 r3) + lval y = lval x + 2 ^ 256 * unat c3"
    using e by (simp add: x y)
  moreover from this assms lval_less [of "Limbs r0 r1 r2 r3"] have "unat c3 = 0" by simp
  ultimately show ?thesis by (simp add: const_sub_noreduce_def x y 0 1 2 3)
qed

lemma digit_split: "unat (a :: u64) + 2 ^ 64 * m = unat b + 2 ^ 64 * n \<longleftrightarrow> a = b \<and> m = n"
  using lex_digit [of a m b n] lex_digit [of b n a m] by auto

lemma adc_const_adc:
  assumes "adc a b c = (lo, hi)" and "const_adc a b c' = (lo', hi')"
    and "unat c = unat c'" and "unat c \<le> 1"
  shows "lo' = lo" and "unat hi' = unat hi" and "unat hi \<le> 1"
proof -
  have "unat a + unat b + unat c' < 2 ^ 65"
    using assms(3,4) u64_less [of a] u64_less [of b] by simp
  then have "unat lo' + 2 ^ 64 * unat hi' = unat lo + 2 ^ 64 * unat hi"
    using adc_eq [OF assms(1,4)] const_adc_eq [OF assms(2)] assms(3) by simp
  then show "lo' = lo" and "unat hi' = unat hi" by (auto simp only: digit_split)
  show "unat hi \<le> 1" using adc_eq [OF assms(1,4)] by simp
qed

lemma sbb_const_sbb:
  assumes "sbb a b c = (lo, hi)" and "const_sbb a b c' = (lo', hi')"
    and "unat c = unat c'" and "unat c \<le> 1"
  shows "lo' = lo" and "unat hi' = unat hi" and "unat hi \<le> 1"
proof -
  have "unat lo + unat b + unat c = unat a + 2 ^ 64 * unat hi"
    and "unat lo' + unat b + unat c' = unat a + 2 ^ 64 * unat hi'"
    using sbb_eq [OF assms(1,4)] const_sbb_eq [OF assms(2)] assms(3,4) by simp_all
  then have "unat lo + 2 ^ 64 * unat hi' = unat lo' + 2 ^ 64 * unat hi"
    using assms(3) by simp
  then show "lo' = lo" and "unat hi' = unat hi" by (auto simp only: digit_split)
  show "unat hi \<le> 1" using sbb_eq [OF assms(1,4)] by simp
qed

lemma acc_const_adc: "acc a c = const_adc a 0 c"
proof -
  obtain lo hi where 1: "acc a c = (lo, hi)" by fastforce
  obtain lo' hi' where 2: "const_adc a 0 c = (lo', hi')" by fastforce
  have "unat a + unat (0 :: u64) + unat c < 2 ^ 65"
    using u64_less [of a] u64_less [of c] by simp
  then have "unat lo' + 2 ^ 64 * unat hi' = unat lo + 2 ^ 64 * unat hi"
    using acc_eq [OF 1] const_adc_eq [OF 2] by simp
  then show ?thesis unfolding digit_split 1 2 by (simp add: word_unat_eq_iff)
qed

lemma add_noreduce_const [simp]: "add_noreduce x y = const_add_noreduce x y"
proof (cases x; cases y)
  fix x0 x1 x2 x3 y0 y1 y2 y3
  assume x: "x = Limbs x0 x1 x2 x3" and y: "y = Limbs y0 y1 y2 y3"
  obtain r0 c0 where 0: "adc x0 y0 0 = (r0, c0)" by fastforce
  obtain r1 c1 where 1: "adc x1 y1 c0 = (r1, c1)" by fastforce
  obtain r2 c2 where 2: "adc x2 y2 c1 = (r2, c2)" by fastforce
  obtain r3 c3 where 3: "adc x3 y3 c2 = (r3, c3)" by fastforce
  obtain s0 d0 where 4: "const_adc x0 y0 0 = (s0, d0)" by fastforce
  obtain s1 d1 where 5: "const_adc x1 y1 d0 = (s1, d1)" by fastforce
  obtain s2 d2 where 6: "const_adc x2 y2 d1 = (s2, d2)" by fastforce
  obtain s3 d3 where 7: "const_adc x3 y3 d2 = (s3, d3)" by fastforce
  have z: "unat (0 :: u8) = unat (0 :: u64)" "unat (0 :: u8) \<le> 1" by simp_all
  note a = adc_const_adc [OF 0 4 z]
  note b = adc_const_adc [OF 1 5 a(2) [symmetric] a(3)]
  note c = adc_const_adc [OF 2 6 b(2) [symmetric] b(3)]
  note d = adc_const_adc [OF 3 7 c(2) [symmetric] c(3)]
  show ?thesis
    by (simp add: add_noreduce_def const_add_noreduce_def x y 0 1 2 3 4 5 6 7 a b c d)
qed

lemma sub_noreduce_const [simp]: "sub_noreduce x y = const_sub_noreduce x y"
proof (cases x; cases y)
  fix x0 x1 x2 x3 y0 y1 y2 y3
  assume x: "x = Limbs x0 x1 x2 x3" and y: "y = Limbs y0 y1 y2 y3"
  obtain r0 c0 where 0: "sbb x0 y0 0 = (r0, c0)" by fastforce
  obtain r1 c1 where 1: "sbb x1 y1 c0 = (r1, c1)" by fastforce
  obtain r2 c2 where 2: "sbb x2 y2 c1 = (r2, c2)" by fastforce
  obtain r3 c3 where 3: "sbb x3 y3 c2 = (r3, c3)" by fastforce
  obtain s0 d0 where 4: "const_sbb x0 y0 0 = (s0, d0)" by fastforce
  obtain s1 d1 where 5: "const_sbb x1 y1 d0 = (s1, d1)" by fastforce
  obtain s2 d2 where 6: "const_sbb x2 y2 d1 = (s2, d2)" by fastforce
  obtain s3 d3 where 7: "const_sbb x3 y3 d2 = (s3, d3)" by fastforce
  have z: "unat (0 :: u8) = unat (0 :: u64)" "unat (0 :: u8) \<le> 1" by simp_all
  note a = sbb_const_sbb [OF 0 4 z]
  note b = sbb_const_sbb [OF 1 5 a(2) [symmetric] a(3)]
  note c = sbb_const_sbb [OF 2 6 b(2) [symmetric] b(3)]
  note d = sbb_const_sbb [OF 3 7 c(2) [symmetric] c(3)]
  show ?thesis
    by (simp add: sub_noreduce_def const_sub_noreduce_def x y 0 1 2 3 4 5 6 7 a b c d)
qed

lemma double_noreduce_const [simp]: "double_noreduce x = const_add_noreduce x x"
  by (subst add_noreduce_const [symmetric], cases x)
    (simp add: double_noreduce_def add_noreduce_def del: add_noreduce_const)

lemma reduce_partial_const [simp]: "reduce_partial m x = const_reduce_partial m x"
  by (simp add: reduce_partial_def const_reduce_partial_def)

text \<open>The run-time code computes what the \<^verbatim>\<open>const\<close> code computes.\<close>

lemma runtime_const [simp]:
  "mont_negate m x = const_neg m x"
  "mont_double m x = const_double m x"
  "mont_add m x y = const_add m x y"
  "mont_sub m x y = const_sub m x y"
  by (simp_all add: mont_negate_def const_neg_def mont_double_def const_double_def mont_add_def
      const_add_def mont_sub_def const_sub_def)

lemma mont_reduce_const [simp]:
  "mont_reduce m r0 r1 r2 r3 r4 r5 r6 r7 = const_mont_reduce m r0 r1 r2 r3 r4 r5 r6 r7"
  by (simp only: mont_reduce_def const_mont_reduce_def reduce_partial_const)

lemma mont_mul_const [simp]:
  "reduce_full m x = const_reduce_full m x"
  "mont_mul m x y = const_mul m x y"
  "mont_square m x = const_square m x"
    apply (simp only: reduce_full_def const_reduce_full_def mont_reduce_const)
   apply (simp only: mont_mul_def const_mul_def mont_reduce_const mac_eq)
  apply (simp only: mont_square_def const_square_def mont_reduce_const mac_eq acc_const_adc Let_def case_prod_beta)
  done

lemma mac_row:
  assumes "const_mac a b0 r0 0 = (x0, c0)" and "const_mac a b1 r1 c0 = (x1, c1)"
    and "const_mac a b2 r2 c1 = (x2, c2)" and "const_mac a b3 r3 c2 = (x3, c3)"
  shows "lval (Limbs x0 x1 x2 x3) + 2 ^ 256 * unat c3 =
    lval (Limbs r0 r1 r2 r3) + unat a * lval (Limbs b0 b1 b2 b3)"
  using assms [THEN const_mac_eq] by (simp add: add_mult_distrib2)

fun limb0 :: "limbs \<Rightarrow> u64" where
  "limb0 (Limbs x0 x1 x2 x3) = x0"

lemma even_unat_iff: "even (unat (w :: u64)) \<longleftrightarrow> even w"
  using bit_unsigned_iff [of w 0, where ?'a = nat] by (simp add: bit_0)

lemma shift_rows:
  fixes A B C D :: nat
  assumes "r0 + 2 ^ 64 * r1 + 2 ^ 128 * r2 + 2 ^ 192 * r3 + 2 ^ 256 * r4 = A"
    and "s1 + 2 ^ 64 * s2 + 2 ^ 128 * s3 + 2 ^ 192 * s4 + 2 ^ 256 * r5 = r1 + 2 ^ 64 * r2 + 2 ^ 128 * r3 + 2 ^ 192 * r4 + B"
    and "t2 + 2 ^ 64 * t3 + 2 ^ 128 * t4 + 2 ^ 192 * t5 + 2 ^ 256 * r6 = s2 + 2 ^ 64 * s3 + 2 ^ 128 * s4 + 2 ^ 192 * r5 + C"
    and "u3 + 2 ^ 64 * u4 + 2 ^ 128 * u5 + 2 ^ 192 * u6 + 2 ^ 256 * r7 = t3 + 2 ^ 64 * t4 + 2 ^ 128 * t5 + 2 ^ 192 * r6 + D"
  shows "A + 2 ^ 64 * B + 2 ^ 128 * C + 2 ^ 192 * D =
    r0 + 2 ^ 64 * s1 + 2 ^ 128 * t2 + 2 ^ 192 * u3 + 2 ^ 256 * (u4 + 2 ^ 64 * u5 + 2 ^ 128 * u6 + 2 ^ 192 * r7)"
proof -
  have "A + 2 ^ 64 * B + 2 ^ 128 * C + 2 ^ 192 * D = r0 + 2 ^ 64 * ((r1 + 2 ^ 64 * r2 + 2 ^ 128 * r3 + 2 ^ 192 * r4) + B)
    + 2 ^ 128 * C + 2 ^ 192 * D"
    unfolding assms(1) [symmetric] by simp
  also have "\<dots> = r0 + 2 ^ 64 * s1 + 2 ^ 128 * ((s2 + 2 ^ 64 * s3 + 2 ^ 128 * s4 + 2 ^ 192 * r5) + C)  + 2 ^ 192 * D"
    unfolding assms(2) [symmetric] by simp
  also have "\<dots> = r0 + 2 ^ 64 * s1 + 2 ^ 128 * t2 + 2 ^ 192 * ((t3 + 2 ^ 64 * t4 + 2 ^ 128 * t5 + 2 ^ 192 * r6) + D)"
    unfolding assms(3) [symmetric] by simp
  also have "\<dots> = r0 + 2 ^ 64 * s1 + 2 ^ 128 * t2 + 2 ^ 192 * u3 + 2 ^ 256 * (u4 + 2 ^ 64 * u5 + 2 ^ 128 * u6 + 2 ^ 192 * r7)"
    unfolding assms(4) [symmetric] by simp
  finally show ?thesis .
qed

lemma schoolbook_rows:
  assumes "lval (Limbs r0 r1 r2 r3) + 2 ^ 256 * unat r4 = lval (Limbs 0 0 0 0) + A"
    and "lval (Limbs s1 s2 s3 s4) + 2 ^ 256 * unat r5 = lval (Limbs r1 r2 r3 r4) + B"
    and "lval (Limbs t2 t3 t4 t5) + 2 ^ 256 * unat r6 = lval (Limbs s2 s3 s4 r5) + C"
    and "lval (Limbs u3 u4 u5 u6) + 2 ^ 256 * unat r7 = lval (Limbs t3 t4 t5 r6) + D"
  shows "A + 2 ^ 64 * B + 2 ^ 128 * C + 2 ^ 192 * D =
    lval (Limbs r0 s1 t2 u3) + 2 ^ 256 * lval (Limbs u4 u5 u6 r7)"
  unfolding lval.simps
  by (rule shift_rows) (use assms in \<open>simp_all only: lval.simps unat_0 mult_0_right add_0_left\<close>)

lemma unat_drop_bit_u64: "unat (drop_bit n (c :: u64)) = unat c div 2 ^ n"
  using u64_less [of c]
  by (simp only: unsigned_drop_bit_eq) (simp add: drop_bit_eq_div take_bit_eq_mod)

lemma unat_push_bit_u64: "n \<le> 64 \<Longrightarrow> unat (push_bit n (c :: u64)) = 2 ^ n * (unat c mod 2 ^ (64 - n))"
  by (simp add: unsigned_push_bit_eq take_bit_push_bit, simp add: push_bit_eq_mult take_bit_eq_mod)

lemma nat_or_disjoint:
  fixes x y :: nat
  assumes "y < 2 ^ n"
  shows "2 ^ n * x OR y = 2 ^ n * x + y"
proof -
  have y: "take_bit n y = y" using assms by (simp add: take_bit_eq_mod)
  have "push_bit n x AND take_bit n y = 0"
    by (rule bit_eqI) (simp add: bit_and_iff bit_push_bit_iff bit_take_bit_iff)
  then show ?thesis
    using disjunctive_add_eq_or [of "push_bit n x" y] y by (simp add: push_bit_eq_mult mult.commute)
qed

lemma unat_shl1_or:
  fixes a b :: u64
  shows "unat (push_bit 1 a OR drop_bit 63 b) = 2 * (unat a mod 2 ^ 63) + unat b div 2 ^ 63"
proof -
  have "unat b div 2 ^ 63 < 2 ^ 1" using u64_less [of b] by (simp add: less_mult_imp_div_less)
  then show ?thesis
    using nat_or_disjoint [of "unat b div 2 ^ 63" 1 "unat a mod 2 ^ 63"]
    by (simp only: unsigned_or_eq unat_drop_bit_u64 unat_push_bit_u64) simp
qed

lemma unat_shr1_or:
  fixes a b :: u64
  shows "unat (drop_bit 1 a OR push_bit 63 b) = unat a div 2 + 2 ^ 63 * (unat b mod 2)"
proof -
  have "unat a div 2 < 2 ^ 63" using u64_less [of a] by (simp add: less_mult_imp_div_less)
  then show ?thesis
    using nat_or_disjoint [of "unat a div 2" 63 "unat b mod 2"]
    by (simp add: unsigned_or_eq unat_drop_bit_u64 unat_push_bit_u64 or.commute)
qed

lemma shift_left_rows:
  fixes r1 r2 r3 r4 r5 r6 :: nat
  assumes "r1 = 2 ^ 63 * h1 + l1" "r2 = 2 ^ 63 * h2 + l2" "r3 = 2 ^ 63 * h3 + l3"
    "r4 = 2 ^ 63 * h4 + l4" "r5 = 2 ^ 63 * h5 + l5" "r6 = 2 ^ 63 * h6 + l6"
  shows "2 ^ 64 * (2 * l1) + 2 ^ 128 * (2 * l2 + h1) + 2 ^ 192 * (2 * l3 + h2)
      + 2 ^ 256 * (2 * l4 + h3) + 2 ^ 320 * (2 * l5 + h4) + 2 ^ 384 * (2 * l6 + h5) + 2 ^ 448 * h6
    = 2 * (2 ^ 64 * r1 + 2 ^ 128 * r2 + 2 ^ 192 * r3 + 2 ^ 256 * r4 + 2 ^ 320 * r5 + 2 ^ 384 * r6)"
  unfolding assms by simp

lemma off_diagonal_rows:
  fixes X Y Z :: nat
  assumes "r1 + 2 ^ 64 * r2 + 2 ^ 128 * r3 + 2 ^ 192 * r4 = X"
    and "s3 + 2 ^ 64 * s4 + 2 ^ 128 * r5 = r3 + 2 ^ 64 * r4 + Y"
    and "t5 + 2 ^ 64 * r6 = r5 + Z"
  shows "2 ^ 64 * r1 + 2 ^ 128 * r2 + 2 ^ 192 * s3 + 2 ^ 256 * s4 + 2 ^ 320 * t5 + 2 ^ 384 * r6 =
    2 ^ 64 * X + 2 ^ 192 * Y + 2 ^ 320 * Z"
proof -
  have "2 ^ 64 * X + 2 ^ 192 * Y + 2 ^ 320 * Z = 2 ^ 64 * r1 + 2 ^ 128 * r2
      + 2 ^ 192 * (r3 + 2 ^ 64 * r4 + Y) + 2 ^ 320 * Z"
    unfolding assms(1) [symmetric] by simp
  also have "\<dots> = 2 ^ 64 * r1 + 2 ^ 128 * r2 + 2 ^ 192 * s3 + 2 ^ 256 * s4 + 2 ^ 320 * (r5 + Z)"
    unfolding assms(2) [symmetric] by simp
  also have "\<dots> = 2 ^ 64 * r1 + 2 ^ 128 * r2 + 2 ^ 192 * s3 + 2 ^ 256 * s4 + 2 ^ 320 * t5 + 2 ^ 384 * r6"
    unfolding assms(3) [symmetric] by simp
  finally show ?thesis by simp
qed

lemma diagonal_rows:
  fixes X0 X1 X2 X3 :: nat
  assumes "r0 + 2 ^ 64 * c0 = X0" and "r1 + 2 ^ 64 * c1 = q1 + c0"
    and "r2 + 2 ^ 64 * c2 = X1 + q2 + c1" and "r3 + 2 ^ 64 * c3 = q3 + c2"
    and "r4 + 2 ^ 64 * c4 = X2 + q4 + c3" and "r5 + 2 ^ 64 * c5 = q5 + c4"
    and "r6 + 2 ^ 64 * c6 = X3 + q6 + c5" and "r7 + 2 ^ 64 * c7 = q7 + c6"
  shows "r0 + 2 ^ 64 * r1 + 2 ^ 128 * r2 + 2 ^ 192 * r3 + 2 ^ 256 * (r4 + 2 ^ 64 * r5 + 2 ^ 128 * r6
      + 2 ^ 192 * r7 + 2 ^ 256 * c7) =
    (2 ^ 64 * q1 + 2 ^ 128 * q2 + 2 ^ 192 * q3 + 2 ^ 256 * q4 + 2 ^ 320 * q5 + 2 ^ 384 * q6 + 2 ^ 448 * q7)
      + X0 + 2 ^ 128 * X1 + 2 ^ 256 * X2 + 2 ^ 384 * X3"
proof -
  let ?l = "\<lambda>k. 2 ^ (64 * k) :: nat"
  have "(2 ^ 64 * q1 + 2 ^ 128 * q2 + 2 ^ 192 * q3 + 2 ^ 256 * q4 + 2 ^ 320 * q5 + 2 ^ 384 * q6 + 2 ^ 448 * q7)
      + X0 + 2 ^ 128 * X1 + 2 ^ 256 * X2 + 2 ^ 384 * X3 =
      r0 + 2 ^ 64 * (q1 + c0) + 2 ^ 128 * (q2 + X1) + 2 ^ 192 * q3 + 2 ^ 256 * (q4 + X2) + 2 ^ 320 * q5
      + 2 ^ 384 * (q6 + X3) + 2 ^ 448 * q7"
    unfolding assms(1) [symmetric] by simp
  also have "\<dots> = r0 + 2 ^ 64 * r1 + 2 ^ 128 * (X1 + q2 + c1) + 2 ^ 192 * q3 + 2 ^ 256 * (q4 + X2)
      + 2 ^ 320 * q5 + 2 ^ 384 * (q6 + X3) + 2 ^ 448 * q7"
    unfolding assms(2) [symmetric] by simp
  also have "\<dots> = r0 + 2 ^ 64 * r1 + 2 ^ 128 * r2 + 2 ^ 192 * (q3 + c2) + 2 ^ 256 * (q4 + X2)
      + 2 ^ 320 * q5 + 2 ^ 384 * (q6 + X3) + 2 ^ 448 * q7"
    unfolding assms(3) [symmetric] by simp
  also have "\<dots> = r0 + 2 ^ 64 * r1 + 2 ^ 128 * r2 + 2 ^ 192 * r3 + 2 ^ 256 * (X2 + q4 + c3)
      + 2 ^ 320 * q5 + 2 ^ 384 * (q6 + X3) + 2 ^ 448 * q7"
    unfolding assms(4) [symmetric] by simp
  also have "\<dots> = r0 + 2 ^ 64 * r1 + 2 ^ 128 * r2 + 2 ^ 192 * r3 + 2 ^ 256 * r4
      + 2 ^ 320 * (q5 + c4) + 2 ^ 384 * (q6 + X3) + 2 ^ 448 * q7"
    unfolding assms(5) [symmetric] by simp
  also have "\<dots> = r0 + 2 ^ 64 * r1 + 2 ^ 128 * r2 + 2 ^ 192 * r3 + 2 ^ 256 * r4
      + 2 ^ 320 * r5 + 2 ^ 384 * (X3 + q6 + c5) + 2 ^ 448 * q7"
    unfolding assms(6) [symmetric] by simp
  also have "\<dots> = r0 + 2 ^ 64 * r1 + 2 ^ 128 * r2 + 2 ^ 192 * r3 + 2 ^ 256 * r4
      + 2 ^ 320 * r5 + 2 ^ 384 * r6 + 2 ^ 448 * (q7 + c6)"
    unfolding assms(7) [symmetric] by simp
  also have "\<dots> = r0 + 2 ^ 64 * r1 + 2 ^ 128 * r2 + 2 ^ 192 * r3 + 2 ^ 256 * (r4 + 2 ^ 64 * r5 + 2 ^ 128 * r6
      + 2 ^ 192 * r7 + 2 ^ 256 * c7)"
    unfolding assms(8) [symmetric] by simp
  finally show ?thesis by simp
qed

lemma square_expand:
  fixes a0 a1 a2 a3 :: nat
  defines "X \<equiv> a0 * (a1 + 2 ^ 64 * a2 + 2 ^ 128 * a3)" and "Y \<equiv> a1 * (a2 + 2 ^ 64 * a3)"
    and "A \<equiv> a0 + 2 ^ 64 * a1 + 2 ^ 128 * a2 + 2 ^ 192 * a3"
  shows "2 * (2 ^ 64 * X + 2 ^ 192 * Y + 2 ^ 320 * (a2 * a3)) + a0 * a0 + 2 ^ 128 * (a1 * a1)
      + 2 ^ 256 * (a2 * a2) + 2 ^ 384 * (a3 * a3) = A * A"
  unfolding assms by (simp add: algebra_simps)

lemma cios_bound:
  fixes T r B K p :: nat
  assumes "2 ^ 64 * T = r + B + K" and "B \<le> (2 ^ 64 - 1) * p" and "K \<le> (2 ^ 64 - 1) * p"
    and "r < 2 * p"
  shows "T < 2 * p"
  using assms by simp

lemma cios_rows:
  fixes u0 u1 u2 u3 p X :: nat
  assumes "2 ^ 64 * u0 = b0 * X + k0 * p" and "2 ^ 64 * u1 = u0 + b1 * X + k1 * p"
    and "2 ^ 64 * u2 = u1 + b2 * X + k2 * p" and "2 ^ 64 * u3 = u2 + b3 * X + k3 * p"
  shows "2 ^ 256 * u3 = (b0 + 2 ^ 64 * b1 + 2 ^ 128 * b2 + 2 ^ 192 * b3) * X
    + (k0 + 2 ^ 64 * k1 + 2 ^ 128 * k2 + 2 ^ 192 * k3) * p"
proof -
  have "2 ^ 256 * u3 = 2 ^ 192 * (2 ^ 64 * u3)" by simp
  also have "\<dots> = 2 ^ 128 * (2 ^ 64 * u2) + 2 ^ 192 * (b3 * X + k3 * p)" unfolding assms(4) by simp
  also have "\<dots> = 2 ^ 64 * (2 ^ 64 * u1) + 2 ^ 128 * (b2 * X + k2 * p) + 2 ^ 192 * (b3 * X + k3 * p)"
    unfolding assms(3) by simp
  also have "\<dots> = 2 ^ 64 * u0 + 2 ^ 64 * (b1 * X + k1 * p) + 2 ^ 128 * (b2 * X + k2 * p)
      + 2 ^ 192 * (b3 * X + k3 * p)"
    unfolding assms(2) by simp
  finally show ?thesis unfolding assms(1) by (simp add: algebra_simps)
qed

section \<open>The contract of a modulus\<close>

locale montgomery =
  fixes m :: modulus
  assumes M0: "limb0 (mod_P m) * mod_M0 m = - 1"
    and P_gt_1: "1 < lval (mod_P m)"
    and P_less: "lval (mod_P m) < 2 ^ 252"
    and R_eq: "lval (mod_R m) = 2 ^ 256 mod lval (mod_P m)"
    and R2_eq: "lval (mod_R2 m) = 2 ^ 512 mod lval (mod_P m)"
begin

lemma low_limb_zero:
  assumes "mod_P m = Limbs p0 p1 p2 p3" and "const_mac (r0 * mod_M0 m) p0 r0 0 = (lo, hi)"
  shows "lo = 0"
proof -
  have "of_nat (unat lo + 2 ^ 64 * unat hi) = (of_nat (unat (r0 * mod_M0 m) * unat p0 + unat r0) :: u64)"
    using const_mac_eq [OF assms(2)] by simp
  moreover have "(18446744073709551616 :: u64) = 0" by simp
  ultimately have "lo = r0 * (p0 * mod_M0 m) + r0" by (simp add: algebra_simps)
  moreover have "p0 * mod_M0 m = - 1" using M0 assms(1) by simp
  ultimately show ?thesis by simp
qed

lemma reduce_row:
  assumes P: "mod_P m = Limbs p0 p1 p2 p3" and k: "k = r0 * mod_M0 m"
    and 0: "const_mac k p0 r0 0 = (x0, c0)" and 1: "const_mac k p1 r1 c0 = (s1, c1)"
    and 2: "const_mac k p2 r2 c1 = (s2, c2)" and 3: "const_mac k p3 r3 c2 = (s3, c3)"
    and 4: "const_adc r4 d c3 = (s4, d')" and d: "unat d \<le> 1"
  shows "2 ^ 64 * (lval (Limbs s1 s2 s3 s4) + 2 ^ 256 * unat d') =
      lval (Limbs r0 r1 r2 r3) + 2 ^ 256 * (unat r4 + unat d) + unat k * lval (mod_P m)"
    and "unat d' \<le> 1"
proof -
  have "x0 = 0" using low_limb_zero P 0 k by simp
  moreover have "unat s4 + 2 ^ 64 * unat d' = unat r4 + unat d + unat c3"
    using const_adc_eq [OF 4] d u64_less [of r4] u64_less [of c3] by simp
  ultimately show "2 ^ 64 * (lval (Limbs s1 s2 s3 s4) + 2 ^ 256 * unat d') =
      lval (Limbs r0 r1 r2 r3) + 2 ^ 256 * (unat r4 + unat d) + unat k * lval (mod_P m)"
    using mac_row [OF 0 1 2 3] unfolding P by simp
  show "unat d' \<le> 1" using 4 by (rule const_adc_hi)
qed

lemma mont_reduce_total:
  assumes "R = lval (Limbs r0 r1 r2 r3) + 2 ^ 256 * lval (Limbs r4 r5 r6 r7)"
    and "R < 2 ^ 256 * lval (mod_P m)"
  obtains V K where "const_mont_reduce m r0 r1 r2 r3 r4 r5 r6 r7 = const_reduce_partial m V"
    and "2 ^ 256 * lval V = R + K * lval (mod_P m)" and "lval V < 2 * lval (mod_P m)"
proof -
  obtain p0 p1 p2 p3 where P: "mod_P m = Limbs p0 p1 p2 p3" by (cases "mod_P m")
  define k0 where "k0 = r0 * mod_M0 m"
  obtain x0 c0 where a0: "const_mac k0 p0 r0 0 = (x0, c0)" by fastforce
  obtain s1 c1 where a1: "const_mac k0 p1 r1 c0 = (s1, c1)" by fastforce
  obtain s2 c2 where a2: "const_mac k0 p2 r2 c1 = (s2, c2)" by fastforce
  obtain s3 c3 where a3: "const_mac k0 p3 r3 c2 = (s3, c3)" by fastforce
  obtain s4 d1 where a4: "const_adc r4 0 c3 = (s4, d1)" by fastforce
  define k1 where "k1 = s1 * mod_M0 m"
  obtain y0 e0 where b0: "const_mac k1 p0 s1 0 = (y0, e0)" by fastforce
  obtain t2 e1 where b1: "const_mac k1 p1 s2 e0 = (t2, e1)" by fastforce
  obtain t3 e2 where b2: "const_mac k1 p2 s3 e1 = (t3, e2)" by fastforce
  obtain t4 e3 where b3: "const_mac k1 p3 s4 e2 = (t4, e3)" by fastforce
  obtain t5 d2 where b4: "const_adc r5 d1 e3 = (t5, d2)" by fastforce
  define k2 where "k2 = t2 * mod_M0 m"
  obtain z0 f0 where e0: "const_mac k2 p0 t2 0 = (z0, f0)" by fastforce
  obtain u3 f1 where e1: "const_mac k2 p1 t3 f0 = (u3, f1)" by fastforce
  obtain u4 f2 where e2: "const_mac k2 p2 t4 f1 = (u4, f2)" by fastforce
  obtain u5 f3 where e3: "const_mac k2 p3 t5 f2 = (u5, f3)" by fastforce
  obtain u6 d3 where e4: "const_adc r6 d2 f3 = (u6, d3)" by fastforce
  define k3 where "k3 = u3 * mod_M0 m"
  obtain w0 g0 where h0: "const_mac k3 p0 u3 0 = (w0, g0)" by fastforce
  obtain v4 g1 where h1: "const_mac k3 p1 u4 g0 = (v4, g1)" by fastforce
  obtain v5 g2 where h2: "const_mac k3 p2 u5 g1 = (v5, g2)" by fastforce
  obtain v6 g3 where h3: "const_mac k3 p3 u6 g2 = (v6, g3)" by fastforce
  obtain v7 d4 where h4: "const_adc r7 d3 g3 = (v7, d4)" by fastforce
  have "unat (0 :: u64) \<le> 1" by simp
  note A = reduce_row [OF P k0_def a0 a1 a2 a3 a4 this]
  note B = reduce_row [OF P k1_def b0 b1 b2 b3 b4 A(2)]
  note C = reduce_row [OF P k2_def e0 e1 e2 e3 e4 B(2)]
  note D = reduce_row [OF P k3_def h0 h1 h2 h3 h4 C(2)]
  let ?V = "Limbs v4 v5 v6 v7" and ?K = "Limbs k0 k1 k2 k3"
  have total: "2 ^ 256 * (lval ?V + 2 ^ 256 * unat d4) = R + lval ?K * lval (mod_P m)"
    using A(1) B(1) C(1) D(1) assms(1) by (simp add: algebra_simps)
  also have "\<dots> < 2 ^ 256 * (2 * lval (mod_P m))"
    using assms(2) mult_le_mono1 [OF less_imp_le [OF lval_less [of ?K]], of "lval (mod_P m)"]
    by linarith
  finally have V: "lval ?V + 2 ^ 256 * unat d4 < 2 * lval (mod_P m)" by simp
  with P_less have "unat d4 = 0" by simp
  moreover have "const_mont_reduce m r0 r1 r2 r3 r4 r5 r6 r7 = const_reduce_partial m ?V"
    by (simp add: const_mont_reduce_def P k0_def [symmetric] a0 a1 a2 a3 a4 k1_def [symmetric] b0 b1 b2 b3 b4
        k2_def [symmetric] e0 e1 e2 e3 e4 k3_def [symmetric] h0 h1 h2 h3 h4
        cong: prod.case_cong_weak)
  ultimately show thesis using that total V by simp
qed

lemma P_odd: "odd (lval (mod_P m))"
proof -
  have "odd (limb0 (mod_P m) * mod_M0 m)" unfolding M0 by simp
  then have "odd (limb0 (mod_P m))" by simp
  then have "odd (unat (limb0 (mod_P m)))" by (simp add: even_unat_iff)
  then show ?thesis by (cases "mod_P m") simp
qed

lemma coprime_R: "coprime (2 ^ 256) (lval (mod_P m))"
  using P_odd coprime_power_left_iff [of "2 :: nat" 256] by simp

lemma cancel_R:
  assumes "(2 ^ 256 * a) mod lval (mod_P m) = (2 ^ 256 * b) mod lval (mod_P m)"
  shows "a mod lval (mod_P m) = b mod lval (mod_P m)"
  using mod_mult_cancel_left_nat [OF coprime_R assms] .

lemma reduce_partial_lval:
  assumes "lval x < 2 * lval (mod_P m)"
  shows "lval (const_reduce_partial m x) = lval x mod lval (mod_P m)"
  using assms by (simp add: const_reduce_partial_def const_sub_noreduce_lval mod_once)

lemma P_pos: "0 < lval (mod_P m)"
  using P_gt_1 by simp

lemma mont_reduce_correct:
  assumes "R = lval (Limbs r0 r1 r2 r3) + 2 ^ 256 * lval (Limbs r4 r5 r6 r7)"
    and "R < 2 ^ 256 * lval (mod_P m)"
  defines "x \<equiv> const_mont_reduce m r0 r1 r2 r3 r4 r5 r6 r7"
  shows "(2 ^ 256 * lval x) mod lval (mod_P m) = R mod lval (mod_P m)"
    and "lval x < lval (mod_P m)"
proof -
  obtain V K where V: "x = const_reduce_partial m V"
    and eq: "2 ^ 256 * lval V = R + K * lval (mod_P m)" and less: "lval V < 2 * lval (mod_P m)"
    using mont_reduce_total [OF assms(1,2)] unfolding x_def by blast
  have x: "lval x = lval V mod lval (mod_P m)"
    unfolding V by (rule reduce_partial_lval [OF less])
  then show "lval x < lval (mod_P m)" using P_pos by simp
  show "(2 ^ 256 * lval x) mod lval (mod_P m) = R mod lval (mod_P m)"
    unfolding x mod_mult_right_eq eq by simp
qed

lemma const_mul_correct:
  assumes "lval x * lval y < 2 ^ 256 * lval (mod_P m)"
  shows "(2 ^ 256 * lval (const_mul m x y)) mod lval (mod_P m) = (lval x * lval y) mod lval (mod_P m)"
    and "lval (const_mul m x y) < lval (mod_P m)"
proof -
  obtain a0 a1 a2 a3 where x: "x = Limbs a0 a1 a2 a3" by (cases x)
  obtain b0 b1 b2 b3 where y: "y = Limbs b0 b1 b2 b3" by (cases y)
  obtain r0 c0 where a0: "const_mac a0 b0 0 0 = (r0, c0)" by fastforce
  obtain r1 c1 where a1: "const_mac a0 b1 0 c0 = (r1, c1)" by fastforce
  obtain r2 c2 where a2: "const_mac a0 b2 0 c1 = (r2, c2)" by fastforce
  obtain r3 r4 where a3: "const_mac a0 b3 0 c2 = (r3, r4)" by fastforce
  obtain s1 d0 where b0: "const_mac a1 b0 r1 0 = (s1, d0)" by fastforce
  obtain s2 d1 where b1: "const_mac a1 b1 r2 d0 = (s2, d1)" by fastforce
  obtain s3 d2 where b2: "const_mac a1 b2 r3 d1 = (s3, d2)" by fastforce
  obtain s4 r5 where b3: "const_mac a1 b3 r4 d2 = (s4, r5)" by fastforce
  obtain t2 e0 where c0: "const_mac a2 b0 s2 0 = (t2, e0)" by fastforce
  obtain t3 e1 where c1: "const_mac a2 b1 s3 e0 = (t3, e1)" by fastforce
  obtain t4 e2 where c2: "const_mac a2 b2 s4 e1 = (t4, e2)" by fastforce
  obtain t5 r6 where c3: "const_mac a2 b3 r5 e2 = (t5, r6)" by fastforce
  obtain u3 f0 where d0: "const_mac a3 b0 t3 0 = (u3, f0)" by fastforce
  obtain u4 f1 where d1: "const_mac a3 b1 t4 f0 = (u4, f1)" by fastforce
  obtain u5 f2 where d2: "const_mac a3 b2 t5 f1 = (u5, f2)" by fastforce
  obtain u6 r7 where d3: "const_mac a3 b3 r6 f2 = (u6, r7)" by fastforce
  note rows = mac_row [OF a0 a1 a2 a3] mac_row [OF b0 b1 b2 b3] mac_row [OF c0 c1 c2 c3]
    mac_row [OF d0 d1 d2 d3]
  have "lval x * lval y = unat a0 * lval y + 2 ^ 64 * (unat a1 * lval y)
      + 2 ^ 128 * (unat a2 * lval y) + 2 ^ 192 * (unat a3 * lval y)"
    unfolding x by (simp only: lval.simps add_mult_distrib mult.assoc)
  also have "\<dots> = lval (Limbs r0 s1 t2 u3) + 2 ^ 256 * lval (Limbs u4 u5 u6 r7)"
    by (rule schoolbook_rows [OF rows [folded y]])
  finally have prod: "lval x * lval y = lval (Limbs r0 s1 t2 u3) + 2 ^ 256 * lval (Limbs u4 u5 u6 r7)" .
  have mul: "const_mul m x y = const_mont_reduce m r0 s1 t2 u3 u4 u5 u6 r7"
    by (simp add: const_mul_def x y a0 a1 a2 a3 b0 b1 b2 b3 c0 c1 c2 c3 d0 d1 d2 d3
        cong: prod.case_cong_weak)
  show "(2 ^ 256 * lval (const_mul m x y)) mod lval (mod_P m) = (lval x * lval y) mod lval (mod_P m)"
    and "lval (const_mul m x y) < lval (mod_P m)"
    unfolding mul by (rule mont_reduce_correct [OF prod assms])+
qed

lemma const_square_correct:
  assumes "lval x < lval (mod_P m)"
  shows "(2 ^ 256 * lval (const_square m x)) mod lval (mod_P m) = (lval x * lval x) mod lval (mod_P m)"
    and "lval (const_square m x) < lval (mod_P m)"
proof -
  obtain a0 a1 a2 a3 where x: "x = Limbs a0 a1 a2 a3" by (cases x)
  obtain r1 c1 where a1: "const_mac a0 a1 0 0 = (r1, c1)" by fastforce
  obtain r2 c2 where a2: "const_mac a0 a2 0 c1 = (r2, c2)" by fastforce
  obtain r3 r4 where a3: "const_mac a0 a3 0 c2 = (r3, r4)" by fastforce
  obtain s3 d1 where b1: "const_mac a1 a2 r3 0 = (s3, d1)" by fastforce
  obtain s4 r5 where b2: "const_mac a1 a3 r4 d1 = (s4, r5)" by fastforce
  obtain t5 r6 where c1: "const_mac a2 a3 r5 0 = (t5, r6)" by fastforce
  define q1 where "q1 = push_bit 1 r1"
  define q2 where "q2 = push_bit 1 r2 OR drop_bit 63 r1"
  define q3 where "q3 = push_bit 1 s3 OR drop_bit 63 r2"
  define q4 where "q4 = push_bit 1 s4 OR drop_bit 63 s3"
  define q5 where "q5 = push_bit 1 t5 OR drop_bit 63 s4"
  define q6 where "q6 = push_bit 1 r6 OR drop_bit 63 t5"
  define q7 where "q7 = drop_bit 63 r6"
  obtain v0 e0 where d0: "const_mac a0 a0 0 0 = (v0, e0)" by fastforce
  obtain v1 e1 where d1: "const_adc q1 0 e0 = (v1, e1)" by fastforce
  obtain v2 e2 where d2: "const_mac a1 a1 q2 e1 = (v2, e2)" by fastforce
  obtain v3 e3 where d3: "const_adc q3 0 e2 = (v3, e3)" by fastforce
  obtain v4 e4 where d4: "const_mac a2 a2 q4 e3 = (v4, e4)" by fastforce
  obtain v5 e5 where d5: "const_adc q5 0 e4 = (v5, e5)" by fastforce
  obtain v6 e6 where d6: "const_mac a3 a3 q6 e5 = (v6, e6)" by fastforce
  obtain v7 e7 where d7: "const_adc q7 0 e6 = (v7, e7)" by fastforce
  have sq: "const_square m x = const_mont_reduce m v0 v1 v2 v3 v4 v5 v6 v7"
    by (simp only: const_square_def x limbs.case Let_def prod.case a1 a2 a3 b1 b2 c1
        q1_def [symmetric] q2_def [symmetric] q3_def [symmetric] q4_def [symmetric] q5_def [symmetric]
        q6_def [symmetric] q7_def [symmetric] d0 d1 d2 d3 d4 d5 d6 d7 cong: prod.case_cong_weak)
  have adc0: "unat lo + 2 ^ 64 * unat hi = unat a + unat c" if "const_adc a 0 c = (lo, hi)" for a c lo hi
    using const_adc_eq [OF that] u64_less [of a] u64_less [of c] by simp
  let ?X = "unat a0 * (unat a1 + 2 ^ 64 * unat a2 + 2 ^ 128 * unat a3)"
  let ?Y = "unat a1 * (unat a2 + 2 ^ 64 * unat a3)"
  have X: "unat r1 + 2 ^ 64 * unat r2 + 2 ^ 128 * unat r3 + 2 ^ 192 * unat r4 = ?X"
    using const_mac_eq [OF a1] const_mac_eq [OF a2] const_mac_eq [OF a3] by (simp add: algebra_simps)
  have Y: "unat s3 + 2 ^ 64 * unat s4 + 2 ^ 128 * unat r5 = unat r3 + 2 ^ 64 * unat r4 + ?Y"
    using const_mac_eq [OF b1] const_mac_eq [OF b2] by (simp add: algebra_simps)
  have Z: "unat t5 + 2 ^ 64 * unat r6 = unat r5 + unat a2 * unat a3"
    using const_mac_eq [OF c1] by simp
  have "unat v0 + 2 ^ 64 * unat e0 = unat a0 * unat a0"
    using const_mac_eq [OF d0] by simp
  note diag = diagonal_rows [OF this adc0 [OF d1] const_mac_eq [OF d2]
      adc0 [OF d3] const_mac_eq [OF d4] adc0 [OF d5] const_mac_eq [OF d6] adc0 [OF d7]]
  have dbl: "2 ^ 64 * unat q1 + 2 ^ 128 * unat q2 + 2 ^ 192 * unat q3 + 2 ^ 256 * unat q4
      + 2 ^ 320 * unat q5 + 2 ^ 384 * unat q6 + 2 ^ 448 * unat q7
      = 2 * (2 ^ 64 * ?X + 2 ^ 192 * ?Y + 2 ^ 320 * (unat a2 * unat a3))"
  proof -
    have "unat q1 = 2 * (unat r1 mod 2 ^ 63)" and "unat q7 = unat r6 div 2 ^ 63"
      unfolding q1_def q7_def using unat_push_bit_u64 [of 1 r1] unat_drop_bit_u64 [of 63 r6]
      by simp_all
    then show ?thesis
      unfolding off_diagonal_rows [OF X Y Z, symmetric] q2_def q3_def q4_def q5_def q6_def unat_shl1_or
      by (simp only:) (rule shift_left_rows; rule mult_div_mod_eq [symmetric])
  qed
  have total: "lval x * lval x = lval (Limbs v0 v1 v2 v3) + 2 ^ 256 * (lval (Limbs v4 v5 v6 v7) + 2 ^ 256 * unat e7)"
    using diag unfolding dbl square_expand x lval.simps by simp
  have less: "lval x * lval x < 2 ^ 256 * lval (mod_P m)"
    using assms lval_less [of x] by (intro mult_strict_mono) simp_all
  have "2 ^ 256 * 2 ^ 256 * unat e7 \<le> lval x * lval x"
    unfolding total by simp
  also note less
  also have "2 ^ 256 * lval (mod_P m) < (2 ^ 256 * 2 ^ 256 :: nat)"
    using P_less by simp
  finally have "unat e7 = 0" by simp
  with total have sum: "lval x * lval x = lval (Limbs v0 v1 v2 v3) + 2 ^ 256 * lval (Limbs v4 v5 v6 v7)"
    by simp
  show "(2 ^ 256 * lval (const_square m x)) mod lval (mod_P m) = (lval x * lval x) mod lval (mod_P m)"
    and "lval (const_square m x) < lval (mod_P m)"
    unfolding sq by (rule mont_reduce_correct [OF sum less])+
qed

lemma cios_step_correct:
  fixes x r :: limbs and b :: u64
  assumes "lval x < lval (mod_P m)" and "lval r < 2 * lval (mod_P m)"
  obtains k where "2 ^ 64 * lval (cios_step m x b r) = lval r + unat b * lval x + k * lval (mod_P m)"
    and "lval (cios_step m x b r) < 2 * lval (mod_P m)"
proof -
  obtain a0 a1 a2 a3 where x: "x = Limbs a0 a1 a2 a3" by (cases x)
  obtain p0 p1 p2 p3 where P: "mod_P m = Limbs p0 p1 p2 p3" by (cases "mod_P m")
  obtain r0 r1 r2 r3 where r: "r = Limbs r0 r1 r2 r3" by (cases r)
  obtain s0 c0 where a: "const_mac a0 b r0 0 = (s0, c0)" by fastforce
  define k where "k = s0 * mod_M0 m"
  obtain z d0 where b: "const_mac k p0 s0 0 = (z, d0)" by fastforce
  obtain s1 c1 where c: "const_mac a1 b r1 c0 = (s1, c1)" by fastforce
  obtain t0 d1 where d: "const_mac k p1 s1 d0 = (t0, d1)" by fastforce
  obtain s2 c2 where e: "const_mac a2 b r2 c1 = (s2, c2)" by fastforce
  obtain t1 d2 where f: "const_mac k p2 s2 d1 = (t1, d2)" by fastforce
  obtain s3 c3 where g: "const_mac a3 b r3 c2 = (s3, c3)" by fastforce
  obtain t2 d3 where h: "const_mac k p3 s3 d2 = (t2, d3)" by fastforce
  have step: "cios_step m x b r = Limbs t0 t1 t2 (c3 + d3)"
    by (simp add: cios_step_def x P r a k_def [symmetric] b c d e f g h cong: prod.case_cong_weak)
  have comm: "const_mac a b c d = const_mac b a c d" for a b c d
    by (simp add: const_mac_def mult.commute)
  note row1 = mac_row [OF a [unfolded comm [of a0]] c [unfolded comm [of a1]]
      e [unfolded comm [of a2]] g [unfolded comm [of a3]]]
  note row2 = mac_row [OF b d f h]
  have z: "z = 0" using low_limb_zero [OF P] b k_def by simp
  have total: "2 ^ 64 * (unat t0 + 2 ^ 64 * unat t1 + 2 ^ 128 * unat t2 + 2 ^ 192 * (unat c3 + unat d3))
      = lval r + unat b * lval x + unat k * lval (mod_P m)"
    using row1 [folded x r] row2 [folded P] z by simp
  have "unat b * lval x \<le> (2 ^ 64 - 1) * lval (mod_P m)"
    using assms(1) u64_le [of b] by (intro mult_le_mono) simp_all
  moreover have "unat k * lval (mod_P m) \<le> (2 ^ 64 - 1) * lval (mod_P m)"
    using u64_le [of k] by (rule mult_le_mono1)
  ultimately have less: "unat t0 + 2 ^ 64 * unat t1 + 2 ^ 128 * unat t2 + 2 ^ 192 * (unat c3 + unat d3)
      < 2 * lval (mod_P m)"
    using cios_bound [OF total _ _ assms(2)] by blast
  then have "unat c3 + unat d3 < 2 ^ 64" using P_less by simp
  then have "unat (c3 + d3) = unat c3 + unat d3" by (simp add: unat_add_u64)
  then have "lval (cios_step m x b r) =
      unat t0 + 2 ^ 64 * unat t1 + 2 ^ 128 * unat t2 + 2 ^ 192 * (unat c3 + unat d3)"
    unfolding step by simp
  then show thesis using that total less by metis
qed

lemma const_mul_cios_correct:
  assumes "lval x < lval (mod_P m)"
  shows "(2 ^ 256 * lval (const_mul_cios m x y)) mod lval (mod_P m) = (lval x * lval y) mod lval (mod_P m)"
    and "lval (const_mul_cios m x y) < lval (mod_P m)"
proof -
  obtain b0 b1 b2 b3 where y: "y = Limbs b0 b1 b2 b3" by (cases y)
  define u0 where "u0 = cios_step m x b0 (Limbs 0 0 0 0)"
  define u1 where "u1 = cios_step m x b1 u0"
  define u2 where "u2 = cios_step m x b2 u1"
  define u3 where "u3 = cios_step m x b3 u2"
  have z: "lval (Limbs 0 0 0 0) < 2 * lval (mod_P m)" using P_pos by simp
  obtain k0 where 0: "2 ^ 64 * lval u0 = unat b0 * lval x + k0 * lval (mod_P m)"
    and l0: "lval u0 < 2 * lval (mod_P m)"
    using cios_step_correct [OF assms z, of b0] unfolding u0_def by fastforce
  obtain k1 where 1: "2 ^ 64 * lval u1 = lval u0 + unat b1 * lval x + k1 * lval (mod_P m)"
    and l1: "lval u1 < 2 * lval (mod_P m)"
    using cios_step_correct [OF assms l0, of b1] unfolding u1_def by fastforce
  obtain k2 where 2: "2 ^ 64 * lval u2 = lval u1 + unat b2 * lval x + k2 * lval (mod_P m)"
    and l2: "lval u2 < 2 * lval (mod_P m)"
    using cios_step_correct [OF assms l1, of b2] unfolding u2_def by fastforce
  obtain k3 where 3: "2 ^ 64 * lval u3 = lval u2 + unat b3 * lval x + k3 * lval (mod_P m)"
    and l3: "lval u3 < 2 * lval (mod_P m)"
    using cios_step_correct [OF assms l2, of b3] unfolding u3_def by fastforce
  have "2 ^ 256 * lval u3 = lval x * lval y + (k0 + 2 ^ 64 * k1 + 2 ^ 128 * k2 + 2 ^ 192 * k3) * lval (mod_P m)"
    using cios_rows [OF 0 1 2 3] by (simp add: y algebra_simps)
  then have "(2 ^ 256 * lval u3) mod lval (mod_P m) = (lval x * lval y) mod lval (mod_P m)"
    by simp
  moreover have res: "const_mul_cios m x y = const_reduce_partial m u3"
    by (simp add: const_mul_cios_def y u0_def u1_def u2_def u3_def)
  moreover note reduce_partial_lval [OF l3]
  ultimately show "(2 ^ 256 * lval (const_mul_cios m x y)) mod lval (mod_P m) = (lval x * lval y) mod lval (mod_P m)"
    and "lval (const_mul_cios m x y) < lval (mod_P m)"
    using P_pos by (simp_all add: mod_mult_right_eq)
qed

lemma reduce_full_eq: "(2 ^ 256 * native m x) mod lval (mod_P m) = lval x mod lval (mod_P m)"
  and native_less [simp]: "native m x < lval (mod_P m)"
proof -
  obtain x0 x1 x2 x3 where x: "x = Limbs x0 x1 x2 x3" by (cases x)
  have 1: "lval x = lval (Limbs x0 x1 x2 x3) + 2 ^ 256 * lval (Limbs 0 0 0 0)"
    by (simp add: x)
  have 2: "lval x < 2 ^ 256 * lval (mod_P m)"
    using lval_less [of x] P_pos
    by (metis less_le_trans mult.right_neutral mult_le_mono2 Suc_leI One_nat_def)
  show "(2 ^ 256 * native m x) mod lval (mod_P m) = lval x mod lval (mod_P m)"
    and "native m x < lval (mod_P m)"
    unfolding native_def const_reduce_full_def x limbs.case
    by (rule mont_reduce_correct [OF 1 [unfolded x] 2 [unfolded x]])+
qed

lemma native_unique:
  assumes "(2 ^ 256 * a) mod lval (mod_P m) = lval x mod lval (mod_P m)"
  shows "native m x = a mod lval (mod_P m)"
  using cancel_R [of "native m x" a] reduce_full_eq [of x] assms by simp

lemma native_inj:
  assumes "native m x = native m y" and "reduced m x" and "reduced m y"
  shows "x = y"
  using reduce_full_eq [of x] reduce_full_eq [of y] assms
  by (simp add: reduced_def lval_inj)

lemma reducedI: "lval x < lval (mod_P m) \<Longrightarrow> reduced m x"
  by (simp add: reduced_def)

lemma product_bound: "reduced m y \<Longrightarrow> lval x * lval y < 2 ^ 256 * lval (mod_P m)"
  unfolding reduced_def using lval_less [of x] P_pos by (intro mult_strict_mono) simp_all

lemma native_mul:
  assumes "reduced m y"
  shows "native m (const_mul m x y) = (native m x * native m y) mod lval (mod_P m)"
    and "reduced m (const_mul m x y)"
proof -
  let ?p = "lval (mod_P m)"
  note c = const_mul_correct [OF product_bound [OF assms], of x]
  show "reduced m (const_mul m x y)" using c(2) by (rule reducedI)
  have "(2 ^ 256 * (2 ^ 256 * (native m x * native m y))) mod ?p
      = ((2 ^ 256 * native m x) mod ?p * ((2 ^ 256 * native m y) mod ?p)) mod ?p"
    by (simp only: mod_mult_eq ac_simps)
  also have "\<dots> = (lval x * lval y) mod ?p"
    unfolding reduce_full_eq by (simp only: mod_mult_eq)
  also have "\<dots> = (2 ^ 256 * lval (const_mul m x y)) mod ?p" using c(1) by simp
  finally have "(2 ^ 256 * (native m x * native m y)) mod ?p = lval (const_mul m x y) mod ?p"
    by (rule cancel_R)
  then show "native m (const_mul m x y) = (native m x * native m y) mod ?p"
    by (rule native_unique)
qed

lemma mul_unique:
  assumes "(2 ^ 256 * lval z) mod lval (mod_P m) = (lval x * lval y) mod lval (mod_P m)"
    and "reduced m z" and "reduced m y"
  shows "z = const_mul m x y"
proof -
  note c = const_mul_correct [OF product_bound [OF assms(3)], of x]
  have "lval z mod lval (mod_P m) = lval (const_mul m x y) mod lval (mod_P m)"
    by (rule cancel_R) (use assms(1) c(1) in simp)
  then show ?thesis using assms(2) c(2) by (simp add: reduced_def lval_inj)
qed

lemma square_eq_mul: "reduced m x \<Longrightarrow> const_square m x = const_mul m x x"
  using const_square_correct [of x] by (intro mul_unique) (auto simp: reduced_def)

lemma cios_eq_mul: "reduced m x \<Longrightarrow> reduced m y \<Longrightarrow> const_mul_cios m x y = const_mul m x y"
  using const_mul_cios_correct [of x y] by (intro mul_unique) (auto simp: reduced_def)

lemma add_noreduce_bound:
  assumes "lval x \<le> 2 * lval (mod_P m)" and "lval y \<le> 2 * lval (mod_P m)"
  shows "lval (const_add_noreduce x y) = lval x + lval y"
  using assms P_less by (intro const_add_noreduce_lval) simp

lemma const_add_lval:
  assumes "reduced m x" and "reduced m y"
  shows "lval (const_add m x y) = (lval x + lval y) mod lval (mod_P m)"
  using assms by (simp add: const_add_def reduced_def add_noreduce_bound reduce_partial_lval)

lemma native_add:
  assumes "reduced m x" and "reduced m y"
  shows "native m (const_add m x y) = (native m x + native m y) mod lval (mod_P m)"
    and "reduced m (const_add m x y)"
proof -
  let ?p = "lval (mod_P m)"
  show "reduced m (const_add m x y)"
    using assms P_pos by (simp add: reduced_def const_add_lval)
  have "(2 ^ 256 * (native m x + native m y)) mod ?p
      = ((2 ^ 256 * native m x) mod ?p + (2 ^ 256 * native m y) mod ?p) mod ?p"
    by (simp only: mod_add_eq add_mult_distrib2)
  also have "\<dots> = lval (const_add m x y) mod ?p"
    unfolding reduce_full_eq const_add_lval [OF assms] by (simp only: mod_add_eq mod_mod_trivial)
  finally show "native m (const_add m x y) = (native m x + native m y) mod ?p"
    by (rule native_unique)
qed

lemma native_zero_iff: "reduced m x \<Longrightarrow> native m x = 0 \<longleftrightarrow> lval x = 0"
  using reduce_full_eq [of x] native_unique [of 0 x] by (auto simp: reduced_def)

lemma native_one: "native m (mod_R m) = 1" and reduced_one: "reduced m (mod_R m)"
proof -
  show "native m (mod_R m) = 1"
    using native_unique [of 1 "mod_R m"] P_gt_1 by (simp only: R_eq) simp
  show "reduced m (mod_R m)" unfolding reduced_def R_eq using P_pos by simp
qed

lemma reduced_R2: "reduced m (mod_R2 m)" and native_R2: "native m (mod_R2 m) = 2 ^ 256 mod lval (mod_P m)"
proof -
  show "reduced m (mod_R2 m)" unfolding reduced_def R2_eq using P_pos by simp
  show "native m (mod_R2 m) = 2 ^ 256 mod lval (mod_P m)"
    using native_unique [of "2 ^ 256" "mod_R2 m"]
    by (simp only: R2_eq mod_mod_trivial power_add [symmetric]) simp
qed

lemma const_sub_lval:
  assumes "reduced m x" and "reduced m y"
  shows "lval (const_sub m x y) = (lval x + (lval (mod_P m) - lval y)) mod lval (mod_P m)"
    and "reduced m (const_sub m x y)"
proof -
  have eq: "lval (const_sub m x y) = (if lval y \<le> lval x then lval x - lval y else lval x + lval (mod_P m) - lval y)"
    using assms by (auto simp: const_sub_def reduced_def const_sub_noreduce_lval add_noreduce_bound)
  then show "reduced m (const_sub m x y)"
    using assms by (auto simp: reduced_def)
  show "lval (const_sub m x y) = (lval x + (lval (mod_P m) - lval y)) mod lval (mod_P m)"
    unfolding eq using assms by (auto simp: reduced_def mod_once)
qed

lemma native_of_sum:
  assumes "(lval z + lval y) mod lval (mod_P m) = lval x mod lval (mod_P m)"
  shows "(native m z + native m y) mod lval (mod_P m) = native m x"
proof -
  let ?p = "lval (mod_P m)"
  have "(2 ^ 256 * (native m z + native m y)) mod ?p
      = ((2 ^ 256 * native m z) mod ?p + (2 ^ 256 * native m y) mod ?p) mod ?p"
    by (simp only: mod_add_eq add_mult_distrib2)
  also have "\<dots> = lval x mod ?p"
    unfolding reduce_full_eq using assms by (simp only: mod_add_eq)
  finally show ?thesis by (rule native_unique [symmetric])
qed

lemma mod_sub_unique:
  fixes a b c p :: nat
  assumes "(a + b) mod p = c" and "a < p" and "b < p"
  shows "a = (c + (p - b)) mod p"
proof -
  have "(c + (p - b)) mod p = (a + b + (p - b)) mod p"
    using assms(1) by (metis mod_add_left_eq)
  also have "\<dots> = a" using assms(2,3) by simp
  finally show ?thesis by simp
qed

lemma native_sub:
  assumes "reduced m x" and "reduced m y"
  shows "native m (const_sub m x y) = (native m x + (lval (mod_P m) - native m y)) mod lval (mod_P m)"
proof (rule mod_sub_unique)
  have "(lval x + (lval (mod_P m) - lval y) + lval y) mod lval (mod_P m) = lval x mod lval (mod_P m)"
    using assms(2) by (simp add: reduced_def)
  then show "(native m (const_sub m x y) + native m y) mod lval (mod_P m) = native m x"
    by (intro native_of_sum) (simp add: const_sub_lval [OF assms] mod_add_left_eq)
qed simp_all

lemma native_neg:
  assumes "reduced m x"
  shows "native m (const_neg m x) = (lval (mod_P m) - native m x) mod lval (mod_P m)"
    and "reduced m (const_neg m x)"
proof -
  have l: "lval (const_neg m x) = (if lval x = 0 then 0 else lval (mod_P m) - lval x)"
    using assms by (simp add: const_neg_def reduced_def const_sub_noreduce_lval)
  then show "reduced m (const_neg m x)" using P_pos by (simp add: reduced_def)
  have "native m (const_neg m x) = (0 + (lval (mod_P m) - native m x)) mod lval (mod_P m)"
  proof (rule mod_sub_unique)
    have "(native m (const_neg m x) + native m x) mod lval (mod_P m) = native m (Limbs 0 0 0 0)"
      by (rule native_of_sum) (use l assms in \<open>simp add: reduced_def\<close>)
    also have "\<dots> = 0" using native_unique [of 0 "Limbs 0 0 0 0"] by simp
    finally show "(native m (const_neg m x) + native m x) mod lval (mod_P m) = 0" .
  qed simp_all
  then show "native m (const_neg m x) = (lval (mod_P m) - native m x) mod lval (mod_P m)" by simp
qed

lemma native_double:
  assumes "reduced m x"
  shows "native m (const_double m x) = (2 * native m x) mod lval (mod_P m)"
    and "reduced m (const_double m x)"
  using native_add [OF assms assms] by (simp_all add: const_double_def const_add_def mult_2)

lemma from_native:
  shows "native m (const_mul m x (mod_R2 m)) = lval x mod lval (mod_P m)"
    and "reduced m (const_mul m x (mod_R2 m))"
proof -
  have "native m (const_mul m x (mod_R2 m)) = (2 ^ 256 * native m x) mod lval (mod_P m)"
    unfolding native_mul(1) [OF reduced_R2] native_R2 by (simp only: mod_mult_right_eq mult.commute)
  then show "native m (const_mul m x (mod_R2 m)) = lval x mod lval (mod_P m)"
    unfolding reduce_full_eq .
  show "reduced m (const_mul m x (mod_R2 m))" by (rule native_mul(2) [OF reduced_R2])
qed

end

end
