(* ===== verification/Montgomery_Inverse.thy ===== *)
theory Montgomery_Inverse
  imports Montgomery_Correct
begin

text \<open>
  The binary extended Euclidean loop of \<^verbatim>\<open>inverse.rs\<close> ends within 512 iterations, each
  with at most 256 halvings, and returns the inverse of every input coprime to \<open>P\<close>.
\<close>

lemma halve_rows:
  fixes x0 x1 x2 x3 :: nat
  assumes "x0 = 2 * q0 + e0" "x1 = 2 * q1 + e1" "x2 = 2 * q2 + e2" "x3 = 2 * q3 + e3" and "e0 < 2"
  shows "(x0 + 2 ^ 64 * x1 + 2 ^ 128 * x2 + 2 ^ 192 * x3) div 2 = (q0 + 2 ^ 63 * e1)
      + 2 ^ 64 * (q1 + 2 ^ 63 * e2) + 2 ^ 128 * (q2 + 2 ^ 63 * e3) + 2 ^ 192 * q3"
proof -
  have "x0 + 2 ^ 64 * x1 + 2 ^ 128 * x2 + 2 ^ 192 * x3 = e0 + 2 * ((q0 + 2 ^ 63 * e1)
      + 2 ^ 64 * (q1 + 2 ^ 63 * e2) + 2 ^ 128 * (q2 + 2 ^ 63 * e3) + 2 ^ 192 * q3)"
    unfolding assms(1-4) by simp
  then show ?thesis using assms(5) by simp
qed

lemma div2_lval: "lval (div2 x) = lval x div 2"
proof (cases x)
  case (Limbs x0 x1 x2 x3)
  have *: "(k :: nat) = 2 * (k div 2) + k mod 2" for k by simp
  show ?thesis
    unfolding div2_def Limbs limbs.case lval.simps unat_shr1_or
    by (subst halve_rows [OF * * * *]) (use unat_drop_bit_u64 [of 1 x3] in simp_all)
qed

lemma is_even_lval [simp]: "is_even x \<longleftrightarrow> even (lval x)"
  by (cases x) (simp add: is_even_def even_unat_iff and_one_eq even_iff_mod_2_eq_zero [symmetric])

lemma mod_add_cancel_nat: "((a :: nat) + c) mod p = (b + c) mod p \<longleftrightarrow> a mod p = b mod p"
proof -
  have "(int (a + c) mod int p = int (b + c) mod int p) = (int a mod int p = int b mod int p)"
    by (simp add: mod_eq_iff_dvd_int)
  then show ?thesis by (simp only: of_nat_mod [symmetric] of_nat_eq_iff)
qed

lemma odd_part_unique:
  fixes a b :: nat
  assumes "2 ^ i * a = 2 ^ j * b" and "odd a" and "odd b"
  shows "a = b"
  using assms(1)
proof (induction i arbitrary: j)
  case 0
  with assms(2) show ?case by (cases j) auto
next
  case (Suc i)
  then obtain j' where "j = Suc j'" using assms(3) by (cases j) auto
  with Suc.prems have "2 ^ i * a = 2 ^ j' * b" by simp
  then show ?case by (rule Suc.IH)
qed

lemma odd_part_exists: "0 < (a :: nat) \<Longrightarrow> \<exists>i b. a = 2 ^ i * b \<and> odd b"
proof (induction a rule: less_induct)
  case (less a)
  show ?case
  proof (cases "even a")
    case True
    then obtain c where c: "a = 2 * c" ..
    with less obtain i b where "c = 2 ^ i * b" "odd b" by (metis mult_pos_pos nat_0_less_mult_iff less_add_same_cancel1 mult_2)
    with c show ?thesis by (intro exI [of _ "Suc i"] exI [of _ b]) simp
  next
    case False
    then show ?thesis by (intro exI [of _ 0] exI [of _ a]) simp
  qed
qed

lemma odd_difference:
  fixes a b :: nat
  assumes "odd a" and "odd b" and "b < a" and "a * b < 2 ^ Suc n"
  shows "\<exists>i d. a - b = 2 ^ i * d \<and> odd d \<and> d * b < 2 ^ n"
proof -
  obtain i d where d: "a - b = 2 ^ i * d" "odd d" using odd_part_exists [of "a - b"] assms(3) by auto
  have "even (a - b)" using assms(1,2) by simp
  with d have "i \<noteq> 0" by (metis mult_1 power_0)
  then obtain k where k: "i = Suc k" by (cases i) auto
  have "2 * (d * b) \<le> 2 ^ i * d * b" by (simp add: k)
  also have "\<dots> = (a - b) * b" using d by simp
  also have "\<dots> \<le> a * b" by simp
  also have "\<dots> < 2 * 2 ^ n" using assms(4) by simp
  finally have "d * b < 2 ^ n" by linarith
  with d show ?thesis by blast
qed

lemma coprime_diff_nat: "(b :: nat) \<le> a \<Longrightarrow> coprime (a - b) b \<longleftrightarrow> coprime a b"
  by (metis coprime_iff_gcd_eq_1 gcd_diff1_nat)

context montgomery
begin

text \<open>The loop invariant: \<open>b\<close> is to \<open>u\<close> as \<open>R\<^sup>2\<close> is to the input \<open>X\<close>.\<close>

definition scaled :: "nat \<Rightarrow> limbs \<Rightarrow> limbs \<Rightarrow> bool" where
  "scaled X u b \<longleftrightarrow> reduced m b \<and>
     (lval b * X) mod lval (mod_P m) = (lval u * lval (mod_R2 m)) mod lval (mod_P m)"

lemma halve_scaled:
  assumes "scaled X u b" and "even (lval u)"
  shows "scaled X (div2 u) (if is_even b then div2 b else div2 (add_noreduce b (mod_P m)))"
proof -
  define b' where "b' = (if is_even b then div2 b else div2 (add_noreduce b (mod_P m)))"
  let ?p = "lval (mod_P m)" and ?r = "lval (mod_R2 m)"
  have b: "reduced m b" and inv: "(lval b * X) mod ?p = (lval u * ?r) mod ?p"
    using assms(1) by (auto simp: scaled_def)
  have nr: "lval (const_add_noreduce b (mod_P m)) = lval b + ?p"
    using b by (intro add_noreduce_bound) (auto simp: reduced_def)
  have lb: "lval b' = (if even (lval b) then lval b div 2 else (lval b + ?p) div 2)"
    by (simp add: b'_def div2_lval nr)
  have red: "reduced m b'" using b unfolding reduced_def lb by auto
  have "2 * lval b' = (if even (lval b) then lval b else lval b + ?p)"
    unfolding lb using P_odd by simp
  then have two: "(2 * lval b') mod ?p = lval b mod ?p" by simp
  have u: "lval u = 2 * lval (div2 u)" using assms(2) by (simp add: div2_lval)
  have "(2 * (lval b' * X)) mod ?p = ((2 * lval b') mod ?p * X) mod ?p"
    by (simp only: mod_mult_left_eq mult.assoc)
  also have "\<dots> = (lval u * ?r) mod ?p"
    unfolding two mod_mult_left_eq by (rule inv)
  also have "\<dots> = (2 * (lval (div2 u) * ?r)) mod ?p"
    unfolding u [symmetric] mult.assoc [symmetric] ..
  finally have "(lval b' * X) mod ?p = (lval (div2 u) * ?r) mod ?p"
    by (rule mod_mult_cancel_left_nat [rotated]) (use P_odd in simp)
  with red show ?thesis unfolding b'_def [symmetric] scaled_def by blast
qed

lemma halve_while_even_total:
  assumes "scaled X u b" and "0 < lval u" and "lval u < 2 ^ fuel"
  shows "\<exists>k u' b'. halve_while_even (Suc fuel) m u b = Inr (u', b') \<and> lval u = 2 ^ k * lval u' \<and>
    odd (lval u') \<and> scaled X u' b'"
  using assms
proof (induction fuel arbitrary: u b)
  case 0
  then show ?case by simp
next
  case (Suc fuel)
  show ?case
  proof (cases "even (lval u)")
    case True
    let ?b = "if is_even b then div2 b else div2 (add_noreduce b (mod_P m))"
    have "0 < lval (div2 u)" and "lval (div2 u) < 2 ^ fuel"
      using True Suc.prems(2,3) by (auto simp: div2_lval elim!: evenE)
    with Suc.IH [OF halve_scaled [OF Suc.prems(1) True]] obtain k u' b' where
      *: "halve_while_even (Suc fuel) m (div2 u) ?b = Inr (u', b')"
      "lval (div2 u) = 2 ^ k * lval u'" "odd (lval u')" "scaled X u' b'" by blast
    have "lval u = 2 ^ Suc k * lval u'" using *(2) True by (auto simp: div2_lval elim!: evenE)
    moreover have "halve_while_even (Suc (Suc fuel)) m u b = Inr (u', b')"
      using *(1) True halve_while_even.simps(2) [of "Suc fuel" m u b] by (simp add: Let_def)
    ultimately show ?thesis using *(3,4) by blast
  next
    case False
    then have "halve_while_even (Suc (Suc fuel)) m u b = Inr (u, b)"
      by (simp add: halve_while_even.simps(2))
    then show ?thesis using False Suc.prems(1) by (intro exI [of _ 0] exI [of _ u] exI [of _ b]) simp
  qed
qed

lemma scaled_sub:
  assumes "scaled X u b" and "scaled X v c" and "lval v \<le> lval u"
  shows "scaled X (const_sub_noreduce u v) (const_sub m b c)"
proof -
  let ?p = "lval (mod_P m)" and ?r = "lval (mod_R2 m)"
  have b: "reduced m b" and c: "reduced m c" and ib: "(lval b * X) mod ?p = (lval u * ?r) mod ?p"
    and ic: "(lval c * X) mod ?p = (lval v * ?r) mod ?p"
    using assms(1,2) by (auto simp: scaled_def)
  let ?d = "const_sub m b c" and ?w = "const_sub_noreduce u v"
  have "(lval ?d + lval c) mod ?p = lval b mod ?p"
    unfolding const_sub_lval(1) [OF b c] mod_add_left_eq using c by (simp add: reduced_def)
  then have "((lval ?d + lval c) * X) mod ?p = (lval b * X) mod ?p"
    by (metis mod_mult_left_eq)
  also have "\<dots> = ((lval ?w + lval v) * ?r) mod ?p"
    using ib assms(3) by (simp add: const_sub_noreduce_lval)
  finally have "(lval ?d * X + lval c * X) mod ?p = (lval ?w * ?r + lval v * ?r) mod ?p"
    by (simp only: add_mult_distrib)
  then have "(lval ?d * X + lval c * X) mod ?p = (lval ?w * ?r + lval c * X) mod ?p"
    using ic by (metis mod_add_right_eq)
  then have "(lval ?d * X) mod ?p = (lval ?w * ?r) mod ?p"
    by (simp add: mod_add_cancel_nat)
  then show ?thesis using const_sub_lval(2) [OF b c] by (simp add: scaled_def)
qed

lemma inverse_loop_total:
  assumes "scaled X u b" and "scaled X v c" and "coprime (lval u) (lval v)"
    and "lval u = 2 ^ i * u0" and "lval v = 2 ^ j * v0" and "odd u0" and "odd v0"
    and "u0 * v0 < 2 ^ n"
  shows "\<exists>r. inverse_loop (Suc n) m u v b c = Inr r \<and> scaled X (Limbs 1 0 0 0) r"
  using assms
proof (induction n arbitrary: u v b c i j u0 v0)
  case 0
  then show ?case by auto
next
  case (Suc n)
  show ?case
  proof (cases "u \<noteq> Limbs 1 0 0 0 \<and> v \<noteq> Limbs 1 0 0 0")
    case False
    then show ?thesis
      using Suc.prems(1,2) inverse_loop.simps(2) [of "Suc n" m u v b c] by auto
  next
    case True
    have pos: "0 < lval u" "0 < lval v" using Suc.prems(4-7) by (auto intro: odd_pos)
    have lim: "lval u < 2 ^ 256" "lval v < 2 ^ 256" by (rule lval_less)+
    obtain k u' b' where u': "halve_while_even 257 m u b = Inr (u', b')"
      "lval u = 2 ^ k * lval u'" "odd (lval u')" "scaled X u' b'"
      using halve_while_even_total [OF Suc.prems(1) pos(1) lim(1)] by auto
    obtain l v' c' where v': "halve_while_even 257 m v c = Inr (v', c')"
      "lval v = 2 ^ l * lval v'" "odd (lval v')" "scaled X v' c'"
      using halve_while_even_total [OF Suc.prems(2) pos(2) lim(2)] by auto
    have cop: "coprime (lval u') (lval v')"
      using Suc.prems(3) unfolding u'(2) v'(2) by simp
    have prod: "lval u' * lval v' < 2 ^ Suc n"
      using Suc.prems(4-8) odd_part_unique u'(2,3) v'(2,3) by metis
    have step: "inverse_loop (Suc (Suc n)) m u v b c =
      (if lval v' < lval u' then inverse_loop (Suc n) m (const_sub_noreduce u' v') v' (const_sub m b' c') c'
       else inverse_loop (Suc n) m u' (const_sub_noreduce v' u') b' (const_sub m c' b'))"
      using True u'(1) v'(1) inverse_loop.simps(2) [of "Suc n" m u v b c] by simp
    consider "lval v' < lval u'" | "lval u' < lval v'" | "lval v' = lval u'" by linarith
    then show ?thesis
    proof cases
      case 1
      obtain e d where d: "lval u' - lval v' = 2 ^ e * d" "odd d" "d * lval v' < 2 ^ n"
        using odd_difference [OF u'(3) v'(3) 1 prod] by blast
      have "lval (const_sub_noreduce u' v') = 2 ^ e * d" and "lval v' = 2 ^ 0 * lval v'"
        using d(1) 1 by (simp_all add: const_sub_noreduce_lval)
      moreover have "coprime (lval (const_sub_noreduce u' v')) (lval v')"
        using 1 cop by (simp add: const_sub_noreduce_lval coprime_diff_nat)
      moreover have "scaled X (const_sub_noreduce u' v') (const_sub m b' c')"
        using scaled_sub u'(4) v'(4) 1 by simp
      ultimately show ?thesis
        using Suc.IH [OF _ v'(4) _ _ _ d(2) v'(3) d(3)] 1 by (simp only: step if_True)
    next
      case 2
      obtain e d where d: "lval v' - lval u' = 2 ^ e * d" "odd d" "d * lval u' < 2 ^ n"
        using odd_difference [OF v'(3) u'(3) 2, of n] prod unfolding mult.commute [of "lval v'"] by blast
      have "lval (const_sub_noreduce v' u') = 2 ^ e * d" and "lval u' = 2 ^ 0 * lval u'"
        using d(1) 2 by (simp_all add: const_sub_noreduce_lval)
      moreover have "coprime (lval u') (lval (const_sub_noreduce v' u'))"
        using 2 cop coprime_diff_nat [of "lval u'" "lval v'"]
        by (simp add: const_sub_noreduce_lval coprime_commute)
      moreover have "scaled X (const_sub_noreduce v' u') (const_sub m c' b')"
        using scaled_sub u'(4) v'(4) 2 by simp
      moreover have "lval u' * d < 2 ^ n" using d(3) by (simp add: mult.commute)
      ultimately show ?thesis
        using Suc.IH [OF u'(4) _ _ _ _ u'(3) d(2)] less_not_sym [OF 2] by (simp only: step if_False)
    next
      case 3
      then have "lval u' = lval (Limbs 1 0 0 0)" using cop by simp
      then have "u' = Limbs 1 0 0 0" by (simp only: lval_inj)
      with 3 show ?thesis using u'(4)
        by (simp add: step inverse_loop.simps(2) [of n m "Limbs 1 0 0 0"])
    qed
  qed
qed

lemma inverse_correct:
  assumes "reduced m x" and cop: "coprime (lval x) (lval (mod_P m))"
  shows "\<exists>y. mont_inverse m x = Inr (Some y) \<and> reduced m y \<and>
    (native m x * native m y) mod lval (mod_P m) = 1"
proof -
  let ?p = "lval (mod_P m)" and ?X = "lval x"
  have sx: "scaled ?X x (mod_R2 m)" using reduced_R2 by (simp add: scaled_def mult.commute)
  have sp: "scaled ?X (mod_P m) (Limbs 0 0 0 0)"
    using P_pos by (simp add: scaled_def reduced_def)
  have nz: "?X \<noteq> 0" using cop P_gt_1 by (intro notI) simp
  obtain i u0 where u0: "?X = 2 ^ i * u0" "odd u0" using odd_part_exists nz by blast
  have "u0 \<le> ?X" using u0(1) by simp
  then have "u0 * ?p < 2 ^ 252 * 2 ^ 252"
    using assms(1) P_less by (intro mult_strict_mono) (auto simp: reduced_def)
  also have "\<dots> \<le> (2 :: nat) ^ 511" by simp
  finally have "u0 * ?p < 2 ^ 511" .
  from inverse_loop_total [OF sx sp cop u0(1) _ u0(2) P_odd this, of 0]
  obtain r where r: "inverse_loop 512 m x (mod_P m) (mod_R2 m) (Limbs 0 0 0 0) = Inr r"
    "scaled ?X (Limbs 1 0 0 0) r" by auto
  have "mont_inverse m x = Inr (Some r)" using r(1) nz by (simp add: mont_inverse_def is_zero_lval)
  moreover have "reduced m r" using r(2) by (simp add: scaled_def)
  moreover have "(native m x * native m r) mod ?p = 1"
  proof -
    have "(2 ^ 256 * (2 ^ 256 * (native m x * native m r))) mod ?p
        = ((2 ^ 256 * native m r) mod ?p * ((2 ^ 256 * native m x) mod ?p)) mod ?p"
      by (simp only: mod_mult_eq ac_simps)
    also have "\<dots> = (lval r * lval x) mod ?p" unfolding reduce_full_eq by (simp only: mod_mult_eq)
    also have "\<dots> = lval (mod_R2 m) mod ?p" using r(2) by (simp add: scaled_def)
    also have "\<dots> = (2 ^ 256 * (2 ^ 256 * 1)) mod ?p" unfolding R2_eq mod_mod_trivial by simp
    finally have "(native m x * native m r) mod ?p = 1 mod ?p" by (rule cancel_R [OF cancel_R])
    then show ?thesis using P_gt_1 by simp
  qed
  ultimately show ?thesis by blast
qed

lemma inverse_zero: "lval x = 0 \<Longrightarrow> mont_inverse m x = Inr None"
  by (simp add: mont_inverse_def is_zero_lval)

end

end
