(* ===== verification/Bytes.thy ===== *)
theory Bytes
  imports Limbs
begin

text \<open>
  Big-endian byte strings: the integer a byte string spells, the byte string of a given
  length that spells an integer, and Rust's \<^verbatim>\<open>to_be_bytes\<close> and \<^verbatim>\<open>from_be_bytes\<close> on
  \<^verbatim>\<open>u64\<close> and \<^verbatim>\<open>u128\<close>. A Rust array \<^verbatim>\<open>[u8; 32]\<close> is a list of length 32.
\<close>

fun be_bytes :: "nat \<Rightarrow> nat \<Rightarrow> u8 list" where
  "be_bytes 0 k = []"
| "be_bytes (Suc n) k = be_bytes n (k div 256) @ [of_nat k]"

definition be_val :: "u8 list \<Rightarrow> nat" where
  "be_val bs = foldl (\<lambda>n b. n * 256 + unat b) 0 bs"

definition u64_to_be_bytes :: "u64 \<Rightarrow> u8 list" where
  "u64_to_be_bytes w = be_bytes 8 (unat w)"

definition u64_from_be_bytes :: "u8 list \<Rightarrow> u64" where
  "u64_from_be_bytes bs = of_nat (be_val bs)"

definition u128_to_be_bytes :: "u128 \<Rightarrow> u8 list" where
  "u128_to_be_bytes w = be_bytes 16 (unat w)"

definition u128_from_be_bytes :: "u8 list \<Rightarrow> u128" where
  "u128_from_be_bytes bs = of_nat (be_val bs)"

text \<open>The four big-endian 64-bit words of a 32-byte array, as limbs and back.\<close>

definition limbs_from_be_bytes :: "u8 list \<Rightarrow> limbs" where
  "limbs_from_be_bytes bytes =
     (let r0 = u64_from_be_bytes (take 8 bytes);
          r1 = u64_from_be_bytes (take 8 (drop 8 bytes));
          r2 = u64_from_be_bytes (take 8 (drop 16 bytes));
          r3 = u64_from_be_bytes (take 8 (drop 24 bytes))
      in Limbs r3 r2 r1 r0)"

definition limbs_to_be_bytes :: "limbs \<Rightarrow> u8 list" where
  "limbs_to_be_bytes s = (case s of Limbs s0 s1 s2 s3 \<Rightarrow>
     u64_to_be_bytes s3 @ u64_to_be_bytes s2 @ u64_to_be_bytes s1 @ u64_to_be_bytes s0)"

section \<open>Lemmas\<close>

lemma be_val_simps [simp]:
  "be_val [] = 0"
  "be_val (bs @ [b]) = be_val bs * 256 + unat b"
  by (simp_all add: be_val_def)

lemma be_val_append: "be_val (xs @ ys) = be_val xs * 256 ^ length ys + be_val ys"
proof (induction ys rule: rev_induct)
  case (snoc y ys)
  have "be_val (xs @ ys @ [y]) = be_val (xs @ ys) * 256 + unat y"
    using be_val_simps(2) [of "xs @ ys" y] by simp
  then show ?case by (simp add: snoc algebra_simps)
qed simp

lemma be_val_Cons [simp]: "be_val (b # bs) = unat b * 256 ^ length bs + be_val bs"
  using be_val_append [of "[b]" bs] be_val_simps(2) [of "[]" b] by simp

lemma u8_less: "unat (b :: u8) < 256"
  using unsigned_less [of b, where ?'a = nat] by simp

lemma be_val_less: "be_val bs < 256 ^ length bs"
proof (induction bs rule: rev_induct)
  case (snoc b bs)
  then show ?case using u8_less [of b] by simp
qed simp

lemma length_be_bytes [simp]: "length (be_bytes n k) = n"
  by (induction n arbitrary: k) simp_all

lemma be_val_be_bytes: "be_val (be_bytes n k) = k mod 256 ^ n"
proof (induction n arbitrary: k)
  case (Suc n)
  have "k mod 256 ^ Suc n = 256 * (k div 256 mod 256 ^ n) + k mod 256"
    by (simp add: mod_mult2_eq)
  then show ?case by (simp add: Suc unsigned_of_nat take_bit_eq_mod)
qed simp

lemma be_val_be_bytes_small [simp]: "k < 256 ^ n \<Longrightarrow> be_val (be_bytes n k) = k"
  by (simp add: be_val_be_bytes)

lemma be_bytes_be_val: "be_bytes (length bs) (be_val bs) = bs"
proof (induction bs rule: rev_induct)
  case (snoc b bs)
  have "(be_val bs * 256 + unat b) div 256 = be_val bs" using u8_less [of b] by simp
  moreover have "(word_of_nat (be_val bs * 256 + unat b) :: u8) = b"
    unfolding word_unat_eq_iff unsigned_of_nat take_bit_eq_mod using u8_less [of b] by simp
  ultimately show ?case using snoc by (simp del: of_nat_add of_nat_mult)
qed simp

lemma be_bytes_be_val_length: "length bs = n \<Longrightarrow> be_bytes n (be_val bs) = bs"
  using be_bytes_be_val by blast

lemma be_val_inj: "length xs = length ys \<Longrightarrow> be_val xs = be_val ys \<longleftrightarrow> xs = ys"
  using be_bytes_be_val by metis

lemma be_val_replicate_zero [simp]: "be_val (replicate n 0) = 0"
  by (induction n) simp_all

lemma be_val_zeros: "be_val (replicate n 0 @ bs) = be_val bs"
  by (simp add: be_val_append)

lemma be_val_zero_iff: "be_val bs = 0 \<longleftrightarrow> (\<forall>b \<in> set bs. b = 0)"
  by (induction bs) (auto simp: unat_eq_0)

lemma unat_u64_from_be_bytes: "length bs \<le> 8 \<Longrightarrow> unat (u64_from_be_bytes bs) = be_val bs"
proof -
  assume "length bs \<le> 8"
  then have "(256 :: nat) ^ length bs \<le> 256 ^ 8" by (intro power_increasing) simp_all
  then have "be_val bs < 2 ^ 64" using be_val_less [of bs] by simp
  then show ?thesis by (simp add: u64_from_be_bytes_def unsigned_of_nat take_bit_eq_mod)
qed

lemma unat_u128_from_be_bytes: "length bs \<le> 16 \<Longrightarrow> unat (u128_from_be_bytes bs) = be_val bs"
proof -
  assume "length bs \<le> 16"
  then have "(256 :: nat) ^ length bs \<le> 256 ^ 16" by (intro power_increasing) simp_all
  then have "be_val bs < 2 ^ 128" using be_val_less [of bs] by simp
  then show ?thesis by (simp add: u128_from_be_bytes_def unsigned_of_nat take_bit_eq_mod)
qed

lemma u64_bytes [simp]:
  "length (u64_to_be_bytes w) = 8" "be_val (u64_to_be_bytes w) = unat w"
  using u64_less [of w] by (simp_all add: u64_to_be_bytes_def)

lemma u128_bytes [simp]:
  "length (u128_to_be_bytes w) = 16" "be_val (u128_to_be_bytes w) = unat w"
  using unsigned_less [of w, where ?'a = nat] by (simp_all add: u128_to_be_bytes_def)

lemma length_limbs_to_be_bytes [simp]: "length (limbs_to_be_bytes s) = 32"
  by (cases s) (simp add: limbs_to_be_bytes_def)

lemma be_val_limbs_to_be_bytes [simp]: "be_val (limbs_to_be_bytes s) = lval s"
  by (cases s) (simp add: limbs_to_be_bytes_def be_val_append)

lemma lval_limbs_from_be_bytes:
  assumes "length bs = 32"
  shows "lval (limbs_from_be_bytes bs) = be_val bs"
proof -
  define a where "a = take 8 bs"
  define b where "b = take 8 (drop 8 bs)"
  define c where "c = take 8 (drop 16 bs)"
  define d where "d = take 8 (drop 24 bs)"
  note parts = a_def b_def c_def d_def
  have "drop 24 bs = d" "drop 16 bs = c @ drop 24 bs" "drop 8 bs = b @ drop 16 bs"
    using assms append_take_drop_id [of 8 "drop 16 bs"] append_take_drop_id [of 8 "drop 8 bs"]
    unfolding parts by simp_all
  then have bs: "bs = a @ b @ c @ d" unfolding a_def by (metis append_take_drop_id)
  have len: "length a = 8" "length b = 8" "length c = 8" "length d = 8"
    using assms by (simp_all add: parts)
  have "lval (limbs_from_be_bytes bs) =
      be_val d + 2 ^ 64 * be_val c + 2 ^ 128 * be_val b + 2 ^ 192 * be_val a"
    unfolding limbs_from_be_bytes_def Let_def lval.simps parts [symmetric]
    using len by (simp only: unat_u64_from_be_bytes order.refl)
  also have "\<dots> = be_val (a @ b @ c @ d)" unfolding be_val_append length_append len by simp
  also have "\<dots> = be_val bs" by (simp only: bs [symmetric])
  finally show ?thesis .
qed

end
