(* ===== verification/FieldConvert.thy ===== *)
theory FieldConvert
  imports Montgomery_Inverse Bytes
begin

text \<open>
  Conversions shared by the two Montgomery fields: big-endian bytes (\<^verbatim>\<open>convert.rs\<close>),
  rejection sampling (\<^verbatim>\<open>random.rs\<close>), comparison of native values (\<^verbatim>\<open>cmp.rs\<close>),
  exponentiation (\<^verbatim>\<open>pow.rs\<close>) and the bit iterators it runs on (\<^verbatim>\<open>bits.rs\<close>).
\<close>

unbundle bit_operations_syntax

section \<open>Bytes: \<^verbatim>\<open>convert.rs\<close>\<close>

definition from_be_bytes :: "modulus \<Rightarrow> u8 list \<Rightarrow> limbs" where
  "from_be_bytes m bytes = (let x = limbs_from_be_bytes bytes in const_mul m x (mod_R2 m))"

definition to_be_bytes :: "modulus \<Rightarrow> limbs \<Rightarrow> u8 list" where
  "to_be_bytes m x = (let s = const_reduce_full m x in limbs_to_be_bytes s)"

text \<open>\<^verbatim>\<open>into_le_bits\<close>: the 256 bits of the native limbs, least significant first.\<close>

definition limb_bits :: "u64 \<Rightarrow> bool list" where
  "limb_bits w = map (bit w) [0..<64]"

definition into_le_bits :: "modulus \<Rightarrow> limbs \<Rightarrow> bool list" where
  "into_le_bits m x = (case reduce_full m x of Limbs x0 x1 x2 x3 \<Rightarrow>
     limb_bits x0 @ limb_bits x1 @ limb_bits x2 @ limb_bits x3)"

section \<open>Comparison of native values: \<^verbatim>\<open>cmp.rs\<close>\<close>

definition const_cmp_native :: "modulus \<Rightarrow> limbs \<Rightarrow> limbs \<Rightarrow> ordering" where
  "const_cmp_native m x y =
     (let a = const_reduce_full m x; b = const_reduce_full m y in const_cmp a b)"

section \<open>Sampling: \<^verbatim>\<open>random.rs\<close>\<close>

text \<open>
  The random generator is a function \<open>rng\<close> giving the draws in order; \<open>i\<close> is the number
  of draws made. A sample is accepted when it is below the modulus.
\<close>

definition mont_sample :: "modulus \<Rightarrow> (nat \<Rightarrow> u64) \<Rightarrow> nat \<Rightarrow> limbs option \<times> nat" where
  "mont_sample m rng i =
     (let s = Limbs (rng i) (rng (i + 1)) (rng (i + 2)) (rng (i + 3) AND drop_bit 4 0xffffffffffffffff)
      in (if const_lt s (mod_P m) then Some s else None, i + 4))"

fun mont_random :: "nat \<Rightarrow> modulus \<Rightarrow> (nat \<Rightarrow> u64) \<Rightarrow> nat \<Rightarrow> (limbs \<times> nat) outcome" where
  "mont_random 0 m rng i = Inl OutOfFuel"
| "mont_random (Suc fuel) m rng i =
     (case mont_sample m rng i of
        (Some s, i) \<Rightarrow> Inr (s, i)
      | (None, i) \<Rightarrow> mont_random fuel m rng i)"

section \<open>Bit iterators: \<^verbatim>\<open>bits.rs\<close>\<close>

text \<open>
  An iterator over a slice \<open>s\<close> of words is the slice with its position. \<^verbatim>\<open>next\<close> returns the
  bit and the moved iterator, or \<open>None\<close> at the end.
\<close>

record bit_iterator_be =
  be_s :: "u64 list"
  be_n :: nat

record bit_iterator_le =
  le_s :: "u64 list"
  le_n :: nat
  le_max_len :: nat

definition bit_iterator_be_new :: "u64 list \<Rightarrow> bit_iterator_be" where
  "bit_iterator_be_new s = \<lparr> be_s = s, be_n = length s * 64 \<rparr>"

definition bit_iterator_be_next :: "bit_iterator_be \<Rightarrow> (bool \<times> bit_iterator_be) option outcome" where
  "bit_iterator_be_next it =
     (if be_n it = 0 then Inr None
      else
        let n = be_n it - 1; part = n div 64; b = n - 64 * part
        in bind_outcome (index_panic (be_s it) part)
          (\<lambda>w. Inr (Some (0 < w AND push_bit b 1, it\<lparr> be_n := n \<rparr>))))"

definition bit_iterator_le_new :: "u64 list \<Rightarrow> bit_iterator_le" where
  "bit_iterator_le_new s = \<lparr> le_s = s, le_n = 0, le_max_len = length s * 64 \<rparr>"

text \<open>Rust's \<^verbatim>\<open>leading_zeros\<close>: the zero bits above the most significant one.\<close>

definition leading_zeros :: "u64 \<Rightarrow> nat" where
  "leading_zeros w = length (takeWhile Not (rev (limb_bits w)))"

text \<open>The loop of \<^verbatim>\<open>without_trailing_zeros\<close>, from the last limb to the first.\<close>

fun first_trailing_zero :: "(nat \<times> u64) list \<Rightarrow> nat \<Rightarrow> nat" where
  "first_trailing_zero [] ftz = ftz"
| "first_trailing_zero ((i, limb) # rest) ftz =
     (let ftz = i * 64 + (64 - leading_zeros limb)
      in if limb \<noteq> 0 then ftz else first_trailing_zero rest ftz)"

definition without_trailing_zeros :: "u64 list \<Rightarrow> bit_iterator_le" where
  "without_trailing_zeros s =
     (let ftz = first_trailing_zero (rev (enumerate 0 s)) 0
      in (bit_iterator_le_new s)\<lparr> le_max_len := ftz \<rparr>)"

definition bit_iterator_le_next :: "bit_iterator_le \<Rightarrow> (bool \<times> bit_iterator_le) option outcome" where
  "bit_iterator_le_next it =
     (if le_n it = le_max_len it then Inr None
      else
        let part = le_n it div 64; b = le_n it - 64 * part
        in bind_outcome (index_panic (le_s it) part)
          (\<lambda>w. Inr (Some (0 < w AND push_bit b 1, it\<lparr> le_n := le_n it + 1 \<rparr>))))"

text \<open>A \<^verbatim>\<open>for\<close> loop over an iterator collects what \<^verbatim>\<open>next\<close> returns until \<open>None\<close>.\<close>

fun collect_be :: "nat \<Rightarrow> bit_iterator_be \<Rightarrow> bool list outcome" where
  "collect_be 0 it = Inl OutOfFuel"
| "collect_be (Suc fuel) it = bind_outcome (bit_iterator_be_next it)
     (\<lambda>r. case r of None \<Rightarrow> Inr []
        | Some (b, it) \<Rightarrow> bind_outcome (collect_be fuel it) (\<lambda>bs. Inr (b # bs)))"

fun collect_le :: "nat \<Rightarrow> bit_iterator_le \<Rightarrow> bool list outcome" where
  "collect_le 0 it = Inl OutOfFuel"
| "collect_le (Suc fuel) it = bind_outcome (bit_iterator_le_next it)
     (\<lambda>r. case r of None \<Rightarrow> Inr []
        | Some (b, it) \<Rightarrow> bind_outcome (collect_le fuel it) (\<lambda>bs. Inr (b # bs)))"

definition without_leading_zeros :: "u64 list \<Rightarrow> bool list outcome" where
  "without_leading_zeros s =
     bind_outcome (collect_be (64 * length s + 1) (bit_iterator_be_new s))
       (\<lambda>bs. Inr (dropWhile Not bs))"

section \<open>Exponentiation: \<^verbatim>\<open>pow.rs\<close>\<close>

definition pow_step :: "modulus \<Rightarrow> limbs \<Rightarrow> limbs \<Rightarrow> bool \<Rightarrow> limbs" where
  "pow_step m x res i =
     (let res = mont_square m res in if i then mont_mul m res x else res)"

definition mont_pow :: "modulus \<Rightarrow> limbs \<Rightarrow> u64 list \<Rightarrow> limbs outcome" where
  "mont_pow m x e = bind_outcome (without_leading_zeros e)
     (\<lambda>bits. Inr (foldl (pow_step m x) (mod_R m) bits))"

section \<open>Lemmas on bits\<close>

fun words_val :: "u64 list \<Rightarrow> nat" where
  "words_val [] = 0"
| "words_val (w # ws) = unat w + 2 ^ 64 * words_val ws"

definition bits_val :: "bool list \<Rightarrow> nat" where
  "bits_val bs = foldl (\<lambda>v b. 2 * v + of_bool b) 0 bs"

lemma words_val_cons: "words_val (w # ws) = unat w OR push_bit 64 (words_val ws)"
  using nat_or_disjoint [of "unat w" 64 "words_val ws"] u64_less [of w]
  by (simp add: push_bit_eq_mult mult.commute or.commute)

lemma bit_words_val:
  "i < 64 * length ws \<Longrightarrow> bit (words_val ws) i \<longleftrightarrow> bit (ws ! (i div 64)) (i mod 64)"
proof (induction ws arbitrary: i)
  case (Cons w ws)
  show ?case
  proof (cases "i < 64")
    case True
    then show ?thesis
      unfolding words_val_cons bit_or_iff bit_push_bit_iff_nat by (simp add: bit_unsigned_iff)
  next
    case False
    then have "bit (words_val ws) (i - 64) \<longleftrightarrow> bit (ws ! ((i - 64) div 64)) ((i - 64) mod 64)"
      using Cons by simp
    moreover have "(i - 64) mod 64 = i mod 64" and "i div 64 = Suc ((i - 64) div 64)"
      using False by (simp_all add: le_mod_geq le_div_geq)
    moreover have "\<not> bit (unat w) i" using False by (auto simp: bit_unsigned_iff dest: bit_imp_le_length)
    ultimately show ?thesis
      unfolding words_val_cons bit_or_iff bit_push_bit_iff_nat using False by simp
  qed
qed simp

lemma words_val_less: "words_val ws < 2 ^ (64 * length ws)"
proof (induction ws)
  case (Cons w ws)
  have "unat w + 2 ^ 64 * words_val ws < 2 ^ 64 * Suc (words_val ws)" using u64_less [of w] by simp
  also have "\<dots> \<le> 2 ^ 64 * 2 ^ (64 * length ws)" using Cons by (intro mult_le_mono) simp_all
  finally show ?case by (simp add: power_add)
qed simp

lemma bits_val_snoc [simp]: "bits_val [] = 0" "bits_val (bs @ [b]) = 2 * bits_val bs + of_bool b"
  by (simp_all add: bits_val_def)

lemma bits_val_append: "bits_val (xs @ ys) = bits_val xs * 2 ^ length ys + bits_val ys"
proof (induction ys rule: rev_induct)
  case (snoc y ys)
  have "bits_val (xs @ ys @ [y]) = 2 * bits_val (xs @ ys) + of_bool y"
    using bits_val_snoc(2) [of "xs @ ys" y] by simp
  then show ?case by (simp add: snoc algebra_simps)
qed simp

lemma bits_val_Cons: "bits_val (b # bs) = of_bool b * 2 ^ length bs + bits_val bs"
  using bits_val_append [of "[b]" bs] bits_val_snoc(2) [of "[]" b] by simp

lemma bits_val_dropWhile: "bits_val (dropWhile Not bs) = bits_val bs"
  by (induction bs) (simp_all add: bits_val_Cons)

lemma bits_val_bits: "bits_val (map (bit n) (rev [0..<k])) = n mod 2 ^ k"
proof (induction k)
  case (Suc k)
  have "bits_val (map (bit n) (rev [0..<Suc k])) = of_bool (bit n k) * 2 ^ k + n mod 2 ^ k"
    by (simp add: Suc bits_val_Cons)
  also have "\<dots> = n mod 2 ^ Suc k"
    unfolding take_bit_eq_mod [symmetric] take_bit_Suc_from_most by (simp only: mult.commute)
  finally show ?case .
qed simp

lemma collect_be_bits:
  assumes "n \<le> 64 * length s"
  shows "collect_be (Suc n) \<lparr> be_s = s, be_n = n \<rparr> = Inr (map (bit (words_val s)) (rev [0..<n]))"
  using assms
proof (induction n)
  case (Suc n)
  have "n div 64 < length s" using Suc.prems by (simp add: less_mult_imp_div_less)
  moreover have "n - 64 * (n div 64) = n mod 64" by (simp add: minus_mult_div_eq_mod)
  moreover have "bit (words_val s) n \<longleftrightarrow> 0 < s ! (n div 64) AND push_bit (n mod 64) 1"
    using Suc.prems by (simp only: bit_words_val Suc_le_eq bit_iff_and_push_bit_not_eq_0 [of "s ! _"] word_neq_0_conv)
  ultimately show ?case using Suc.IH Suc.prems
    by (simp add: collect_be.simps(2) [of "Suc n"] bit_iterator_be_next_def del: collect_be.simps push_bit_of_1)
qed (simp add: bit_iterator_be_next_def)

lemma without_leading_zeros_val:
  "\<exists>bits. without_leading_zeros s = Inr bits \<and> bits_val bits = words_val s"
  using collect_be_bits [of "64 * length s" s] words_val_less [of s]
  by (simp add: without_leading_zeros_def bit_iterator_be_new_def mult.commute
      bits_val_dropWhile bits_val_bits del: collect_be.simps)

lemma collect_le_bits:
  assumes "n + k \<le> 64 * length s"
  shows "collect_le (Suc k) \<lparr> le_s = s, le_n = n, le_max_len = n + k \<rparr>
    = Inr (map (bit (words_val s)) [n..<n + k])"
  using assms
proof (induction k arbitrary: n)
  case (Suc k)
  have "n div 64 < length s" using Suc.prems by (simp add: less_mult_imp_div_less)
  moreover have "n - 64 * (n div 64) = n mod 64" by (simp add: minus_mult_div_eq_mod)
  moreover have "bit (words_val s) n \<longleftrightarrow> 0 < s ! (n div 64) AND push_bit (n mod 64) 1"
    using Suc.prems by (simp only: bit_words_val bit_iff_and_push_bit_not_eq_0 [of "s ! _"] word_neq_0_conv)
  ultimately show ?case using Suc.IH [of "Suc n"] Suc.prems
    by (simp add: collect_le.simps(2) [of "Suc k"] bit_iterator_le_next_def upt_conv_Cons
        del: collect_le.simps push_bit_of_1 upt_Suc)
qed (simp add: bit_iterator_le_next_def)

lemma words_val_limbs: "words_val [x0, x1, x2, x3] = lval (Limbs x0 x1 x2 x3)"
  by simp

lemma limb_bits_append: "map (bit (words_val (w # ws))) [0..<64 * length (w # ws)]
    = limb_bits w @ map (bit (words_val ws)) [0..<64 * length ws]"
proof (rule nth_equalityI)
  fix i assume "i < length (map (bit (words_val (w # ws))) [0..<64 * length (w # ws)])"
  then have i: "i < 64 * length (w # ws)" by simp
  show "map (bit (words_val (w # ws))) [0..<64 * length (w # ws)] ! i
    = (limb_bits w @ map (bit (words_val ws)) [0..<64 * length ws]) ! i"
  proof (cases "i < 64")
    case True
    then show ?thesis using i bit_words_val [OF i] by (simp add: limb_bits_def nth_append del: words_val.simps)
  next
    case False
    then have "(i - 64) mod 64 = i mod 64" and "i div 64 = Suc ((i - 64) div 64)"
      by (simp_all add: le_mod_geq le_div_geq)
    then show ?thesis using False i bit_words_val [OF i] bit_words_val [of "i - 64" ws]
      by (simp add: limb_bits_def nth_append del: words_val.simps)
  qed
qed (simp add: limb_bits_def)

lemma limbs_bits:
  "limb_bits x0 @ limb_bits x1 @ limb_bits x2 @ limb_bits x3 = map (bit (lval (Limbs x0 x1 x2 x3))) [0..<256]"
  using limb_bits_append [of x0 "[x1, x2, x3]"] limb_bits_append [of x1 "[x2, x3]"]
    limb_bits_append [of x2 "[x3]"] limb_bits_append [of x3 "[]"]
  unfolding words_val_limbs [symmetric] by simp

context montgomery
begin

lemma into_le_bits_eq: "into_le_bits m x = map (bit (native m x)) [0..<256]"
  by (simp add: into_le_bits_def native_def limbs_bits split: limbs.split)

lemma pow_step_correct:
  assumes "reduced m x" and "reduced m r"
  shows "reduced m (pow_step m x r b)"
    and "native m (pow_step m x r b) = native m r ^ 2 * native m x ^ of_bool b mod lval (mod_P m)"
  using native_mul [OF assms(2), of r] native_mul [OF assms(1), of "const_mul m r r"] assms(2)
  by (simp_all add: pow_step_def Let_def square_eq_mul power2_eq_square mod_mult_left_eq)

lemma pow_loop_correct:
  assumes "reduced m x"
  shows "reduced m (foldl (pow_step m x) (mod_R m) bits) \<and>
    native m (foldl (pow_step m x) (mod_R m) bits) = native m x ^ bits_val bits mod lval (mod_P m)"
proof (induction bits rule: rev_induct)
  case Nil
  show ?case using reduced_one native_one P_gt_1 by simp
next
  case (snoc b bits)
  let ?r = "foldl (pow_step m x) (mod_R m) bits" and ?p = "lval (mod_P m)"
  let ?a = "native m x ^ bits_val bits" and ?c = "native m x ^ of_bool b"
  have r: "reduced m ?r" and n: "native m ?r = ?a mod ?p" using snoc by auto
  have "native m (pow_step m x ?r b) = ((?a mod ?p) ^ 2 * ?c) mod ?p"
    using pow_step_correct(2) [OF assms r] n by simp
  also have "\<dots> = (?a ^ 2 mod ?p * ?c) mod ?p" by (metis power_mod mod_mult_left_eq)
  also have "\<dots> = native m x ^ (2 * bits_val bits + of_bool b) mod ?p"
    by (simp add: mod_mult_left_eq mod_mult_right_eq power_add power_mult [symmetric] mult.commute)
  finally show ?case using pow_step_correct(1) [OF assms r] by simp
qed

lemma pow_correct:
  assumes "reduced m x"
  shows "\<exists>y. mont_pow m x e = Inr y \<and> reduced m y \<and>
    native m y = native m x ^ words_val e mod lval (mod_P m)"
  using without_leading_zeros_val [of e] pow_loop_correct [OF assms] by (auto simp: mont_pow_def)

lemma from_be_bytes_correct:
  assumes "length bs = 32"
  shows "native m (from_be_bytes m bs) = be_val bs mod lval (mod_P m)"
    and "reduced m (from_be_bytes m bs)"
  using from_native [of "limbs_from_be_bytes bs"] lval_limbs_from_be_bytes [OF assms]
  by (simp_all add: from_be_bytes_def)

lemma to_be_bytes_eq: "to_be_bytes m x = be_bytes 32 (native m x)"
proof -
  have "be_val (to_be_bytes m x) = native m x" and "length (to_be_bytes m x) = 32"
    by (simp_all add: to_be_bytes_def native_def)
  then show ?thesis using be_bytes_be_val_length by metis
qed

lemma P_less_bytes: "lval (mod_P m) < 256 ^ 32"
  using P_less by simp

lemma bytes_round_trip:
  assumes "reduced m x"
  shows "from_be_bytes m (to_be_bytes m x) = x"
proof -
  have "native m x < 256 ^ 32" using native_less [of x] P_less_bytes by linarith
  then have "native m (from_be_bytes m (to_be_bytes m x)) = native m x"
    by (simp add: to_be_bytes_eq from_be_bytes_correct)
  then show ?thesis
    by (rule native_inj) (use assms in \<open>simp_all add: to_be_bytes_eq from_be_bytes_correct\<close>)
qed

lemma from_to_be_bytes:
  assumes "length bs = 32"
  shows "to_be_bytes m (from_be_bytes m bs) = be_bytes 32 (be_val bs mod lval (mod_P m))"
  by (simp add: to_be_bytes_eq from_be_bytes_correct assms)

lemma cmp_native:
  "const_cmp_native m x y = (if native m x < native m y then Less
     else if native m x = native m y then Equal else Greater)"
  by (simp add: const_cmp_native_def native_def const_cmp_lval)

lemma sample_reduced: "mont_sample m rng i = (Some s, j) \<Longrightarrow> reduced m s"
  by (auto simp: mont_sample_def Let_def reduced_def split: if_splits)

lemma random_reduced: "mont_random fuel m rng i = Inr (s, j) \<Longrightarrow> reduced m s"
  by (induction fuel arbitrary: i) (auto split: prod.splits option.splits dest: sample_reduced)

end

end
