(* ===== verification/MontFelt.thy ===== *)
theory MontFelt
  imports FieldConvert
begin

text \<open>
  \<^verbatim>\<open>MontFelt\<close>, the base field of the Stark curve: the constants of
  \<^verbatim>\<open>montfelt/constants.rs\<close>, the interpretation of the Montgomery contract on them, hex
  strings (\<^verbatim>\<open>hex.rs\<close>) and square roots (\<^verbatim>\<open>sqrt.rs\<close>). The operations are those of
  \<open>Montgomery\<close> at the modulus \<open>montfelt\<close>.
\<close>

unbundle bit_operations_syntax

section \<open>Constants: \<^verbatim>\<open>constants.rs\<close>\<close>

definition montfelt :: modulus where
  "montfelt = \<lparr>
     mod_P = Limbs 1 0 0 576460752303423505,
     mod_R = Limbs 18446744073709551585 18446744073709551615 18446744073709551615 576460752303422960,
     mod_R2 = Limbs 18446741271209837569 5151653887 18446744073700081664 576413109808302096,
     mod_M0 = 18446744073709551615 \<rparr>"

definition mf_ZERO :: limbs where
  "mf_ZERO = Limbs 0 0 0 0"

definition mf_ONE :: limbs where
  "mf_ONE = mod_R montfelt"

definition mf_TWO :: limbs where
  "mf_TWO = const_add montfelt mf_ONE mf_ONE"

definition mf_THREE :: limbs where
  "mf_THREE = const_add montfelt mf_TWO mf_ONE"

definition SQRT_S :: nat where
  "SQRT_S = 192"

definition SQRT_T_MINUS_ONE_DIV2 :: "u64 list" where
  "SQRT_T_MINUS_ONE_DIV2 = [288230376151711752, 0, 0, 0]"

definition SQRT_Z :: limbs where
  "SQRT_Z = Limbs 4685640052668284376 12298664652803292137 735711535595279732 514024103053294630"

section \<open>Conversions: \<^verbatim>\<open>mont.rs\<close>\<close>

definition to_native :: "modulus \<Rightarrow> limbs \<Rightarrow> limbs" where
  "to_native m x = (case x of Limbs x0 x1 x2 x3 \<Rightarrow> mont_reduce m x0 x1 x2 x3 0 0 0 0)"

definition const_to_native :: "modulus \<Rightarrow> limbs \<Rightarrow> limbs" where
  "const_to_native m x = (case x of Limbs x0 x1 x2 x3 \<Rightarrow> const_mont_reduce m x0 x1 x2 x3 0 0 0 0)"

definition const_from_native :: "modulus \<Rightarrow> limbs \<Rightarrow> limbs" where
  "const_from_native m x = const_mul m x (mod_R2 m)"

definition from_native :: "modulus \<Rightarrow> limbs \<Rightarrow> limbs" where
  "from_native m x = mont_mul m x (mod_R2 m)"

section \<open>Hex strings: \<^verbatim>\<open>hex.rs\<close>\<close>

text \<open>A string is the list of its bytes; \<^verbatim>\<open>b'0'\<close> is 48, \<^verbatim>\<open>b'A'\<close> 65 and \<^verbatim>\<open>b'a'\<close> 97.\<close>

definition ALPHABET :: "u8 list" where
  "ALPHABET = [48, 49, 50, 51, 52, 53, 54, 55, 56, 57, 65, 66, 67, 68, 69, 70]"

definition limb_to_hex :: "u64 \<Rightarrow> u8 list" where
  "limb_to_hex limb =
     map (\<lambda>j. let v = drop_bit ((15 - j) * 4) limb AND 0xF in ALPHABET ! unat v) [0..<16]"

definition to_hex :: "limbs \<Rightarrow> u8 list" where
  "to_hex x = (case x of Limbs x0 x1 x2 x3 \<Rightarrow>
     limb_to_hex x3 @ limb_to_hex x2 @ limb_to_hex x1 @ limb_to_hex x0)"

definition hex_digit :: "u8 \<Rightarrow> u64 outcome" where
  "hex_digit c =
     (if 48 \<le> c \<and> c \<le> 57 then Inr (ucast c - 48)
      else if 97 \<le> c \<and> c \<le> 102 then Inr (ucast c - 97 + 10)
      else if 65 \<le> c \<and> c \<le> 70 then Inr (ucast c - 65 + 10)
      else Inl (Panic ''invalid hex''))"

text \<open>
  The loop of \<^verbatim>\<open>from_hex\<close> reads the bytes from the last to the first: \<open>i\<close> counts the
  nibbles of the limb being filled, \<open>j\<close> is its index and \<open>tmp\<close> its value so far. Writing a
  fifth limb is an index panic.
\<close>

definition set_limb :: "u64 list \<Rightarrow> nat \<Rightarrow> u64 \<Rightarrow> u64 list outcome" where
  "set_limb res j v = (if j < length res then Inr (res[j := v]) else Inl (Panic ''index out of bounds''))"

fun from_hex_loop :: "u8 list \<Rightarrow> u64 list \<Rightarrow> nat \<Rightarrow> nat \<Rightarrow> u64 \<Rightarrow> u64 list outcome" where
  "from_hex_loop [] res i j tmp = (if i \<noteq> 0 then set_limb res j tmp else Inr res)"
| "from_hex_loop (c # cs) res i j tmp =
     bind_outcome (hex_digit c) (\<lambda>v.
       let tmp = tmp OR push_bit (i * 4) v; i = i + 1
       in if i = 16
          then bind_outcome (set_limb res j tmp) (\<lambda>res. from_hex_loop cs res 0 (j + 1) 0)
          else from_hex_loop cs res i j tmp)"

definition from_hex :: "u8 list \<Rightarrow> limbs outcome" where
  "from_hex s =
     bind_outcome (from_hex_loop (rev s) [0, 0, 0, 0] 0 0 0) (\<lambda>res.
       let x = Limbs (res ! 0) (res ! 1) (res ! 2) (res ! 3)
       in Inr (const_mul montfelt x (mod_R2 montfelt)))"

section \<open>Square roots: \<^verbatim>\<open>sqrt.rs\<close>\<close>

text \<open>The search for the least \<open>k\<close> with \<open>b\<^bsup>2\<^sup>k\<^esup> = 1\<close>.\<close>

fun sqrt_order :: "nat \<Rightarrow> limbs \<Rightarrow> nat \<Rightarrow> nat outcome" where
  "sqrt_order 0 b2k k = Inl OutOfFuel"
| "sqrt_order (Suc fuel) b2k k =
     (if \<not> is_one montfelt b2k then sqrt_order fuel (mont_square montfelt b2k) (k + 1) else Inr k)"

fun square_times :: "nat \<Rightarrow> limbs \<Rightarrow> limbs" where
  "square_times 0 w = w"
| "square_times (Suc n) w = square_times n (mont_square montfelt w)"

text \<open>
  The outer loop, with \<^verbatim>\<open>for _ in 1..j\<close> as \<open>j - 1\<close> squarings; \<open>v - k\<close> is a subtraction
  of \<^verbatim>\<open>u32\<close> values that panics below zero.
\<close>

fun sqrt_loop :: "nat \<Rightarrow> limbs \<Rightarrow> limbs \<Rightarrow> limbs \<Rightarrow> nat \<Rightarrow> limbs option outcome" where
  "sqrt_loop 0 z x b v = Inl OutOfFuel"
| "sqrt_loop (Suc fuel) z x b v =
     (if \<not> is_one montfelt b then
        bind_outcome (sqrt_order 256 b 0) (\<lambda>k.
          if k = SQRT_S then Inr None
          else if v < k then Inl (Panic ''attempt to subtract with overflow'')
          else
            let j = v - k;
                w = square_times (j - 1) z;
                z = mont_square montfelt w;
                b = mont_mul montfelt b z;
                x = mont_mul montfelt x w
            in sqrt_loop fuel z x b k)
      else Inr (Some x))"

definition mont_sqrt :: "limbs \<Rightarrow> limbs option outcome" where
  "mont_sqrt a =
     (if is_zero a then Inr (Some mf_ZERO)
      else bind_outcome (mont_pow montfelt a SQRT_T_MINUS_ONE_DIV2) (\<lambda>w.
        let x = mont_mul montfelt w a;
            b = mont_mul montfelt x w
        in sqrt_loop 256 SQRT_Z x b SQRT_S))"

section \<open>The modulus\<close>

definition field_prime :: nat where
  "field_prime = 2 ^ 251 + 17 * 2 ^ 192 + 1"

lemma montfelt_P: "lval (mod_P montfelt) = field_prime"
  by (simp add: montfelt_def field_prime_def)

interpretation mf: montgomery montfelt
proof
  show "limb0 (mod_P montfelt) * mod_M0 montfelt = - 1"
    by (simp add: montfelt_def)
  show "1 < lval (mod_P montfelt)" and "lval (mod_P montfelt) < 2 ^ 252"
    by (simp_all add: montfelt_def)
  have "2 ^ 256 mod lval (mod_P montfelt) = lval (mod_R montfelt)"
    by (rule mod_certificate [where q = 31]) (simp_all add: montfelt_def)
  then show "lval (mod_R montfelt) = 2 ^ 256 mod lval (mod_P montfelt)" ..
  have "2 ^ 512 mod lval (mod_P montfelt) = lval (mod_R2 montfelt)"
    by (rule mod_certificate [where q = 3705346855594118144282484510666677536908898417776389998423301241944182158785535])
      (simp_all add: montfelt_def)
  then show "lval (mod_R2 montfelt) = 2 ^ 512 mod lval (mod_P montfelt)" ..
qed

section \<open>Hex strings\<close>

text \<open>The value of a hex digit, of either case.\<close>

definition hex_val :: "u8 \<Rightarrow> nat option" where
  "hex_val c =
     (if 48 \<le> c \<and> c \<le> 57 then Some (unat c - 48)
      else if 65 \<le> c \<and> c \<le> 70 then Some (unat c - 55)
      else if 97 \<le> c \<and> c \<le> 102 then Some (unat c - 87)
      else None)"

definition hex_string_val :: "u8 list \<Rightarrow> nat" where
  "hex_string_val s = foldl (\<lambda>n c. n * 16 + the (hex_val c)) 0 s"

definition is_hex :: "u8 list \<Rightarrow> bool" where
  "is_hex s = list_all (\<lambda>c. hex_val c \<noteq> None) s"

lemma u8_range:
  assumes "a \<le> (c :: u8)" and "c \<le> b"
  shows "unat a \<le> unat c" and "unat c \<le> unat b"
  using assms by (simp_all add: word_le_nat_alt)

lemma unat_ucast_u8: "unat (ucast (c :: u8) :: u64) = unat c"
  using u8_less [of c] by (simp add: unsigned_ucast_eq take_bit_eq_mod)

lemma hex_digit_val:
  assumes "hex_val c = Some d"
  shows "\<exists>v. hex_digit c = Inr v \<and> unat v = d \<and> d < 16"
proof -
  have c: "unat (ucast c :: u64) = unat c" by (rule unat_ucast_u8)
  have sub: "unat ((ucast c :: u64) - k) = unat c - unat k" if "unat k \<le> unat c" for k
    using that c by (simp add: unat_sub word_le_nat_alt)
  have dig: "unat ((ucast c :: u64) - k + 10) = unat c - unat k + 10" if "unat k \<le> unat c" "unat c \<le> unat k + 5" for k
    using that c u8_less [of c] sub [of k] by (simp add: unat_word_ariths)
  show ?thesis
    using assms u8_range [of 48 c 57] u8_range [of 97 c 102] u8_range [of 65 c 70] sub [of 48] dig [of 65] dig [of 97]
    unfolding hex_val_def hex_digit_def by (auto split: if_splits)
qed

lemma hex_digit_invalid: "hex_val c = None \<Longrightarrow> hex_digit c = Inl (Panic ''invalid hex'')"
  by (auto simp: hex_val_def hex_digit_def split: if_splits)

lemma words_val_replicate: "words_val (replicate n 0) = 0"
  by (induction n) simp_all

lemma words_val_update:
  "j < length res \<Longrightarrow> res ! j = 0 \<Longrightarrow> words_val (res[j := v]) = words_val res + 2 ^ (64 * j) * unat v"
proof (induction res arbitrary: j)
  case (Cons w ws)
  then show ?case by (cases j) (simp_all add: power_add algebra_simps)
qed simp

lemma unat_nibble_or:
  fixes tmp v :: u64
  assumes "unat tmp < 2 ^ (4 * i)" and "unat v < 16" and "i < 16"
  shows "unat (tmp OR push_bit (i * 4) v) = unat tmp + 2 ^ (4 * i) * unat v"
    and "unat (tmp OR push_bit (i * 4) v) < 2 ^ (4 * (i + 1))"
proof -
  have le: "(2 :: nat) ^ (4 * (i + 1)) \<le> 2 ^ 64" using assms(3) by (intro power_increasing) simp_all
  have bound: "unat tmp + 2 ^ (4 * i) * unat v < 2 ^ (4 * (i + 1))"
  proof -
    have "2 ^ (4 * i) * unat v \<le> 2 ^ (4 * i) * (15 :: nat)" using assms(2) by (intro mult_le_mono2) simp
    then have "unat tmp + 2 ^ (4 * i) * unat v < 2 ^ (4 * i) * 16" using assms(1) by linarith
    then show ?thesis by (simp add: power_add)
  qed
  have v: "unat (push_bit (i * 4) v) = 2 ^ (4 * i) * unat v"
  proof -
    have "(2 :: nat) ^ 4 \<le> 2 ^ (64 - i * 4)" using assms(3) by (intro power_increasing) simp_all
    then have "unat v mod 2 ^ (64 - i * 4) = unat v" using assms(2) by simp
    then show ?thesis using assms(3) by (simp add: unat_push_bit_u64 mult.commute del: push_bit_eq_mult)
  qed
  show "unat (tmp OR push_bit (i * 4) v) = unat tmp + 2 ^ (4 * i) * unat v"
    unfolding unsigned_or_eq v using nat_or_disjoint [OF assms(1), of "unat v"] by (simp add: or.commute)
  with bound show "unat (tmp OR push_bit (i * 4) v) < 2 ^ (4 * (i + 1))" by simp
qed

fun rev_hex_val :: "u8 list \<Rightarrow> nat" where
  "rev_hex_val [] = 0"
| "rev_hex_val (c # cs) = the (hex_val c) + 16 * rev_hex_val cs"

lemma hex_string_val_rev: "hex_string_val s = rev_hex_val (rev s)"
  by (induction s rule: rev_induct) (simp_all add: hex_string_val_def)

lemma hex_string_val_less: "is_hex s \<Longrightarrow> hex_string_val s < 16 ^ length s"
proof (induction s rule: rev_induct)
  case (snoc c s)
  then obtain d where "hex_val c = Some d" by (auto simp: is_hex_def)
  moreover from hex_digit_val [OF this] have "d < 16" by auto
  ultimately show ?case using snoc by (simp add: hex_string_val_def is_hex_def)
qed (simp add: hex_string_val_def)

lemma from_hex_loop_val:
  assumes "is_hex cs" and "length res = 4" and "\<forall>k. j \<le> k \<longrightarrow> k < 4 \<longrightarrow> res ! k = 0"
    and "unat tmp < 2 ^ (4 * i)" and "i < 16" and "16 * j + i + length cs \<le> 64"
  shows "\<exists>r. from_hex_loop cs res i j tmp = Inr r \<and> length r = 4 \<and>
    words_val r = words_val res + 2 ^ (64 * j) * (unat tmp + 2 ^ (4 * i) * rev_hex_val cs)"
  using assms
proof (induction cs arbitrary: res i j tmp)
  case Nil
  show ?case
  proof (cases "i = 0")
    case False
    then have "j < 4" using Nil.prems(6) by simp
    then show ?thesis using False Nil.prems(2,3) by (simp add: set_limb_def words_val_update)
  qed (use Nil.prems in simp)
next
  case (Cons c cs)
  obtain d where d: "hex_val c = Some d" using Cons.prems(1) by (auto simp: is_hex_def)
  with hex_digit_val obtain v where v: "hex_digit c = Inr v" "unat v = d" "d < 16" by blast
  have hex: "is_hex cs" using Cons.prems(1) by (simp add: is_hex_def)
  let ?t = "tmp OR push_bit (i * 4) v"
  have t: "unat ?t = unat tmp + 2 ^ (4 * i) * d" "unat ?t < 2 ^ (4 * (i + 1))"
    using unat_nibble_or [OF Cons.prems(4) _ Cons.prems(5), of v] v by simp_all
  show ?case
  proof (cases "i + 1 = 16")
    case True
    then have i: "i = 15" by simp
    have j: "j < 4" using Cons.prems(6) i by simp
    have z: "\<forall>k. j + 1 \<le> k \<longrightarrow> k < 4 \<longrightarrow> res[j := ?t] ! k = 0" using Cons.prems(3) by simp
    have "\<exists>r. from_hex_loop cs (res[j := ?t]) 0 (j + 1) 0 = Inr r \<and> length r = 4 \<and>
      words_val r = words_val (res[j := ?t]) + 2 ^ (64 * (j + 1)) * (unat (0 :: u64) + 2 ^ (4 * 0) * rev_hex_val cs)"
      by (rule Cons.IH [OF hex _ z]) (use Cons.prems i in simp_all)
    moreover have "words_val (res[j := ?t]) = words_val res + 2 ^ (64 * j) * unat ?t"
      using Cons.prems(2,3) j by (simp add: words_val_update)
    ultimately show ?thesis
      using v j t Cons.prems(2) d by (auto simp: i set_limb_def power_add algebra_simps)
  next
    case False
    have "\<exists>r. from_hex_loop cs res (i + 1) j ?t = Inr r \<and> length r = 4 \<and>
      words_val r = words_val res + 2 ^ (64 * j) * (unat ?t + 2 ^ (4 * (i + 1)) * rev_hex_val cs)"
      by (rule Cons.IH [OF hex]) (use Cons.prems False t in simp_all)
    then show ?thesis using v False t d by (auto simp: Let_def power_add algebra_simps)
  qed
qed

lemma length_4_limbs: "length r = 4 \<Longrightarrow> lval (Limbs (r ! 0) (r ! 1) (r ! 2) (r ! 3)) = words_val r"
proof -
  assume "length r = 4"
  then obtain a b c d where "r = [a, b, c, d]" by (auto simp: eval_nat_numeral length_Suc_conv)
  then show ?thesis by simp
qed

lemma from_hex_correct:
  assumes "is_hex s" and "length s \<le> 64"
  shows "\<exists>x. from_hex s = Inr x \<and> reduced montfelt x \<and>
    native montfelt x = hex_string_val s mod field_prime"
proof -
  have zeros: "[0, 0, 0, 0] = (replicate 4 0 :: u64 list)" by (simp add: eval_nat_numeral)
  obtain r where r: "from_hex_loop (rev s) [0, 0, 0, 0] 0 0 0 = Inr r" "length r = 4"
    "words_val r = hex_string_val s"
    using from_hex_loop_val [of "rev s" "replicate 4 0" 0 0 0] assms
    unfolding zeros by (auto simp: is_hex_def hex_string_val_rev words_val_replicate)
  then show ?thesis
    using mf.from_native [of "Limbs (r ! 0) (r ! 1) (r ! 2) (r ! 3)"] length_4_limbs [OF r(2)]
    by (simp add: from_hex_def montfelt_P)
qed

lemma hex_string_val_append:
  "hex_string_val (xs @ ys) = hex_string_val xs * 16 ^ length ys + hex_string_val ys"
proof (induction ys rule: rev_induct)
  case (snoc y ys)
  have "hex_string_val ((xs @ ys) @ [y]) = hex_string_val (xs @ ys) * 16 + the (hex_val y)"
    by (simp add: hex_string_val_def)
  moreover have "hex_string_val (ys @ [y]) = hex_string_val ys * 16 + the (hex_val y)"
    by (simp add: hex_string_val_def)
  ultimately show ?case using snoc by (simp add: algebra_simps)
qed (simp add: hex_string_val_def)

lemma alphabet_val: "k < 16 \<Longrightarrow> hex_val (ALPHABET ! k) = Some k"
proof -
  have "list_all (\<lambda>k. hex_val (ALPHABET ! k) = Some k) [0..<16]"
    by (simp add: ALPHABET_def hex_val_def upt_rec [of _ "numeral _"])
  then show "k < 16 \<Longrightarrow> hex_val (ALPHABET ! k) = Some k" by (simp add: list_all_iff)
qed

lemma nibbles_val:
  "hex_string_val (map (\<lambda>j. ALPHABET ! (w div 16 ^ (n - 1 - j) mod 16)) [0..<n]) = w mod 16 ^ n"
proof (induction n arbitrary: w)
  case (Suc n)
  have "map (\<lambda>j. ALPHABET ! (w div 16 ^ (Suc n - 1 - j) mod 16)) [0..<Suc n]
      = map (\<lambda>j. ALPHABET ! (w div 16 div 16 ^ (n - 1 - j) mod 16)) [0..<n] @ [ALPHABET ! (w mod 16)]"
    by (auto simp: div_mult2_eq [symmetric] power_Suc [symmetric] Suc_diff_Suc simp del: power_Suc)
  moreover have "w mod 16 ^ Suc n = 16 * (w div 16 mod 16 ^ n) + w mod 16" by (simp add: mod_mult2_eq)
  ultimately show ?case
    using Suc [of "w div 16"] by (simp only: hex_string_val_append) (simp add: alphabet_val hex_string_val_def [of "[_]"])
qed (simp add: hex_string_val_def)

lemma limb_to_hex_eq: "limb_to_hex w = map (\<lambda>j. ALPHABET ! (unat w div 16 ^ (16 - 1 - j) mod 16)) [0..<16]"
proof -
  have "unat (drop_bit (k * 4) w AND 0xF) = unat w div 16 ^ k mod 16" for k
  proof -
    have "drop_bit (k * 4) w AND 0xF = take_bit 4 (drop_bit (k * 4) w)"
      by (simp add: take_bit_eq_mask mask_eq_exp_minus_1)
    moreover have "(16 :: nat) ^ k = 2 ^ (k * 4)" using power_mult [of "2 :: nat" 4 k] by (simp add: mult.commute)
    ultimately show ?thesis
      by (simp only: unsigned_take_bit_eq unat_drop_bit_u64) (simp add: take_bit_eq_mod)
  qed
  then show ?thesis by (simp add: limb_to_hex_def Let_def)
qed

lemma is_hex_to_hex: "is_hex (to_hex x)"
  by (cases x) (auto simp: to_hex_def is_hex_def list_all_iff limb_to_hex_eq alphabet_val)

lemma hex_string_val_to_hex: "hex_string_val (to_hex x) = lval x"
proof -
  have limb: "hex_string_val (limb_to_hex w) = unat w" "length (limb_to_hex w) = 16" for w
    unfolding limb_to_hex_eq nibbles_val using u64_less [of w] by simp_all
  show ?thesis by (cases x) (simp add: to_hex_def hex_string_val_append limb)
qed

lemma length_to_hex: "length (to_hex x) = 64"
  by (cases x) (simp add: to_hex_def limb_to_hex_def)

lemma hex_round_trip:
  assumes "reduced montfelt x"
  shows "from_hex (to_hex (reduce_full montfelt x)) = Inr x"
proof -
  obtain y where y: "from_hex (to_hex (reduce_full montfelt x)) = Inr y" "reduced montfelt y"
    "native montfelt y = lval (reduce_full montfelt x) mod field_prime"
    using from_hex_correct [OF is_hex_to_hex, of "reduce_full montfelt x"]
    by (auto simp: length_to_hex hex_string_val_to_hex)
  then have "native montfelt y = native montfelt x"
    using mf.native_less [of x] by (simp add: native_def montfelt_P)
  then show ?thesis using mf.native_inj y(1,2) assms by blast
qed

end
