(* ===== verification/CurveOrder.thy ===== *)
theory CurveOrder
  imports MontFelt
begin

text \<open>
  \<^verbatim>\<open>CurveOrderMontFelt\<close>, the scalar field of the Stark curve. Its arithmetic is the same
  \<^verbatim>\<open>const fn\<close> code as that of \<^verbatim>\<open>MontFelt\<close> on other constants, so each operation is the
  operation of \<open>Montgomery\<close> at the modulus \<open>curveorder\<close>; what differs (comparison through
  \<^verbatim>\<open>isize\<close>, doubling, conversion from the base field) is written out.
\<close>

unbundle bit_operations_syntax

section \<open>Constants: \<^verbatim>\<open>constants.rs\<close>\<close>

definition curveorder :: modulus where
  "curveorder = \<lparr>
     mod_P = Limbs 2190616671734353199 13222870243701404210 18446744073709551615 576460752303423504,
     mod_R = Limbs 5877859471073257295 14366136140576156654 8 576460752303422961,
     mod_R2 = Limbs 6927015553468754061 5808788430323081401 13470454832524147387 565735549540988526,
     mod_M0 = 13504954208620504625 \<rparr>"

definition co_ZERO :: limbs where
  "co_ZERO = Limbs 0 0 0 0"

definition co_ONE :: limbs where
  "co_ONE = mod_R curveorder"

section \<open>Comparison: \<^verbatim>\<open>cmp.rs\<close>\<close>

definition co_is_one :: "limbs \<Rightarrow> bool" where
  "co_is_one x = is_one curveorder x"

definition co_cmp :: "limbs \<Rightarrow> limbs \<Rightarrow> int" where
  "co_cmp x y = (case (x, y) of (Limbs x0 x1 x2 x3, Limbs y0 y1 y2 y3) \<Rightarrow>
     if x3 > y3 then 1 else if x3 < y3 then - 1
     else if x2 > y2 then 1 else if x2 < y2 then - 1
     else if x1 > y1 then 1 else if x1 < y1 then - 1
     else if x0 > y0 then 1 else if x0 < y0 then - 1
     else 0)"

definition co_mont_cmp :: "limbs \<Rightarrow> limbs \<Rightarrow> int" where
  "co_mont_cmp x y =
     (let a = const_reduce_full curveorder x; b = const_reduce_full curveorder y in co_cmp a b)"

definition co_eq :: "limbs \<Rightarrow> limbs \<Rightarrow> bool" where
  "co_eq x y \<longleftrightarrow> co_cmp x y = 0"

definition co_gt :: "limbs \<Rightarrow> limbs \<Rightarrow> bool" where
  "co_gt x y \<longleftrightarrow> co_cmp x y > 0"

definition co_geq :: "limbs \<Rightarrow> limbs \<Rightarrow> bool" where
  "co_geq x y \<longleftrightarrow> co_cmp x y \<ge> 0"

definition co_lt :: "limbs \<Rightarrow> limbs \<Rightarrow> bool" where
  "co_lt x y \<longleftrightarrow> co_cmp x y < 0"

definition co_leq :: "limbs \<Rightarrow> limbs \<Rightarrow> bool" where
  "co_leq x y \<longleftrightarrow> co_cmp x y \<le> 0"

definition co_partial_cmp :: "limbs \<Rightarrow> limbs \<Rightarrow> ordering option" where
  "co_partial_cmp x y =
     (let c = co_mont_cmp x y
      in if c = 1 then Some Greater else if c = - 1 then Some Less
         else if c = 0 then Some Equal else None)"

section \<open>Arithmetic: \<^verbatim>\<open>additive.rs\<close>, \<^verbatim>\<open>reduce.rs\<close>, \<^verbatim>\<open>multiplicative.rs\<close>, \<^verbatim>\<open>inverse.rs\<close>\<close>

definition co_reduce_partial :: "limbs \<Rightarrow> limbs" where
  "co_reduce_partial x =
     (if co_geq x (mod_P curveorder) then const_sub_noreduce x (mod_P curveorder) else x)"

definition co_const_add :: "limbs \<Rightarrow> limbs \<Rightarrow> limbs" where
  "co_const_add x y = co_reduce_partial (const_add_noreduce x y)"

definition co_const_sub :: "limbs \<Rightarrow> limbs \<Rightarrow> limbs" where
  "co_const_sub x y =
     (if co_gt y x then const_sub_noreduce (const_add_noreduce x (mod_P curveorder)) y
      else const_sub_noreduce x y)"

definition co_const_neg :: "limbs \<Rightarrow> limbs" where
  "co_const_neg x = (if is_zero x then x else const_sub_noreduce (mod_P curveorder) x)"

definition co_double :: "limbs \<Rightarrow> limbs" where
  "co_double x = co_const_add x x"

definition co_mont_reduce ::
  "u64 \<Rightarrow> u64 \<Rightarrow> u64 \<Rightarrow> u64 \<Rightarrow> u64 \<Rightarrow> u64 \<Rightarrow> u64 \<Rightarrow> u64 \<Rightarrow> limbs" where
  "co_mont_reduce = const_mont_reduce curveorder"

definition co_reduce_full :: "limbs \<Rightarrow> limbs" where
  "co_reduce_full x = (case x of Limbs x0 x1 x2 x3 \<Rightarrow> co_mont_reduce x0 x1 x2 x3 0 0 0 0)"

definition co_const_mul :: "limbs \<Rightarrow> limbs \<Rightarrow> limbs" where
  "co_const_mul = const_mul curveorder"

definition co_const_mul_cios :: "limbs \<Rightarrow> limbs \<Rightarrow> limbs" where
  "co_const_mul_cios = const_mul_cios curveorder"

definition co_square :: "limbs \<Rightarrow> limbs" where
  "co_square = const_square curveorder"

definition co_inverse :: "limbs \<Rightarrow> limbs option outcome" where
  "co_inverse = mont_inverse curveorder"

section \<open>Conversions: \<^verbatim>\<open>convert.rs\<close>\<close>

definition co_from_be_bytes :: "u8 list \<Rightarrow> limbs" where
  "co_from_be_bytes = from_be_bytes curveorder"

definition co_to_be_bytes :: "limbs \<Rightarrow> u8 list" where
  "co_to_be_bytes = to_be_bytes curveorder"

definition co_from_limbs :: "limbs \<Rightarrow> limbs" where
  "co_from_limbs x = co_const_mul x (mod_R2 curveorder)"

definition co_into_le_bits :: "limbs \<Rightarrow> bool list" where
  "co_into_le_bits = into_le_bits curveorder"

text \<open>A string literal of the source as its bytes, and a constant evaluated at compile time.\<close>

definition ascii :: "string \<Rightarrow> u8 list" where
  "ascii s = map of_char s"

definition const_eval :: "'a outcome \<Rightarrow> 'a" where
  "const_eval r = projr r"

definition CURVE_ORDER :: limbs where
  "CURVE_ORDER = const_eval (from_hex
     (ascii ''800000000000010FFFFFFFFFFFFFFFFB781126DCAE7B2321E66A241ADC64D2F''))"

text \<open>The error type of the conversion is the unit type, as in the source.\<close>

definition co_try_from_montfelt :: "limbs \<Rightarrow> unit + limbs" where
  "co_try_from_montfelt value =
     (if const_cmp_native montfelt value CURVE_ORDER = Less
      then let bytes = to_be_bytes montfelt value in Inr (co_from_be_bytes bytes)
      else Inl ())"

definition montfelt_from_curveorder :: "limbs \<Rightarrow> limbs" where
  "montfelt_from_curveorder value =
     (let bytes = co_to_be_bytes value in from_be_bytes montfelt bytes)"

definition co_sample :: "(nat \<Rightarrow> u64) \<Rightarrow> nat \<Rightarrow> limbs option \<times> nat" where
  "co_sample rng i =
     (let s = Limbs (rng i) (rng (i + 1)) (rng (i + 2)) (rng (i + 3) AND drop_bit 4 0xffffffffffffffff)
      in (if co_lt s (mod_P curveorder) then Some s else None, i + 4))"

section \<open>The order of the curve\<close>

definition curve_order :: nat where
  "curve_order = 3618502788666131213697322783095070105526743751716087489154079457884512865583"

lemma curveorder_P: "lval (mod_P curveorder) = curve_order"
  by (simp add: curveorder_def curve_order_def)

interpretation co: montgomery curveorder
proof
  show "limb0 (mod_P curveorder) * mod_M0 curveorder = - 1"
    by (simp add: curveorder_def)
  show "1 < lval (mod_P curveorder)" and "lval (mod_P curveorder) < 2 ^ 252"
    by (simp_all add: curveorder_def)
  have "2 ^ 256 mod lval (mod_P curveorder) = lval (mod_R curveorder)"
    by (rule mod_certificate [where q = 31]) (simp_all add: curveorder_def)
  then show "lval (mod_R curveorder) = 2 ^ 256 mod lval (mod_P curveorder)" ..
  have "2 ^ 512 mod lval (mod_P curveorder) = lval (mod_R2 curveorder)"
    by (rule mod_certificate [where q = 3705346855594118144282484510666677537007574604518671424481989622055537068191997])
      (simp_all add: curveorder_def)
  then show "lval (mod_R2 curveorder) = 2 ^ 512 mod lval (mod_P curveorder)" ..
qed

lemma co_cmp_lval: "co_cmp x y = (if lval y < lval x then 1 else if lval x < lval y then - 1 else 0)"
proof -
  have "co_cmp x y = (case const_cmp x y of Greater \<Rightarrow> 1 | Less \<Rightarrow> - 1 | Equal \<Rightarrow> 0)"
    by (cases x; cases y) (auto simp: co_cmp_def const_cmp_def)
  then show ?thesis by (simp add: const_cmp_lval)
qed

lemma co_cmp_simps [simp]:
  "co_eq x y \<longleftrightarrow> x = y"
  "co_gt x y \<longleftrightarrow> lval y < lval x"
  "co_geq x y \<longleftrightarrow> lval y \<le> lval x"
  "co_lt x y \<longleftrightarrow> lval x < lval y"
  "co_leq x y \<longleftrightarrow> lval x \<le> lval y"
  by (auto simp: co_eq_def co_gt_def co_geq_def co_lt_def co_leq_def co_cmp_lval lval_inj [symmetric])

lemma co_operations [simp]:
  "co_reduce_partial x = const_reduce_partial curveorder x"
  "co_const_add x y = const_add curveorder x y"
  "co_const_sub x y = const_sub curveorder x y"
  "co_const_neg x = const_neg curveorder x"
  "co_reduce_full x = const_reduce_full curveorder x"
  by (simp_all add: co_reduce_partial_def const_reduce_partial_def co_const_add_def const_add_def
      co_const_sub_def const_sub_def co_const_neg_def const_neg_def co_reduce_full_def
      co_mont_reduce_def const_reduce_full_def split: limbs.split)

text \<open>The order is below the field prime: \<^verbatim>\<open>CURVE_ORDER\<close> is it as a field element.\<close>

lemma curve_order_less: "curve_order < field_prime"
  by (simp add: curve_order_def field_prime_def)

lemma CURVE_ORDER_eq:
  shows "reduced montfelt CURVE_ORDER" and "native montfelt CURVE_ORDER = curve_order"
proof -
  define s where "s = ascii ''800000000000010FFFFFFFFFFFFFFFFB781126DCAE7B2321E66A241ADC64D2F''"
  have "is_hex s" and "length s \<le> 64" and "hex_string_val s = curve_order"
    unfolding s_def by (simp_all add: is_hex_def ascii_def hex_val_def hex_string_val_def curve_order_def)
  with from_hex_correct [of s] obtain x where "from_hex s = Inr x" "reduced montfelt x"
    "native montfelt x = curve_order"
    using curve_order_less by auto
  then show "reduced montfelt CURVE_ORDER" and "native montfelt CURVE_ORDER = curve_order"
    by (simp_all add: CURVE_ORDER_def const_eval_def s_def)
qed

lemma co_try_from_montfelt_correct:
  "co_try_from_montfelt x = (if native montfelt x < curve_order
     then Inr (from_be_bytes curveorder (be_bytes 32 (native montfelt x))) else Inl ())"
  by (simp add: co_try_from_montfelt_def mf.cmp_native CURVE_ORDER_eq co_from_be_bytes_def
      mf.to_be_bytes_eq Let_def)

lemma field_prime_less: "field_prime < 256 ^ 32"
  by (simp add: field_prime_def)

lemma co_from_montfelt_native:
  assumes "co_try_from_montfelt x = Inr y"
  shows "reduced curveorder y" and "native curveorder y = native montfelt x"
proof -
  have "native montfelt x < curve_order"
    and y: "y = from_be_bytes curveorder (be_bytes 32 (native montfelt x))"
    using assms by (auto simp: co_try_from_montfelt_correct split: if_splits)
  moreover have "native montfelt x < 256 ^ 32"
    using mf.native_less [of x] field_prime_less by (simp add: montfelt_P)
  ultimately show "reduced curveorder y" and "native curveorder y = native montfelt x"
    by (simp_all add: co.from_be_bytes_correct curveorder_P)
qed

lemma montfelt_from_curveorder_native:
  "native montfelt (montfelt_from_curveorder y) = native curveorder y"
  "reduced montfelt (montfelt_from_curveorder y)"
proof -
  have "native curveorder y < field_prime"
    using co.native_less [of y] curve_order_less by (simp add: curveorder_P)
  then show "native montfelt (montfelt_from_curveorder y) = native curveorder y"
    and "reduced montfelt (montfelt_from_curveorder y)"
    using field_prime_less
    by (simp_all add: montfelt_from_curveorder_def co_to_be_bytes_def co.to_be_bytes_eq
        mf.from_be_bytes_correct montfelt_P)
qed

lemma co_try_from_round_trip:
  assumes "reduced montfelt x" and "co_try_from_montfelt x = Inr y"
  shows "montfelt_from_curveorder y = x"
  using assms co_from_montfelt_native(2) [OF assms(2)] montfelt_from_curveorder_native mf.native_inj by metis

end
