(* ===== verification/Felt.thy ===== *)
theory Felt
  imports CurveOrder
begin

text \<open>
  \<^verbatim>\<open>Felt\<close>, the field element of the rest of the node: 32 big-endian bytes
  (\<^verbatim>\<open>crates/crypto/src/algebra/field/felt.rs\<close>). Conversions from and to bytes, bits,
  integers, hex strings and Montgomery form, and addition and subtraction.
\<close>

unbundle bit_operations_syntax

type_synonym felt = "u8 list"

definition MODULUS_U64 :: "u64 list" where
  "MODULUS_U64 = [576460752303423505, 0, 0, 1]"

datatype overflow_error = OverflowError

datatype hex_parse_error =
    InvalidNibble u8
  | InvalidLength nat nat
  | MissingPrefix
  | HexOverflow

datatype 'e dec_parse_error = ParseBigInt 'e | DecOverflow

section \<open>Construction from bytes\<close>

definition felt_ZERO :: felt where
  "felt_ZERO = replicate 32 0"

definition felt_is_zero :: "felt \<Rightarrow> bool" where
  "felt_is_zero f \<longleftrightarrow> f = felt_ZERO"

definition felt_to_le_bytes :: "felt \<Rightarrow> u8 list" where
  "felt_to_le_bytes f = rev f"

text \<open>
  The loop of \<^verbatim>\<open>from_be_bytes\<close> over the words and the words of the modulus: it stops at
  the first word that differs.
\<close>

fun below_modulus :: "(u64 \<times> u64) list \<Rightarrow> bool" where
  "below_modulus [] = False"
| "below_modulus ((limb, modulus) # rest) =
     (if limb < modulus then True else if limb > modulus then False else below_modulus rest)"

definition felt_from_be_bytes :: "u8 list \<Rightarrow> overflow_error + felt" where
  "felt_from_be_bytes bytes =
     (let limbs = [u64_from_be_bytes (take 8 bytes), u64_from_be_bytes (take 8 (drop 8 bytes)),
            u64_from_be_bytes (take 8 (drop 16 bytes)), u64_from_be_bytes (take 8 (drop 24 bytes))]
      in if below_modulus (zip limbs MODULUS_U64) then Inr bytes else Inl OverflowError)"

definition felt_from_be_slice :: "u8 list \<Rightarrow> overflow_error + felt" where
  "felt_from_be_slice bytes =
     (if length bytes > 32 then Inl OverflowError
      else
        let buf = foldl (\<lambda>buf index. buf[32 - length bytes + index := bytes ! index])
              (replicate 32 0) [0..<length bytes]
        in felt_from_be_bytes buf)"

text \<open>\<^verbatim>\<open>const_expect!\<close> panics on an error.\<close>

definition const_expect :: "string \<Rightarrow> overflow_error + 'a \<Rightarrow> 'a outcome" where
  "const_expect why e = (case e of Inr x \<Rightarrow> Inr x | Inl _ \<Rightarrow> Inl (Panic why))"

definition felt_from_u64 :: "u64 \<Rightarrow> felt outcome" where
  "felt_from_u64 u = const_expect ''64 bits is less than 251 bits'' (felt_from_be_slice (u64_to_be_bytes u))"

definition felt_from_u128 :: "u128 \<Rightarrow> felt outcome" where
  "felt_from_u128 u = const_expect ''128 bits is less than 251 bits'' (felt_from_be_slice (u128_to_be_bytes u))"

section \<open>Bits\<close>

text \<open>\<^verbatim>\<open>view_bits::<Msb0>()\<close>: the bits of a byte string, most significant first.\<close>

definition byte_bits :: "u8 \<Rightarrow> bool list" where
  "byte_bits b = map (\<lambda>i. bit b (7 - i)) [0..<8]"

definition msb0_bits :: "u8 list \<Rightarrow> bool list" where
  "msb0_bits bs = concat (map byte_bits bs)"

text \<open>The bytes whose \<^verbatim>\<open>Msb0\<close> view the given bits are.\<close>

definition bytes_of_bits :: "nat \<Rightarrow> bool list \<Rightarrow> u8 list" where
  "bytes_of_bits n bits = map (\<lambda>i. of_nat (bits_val (take 8 (drop (8 * i) bits)))) [0..<n]"

definition view_bits :: "felt \<Rightarrow> bool list" where
  "view_bits f = drop 5 (msb0_bits f)"

definition felt_from_bits :: "bool list \<Rightarrow> overflow_error + felt" where
  "felt_from_bits bits =
     (if length bits > 251 then Inl OverflowError
      else
        let view = msb0_bits (replicate 32 0);
            view = take (256 - length bits) view @ bits
        in Inr (bytes_of_bits 32 view))"

definition has_more_than_251_bits :: "felt \<Rightarrow> bool" where
  "has_more_than_251_bits f \<longleftrightarrow> f ! 0 AND 0b11111000 > 0"

section \<open>Conversions to integers\<close>

definition felt_try_into_u128 :: "felt \<Rightarrow> overflow_error + u128" where
  "felt_try_into_u128 f =
     (let initial_zeroes = length (takeWhile (\<lambda>b. b = 0) f)
      in if initial_zeroes < 16 then Inl OverflowError
         else Inr (u128_from_be_bytes (drop 16 f)))"

definition felt_try_into_u64 :: "felt \<Rightarrow> overflow_error + u64" where
  "felt_try_into_u64 f =
     (let initial_zeroes = length (takeWhile (\<lambda>b. b = 0) f)
      in if initial_zeroes < 24 then Inl OverflowError
         else Inr (u64_from_be_bytes (drop 24 f)))"

section \<open>Montgomery form and arithmetic\<close>

definition montfelt_from_felt :: "felt \<Rightarrow> limbs" where
  "montfelt_from_felt f = from_be_bytes montfelt f"

definition unwrap_overflow :: "overflow_error + 'a \<Rightarrow> 'a outcome" where
  "unwrap_overflow r = (case r of Inr x \<Rightarrow> Inr x | Inl _ \<Rightarrow> Inl (Panic ''unwrap''))"

definition felt_from_montfelt :: "limbs \<Rightarrow> felt outcome" where
  "felt_from_montfelt fp =
     (let bytes = to_be_bytes montfelt fp in unwrap_overflow (felt_from_be_bytes bytes))"

definition felt_from_curveorder :: "limbs \<Rightarrow> felt outcome" where
  "felt_from_curveorder value =
     (let bytes = co_to_be_bytes value in unwrap_overflow (felt_from_be_bytes bytes))"

definition co_try_from_felt :: "felt \<Rightarrow> unit + limbs" where
  "co_try_from_felt value =
     (let montvalue = montfelt_from_felt value
      in if const_cmp_native montfelt montvalue CURVE_ORDER = Less
         then Inr (co_from_be_bytes value) else Inl ())"

definition felt_add :: "felt \<Rightarrow> felt \<Rightarrow> felt outcome" where
  "felt_add x y =
     (let result = mont_add montfelt (montfelt_from_felt x) (montfelt_from_felt y)
      in felt_from_montfelt result)"

definition felt_sub :: "felt \<Rightarrow> felt \<Rightarrow> felt outcome" where
  "felt_sub x y =
     (let result = mont_sub montfelt (montfelt_from_felt x) (montfelt_from_felt y)
      in felt_from_montfelt result)"

section \<open>Hex strings\<close>

definition parse_hex_digit :: "u8 \<Rightarrow> hex_parse_error + u8" where
  "parse_hex_digit digit =
     (if 48 \<le> digit \<and> digit \<le> 57 then Inr (digit - 48)
      else if 65 \<le> digit \<and> digit \<le> 70 then Inr (digit - 65 + 10)
      else if 97 \<le> digit \<and> digit \<le> 102 then Inr (digit - 97 + 10)
      else Inl (InvalidNibble digit))"

text \<open>
  The loop over the pairs of nibbles, from the last pair to the first: \<open>todo\<close> pairs are
  left, and \<open>chunk\<close> is the pair read next.
\<close>

fun hex_chunks :: "nat \<Rightarrow> nat \<Rightarrow> u8 list \<Rightarrow> u8 list \<Rightarrow> hex_parse_error + u8 list" where
  "hex_chunks 0 chunk bytes buf = Inr buf"
| "hex_chunks (Suc todo) chunk bytes buf =
     bind_outcome (parse_hex_digit (bytes ! (length bytes - chunk * 2 - 1))) (\<lambda>lower.
     bind_outcome (parse_hex_digit (bytes ! (length bytes - chunk * 2 - 2))) (\<lambda>upper.
       hex_chunks todo (chunk + 1) bytes (buf[31 - chunk := push_bit 4 upper OR lower])))"

definition hex_payload_len :: "u8 list \<Rightarrow> hex_parse_error + nat" where
  "hex_payload_len bytes =
     (case bytes of
        a # b # rest \<Rightarrow>
          if a = 48 \<and> b = 120
          then (if length rest > 64 then Inl (InvalidLength 64 (length rest)) else Inr (length rest))
          else Inl MissingPrefix
      | _ \<Rightarrow> Inl MissingPrefix)"

text \<open>The single nibble in front of the pairs when their number is odd.\<close>

definition hex_odd_nibble :: "nat \<Rightarrow> u8 list \<Rightarrow> u8 list \<Rightarrow> hex_parse_error + u8 list" where
  "hex_odd_nibble len bytes buf =
     (if len mod 2 = 1
      then bind_outcome (parse_hex_digit (bytes ! 2)) (\<lambda>b. Inr (buf[31 - len div 2 := b]))
      else Inr buf)"

definition from_hex_str :: "u8 list \<Rightarrow> hex_parse_error + felt" where
  "from_hex_str bytes =
     bind_outcome (hex_payload_len bytes) (\<lambda>len.
     bind_outcome (hex_odd_nibble len bytes (replicate 32 0)) (\<lambda>buf.
     bind_outcome (hex_chunks (len div 2) 0 bytes buf) (\<lambda>buf.
       case felt_from_be_bytes buf of
         Inr felt \<Rightarrow> Inr felt | Inl OverflowError \<Rightarrow> Inl HexOverflow)))"

definition LUT :: "u8 list" where
  "LUT = [48, 49, 50, 51, 52, 53, 54, 55, 56, 57, 97, 98, 99, 100, 101, 102]"

definition skip_zeros :: "felt \<Rightarrow> u8 list \<times> nat \<times> nat" where
  "skip_zeros f =
     (let it = dropWhile (\<lambda>b. b = 0) f;
          num_bytes = length it;
          skipped = length f - num_bytes;
          start = (if f ! skipped < 0x10 then 1 else 2);
          len = start + num_bytes * 2
      in (it, start, len))"

text \<open>
  The bytes are written into the buffer in order; the \<^verbatim>\<open>x\<close> is written last, over the high
  nibble of the first byte when that nibble is zero.
\<close>

fun write_nibbles :: "u8 list \<Rightarrow> nat \<Rightarrow> u8 list \<Rightarrow> u8 list" where
  "write_nibbles [] pos buf = buf"
| "write_nibbles (b # it) pos buf =
     (let idx = unat b;
          hi = LUT ! ((idx AND 0xf0) div 16);
          lo = LUT ! (idx AND 0x0f)
      in write_nibbles it (pos + 2) (buf[pos := hi, pos + 1 := lo]))"

definition it_to_hex_str :: "u8 list \<Rightarrow> nat \<Rightarrow> nat \<Rightarrow> u8 list \<Rightarrow> u8 list" where
  "it_to_hex_str it start len buf =
     (let buf = buf[0 := 48];
          buf = write_nibbles it start buf;
          buf = buf[1 := 120]
      in take len buf)"

definition as_hex_str :: "felt \<Rightarrow> u8 list \<Rightarrow> u8 list outcome" where
  "as_hex_str f buf =
     (if length buf < length f * 2 + 2 then Inl (Panic ''buffer too small'')
      else if \<not> list_ex (\<lambda>b. b \<noteq> 0) f then Inr (ascii ''0x0'')
      else case skip_zeros f of (it, start, len) \<Rightarrow> Inr (it_to_hex_str it start len buf))"

definition to_hex_str :: "felt \<Rightarrow> u8 list" where
  "to_hex_str f =
     (if \<not> list_ex (\<lambda>b. b \<noteq> 0) f then ascii ''0x0''
      else case skip_zeros f of (it, start, len) \<Rightarrow> it_to_hex_str it start len (replicate len 0))"

section \<open>Big integers\<close>

text \<open>
  \<^verbatim>\<open>BigUint\<close> is a type \<open>'b\<close> of the crate \<^verbatim>\<open>num-bigint\<close>: its parser and its byte
  conversion are arguments.
\<close>

definition from_biguint :: "('b \<Rightarrow> u8 list) \<Rightarrow> 'b \<Rightarrow> overflow_error + felt" where
  "from_biguint to_bytes_be b = felt_from_be_slice (to_bytes_be b)"

definition from_dec_str ::
  "(u8 list \<Rightarrow> 'e + 'b) \<Rightarrow> ('b \<Rightarrow> u8 list) \<Rightarrow> u8 list \<Rightarrow> 'e dec_parse_error + felt" where
  "from_dec_str from_str to_bytes_be s =
     (case from_hex_str s of
        Inr h \<Rightarrow> Inr h
      | Inl _ \<Rightarrow>
          (case from_str s of
             Inl e \<Rightarrow> Inl (ParseBigInt e)
           | Inr b \<Rightarrow> (case from_biguint to_bytes_be b of
               Inl OverflowError \<Rightarrow> Inl DecOverflow | Inr h \<Rightarrow> Inr h)))"

end
