(* ===== verification/Felt_Correct.thy ===== *)
theory Felt_Correct
  imports Felt
begin

text \<open>
  Correctness of \<open>Felt\<close>: every conversion as an equation on the integer the bytes spell, and
  the round trips between bytes, bits, hex strings and Montgomery form.
\<close>

unbundle bit_operations_syntax

section \<open>Bytes\<close>

definition felt_wf :: "felt \<Rightarrow> bool" where
  "felt_wf f \<longleftrightarrow> length f = 32 \<and> be_val f < field_prime"

lemma below_modulus_lt:
  "below_modulus (zip [a, b, c, d] MODULUS_U64) \<longleftrightarrow> const_lt (Limbs d c b a) (mod_P montfelt)"
  by (auto simp: MODULUS_U64_def const_lt_def const_cmp_def montfelt_def simp del: const_cmp_simps)

lemma felt_from_be_bytes_eq:
  assumes "length bs = 32"
  shows "felt_from_be_bytes bs = (if be_val bs < field_prime then Inr bs else Inl OverflowError)"
  using lval_limbs_from_be_bytes [OF assms]
  by (simp only: felt_from_be_bytes_def Let_def below_modulus_lt limbs_from_be_bytes_def
      const_cmp_simps montfelt_P)

lemma copy_loop:
  assumes "length buf = k + length xs"
  shows "foldl (\<lambda>b i. b[k + i := xs ! i]) buf [0..<length xs] = take k buf @ xs"
proof -
  have "n \<le> length xs \<Longrightarrow>
      foldl (\<lambda>b i. b[k + i := xs ! i]) buf [0..<n] = take k buf @ take n xs @ drop (k + n) buf" for n
  proof (induction n)
    case (Suc n)
    then have "drop (k + n) buf = buf ! (k + n) # drop (k + Suc n) buf"
      using assms Cons_nth_drop_Suc [of "k + n" buf] by simp
    then show ?case using Suc assms by (simp add: list_update_append take_Suc_conv_app_nth)
  qed simp
  from this [of "length xs"] show ?thesis using assms by simp
qed

lemma felt_from_be_slice_eq:
  "felt_from_be_slice bs = (if length bs \<le> 32 \<and> be_val bs < field_prime
     then Inr (be_bytes 32 (be_val bs)) else Inl OverflowError)"
proof (cases "length bs \<le> 32")
  case True
  let ?buf = "replicate (32 - length bs) 0 @ bs"
  have buf: "foldl (\<lambda>b i. b[32 - length bs + i := bs ! i]) (replicate 32 0) [0..<length bs] = ?buf"
    using copy_loop [of "replicate 32 (0 :: u8)" "32 - length bs" bs] True by simp
  have "length ?buf = 32" and v: "be_val ?buf = be_val bs" using True by (simp_all add: be_val_append)
  then have "?buf = be_bytes 32 (be_val bs)" by (metis be_bytes_be_val)
  then have "felt_from_be_bytes ?buf = (if be_val bs < field_prime
      then Inr (be_bytes 32 (be_val bs)) else Inl OverflowError)"
    using felt_from_be_bytes_eq [of ?buf] v True by simp
  then show ?thesis using True unfolding felt_from_be_slice_def Let_def buf by auto
qed (simp add: felt_from_be_slice_def)

lemma felt_wf_be_bytes: "n < field_prime \<Longrightarrow> felt_wf (be_bytes 32 n)"
  using field_prime_less by (simp add: felt_wf_def)

lemma felt_wf_eqI: "felt_wf f \<Longrightarrow> felt_wf g \<Longrightarrow> be_val f = be_val g \<Longrightarrow> f = g"
  using be_val_inj by (auto simp: felt_wf_def)

lemma felt_wf_be_val: "felt_wf f \<Longrightarrow> be_bytes 32 (be_val f) = f"
  using be_bytes_be_val [of f] by (simp add: felt_wf_def)

lemma field_prime_big: "2 ^ 128 < field_prime" "2 ^ 251 < field_prime"
  by (simp_all add: field_prime_def)

lemma felt_from_u64_eq: "felt_from_u64 u = Inr (be_bytes 32 (unat u))"
  using u64_less [of u] field_prime_big(1)
  by (simp add: felt_from_u64_def felt_from_be_slice_eq const_expect_def)

lemma felt_from_u128_eq: "felt_from_u128 u = Inr (be_bytes 32 (unat u))"
  using unsigned_less [of u, where ?'a = nat] field_prime_big(1)
  by (simp add: felt_from_u128_def felt_from_be_slice_eq const_expect_def)

section \<open>Arithmetic\<close>

lemma montfelt_from_felt_native:
  assumes "length f = 32"
  shows "native montfelt (montfelt_from_felt f) = be_val f mod field_prime"
    and "reduced montfelt (montfelt_from_felt f)"
  using mf.from_be_bytes_correct [OF assms] by (simp_all add: montfelt_from_felt_def montfelt_P)

lemma felt_from_montfelt_eq: "felt_from_montfelt x = Inr (be_bytes 32 (native montfelt x))"
  using mf.native_less [of x] field_prime_less
  by (simp add: felt_from_montfelt_def mf.to_be_bytes_eq felt_from_be_bytes_eq unwrap_overflow_def montfelt_P)

lemma felt_from_curveorder_eq: "felt_from_curveorder x = Inr (be_bytes 32 (native curveorder x))"
proof -
  have "native curveorder x < field_prime"
    using co.native_less [of x] curve_order_less by (simp add: curveorder_P)
  then show ?thesis using field_prime_less
    by (simp add: felt_from_curveorder_def co_to_be_bytes_def co.to_be_bytes_eq felt_from_be_bytes_eq
        unwrap_overflow_def)
qed

lemma felt_montfelt_round_trip: "felt_wf f \<Longrightarrow> felt_from_montfelt (montfelt_from_felt f) = Inr f"
  using felt_wf_be_val [of f]
  by (simp add: felt_from_montfelt_eq montfelt_from_felt_native felt_wf_def)

lemma montfelt_felt_round_trip:
  assumes "reduced montfelt x" and "felt_from_montfelt x = Inr f"
  shows "montfelt_from_felt f = x"
  using assms mf.bytes_round_trip [of x]
  by (simp add: felt_from_montfelt_eq montfelt_from_felt_def mf.to_be_bytes_eq)

lemma felt_add_eq:
  assumes "length x = 32" and "length y = 32"
  shows "felt_add x y = Inr (be_bytes 32 ((be_val x + be_val y) mod field_prime))"
  using montfelt_from_felt_native [OF assms(1)] montfelt_from_felt_native [OF assms(2)]
  by (simp add: felt_add_def felt_from_montfelt_eq mf.native_add montfelt_P mod_add_eq)

lemma felt_sub_eq:
  assumes "felt_wf x" and "felt_wf y"
  shows "felt_sub x y = Inr (be_bytes 32 ((be_val x + (field_prime - be_val y)) mod field_prime))"
  using assms montfelt_from_felt_native [of x] montfelt_from_felt_native [of y]
  by (simp add: felt_sub_def felt_from_montfelt_eq mf.native_sub montfelt_P felt_wf_def)

lemma co_try_from_felt_eq:
  assumes "felt_wf f"
  shows "co_try_from_felt f = (if be_val f < curve_order then Inr (from_be_bytes curveorder f) else Inl ())"
  using assms montfelt_from_felt_native [of f]
  by (simp add: co_try_from_felt_def mf.cmp_native CURVE_ORDER_eq co_from_be_bytes_def felt_wf_def)

section \<open>Bits\<close>

lemma byte_bits_eq: "byte_bits b = map (bit (unat b)) (rev [0..<8])"
  by (rule nth_equalityI) (simp_all add: byte_bits_def rev_nth bit_unsigned_iff)

lemma bits_val_byte_bits [simp]: "bits_val (byte_bits b) = unat b"
  using bits_val_bits [of "unat b" 8] u8_less [of b] by (simp only: byte_bits_eq) simp

lemma length_byte_bits [simp]: "length (byte_bits b) = 8"
  by (simp add: byte_bits_def)

lemma msb0_bits_simps [simp]:
  "msb0_bits [] = []" "msb0_bits (b # bs) = byte_bits b @ msb0_bits bs"
  by (simp_all add: msb0_bits_def)

lemma msb0_bits_append: "msb0_bits (xs @ ys) = msb0_bits xs @ msb0_bits ys"
  by (simp add: msb0_bits_def)

lemma length_msb0_bits [simp]: "length (msb0_bits bs) = 8 * length bs"
  by (induction bs) simp_all

lemma bits_val_msb0_bits: "bits_val (msb0_bits bs) = be_val bs"
proof (induction bs)
  case (Cons b bs)
  have "(256 :: nat) ^ length bs = 2 ^ (8 * length bs)"
    using power_mult [of "2 :: nat" 8 "length bs"] by simp
  with Cons show ?case by (simp add: bits_val_append)
qed simp

lemma bits_val_less: "bits_val bs < 2 ^ length bs"
  by (induction bs rule: rev_induct) (auto simp: bits_val_snoc)

lemma bits_val_inj: "length xs = length ys \<Longrightarrow> bits_val xs = bits_val ys \<Longrightarrow> xs = ys"
proof (induction xs arbitrary: ys rule: rev_induct)
  case (snoc x xs)
  then obtain y zs where ys: "ys = zs @ [y]" by (cases ys rule: rev_cases) auto
  have "2 * bits_val xs + of_bool x = 2 * bits_val zs + of_bool y" using snoc.prems(2) ys by simp
  then have "bits_val xs = bits_val zs \<and> x = y" by (cases x; cases y) (simp_all, presburger+)
  then show ?case using snoc ys by simp
qed simp

lemma length_bytes_of_bits [simp]: "length (bytes_of_bits n bits) = n"
  by (simp add: bytes_of_bits_def)

lemma bytes_of_bits_val: "length bits = 8 * n \<Longrightarrow> be_val (bytes_of_bits n bits) = bits_val bits"
proof (induction n arbitrary: bits)
  case (Suc n)
  let ?xs = "take (8 * n) bits" and ?ys = "drop (8 * n) bits"
  have len: "length ?ys = 8" and xs: "length ?xs = 8 * n" using Suc.prems by simp_all
  have "unat (of_nat (bits_val ?ys) :: u8) = bits_val ?ys"
    using bits_val_less [of ?ys] len by (simp add: unsigned_of_nat take_bit_eq_mod)
  moreover have "bytes_of_bits n bits = bytes_of_bits n ?xs"
    by (auto simp: bytes_of_bits_def drop_take min_def)
  moreover have "bytes_of_bits (Suc n) bits = bytes_of_bits n bits @ [of_nat (bits_val ?ys)]"
    using len by (simp add: bytes_of_bits_def)
  moreover have "bits_val bits = bits_val ?xs * 256 + bits_val ?ys"
    using bits_val_append [of ?xs ?ys] len by simp
  ultimately show ?case using Suc.IH [OF xs] by simp
qed (simp add: bytes_of_bits_def)

lemma msb0_bytes_of_bits: "length bits = 8 * n \<Longrightarrow> msb0_bits (bytes_of_bits n bits) = bits"
  by (rule bits_val_inj) (simp_all add: bits_val_msb0_bits bytes_of_bits_val)

lemma msb0_bits_zero: "msb0_bits (replicate n 0) = replicate (8 * n) False"
proof -
  have "byte_bits 0 = replicate 8 False" by (simp add: byte_bits_def map_replicate_const)
  then show ?thesis by (induction n) (simp_all add: replicate_add [symmetric])
qed

lemma bits_val_False [simp]: "bits_val (replicate n False) = 0"
  by (induction n) (simp_all add: bits_val_Cons)

lemma felt_from_bits_eq:
  assumes "length bits \<le> 251"
  shows "\<exists>f. felt_from_bits bits = Inr f \<and> felt_wf f \<and> be_val f = bits_val bits \<and>
    view_bits f = replicate (251 - length bits) False @ bits"
proof -
  let ?view = "replicate (256 - length bits) False @ bits"
  have f: "felt_from_bits bits = Inr (bytes_of_bits 32 ?view)"
    using assms by (simp add: felt_from_bits_def msb0_bits_zero min_def)
  have len: "length ?view = 8 * 32" using assms by simp
  have val: "be_val (bytes_of_bits 32 ?view) = bits_val bits"
    using bytes_of_bits_val [OF len] by (simp add: bits_val_append)
  have "bits_val bits < 2 ^ 251"
    using bits_val_less [of bits] power_increasing [OF assms, of "2 :: nat"] by simp
  then have "felt_wf (bytes_of_bits 32 ?view)"
    using val field_prime_big(2) by (simp add: felt_wf_def)
  moreover have "view_bits (bytes_of_bits 32 ?view) = replicate (251 - length bits) False @ bits"
    using assms unfolding view_bits_def msb0_bytes_of_bits [OF len] by (simp add: drop_replicate)
  ultimately show ?thesis using f val by blast
qed

lemma felt_Cons:
  assumes "length f = 32"
  obtains b bs where "f = b # bs" and "length bs = 31" and "be_val f = unat b * 2 ^ 248 + be_val bs"
    and "be_val bs < 2 ^ 248"
proof (cases f)
  case (Cons b bs)
  then have "length bs = 31" using assms by simp
  moreover from this have "be_val bs < 256 ^ 31" using be_val_less [of bs] by simp
  ultimately show ?thesis using that Cons by simp
qed (use assms in simp)

lemma high_bits_u8: "(b :: u8) AND 0b11111000 > 0 \<longleftrightarrow> 8 \<le> unat b"
proof -
  have "(0b11111000 :: u8) = NOT (mask 3)" by (simp add: mask_eq_exp_minus_1)
  moreover have "b AND NOT (mask 3) = 0 \<longleftrightarrow> take_bit 3 b = b"
    by (simp add: take_bit_eq_mask bit_eq_iff bit_and_iff bit_not_iff) blast
  moreover have "take_bit 3 b = b \<longleftrightarrow> unat b mod 8 = unat b"
    unfolding word_unat_eq_iff [of "take_bit 3 b"] unsigned_take_bit_eq by (simp add: take_bit_eq_mod)
  moreover have "unat b mod 8 = unat b \<longleftrightarrow> unat b < 8" by (metis mod_less mod_less_divisor zero_less_numeral)
  ultimately show ?thesis by (simp add: word_gt_0 linorder_not_less [symmetric])
qed

lemma has_more_than_251_bits_iff:
  assumes "length f = 32"
  shows "has_more_than_251_bits f \<longleftrightarrow> 2 ^ 251 \<le> be_val f"
proof -
  obtain b bs where "f = b # bs" "be_val f = unat b * 2 ^ 248 + be_val bs" "be_val bs < 2 ^ 248"
    using felt_Cons [OF assms] by blast
  then show ?thesis by (simp add: has_more_than_251_bits_def high_bits_u8 del: be_val_Cons) linarith
qed

lemma view_bits_val:
  assumes "length f = 32" and "\<not> has_more_than_251_bits f"
  shows "length (view_bits f) = 251" and "bits_val (view_bits f) = be_val f"
proof -
  show len: "length (view_bits f) = 251" using assms(1) by (simp add: view_bits_def)
  have "be_val f = bits_val (take 5 (msb0_bits f)) * 2 ^ 251 + bits_val (view_bits f)"
    using bits_val_append [of "take 5 (msb0_bits f)" "drop 5 (msb0_bits f)"] len
    by (simp add: view_bits_def bits_val_msb0_bits)
  moreover have "be_val f < 2 ^ 251" using assms has_more_than_251_bits_iff by simp
  ultimately show "bits_val (view_bits f) = be_val f" by simp
qed

lemma felt_bits_round_trip:
  assumes "felt_wf f" and "\<not> has_more_than_251_bits f"
  shows "felt_from_bits (view_bits f) = Inr f"
proof -
  have v: "length (view_bits f) = 251" "bits_val (view_bits f) = be_val f"
    using view_bits_val assms by (auto simp: felt_wf_def)
  then obtain g where "felt_from_bits (view_bits f) = Inr g" "felt_wf g" "be_val g = be_val f"
    using felt_from_bits_eq [of "view_bits f"] by auto
  then show ?thesis using felt_wf_eqI assms(1) by blast
qed

section \<open>Integers\<close>

lemma leading_zero_bytes:
  assumes "k \<le> length f"
  shows "k \<le> length (takeWhile (\<lambda>b. b = 0) f) \<longleftrightarrow> be_val (take k f) = 0"
proof -
  have "k \<le> length (takeWhile (\<lambda>b. b = 0) f) \<longleftrightarrow> (\<forall>b \<in> set (take k f). b = 0)"
    using assms
  proof (induction f arbitrary: k)
    case (Cons b f)
    then show ?case by (cases k) auto
  qed simp
  then show ?thesis by (simp add: be_val_zero_iff)
qed

lemma be_val_take_drop:
  assumes "k \<le> length f"
  shows "be_val f = be_val (take k f) * 256 ^ (length f - k) + be_val (drop k f)"
  using be_val_append [of "take k f" "drop k f"] assms by simp

lemma high_part_zero:
  assumes "k \<le> length f"
  shows "be_val (take k f) = 0 \<longleftrightarrow> be_val f < 256 ^ (length f - k)"
proof -
  have "be_val (drop k f) < 256 ^ (length f - k)" using be_val_less [of "drop k f"] by simp
  then show ?thesis unfolding be_val_take_drop [OF assms] by (cases "be_val (take k f)") auto
qed

lemma felt_try_into_u128_eq:
  assumes "length f = 32"
  shows "felt_try_into_u128 f = (if be_val f < 2 ^ 128 then Inr (of_nat (be_val f)) else Inl OverflowError)"
proof -
  have "be_val f = be_val (drop 16 f)" if "be_val (take 16 f) = 0"
    using be_val_take_drop [of 16 f] assms that by simp
  then show ?thesis
    using leading_zero_bytes [of 16 f] high_part_zero [of 16 f] assms
    by (auto simp: felt_try_into_u128_def u128_from_be_bytes_def Let_def)
qed

lemma felt_try_into_u64_eq:
  assumes "length f = 32"
  shows "felt_try_into_u64 f = (if be_val f < 2 ^ 64 then Inr (of_nat (be_val f)) else Inl OverflowError)"
proof -
  have "be_val f = be_val (drop 24 f)" if "be_val (take 24 f) = 0"
    using be_val_take_drop [of 24 f] assms that by simp
  then show ?thesis
    using leading_zero_bytes [of 24 f] high_part_zero [of 24 f] assms
    by (auto simp: felt_try_into_u64_def u64_from_be_bytes_def Let_def)
qed

section \<open>Hex strings\<close>

lemma parse_hex_digit_val:
  assumes "hex_val c = Some d"
  shows "\<exists>v. parse_hex_digit c = Inr v \<and> unat v = d \<and> d < 16"
proof -
  have sub: "unat (c - k) = unat c - unat k" if "unat k \<le> unat c" for k
    using that by (simp add: unat_sub word_le_nat_alt)
  have dig: "unat (c - k + 10) = unat c - unat k + 10" if "unat k \<le> unat c" "unat c \<le> unat k + 5" for k
    using that sub [of k] by (simp add: unat_word_ariths)
  show ?thesis
    using assms u8_range [of 48 c 57] u8_range [of 97 c 102] u8_range [of 65 c 70] sub [of 48] dig [of 65] dig [of 97]
    unfolding hex_val_def parse_hex_digit_def by (auto split: if_splits)
qed

lemma parse_hex_digit_invalid: "hex_val c = None \<Longrightarrow> parse_hex_digit c = Inl (InvalidNibble c)"
  by (auto simp: hex_val_def parse_hex_digit_def split: if_splits)

lemma unat_pair:
  assumes "unat (u :: u8) < 16" and "unat l < 16"
  shows "unat (push_bit 4 u OR l) = 16 * unat u + unat l"
proof -
  have "unat (push_bit 4 u) = 2 ^ 4 * unat u"
    using assms(1) by (simp add: unsigned_push_bit_eq take_bit_push_bit) (simp add: push_bit_eq_mult take_bit_eq_mod)
  then show ?thesis
    unfolding unsigned_or_eq using nat_or_disjoint [of "unat l" 4 "unat u"] assms(2) by simp
qed

lemma be_val_update:
  "i < length buf \<Longrightarrow> buf ! i = 0 \<Longrightarrow> be_val (buf[i := v]) = be_val buf + unat v * 256 ^ (length buf - 1 - i)"
proof (induction buf arbitrary: i)
  case (Cons b buf)
  then show ?case by (cases i) simp_all
qed simp

lemma hex_string_val_Cons: "hex_string_val (c # cs) = the (hex_val c) * 16 ^ length cs + hex_string_val cs"
  using hex_string_val_append [of "[c]" cs] by (simp add: hex_string_val_def)

text \<open>The last \<open>k\<close> characters of a string, and how they grow by a pair.\<close>

definition last_chars :: "nat \<Rightarrow> u8 list \<Rightarrow> u8 list" where
  "last_chars k s = drop (length s - k) s"

lemma last_chars_mono: "k \<le> n \<Longrightarrow> set (last_chars k s) \<subseteq> set (last_chars n s)"
  unfolding last_chars_def by (intro set_drop_subset_set_drop) simp

lemma length_last_chars: "k \<le> length s \<Longrightarrow> length (last_chars k s) = k"
  by (simp add: last_chars_def)

lemma last_chars_pair:
  assumes "2 * c + 2 \<le> length s"
  shows "last_chars (2 * Suc c) s = s ! (length s - c * 2 - 2) # s ! (length s - c * 2 - 1) # last_chars (2 * c) s"
proof -
  define k where "k = length s - 2 * Suc c"
  have k: "Suc (Suc k) \<le> length s" "length s - c * 2 - 2 = k" "length s - c * 2 - 1 = Suc k"
    "length s - 2 * c = Suc (Suc k)" using assms by (auto simp: k_def)
  have "drop k s = s ! k # s ! Suc k # drop (Suc (Suc k)) s"
    using k(1) by (simp add: Cons_nth_drop_Suc)
  then show ?thesis unfolding last_chars_def k by (simp add: k_def)
qed

lemma hex_chunks_val:
  assumes "length buf = 32" and "chunk + todo \<le> 32" and "2 * (chunk + todo) \<le> length bytes"
    and "\<forall>i. chunk \<le> i \<longrightarrow> i < chunk + todo \<longrightarrow> buf ! (31 - i) = 0"
    and "is_hex (last_chars (2 * (chunk + todo)) bytes)"
  shows "\<exists>r. hex_chunks todo chunk bytes buf = Inr r \<and> length r = 32 \<and>
    be_val r + hex_string_val (last_chars (2 * chunk) bytes)
      = be_val buf + hex_string_val (last_chars (2 * (chunk + todo)) bytes)"
  using assms
proof (induction todo arbitrary: chunk buf)
  case (Suc todo)
  let ?u = "bytes ! (length bytes - chunk * 2 - 2)" and ?l = "bytes ! (length bytes - chunk * 2 - 1)"
  have pair: "last_chars (2 * Suc chunk) bytes = ?u # ?l # last_chars (2 * chunk) bytes"
    using Suc.prems(3) by (intro last_chars_pair) simp
  have "is_hex (last_chars (2 * Suc chunk) bytes)"
    using Suc.prems(5) last_chars_mono [of "2 * Suc chunk" "2 * (chunk + Suc todo)" bytes]
    by (auto simp: is_hex_def list_all_iff)
  then obtain du dl where d: "hex_val ?u = Some du" "hex_val ?l = Some dl"
    unfolding pair by (auto simp: is_hex_def)
  obtain u l where ul: "parse_hex_digit ?u = Inr u" "unat u = du" "du < 16"
      "parse_hex_digit ?l = Inr l" "unat l = dl" "dl < 16"
    using parse_hex_digit_val [OF d(1)] parse_hex_digit_val [OF d(2)] by blast
  let ?buf = "buf[31 - chunk := push_bit 4 u OR l]"
  have b: "be_val ?buf = be_val buf + (16 * du + dl) * 256 ^ chunk"
    using Suc.prems(1,2,4) ul unat_pair [of u l] by (subst be_val_update) simp_all
  have "\<exists>r. hex_chunks todo (Suc chunk) bytes ?buf = Inr r \<and> length r = 32 \<and>
    be_val r + hex_string_val (last_chars (2 * Suc chunk) bytes)
      = be_val ?buf + hex_string_val (last_chars (2 * (Suc chunk + todo)) bytes)"
    using Suc.prems by (intro Suc.IH) auto
  moreover have "hex_string_val (last_chars (2 * Suc chunk) bytes)
      = hex_string_val (last_chars (2 * chunk) bytes) + (16 * du + dl) * 256 ^ chunk"
    using Suc.prems(3) d power_mult [of "16 :: nat" 2 chunk]
    unfolding pair by (simp add: hex_string_val_Cons length_last_chars algebra_simps)
  ultimately show ?case using ul b by auto
qed simp

lemma hex_payload_len_eq:
  "hex_payload_len (48 # 120 # ds)
     = (if length ds > 64 then Inl (InvalidLength 64 (length ds)) else Inr (length ds))"
  by (simp add: hex_payload_len_def)

lemma hex_tail: "last_chars (2 * (length ds div 2)) (48 # 120 # ds) = drop (length ds mod 2) ds"
  by (simp add: last_chars_def Suc_diff_le minus_mult_div_eq_mod)

lemma hex_odd_nibble_val:
  assumes "is_hex ds" and "length ds \<le> 64"
  shows "\<exists>buf. hex_odd_nibble (length ds) (48 # 120 # ds) (replicate 32 0) = Inr buf \<and> length buf = 32 \<and>
    (\<forall>i < length ds div 2. buf ! (31 - i) = 0) \<and>
    be_val buf + hex_string_val (drop (length ds mod 2) ds) = hex_string_val ds"
proof (cases "length ds mod 2 = 1")
  case True
  then obtain c cs where ds: "ds = c # cs" by (cases ds) auto
  then obtain d where d: "hex_val c = Some d" using assms(1) by (auto simp: is_hex_def)
  with parse_hex_digit_val obtain v where v: "parse_hex_digit c = Inr v" "unat v = d" by blast
  define h where "h = length ds div 2"
  have len: "length ds = 2 * h + 1" using True unfolding h_def by presburger
  then have h: "h < 32" "length cs = 2 * h" using assms(2) ds by simp_all
  let ?buf = "(replicate 32 0)[31 - h := v]"
  have "be_val ?buf = d * 256 ^ h" using h(1) v by (subst be_val_update) simp_all
  moreover have "hex_string_val ds = d * 256 ^ h + hex_string_val (drop (length ds mod 2) ds)"
    using d h(2) True power_mult [of "16 :: nat" 2 h] by (simp add: ds hex_string_val_Cons)
  moreover have "hex_odd_nibble (length ds) (48 # 120 # ds) (replicate 32 0) = Inr ?buf"
    using True v by (simp add: hex_odd_nibble_def h_def [symmetric]) (simp add: ds)
  moreover have "\<forall>i < h. ?buf ! (31 - i) = 0" using h(1) by auto
  ultimately show ?thesis unfolding h_def [symmetric] by auto
next
  case False
  then show ?thesis using assms(2) by (auto simp: hex_odd_nibble_def)
qed

lemma from_hex_str_val:
  assumes "is_hex ds" and "length ds \<le> 64"
  shows "from_hex_str (48 # 120 # ds) = (if hex_string_val ds < field_prime
    then Inr (be_bytes 32 (hex_string_val ds)) else Inl HexOverflow)"
proof -
  let ?b = "48 # 120 # ds" and ?h = "length ds div 2"
  obtain buf where buf: "hex_odd_nibble (length ds) ?b (replicate 32 0) = Inr buf" "length buf = 32"
      "\<forall>i < ?h. buf ! (31 - i) = 0"
      "be_val buf + hex_string_val (drop (length ds mod 2) ds) = hex_string_val ds"
    using hex_odd_nibble_val [OF assms] by blast
  have "is_hex (last_chars (2 * ?h) ?b)"
    using assms(1) set_drop_subset [of "length ds mod 2" ds]
    unfolding hex_tail by (auto simp: is_hex_def list_all_iff)
  moreover have "0 + ?h \<le> 32" "2 * (0 + ?h) \<le> length ?b" using assms(2) by simp_all
  moreover have "hex_string_val (last_chars (2 * 0) ?b) = 0"
    by (simp add: last_chars_def hex_string_val_def)
  ultimately obtain r where r: "hex_chunks ?h 0 ?b buf = Inr r" "length r = 32" "be_val r = hex_string_val ds"
    using hex_chunks_val [of buf 0 ?h ?b] buf by (auto simp: hex_tail)
  have "hex_payload_len ?b = Inr (length ds)" using assms(2) by (simp add: hex_payload_len_eq)
  then have "from_hex_str ?b = (case felt_from_be_bytes r of Inr felt \<Rightarrow> Inr felt | Inl OverflowError \<Rightarrow> Inl HexOverflow)"
    by (simp only: from_hex_str_def bind_outcome_simps buf(1) r(1))
  then show ?thesis
    using r(2,3) be_bytes_be_val [of r] by (simp add: felt_from_be_bytes_eq)
qed

lemma hex_chunks_invalid:
  assumes "2 * (chunk + todo) \<le> length bytes" and "is_hex (last_chars (2 * chunk) bytes)"
    and "\<not> is_hex (last_chars (2 * (chunk + todo)) bytes)"
  shows "\<exists>c \<in> set (last_chars (2 * (chunk + todo)) bytes). hex_val c = None \<and>
    hex_chunks todo chunk bytes buf = Inl (InvalidNibble c)"
  using assms
proof (induction todo arbitrary: chunk buf)
  case (Suc todo)
  let ?u = "bytes ! (length bytes - chunk * 2 - 2)" and ?l = "bytes ! (length bytes - chunk * 2 - 1)"
  have pair: "last_chars (2 * Suc chunk) bytes = ?u # ?l # last_chars (2 * chunk) bytes"
    using Suc.prems(1) by (intro last_chars_pair) simp
  then have sub: "{?u, ?l} \<subseteq> set (last_chars (2 * (chunk + Suc todo)) bytes)"
    using last_chars_mono [of "2 * Suc chunk" "2 * (chunk + Suc todo)" bytes] by simp
  show ?case
  proof (cases "hex_val ?l = None \<or> hex_val ?u = None")
    case True
    then show ?thesis
      using sub parse_hex_digit_invalid parse_hex_digit_val by (cases "hex_val ?l") fastforce+
  next
    case False
    then have hex: "is_hex (last_chars (2 * Suc chunk) bytes)" and
      "\<exists>u l. parse_hex_digit ?u = Inr u \<and> parse_hex_digit ?l = Inr l"
      using Suc.prems(2) parse_hex_digit_val unfolding pair by (auto simp: is_hex_def)
    moreover have "\<exists>c \<in> set (last_chars (2 * (Suc chunk + todo)) bytes). hex_val c = None \<and>
        hex_chunks todo (Suc chunk) bytes buf' = Inl (InvalidNibble c)" for buf'
      using Suc.prems(1,3) hex by (intro Suc.IH) simp_all
    ultimately show ?thesis by (auto simp: add.commute)
  qed
qed simp

lemma from_hex_str_invalid:
  assumes "\<not> is_hex ds" and "length ds \<le> 64"
  shows "\<exists>c \<in> set ds. hex_val c = None \<and> from_hex_str (48 # 120 # ds) = Inl (InvalidNibble c)"
proof (cases "length ds mod 2 = 1 \<and> hex_val (hd ds) = None")
  case True
  then have "ds \<noteq> []" by auto
  with True show ?thesis using assms(2)
    by (intro bexI [of _ "hd ds"])
       (simp_all add: from_hex_str_def hex_payload_len_eq hex_odd_nibble_def parse_hex_digit_invalid hd_conv_nth)
next
  case False
  let ?b = "48 # 120 # ds" and ?h = "length ds div 2"
  have "\<exists>buf. hex_odd_nibble (length ds) ?b (replicate 32 0) = Inr buf"
  proof (cases "length ds mod 2 = 1")
    case True
    then obtain c cs where ds: "ds = c # cs" by (cases ds) auto
    then obtain d where "hex_val c = Some d" using False True by auto
    with parse_hex_digit_val ds True show ?thesis by (fastforce simp: hex_odd_nibble_def)
  qed (simp add: hex_odd_nibble_def)
  then obtain buf where buf: "hex_odd_nibble (length ds) ?b (replicate 32 0) = Inr buf" ..
  have "\<not> is_hex (last_chars (2 * ?h) ?b)"
    using False assms(1) unfolding hex_tail
    by (cases ds) (auto simp: is_hex_def mod_Suc split: if_splits)
  moreover have "is_hex (last_chars (2 * 0) ?b)" by (simp add: last_chars_def is_hex_def)
  moreover have "2 * (0 + ?h) \<le> length ?b" by simp
  ultimately obtain c where "c \<in> set (last_chars (2 * ?h) ?b)" "hex_val c = None"
      "hex_chunks ?h 0 ?b buf = Inl (InvalidNibble c)"
    using hex_chunks_invalid [of 0 ?h ?b buf] by auto
  then show ?thesis using buf assms(2) in_set_dropD [of c "length ds mod 2" ds]
    by (intro bexI [of _ c]) (simp_all add: from_hex_str_def hex_payload_len_eq hex_tail)
qed

section \<open>Printing\<close>

definition byte_nibbles :: "u8 \<Rightarrow> u8 list" where
  "byte_nibbles b = [LUT ! (unat b div 16), LUT ! (unat b mod 16)]"

lemma LUT_val: "k < 16 \<Longrightarrow> hex_val (LUT ! k) = Some k"
proof -
  have "list_all (\<lambda>k. hex_val (LUT ! k) = Some k) [0..<16]"
    by (simp add: LUT_def hex_val_def upt_rec [of _ "numeral _"])
  then show "k < 16 \<Longrightarrow> hex_val (LUT ! k) = Some k" by (simp add: list_all_iff)
qed

lemma nibble_masks:
  assumes "n < 256"
  shows "(n AND 0xf0) div 16 = n div 16" and "n AND 0x0f = (n mod 16 :: nat)"
proof -
  have low: "k AND 0x0f = k mod 16" for k :: nat
    using take_bit_eq_mask [of 4 k] by (simp add: mask_eq_exp_minus_1 take_bit_eq_mod)
  show "n AND 0x0f = n mod 16" by (rule low)
  have "(n AND 0xf0) div 16 = drop_bit 4 (n AND 0xf0)" by (simp add: drop_bit_eq_div)
  also have "\<dots> = n div 16 AND 0x0f" unfolding drop_bit_and by (simp add: drop_bit_eq_div)
  also have "\<dots> = n div 16" unfolding low using assms by simp
  finally show "(n AND 0xf0) div 16 = n div 16" .
qed

lemma write_nibbles_eq:
  assumes "pos + 2 * length it \<le> length buf"
  shows "write_nibbles it pos buf = take pos buf @ concat (map byte_nibbles it) @ drop (pos + 2 * length it) buf"
  using assms
proof (induction it arbitrary: pos buf)
  case (Cons b it)
  let ?hi = "LUT ! (unat b div 16)" and ?lo = "LUT ! (unat b mod 16)"
  have "take (pos + 2) (buf[pos := ?hi, pos + 1 := ?lo]) = take pos buf @ [?hi, ?lo]"
    using Cons.prems by (simp add: take_Suc_conv_app_nth)
  then show ?case
    using Cons nibble_masks [OF u8_less [of b]]
    by (simp add: Let_def byte_nibbles_def)
qed simp

lemma hex_val_nibbles: "is_hex (concat (map byte_nibbles bs))"
    "hex_string_val (concat (map byte_nibbles bs)) = be_val bs"
    "length (concat (map byte_nibbles bs)) = 2 * length bs"
proof -
  have b: "hex_val (LUT ! (unat b div 16)) = Some (unat b div 16)" "hex_val (LUT ! (unat b mod 16)) = Some (unat b mod 16)"
    for b :: u8
    using u8_less [of b] by (simp_all add: LUT_val)
  show len: "length (concat (map byte_nibbles bs)) = 2 * length bs" for bs
    by (induction bs) (simp_all add: byte_nibbles_def)
  show "is_hex (concat (map byte_nibbles bs))"
    by (induction bs) (simp_all add: byte_nibbles_def is_hex_def b)
  show "hex_string_val (concat (map byte_nibbles bs)) = be_val bs"
  proof (induction bs)
    case (Cons x bs)
    have "hex_string_val (concat (map byte_nibbles (x # bs)))
        = (unat x div 16 * 16 + unat x mod 16) * 256 ^ length bs + be_val bs"
      unfolding add_mult_distrib Cons [symmetric] using power_mult [of "16 :: nat" 2 "length bs"] b [of x]
      by (simp add: byte_nibbles_def [of x] hex_string_val_Cons len)
    then show ?case by simp
  qed (simp add: hex_string_val_def)
qed

lemma to_hex_str_eq:
  assumes "list_ex (\<lambda>b. b \<noteq> 0) f"
  obtains ds where "to_hex_str f = 48 # 120 # ds" and "is_hex ds" and "hex_string_val ds = be_val f"
    and "length ds \<le> 2 * length f"
proof -
  define it where "it = dropWhile (\<lambda>b. b = 0) f"
  define zs where "zs = takeWhile (\<lambda>b. b = 0) f"
  have "it \<noteq> []" using assms by (auto simp: it_def list_ex_iff)
  then obtain b bs where it: "it = b # bs" by (cases it) auto
  have f: "f = zs @ it" by (simp add: it_def zs_def)
  have "be_val zs = 0" by (auto simp: be_val_zero_iff zs_def dest: set_takeWhileD)
  then have val: "be_val it = be_val f" by (simp add: f be_val_append)
  let ?start = "if b < 0x10 then 1 else 2" and ?N = "concat (map byte_nibbles it)"
  let ?len = "?start + length it * 2"
  have skip: "skip_zeros f = (it, ?start, ?len)"
    by (simp add: skip_zeros_def it_def [symmetric] Let_def) (simp add: f it nth_append)
  have buf: "write_nibbles it ?start ((replicate ?len 0)[0 := 48]) = take ?start ((replicate ?len 0)[0 := 48]) @ ?N"
    by (subst write_nibbles_eq) (simp_all add: mult.commute)
  note N = hex_val_nibbles [of it]
  have len: "length it \<le> length f" by (simp add: f)
  show ?thesis
  proof (cases "b < 0x10")
    case True
    have "unat b < 16" using True by (simp add: word_less_nat_alt)
    then have hi: "?N = LUT ! 0 # tl ?N" by (simp add: it byte_nibbles_def)
    have "take 1 ((replicate (1 + length it * 2) 0)[0 := 48]) = [48 :: u8]" by simp
    then have "write_nibbles it 1 ((replicate (1 + length it * 2) 0)[0 := 48]) = 48 # LUT ! 0 # tl ?N"
      using buf True hi by (simp only: if_True) simp
    then have "to_hex_str f = 48 # 120 # tl ?N"
      using assms True N(3) \<open>it \<noteq> []\<close>
      by (cases "length it") (simp_all add: to_hex_str_def skip it_to_hex_str_def del: replicate.simps)
    moreover have "is_hex (tl ?N)" using N(1) by (subst (asm) hi) (simp add: is_hex_def)
    moreover have "hex_string_val (tl ?N) = be_val f"
      using N(2) val LUT_val [of 0] by (subst (asm) hi) (simp add: hex_string_val_Cons)
    ultimately show ?thesis using that N(3) len by simp
  next
    case False
    have "take 2 ((replicate (2 + length it * 2) 0)[0 := 48]) = [48 :: u8, 0]"
      by (simp add: numeral_2_eq_2)
    then have "write_nibbles it 2 ((replicate (2 + length it * 2) 0)[0 := 48]) = 48 # 0 # ?N"
      using buf False by (simp only: if_False) simp
    then have "to_hex_str f = 48 # 120 # ?N"
      using assms False N(3) by (simp add: to_hex_str_def skip it_to_hex_str_def del: replicate.simps)
    then show ?thesis using that N len val by simp
  qed
qed

lemma hex_str_round_trip:
  assumes "felt_wf f"
  shows "from_hex_str (to_hex_str f) = Inr f"
proof (cases "list_ex (\<lambda>b. b \<noteq> 0) f")
  case True
  then obtain ds where ds: "to_hex_str f = 48 # 120 # ds" "is_hex ds" "hex_string_val ds = be_val f"
    "length ds \<le> 2 * length f" by (rule to_hex_str_eq)
  then show ?thesis using assms felt_wf_be_val [OF assms] from_hex_str_val [OF ds(2)] by (simp add: felt_wf_def)
next
  case False
  then have "be_val f = 0" by (simp add: be_val_zero_iff list_ex_iff)
  moreover have "to_hex_str f = 48 # 120 # [48]" using False by (simp add: to_hex_str_def ascii_def)
  moreover have "is_hex [48]" "hex_string_val [48] = 0" by (simp_all add: is_hex_def hex_string_val_def hex_val_def)
  ultimately show ?thesis
    using felt_wf_be_val [OF assms] from_hex_str_val [of "[48]"] by (simp add: field_prime_def)
qed

end
