(* ===== verification/MerkleNode.thy ===== *)
theory MerkleNode
  imports Felt_Correct
begin

text \<open>
  The nodes of the binary Merkle-Patricia trie: \<^verbatim>\<open>crates/merkle-tree/src/merkle_node.rs\<close>,
  the read-only storage interface \<^verbatim>\<open>storage.rs\<close>, and the node types of
  \<^verbatim>\<open>crates/storage/src/connection/trie.rs\<close> it exchanges with the database. A path
  (\<^verbatim>\<open>BitVec<u8, Msb0>\<close>) is a list of bits; a \<^verbatim>\<open>Rc<RefCell<InternalNode>>\<close> is the node
  itself, since no node of a tree has two parents.
\<close>

type_synonym trie_path = "bool list"

type_synonym trie_index = u64

text \<open>\<^verbatim>\<open>FeltHash\<close>, the hash function a tree is instantiated with.\<close>

type_synonym felt_hash = "felt \<Rightarrow> felt \<Rightarrow> felt"

section \<open>Nodes of the in-memory tree\<close>

datatype internal_node =
    Unresolved trie_index
  | Binary "trie_index option" nat internal_node internal_node
  | Edge "trie_index option" nat trie_path internal_node
  | Leaf

datatype direction = Left | Right

definition invert :: "direction \<Rightarrow> direction" where
  "invert d = (case d of Left \<Rightarrow> Right | Right \<Rightarrow> Left)"

definition direction_of_bool :: "bool \<Rightarrow> direction" where
  "direction_of_bool tf = (if tf then Right else Left)"

definition bool_of_direction :: "direction \<Rightarrow> bool" where
  "bool_of_direction d = (case d of Left \<Rightarrow> False | Right \<Rightarrow> True)"

text \<open>The methods of \<^verbatim>\<open>BinaryNode\<close>, on its fields.\<close>

definition binary_direction :: "nat \<Rightarrow> trie_path \<Rightarrow> direction outcome" where
  "binary_direction height key =
     bind_outcome (index_panic key height) (\<lambda>b. Inr (direction_of_bool b))"

definition get_child :: "internal_node \<Rightarrow> internal_node \<Rightarrow> direction \<Rightarrow> internal_node" where
  "get_child left right d = (case d of Left \<Rightarrow> left | Right \<Rightarrow> right)"

definition binary_calculate_hash :: "felt_hash \<Rightarrow> felt \<Rightarrow> felt \<Rightarrow> felt" where
  "binary_calculate_hash H left right = H left right"

text \<open>The methods of \<^verbatim>\<open>InternalNode\<close>.\<close>

definition storage_index :: "internal_node \<Rightarrow> trie_index option" where
  "storage_index n = (case n of
       Unresolved i \<Rightarrow> Some i
     | Binary si _ _ _ \<Rightarrow> si
     | Edge si _ _ _ \<Rightarrow> si
     | Leaf \<Rightarrow> None)"

definition as_binary :: "internal_node \<Rightarrow> (trie_index option \<times> nat \<times> internal_node \<times> internal_node) option" where
  "as_binary n = (case n of Binary si h l r \<Rightarrow> Some (si, h, l, r) | _ \<Rightarrow> None)"

definition as_edge :: "internal_node \<Rightarrow> (trie_index option \<times> nat \<times> trie_path \<times> internal_node) option" where
  "as_edge n = (case n of Edge si h p c \<Rightarrow> Some (si, h, p, c) | _ \<Rightarrow> None)"

text \<open>The methods of \<^verbatim>\<open>EdgeNode\<close>.\<close>

definition path_matches :: "nat \<Rightarrow> trie_path \<Rightarrow> trie_path \<Rightarrow> bool outcome" where
  "path_matches height path key =
     bind_outcome (slice_range key height (length path)) (\<lambda>s. Inr (path = s))"

definition common_path :: "nat \<Rightarrow> trie_path \<Rightarrow> trie_path \<Rightarrow> trie_path" where
  "common_path height path key =
     (let key_path = drop height key;
          common_length = length (takeWhile (\<lambda>(a, b). a = b) (zip key_path path))
      in take common_length path)"

definition edge_calculate_hash :: "felt_hash \<Rightarrow> felt \<Rightarrow> trie_path \<Rightarrow> felt outcome" where
  "edge_calculate_hash H child path =
     (let len = (replicate 32 0)[31 := of_nat (length path)]
      in bind_outcome (unwrap_overflow (felt_from_be_bytes len)) (\<lambda>len.
         bind_outcome (unwrap_overflow (felt_from_bits path)) (\<lambda>path.
           felt_add (H child path) len)))"

section \<open>Nodes in storage\<close>

datatype stored_node =
    StoredBinary trie_index trie_index
  | StoredEdge trie_index trie_path
  | StoredLeafBinary
  | StoredLeafEdge trie_path

text \<open>
  The nodes of a trie update: a child is a node already stored or an index into the list of
  added nodes.
\<close>

datatype node_ref = StorageIndex trie_index | Index nat

datatype trie_node_added =
    AddedBinary node_ref node_ref
  | AddedEdge node_ref trie_path
  | AddedLeafBinary
  | AddedLeafEdge trie_path

record trie_update =
  nodes_added :: "(felt \<times> trie_node_added) list"
  update_nodes_removed :: "trie_index list"
  root_commitment :: felt

text \<open>The trait \<^verbatim>\<open>Storage\<close>: the three read operations the tree is given.\<close>

record storage =
  st_get :: "trie_index \<Rightarrow> stored_node option outcome"
  st_hash :: "trie_index \<Rightarrow> felt option outcome"
  st_leaf :: "trie_path \<Rightarrow> felt option outcome"

text \<open>\<^verbatim>\<open>TrieNode\<close> of \<^verbatim>\<open>crates/common/src/trie.rs\<close>, the node of a proof.\<close>

datatype trie_node =
    TrieBinary felt felt
  | TrieEdge felt trie_path

definition trie_node_hash :: "felt_hash \<Rightarrow> trie_node \<Rightarrow> felt outcome" where
  "trie_node_hash H n = (case n of
       TrieBinary left right \<Rightarrow> Inr (H left right)
     | TrieEdge child path \<Rightarrow>
         let len = (replicate 32 0)[31 := of_nat (length path)]
         in bind_outcome (unwrap_overflow (felt_from_bits path)) (\<lambda>path.
            bind_outcome (unwrap_overflow (felt_from_be_bytes len)) (\<lambda>len.
              felt_add (H child path) len)))"

end
