(* ===== verification/MerkleTree.thy ===== *)
theory MerkleTree
  imports MerkleNode
begin

text \<open>
  The in-memory Merkle tree, \<^verbatim>\<open>crates/merkle-tree/src/tree.rs\<close>. The tree is generic in its
  height (\<open>hgt\<close>, the \<^verbatim>\<open>const HEIGHT\<close>) and its hash. Traversal walks down with a zipper: the
  nodes above the current one are the frames, so replacing a node in place
  (\<^verbatim>\<open>node.replace(..)\<close>) is plugging another node into its frames. An operation that resolves
  nodes in place returns the tree with those nodes resolved; the state after a returned error
  is not modelled.
\<close>

record merkle_tree =
  root :: "internal_node option"
  leaves :: "trie_path \<rightharpoonup> felt"
  nodes_removed :: "trie_index list"
  verify_hashes :: bool

definition tree_new :: "trie_index \<Rightarrow> merkle_tree" where
  "tree_new idx = \<lparr> root = Some (Unresolved idx), leaves = Map.empty, nodes_removed = [],
     verify_hashes = False \<rparr>"

definition with_verify_hashes :: "bool \<Rightarrow> merkle_tree \<Rightarrow> merkle_tree" where
  "with_verify_hashes b t = t\<lparr> verify_hashes := b \<rparr>"

definition tree_empty :: merkle_tree where
  "tree_empty = \<lparr> root = None, leaves = Map.empty, nodes_removed = [], verify_hashes = False \<rparr>"

section \<open>Traversal\<close>

definition resolve :: "nat \<Rightarrow> storage \<Rightarrow> trie_index \<Rightarrow> nat \<Rightarrow> internal_node outcome" where
  "resolve hgt st index height =
     (if \<not> height < hgt then Inl (Err ''Attempted to resolve a node which exceeds the tree height'')
      else
        bind_outcome (st_get st index) (\<lambda>n.
        bind_outcome (context_some ''Node is missing'' n) (\<lambda>n.
          Inr (case n of
             StoredBinary left right \<Rightarrow> Binary (Some index) height (Unresolved left) (Unresolved right)
           | StoredEdge child path \<Rightarrow> Edge (Some index) height path (Unresolved child)
           | StoredLeafBinary \<Rightarrow> Binary (Some index) height Leaf Leaf
           | StoredLeafEdge path \<Rightarrow> Edge (Some index) height path Leaf))))"

text \<open>A frame is a node on the path from the root without the child the path goes through.\<close>

datatype frame =
    BinaryFrame "trie_index option" nat direction internal_node
  | EdgeFrame "trie_index option" nat trie_path

definition plug_frame :: "frame \<Rightarrow> internal_node \<Rightarrow> internal_node" where
  "plug_frame f n = (case f of
       BinaryFrame si h d other \<Rightarrow>
         (case d of Left \<Rightarrow> Binary si h n other | Right \<Rightarrow> Binary si h other n)
     | EdgeFrame si h p \<Rightarrow> Edge si h p n)"

fun plug :: "frame list \<Rightarrow> internal_node \<Rightarrow> internal_node" where
  "plug [] n = n"
| "plug (f # fs) n = plug fs (plug_frame f n)"

fun traverse_loop ::
  "nat \<Rightarrow> nat \<Rightarrow> storage \<Rightarrow> trie_path \<Rightarrow> nat \<Rightarrow> frame list \<Rightarrow> internal_node
     \<Rightarrow> (frame list \<times> internal_node) outcome" where
  "traverse_loop 0 hgt st dst height fs current = Inl OutOfFuel"
| "traverse_loop (Suc fuel) hgt st dst height fs current = (case current of
       Unresolved idx \<Rightarrow>
         bind_outcome (resolve hgt st idx height) (\<lambda>n. traverse_loop fuel hgt st dst height fs n)
     | Binary si h left right \<Rightarrow>
         bind_outcome (binary_direction h dst) (\<lambda>d.
           traverse_loop fuel hgt st dst (height + 1)
             (BinaryFrame si h d (get_child left right (invert d)) # fs) (get_child left right d))
     | Edge si h path child \<Rightarrow>
         bind_outcome (path_matches h path dst) (\<lambda>matches.
           if matches
           then traverse_loop fuel hgt st dst (height + length path) (EdgeFrame si h path # fs) child
           else Inr (fs, current))
     | Leaf \<Rightarrow> Inr (fs, current))"

text \<open>
  Each level is resolved and then descended at most once: two steps for each of the
  \<open>hgt\<close> levels and one for the leaf are enough.
\<close>

definition traverse ::
  "nat \<Rightarrow> storage \<Rightarrow> trie_path \<Rightarrow> merkle_tree \<Rightarrow> (frame list \<times> internal_node) option outcome" where
  "traverse hgt st dst t = (case root t of
       None \<Rightarrow> Inr None
     | Some current \<Rightarrow>
         bind_outcome (traverse_loop (2 * hgt + 2) hgt st dst 0 [] current) (\<lambda>z. Inr (Some z)))"

section \<open>Reading\<close>

definition tree_get ::
  "nat \<Rightarrow> storage \<Rightarrow> trie_path \<Rightarrow> merkle_tree \<Rightarrow> (felt option \<times> merkle_tree) outcome" where
  "tree_get hgt st key t =
     bind_outcome (traverse hgt st key t) (\<lambda>z. case z of
         None \<Rightarrow> Inr (None, t)
       | Some (fs, node) \<Rightarrow>
           let t = t\<lparr> root := Some (plug fs node) \<rparr>
           in if node = Leaf
              then (case leaves t key of
                      Some value \<Rightarrow> Inr (Some value, t)
                    | None \<Rightarrow> bind_outcome (st_leaf st key) (\<lambda>v. Inr (v, t)))
              else Inr (None, t))"

section \<open>Writing\<close>

text \<open>The node that replaces a diverging edge, with a leaf for \<open>key\<close> in it.\<close>

definition split_edge :: "nat \<Rightarrow> trie_path \<Rightarrow> internal_node \<Rightarrow> trie_path \<Rightarrow> internal_node outcome" where
  "split_edge height path child key =
     (let common = common_path height path key;
          branch_height = height + length common;
          child_height = branch_height + 1
      in
      bind_outcome (slice_from key child_height) (\<lambda>new_path.
      bind_outcome (slice_from path (length common + 1)) (\<lambda>old_path.
      let new = (if new_path = [] then Leaf else Edge None child_height new_path Leaf);
          old = (if old_path = [] then child else Edge None child_height old_path child)
      in
      bind_outcome (index_panic key branch_height) (\<lambda>b.
      let (left, right) = (case direction_of_bool b of Left \<Rightarrow> (new, old) | Right \<Rightarrow> (old, new));
          branch = Binary None branch_height left right
      in Inr (if common = [] then branch else Edge None height common branch)))))"

definition push_index :: "trie_index option \<Rightarrow> trie_index list \<Rightarrow> trie_index list" where
  "push_index i is = (case i of Some i \<Rightarrow> is @ [i] | None \<Rightarrow> is)"

definition set_node :: "internal_node \<Rightarrow> trie_path \<Rightarrow> internal_node outcome" where
  "set_node node key = (case node of
       Edge si height path child \<Rightarrow> split_edge height path child key
     | Leaf \<Rightarrow> Inr Leaf
     | _ \<Rightarrow> Inl (Panic ''The end of a traversion cannot be unresolved or binary''))"

text \<open>
  \<^verbatim>\<open>merge_edges\<close> on the fields of the parent edge: its new path and child, with the
  indices to remove.
\<close>

definition merge_edges ::
  "nat \<Rightarrow> storage \<Rightarrow> nat \<Rightarrow> trie_path \<Rightarrow> internal_node \<Rightarrow> trie_index list
     \<Rightarrow> (trie_path \<times> internal_node \<times> trie_index list) outcome" where
  "merge_edges hgt st height path child removed =
     bind_outcome
       (case child of
          Unresolved idx \<Rightarrow> resolve hgt st idx (height + length path)
        | other \<Rightarrow> Inr other)
       (\<lambda>resolved_child. case as_edge resolved_child of
            Some (si, h, child_path, grandchild) \<Rightarrow>
              Inr (path @ child_path, grandchild, push_index si removed)
          | None \<Rightarrow> Inr (path, child, removed))"

text \<open>
  Going back up from the deleted leaf to the first branch node, collecting the indices of the
  nodes passed; the result is the branch's frame with the frames above it.
\<close>

fun skip_to_binary :: "frame list \<Rightarrow> trie_index list \<Rightarrow> (frame \<times> frame list) option \<times> trie_index list" where
  "skip_to_binary [] removed = (None, removed)"
| "skip_to_binary (BinaryFrame si h d other # fs) removed = (Some (BinaryFrame si h d other, fs), removed)"
| "skip_to_binary (EdgeFrame si h p # fs) removed = skip_to_binary fs (push_index si removed)"

definition delete_branch ::
  "nat \<Rightarrow> storage \<Rightarrow> trie_path \<Rightarrow> frame \<Rightarrow> internal_node \<Rightarrow> frame list \<Rightarrow> trie_index list
     \<Rightarrow> (internal_node \<times> trie_index list) outcome" where
  "delete_branch hgt st key f below fs removed =
     bind_outcome (expect_some ''unwrap'' (as_binary (plug_frame f below))) (\<lambda>(si, height, left, right).
     bind_outcome (binary_direction height key) (\<lambda>d.
     let direction = invert d;
         child = get_child left right direction
     in
     bind_outcome (merge_edges hgt st height [bool_of_direction direction] child removed) (\<lambda>(path, child, removed).
     let new_edge = Edge None height path child;
         removed = push_index si removed
     in case fs of
          EdgeFrame psi ph pp # upper \<Rightarrow>
            bind_outcome (merge_edges hgt st ph pp new_edge removed) (\<lambda>(pp, c, removed).
              Inr (plug upper (Edge psi ph pp c), removed))
        | _ \<Rightarrow> Inr (plug fs new_edge, removed))))"

definition delete_leaf :: "nat \<Rightarrow> storage \<Rightarrow> trie_path \<Rightarrow> merkle_tree \<Rightarrow> merkle_tree outcome" where
  "delete_leaf hgt st key t =
     bind_outcome (traverse hgt st key t) (\<lambda>z. case z of
         None \<Rightarrow> Inr t
       | Some (fs, node) \<Rightarrow>
           if node \<noteq> Leaf then Inr (t\<lparr> root := Some (plug fs node) \<rparr>)
           else (case skip_to_binary fs [] of
               (None, indexes_removed) \<Rightarrow>
                 Inr (t\<lparr> root := None, nodes_removed := nodes_removed t @ indexes_removed \<rparr>)
             | (Some (f, upper), indexes_removed) \<Rightarrow>
                 bind_outcome (delete_branch hgt st key f node upper (nodes_removed t)) (\<lambda>(n, removed).
                   Inr (t\<lparr> root := Some n, nodes_removed := removed @ indexes_removed \<rparr>))))"

definition tree_set :: "nat \<Rightarrow> storage \<Rightarrow> trie_path \<Rightarrow> felt \<Rightarrow> merkle_tree \<Rightarrow> merkle_tree outcome" where
  "tree_set hgt st key value t =
     (if value = felt_ZERO then delete_leaf hgt st key t
      else
        bind_outcome (traverse hgt st key t) (\<lambda>z. case z of
            Some (fs, node) \<Rightarrow>
              bind_outcome (set_node node key) (\<lambda>updated.
                Inr (t\<lparr> root := Some (plug fs updated),
                       nodes_removed := push_index (storage_index node) (nodes_removed t),
                       leaves := (leaves t)(key \<mapsto> value) \<rparr>))
          | None \<Rightarrow>
              Inr (t\<lparr> root := Some (Edge None 0 key Leaf), leaves := (leaves t)(key \<mapsto> value) \<rparr>)))"

text \<open>A sequence of writes, as the updates of a block are applied.\<close>

fun tree_set_all :: "nat \<Rightarrow> storage \<Rightarrow> (trie_path \<times> felt) list \<Rightarrow> merkle_tree \<Rightarrow> merkle_tree outcome" where
  "tree_set_all hgt st [] t = Inr t"
| "tree_set_all hgt st ((key, value) # updates) t =
     bind_outcome (tree_set hgt st key value t) (tree_set_all hgt st updates)"

end
