(* ===== verification/MerkleSpec.thy ===== *)
theory MerkleSpec
  imports MerkleTree "HOL-Library.Sublist"
begin

text \<open>
  What a Merkle tree means. The reference commitment of a finite map from keys to values is
  the recursive definition of the Starknet documentation: the node of an empty subtree is
  absent, the node above one non-empty child extends that child's path by a bit, and the node
  above two is a binary node. \<open>repr\<close> relates an in-memory node, through the storage its
  unresolved parts live in, to the set of keys below it and the map of values.
\<close>

section \<open>Reference commitment\<close>

definition edge_hash :: "felt_hash \<Rightarrow> felt \<Rightarrow> trie_path \<Rightarrow> felt" where
  "edge_hash H b p =
     be_bytes 32 ((be_val (H b (be_bytes 32 (bits_val p))) + length p) mod field_prime)"

definition node_hash :: "felt_hash \<Rightarrow> trie_path \<times> felt \<Rightarrow> felt" where
  "node_hash H = (\<lambda>(p, b). if p = [] then b else edge_hash H b p)"

definition mpt_join ::
  "felt_hash \<Rightarrow> (trie_path \<times> felt) option \<Rightarrow> (trie_path \<times> felt) option \<Rightarrow> (trie_path \<times> felt) option" where
  "mpt_join H l r = (case (l, r) of
       (None, None) \<Rightarrow> None
     | (Some (p, b), None) \<Rightarrow> Some (False # p, b)
     | (None, Some (p, b)) \<Rightarrow> Some (True # p, b)
     | (Some x, Some y) \<Rightarrow> Some ([], H (node_hash H x) (node_hash H y)))"

text \<open>The subtree of height \<open>n\<close> at the prefix \<open>pre\<close>, as its path and the hash at its end.\<close>

fun mpt :: "felt_hash \<Rightarrow> nat \<Rightarrow> trie_path \<Rightarrow> (trie_path \<rightharpoonup> felt) \<Rightarrow> (trie_path \<times> felt) option" where
  "mpt H 0 pre M = map_option (\<lambda>v. ([], v)) (M pre)"
| "mpt H (Suc n) pre M = mpt_join H (mpt H n (pre @ [False]) M) (mpt H n (pre @ [True]) M)"

definition subtree_hash :: "felt_hash \<Rightarrow> nat \<Rightarrow> (trie_path \<rightharpoonup> felt) \<Rightarrow> trie_path \<Rightarrow> felt" where
  "subtree_hash H hgt M pre = (case mpt H (hgt - length pre) pre M of
     None \<Rightarrow> felt_ZERO | Some x \<Rightarrow> node_hash H x)"

definition commitment :: "felt_hash \<Rightarrow> nat \<Rightarrow> (trie_path \<rightharpoonup> felt) \<Rightarrow> felt" where
  "commitment H hgt M = subtree_hash H hgt M []"

section \<open>Representation\<close>

text \<open>The end of an edge is a leaf or a branch: edges are maximal.\<close>

definition branching :: "trie_path \<Rightarrow> trie_path set \<Rightarrow> bool" where
  "branching q K \<longleftrightarrow>
     K = {q} \<or> ((\<exists>k \<in> K. prefix (q @ [False]) k) \<and> (\<exists>k \<in> K. prefix (q @ [True]) k))"

text \<open>
  \<open>repr H hgt st L M pre n K\<close>: below the node \<open>n\<close> at the prefix \<open>pre\<close> are exactly the keys
  \<open>K\<close>, with the values of \<open>M\<close>. A leaf's value is in the overlay \<open>L\<close> of changed leaves or in
  storage; an unresolved node stands for a stored subtree no leaf of which is in the overlay,
  and its stored hash is the reference hash of its keys.
\<close>

inductive repr ::
  "felt_hash \<Rightarrow> nat \<Rightarrow> storage \<Rightarrow> (trie_path \<rightharpoonup> felt) \<Rightarrow> (trie_path \<rightharpoonup> felt)
     \<Rightarrow> trie_path \<Rightarrow> internal_node \<Rightarrow> trie_path set \<Rightarrow> bool"
  for H hgt st L M where
  repr_Leaf: "length pre = hgt \<Longrightarrow> M pre = Some v
     \<Longrightarrow> L pre = Some v \<or> L pre = None \<and> st_leaf st pre = Inr (Some v)
     \<Longrightarrow> repr H hgt st L M pre Leaf {pre}"
| repr_Binary: "repr H hgt st L M (pre @ [False]) l Kl \<Longrightarrow> repr H hgt st L M (pre @ [True]) r Kr
     \<Longrightarrow> h = length pre \<Longrightarrow> repr H hgt st L M pre (Binary si h l r) (Kl \<union> Kr)"
| repr_Edge: "p \<noteq> [] \<Longrightarrow> repr H hgt st L M (pre @ p) c K \<Longrightarrow> branching (pre @ p) K
     \<Longrightarrow> h = length pre \<Longrightarrow> repr H hgt st L M pre (Edge si h p c) K"
| repr_Unresolved: "resolve hgt st idx (length pre) = Inr n \<Longrightarrow> repr H hgt st L M pre n K
     \<Longrightarrow> \<forall>k \<in> K. L k = None \<Longrightarrow> st_hash st idx = Inr (Some (subtree_hash H hgt (M |` K) pre))
     \<Longrightarrow> repr H hgt st L M pre (Unresolved idx) K"

inductive_cases repr_LeafE: "repr H hgt st L M pre Leaf K"
inductive_cases repr_BinaryE: "repr H hgt st L M pre (Binary si h l r) K"
inductive_cases repr_EdgeE: "repr H hgt st L M pre (Edge si h p c) K"
inductive_cases repr_UnresolvedE: "repr H hgt st L M pre (Unresolved idx) K"

text \<open>
  The frames above a node at the prefix \<open>pre\<close>, with \<open>R\<close> the keys of the tree outside the
  node. An edge's parent is never an edge.
\<close>

fun is_edge_frame :: "frame list \<Rightarrow> bool" where
  "is_edge_frame (EdgeFrame si h p # fs) = True"
| "is_edge_frame fs = False"

inductive frames_repr ::
  "felt_hash \<Rightarrow> nat \<Rightarrow> storage \<Rightarrow> (trie_path \<rightharpoonup> felt) \<Rightarrow> (trie_path \<rightharpoonup> felt)
     \<Rightarrow> trie_path \<Rightarrow> frame list \<Rightarrow> trie_path set \<Rightarrow> bool"
  for H hgt st L M where
  frames_Nil: "frames_repr H hgt st L M [] [] {}"
| frames_Binary: "frames_repr H hgt st L M pre fs R
     \<Longrightarrow> repr H hgt st L M (pre @ [\<not> bool_of_direction d]) other K \<Longrightarrow> h = length pre
     \<Longrightarrow> frames_repr H hgt st L M (pre @ [bool_of_direction d]) (BinaryFrame si h d other # fs) (R \<union> K)"
| frames_Edge: "frames_repr H hgt st L M pre fs R \<Longrightarrow> p \<noteq> [] \<Longrightarrow> \<not> is_edge_frame fs \<Longrightarrow> h = length pre
     \<Longrightarrow> frames_repr H hgt st L M (pre @ p) (EdgeFrame si h p # fs) R"

inductive_cases frames_NilE: "frames_repr H hgt st L M pre [] R"
inductive_cases frames_BinaryE: "frames_repr H hgt st L M pre (BinaryFrame si h d other # fs) R"
inductive_cases frames_EdgeE: "frames_repr H hgt st L M pre (EdgeFrame si h p # fs) R"

text \<open>The tree as a whole represents the map \<open>M\<close>.\<close>

definition tree_repr :: "felt_hash \<Rightarrow> nat \<Rightarrow> storage \<Rightarrow> merkle_tree \<Rightarrow> (trie_path \<rightharpoonup> felt) \<Rightarrow> bool" where
  "tree_repr H hgt st t M = (case root t of
       None \<Rightarrow> M = Map.empty
     | Some n \<Rightarrow> repr H hgt st (leaves t) M [] n (dom M))"

section \<open>Keys below a node\<close>

lemma direction_simps [simp]:
  "bool_of_direction (direction_of_bool b) = b"
  "bool_of_direction (invert d) = (\<not> bool_of_direction d)"
  "invert (direction_of_bool b) = direction_of_bool (\<not> b)"
  "get_child l r (direction_of_bool b) = (if b then r else l)"
  by (simp_all add: direction_of_bool_def bool_of_direction_def invert_def get_child_def split: direction.split)

lemma repr_keys:
  assumes "repr H hgt st L M pre n K"
  shows "K \<noteq> {} \<and> (\<forall>k \<in> K. prefix pre k \<and> length k = hgt \<and> M k \<noteq> None)"
  using assms
proof (induction rule: repr.induct)
  case (repr_Binary pre l Kl r Kr h si)
  then show ?case by (auto dest: append_prefixD)
next
  case (repr_Edge p pre c K h si)
  then show ?case by (auto dest: append_prefixD)
qed auto

lemma repr_nonempty: "repr H hgt st L M pre n K \<Longrightarrow> K \<noteq> {}"
  using repr_keys by blast

lemma repr_prefix: "repr H hgt st L M pre n K \<Longrightarrow> k \<in> K \<Longrightarrow> prefix pre k"
  using repr_keys by blast

lemma repr_length: "repr H hgt st L M pre n K \<Longrightarrow> k \<in> K \<Longrightarrow> length k = hgt"
  using repr_keys by blast

lemma repr_height: "repr H hgt st L M pre n K \<Longrightarrow> length pre \<le> hgt"
  using repr_keys prefix_length_le by fastforce

lemma repr_height_less:
  assumes "repr H hgt st L M pre n K" and "n \<noteq> Leaf"
  shows "length pre < hgt"
  using assms
proof (cases rule: repr.cases)
  case (repr_Binary l Kl r Kr h si)
  then show ?thesis using repr_height [of H hgt st L M "pre @ [False]" l Kl] by simp
next
  case (repr_Edge p c h si)
  then show ?thesis using repr_height [of H hgt st L M "pre @ p" c K] by (cases p) auto
next
  case (repr_Unresolved idx m)
  then show ?thesis by (auto simp: resolve_def split: if_splits)
qed auto

lemma repr_agree:
  assumes "repr H hgt st L M pre n K" and "\<forall>k \<in> K. L' k = L k \<and> M' k = M k"
  shows "repr H hgt st L' M' pre n K"
  using assms
proof (induction rule: repr.induct)
  case (repr_Leaf pre v)
  then show ?case by (intro repr.repr_Leaf) auto
next
  case (repr_Unresolved idx pre n K)
  have "M' |` K = M |` K" using repr_Unresolved.prems by (auto simp: restrict_map_def)
  then show ?case using repr_Unresolved by (auto intro!: repr.repr_Unresolved)
qed (auto intro: repr.intros)

lemma frames_agree:
  assumes "frames_repr H hgt st L M pre fs R" and "\<forall>k \<in> R. L' k = L k \<and> M' k = M k"
  shows "frames_repr H hgt st L' M' pre fs R"
  using assms by (induction rule: frames_repr.induct) (auto intro!: frames_repr.intros dest: repr_agree)

lemma prefix_bit: "prefix (q @ [b]) k \<Longrightarrow> \<not> prefix (q @ [\<not> b]) k"
  by (auto simp: prefix_def)

lemma frames_disjoint:
  assumes "frames_repr H hgt st L M pre fs R"
  shows "k \<in> R \<Longrightarrow> \<not> prefix pre k"
  using assms
proof (induction rule: frames_repr.induct)
  case (frames_Binary pre fs R d other K h si)
  then show ?case using repr_prefix prefix_bit [of pre "bool_of_direction d" k] by (auto dest: append_prefixD)
qed (auto dest: append_prefixD)

lemma branching_bits:
  assumes "K \<noteq> {}" and "\<forall>k \<in> K. prefix (q @ [b]) k" and "K' \<noteq> {}" and "\<forall>k \<in> K'. prefix (q @ [\<not> b]) k"
  shows "branching q (K \<union> K')"
  using assms by (cases b) (auto simp: branching_def)

lemma plug_repr:
  assumes "frames_repr H hgt st L M pre fs R" and "repr H hgt st L M pre n K"
    and "is_edge_frame fs \<Longrightarrow> branching pre K"
  shows "repr H hgt st L M [] (plug fs n) (K \<union> R)"
  using assms
proof (induction arbitrary: n K rule: frames_repr.induct)
  case (frames_Binary pre fs R d other K' h si)
  have "branching pre (K \<union> K')"
    using branching_bits repr_nonempty repr_prefix frames_Binary.prems(1) frames_Binary.hyps(2) by metis
  moreover have "repr H hgt st L M pre (plug_frame (BinaryFrame si h d other) n) (K \<union> K')"
  proof (cases d)
    case Left
    then show ?thesis using frames_Binary.prems(1) frames_Binary.hyps(2,3)
      by (auto simp: plug_frame_def bool_of_direction_def intro: repr_Binary)
  next
    case Right
    then have "repr H hgt st L M pre (plug_frame (BinaryFrame si h d other) n) (K' \<union> K)"
      using frames_Binary.prems(1) frames_Binary.hyps(2,3)
      by (auto simp: plug_frame_def bool_of_direction_def intro: repr_Binary)
    then show ?thesis by (simp only: Un_commute)
  qed
  ultimately have "repr H hgt st L M [] (plug fs (plug_frame (BinaryFrame si h d other) n)) (K \<union> K' \<union> R)"
    by (intro frames_Binary.IH) auto
  then show ?case by (simp add: Un_assoc Un_commute [of K' R])
next
  case (frames_Edge pre fs R p h si)
  have "repr H hgt st L M pre (plug_frame (EdgeFrame si h p) n) K"
    using frames_Edge by (auto simp: plug_frame_def intro: repr_Edge)
  then show ?case using frames_Edge.IH frames_Edge.hyps(3) by simp
qed simp

end
