(* ===== verification/MerkleTree_Correct.thy ===== *)
theory MerkleTree_Correct
  imports MerkleSpec
begin

text \<open>
  The operations of the Merkle tree refine those of a map: reading returns the value of the
  map, setting a key updates it, setting it to zero removes it. Each operation succeeds on a
  represented tree, and the tree it leaves is again represented, hence again canonical.
\<close>

section \<open>Traversal\<close>

lemma path_matches_prefix:
  assumes "prefix pre key" and "length pre + length p \<le> length key"
  shows "path_matches (length pre) p key = Inr (prefix (pre @ p) key)"
proof -
  obtain rest where key: "key = pre @ rest" using assms(1) by (auto simp: prefix_def)
  have "p = take (length p) rest \<longleftrightarrow> prefix p rest"
    using assms(2) by (metis append_eq_conv_conj key length_append nat_add_left_cancel_le prefix_def take_is_prefix)
  then show ?thesis using assms(2) by (simp add: path_matches_def key)
qed

lemma binary_direction_bit:
  assumes "prefix pre key" and "length pre < length key"
  shows "binary_direction (length pre) key = Inr (direction_of_bool (key ! length pre))"
    and "prefix (pre @ [key ! length pre]) key"
  using assms by (auto simp: binary_direction_def prefix_def nth_append Cons_eq_append_conv neq_Nil_conv)

text \<open>Where a traversal towards \<open>key\<close> ends.\<close>

definition end_of_path :: "trie_path \<Rightarrow> trie_path \<Rightarrow> internal_node \<Rightarrow> bool" where
  "end_of_path key pre n \<longleftrightarrow> prefix pre key \<and>
     (n = Leaf \<and> pre = key \<or> (\<exists>si h p c. n = Edge si h p c \<and> \<not> prefix (pre @ p) key))"

definition resolve_cost :: "internal_node \<Rightarrow> nat" where
  "resolve_cost n = (case n of Unresolved _ \<Rightarrow> 1 | Leaf \<Rightarrow> 1 | _ \<Rightarrow> 0)"

lemma resolve_not_unresolved: "resolve hgt st idx h = Inr n \<Longrightarrow> resolve_cost n = 0"
  by (auto simp: resolve_def resolve_cost_def split: if_splits stored_node.splits)

lemma edge_not_branching:
  assumes "repr H hgt st L M (pre @ p) c K" and "p \<noteq> []"
  shows "\<not> branching pre K"
proof
  assume br: "branching pre K"
  obtain b q where p: "p = b # q" using assms(2) by (cases p) auto
  have keys: "prefix (pre @ [b]) k" if "k \<in> K" for k
    using repr_prefix [OF assms(1) that] by (auto simp: p prefix_def)
  have "K \<noteq> {pre}" using keys [of pre] by (auto simp: prefix_def)
  then have "\<exists>k \<in> K. prefix (pre @ [\<not> b]) k" using br by (cases b) (simp_all add: branching_def)
  then show False using keys prefix_bit by blast
qed

lemma traverse_loop_repr:
  assumes "repr H hgt st L M pre n K" and "frames_repr H hgt st L M pre fs R"
    and "prefix pre key" and "length key = hgt" and "is_edge_frame fs \<Longrightarrow> branching pre K"
    and "2 * (hgt - length pre) + resolve_cost n \<le> fuel"
  shows "\<exists>fs' n' pre' K' R'. traverse_loop fuel hgt st key (length pre) fs n = Inr (fs', n') \<and>
    repr H hgt st L M pre' n' K' \<and> frames_repr H hgt st L M pre' fs' R' \<and> K' \<union> R' = K \<union> R \<and>
    (is_edge_frame fs' \<longrightarrow> branching pre' K') \<and> end_of_path key pre' n'"
  using assms
proof (induction fuel arbitrary: pre n K fs R)
  case 0
  then show ?case using repr_height_less [OF 0(1)] by (cases n) (auto simp: resolve_cost_def)
next
  case (Suc fuel)
  note rep = Suc.prems(1) and fr = Suc.prems(2) and pre = Suc.prems(3) and len = Suc.prems(4)
  show ?case
  proof (cases n)
    case (Unresolved idx)
    with rep obtain m where m: "resolve hgt st idx (length pre) = Inr m" "repr H hgt st L M pre m K"
      by (auto elim: repr_UnresolvedE)
    have "2 * (hgt - length pre) + resolve_cost m \<le> fuel"
      using Suc.prems(6) Unresolved resolve_not_unresolved [OF m(1)] by (simp add: resolve_cost_def)
    from Suc.IH [OF m(2) fr pre len Suc.prems(5) this] show ?thesis using Unresolved m(1) by simp
  next
    case (Binary si h l r)
    with rep obtain Kl Kr where K: "K = Kl \<union> Kr" "h = length pre"
        "repr H hgt st L M (pre @ [False]) l Kl" "repr H hgt st L M (pre @ [True]) r Kr"
      by (auto elim: repr_BinaryE)
    have less: "length pre < hgt" using repr_height_less [OF rep] Binary by simp
    define b where "b = key ! length pre"
    have dir: "binary_direction h key = Inr (direction_of_bool b)" and pre': "prefix (pre @ [b]) key"
      using binary_direction_bit [OF pre] less len K(2) by (simp_all add: b_def)
    let ?c = "if b then r else l" and ?o = "if b then l else r"
    let ?Kc = "if b then Kr else Kl" and ?Ko = "if b then Kl else Kr"
    let ?fs = "BinaryFrame si h (direction_of_bool b) ?o # fs"
    have c: "repr H hgt st L M (pre @ [b]) ?c ?Kc" and o: "repr H hgt st L M (pre @ [\<not> b]) ?o ?Ko"
      using K(3,4) by (cases b; simp)+
    have fs: "frames_repr H hgt st L M (pre @ [b]) ?fs (R \<union> ?Ko)"
      using frames_Binary [OF fr, of "direction_of_bool b" ?o ?Ko h si] o K(2) by simp
    have "2 * (hgt - length (pre @ [b])) + resolve_cost ?c \<le> fuel"
      using Suc.prems(6) less by (auto simp: resolve_cost_def split: internal_node.splits)
    from Suc.IH [OF c fs pre' len _ this]
    obtain fs' n' pre' K' R' where res: "traverse_loop fuel hgt st key (length (pre @ [b])) ?fs ?c = Inr (fs', n')"
        "repr H hgt st L M pre' n' K'" "frames_repr H hgt st L M pre' fs' R'" "K' \<union> R' = ?Kc \<union> (R \<union> ?Ko)"
        "is_edge_frame fs' \<longrightarrow> branching pre' K'" "end_of_path key pre' n'"
      by auto
    have "?Kc \<union> (R \<union> ?Ko) = K \<union> R" using K(1) by auto
    then have "K' \<union> R' = K \<union> R" using res(4) by simp
    moreover have "traverse_loop (Suc fuel) hgt st key (length pre) fs n = Inr (fs', n')"
      using res(1) Binary dir by (cases b) simp_all
    ultimately show ?thesis using res by blast
  next
    case (Edge si h p c)
    with rep have p: "p \<noteq> []" "repr H hgt st L M (pre @ p) c K" "branching (pre @ p) K" "h = length pre"
      by (auto elim: repr_EdgeE)
    have "length pre + length p \<le> length key" using repr_height [OF p(2)] len by simp
    then have matches: "path_matches h p key = Inr (prefix (pre @ p) key)"
      using path_matches_prefix [OF pre] p(4) by simp
    show ?thesis
    proof (cases "prefix (pre @ p) key")
      case True
      have "\<not> is_edge_frame fs" using Suc.prems(5) edge_not_branching [OF p(2,1)] by blast
      then have fs: "frames_repr H hgt st L M (pre @ p) (EdgeFrame si h p # fs) R"
        using frames_Edge [OF fr p(1)] p(4) by simp
      have "2 * (hgt - length (pre @ p)) + resolve_cost c \<le> fuel"
        using Suc.prems(6) p(1) repr_height [OF p(2)]
        by (cases p) (auto simp: resolve_cost_def split: internal_node.splits)
      from Suc.IH [OF p(2) fs True len _ this] p(3) show ?thesis using Edge matches True by simp
    next
      case False
      then have "traverse_loop (Suc fuel) hgt st key (length pre) fs n = Inr (fs, n)"
        using Edge matches by simp
      moreover have "end_of_path key pre n" using False Edge pre by (auto simp: end_of_path_def)
      ultimately show ?thesis using rep fr Suc.prems(5) by blast
    qed
  next
    case Leaf
    then have "length pre = hgt" using rep by (auto elim: repr_LeafE)
    then have "pre = key" using pre len by (auto simp: prefix_def)
    then have "end_of_path key pre n" using Leaf pre by (simp add: end_of_path_def)
    then show ?thesis using rep fr Suc.prems(5) Leaf by fastforce
  qed
qed

lemma traverse_repr:
  assumes "tree_repr H hgt st t M" and "length key = hgt"
  shows "root t = None \<and> M = Map.empty \<and> traverse hgt st key t = Inr None \<or>
    (\<exists>fs n pre K R. traverse hgt st key t = Inr (Some (fs, n)) \<and>
      repr H hgt st (leaves t) M pre n K \<and> frames_repr H hgt st (leaves t) M pre fs R \<and>
      K \<union> R = dom M \<and> (is_edge_frame fs \<longrightarrow> branching pre K) \<and> end_of_path key pre n)"
proof (cases "root t")
  case None
  then show ?thesis using assms(1) by (simp add: tree_repr_def traverse_def)
next
  case (Some n)
  then have n: "repr H hgt st (leaves t) M [] n (dom M)" using assms(1) by (simp add: tree_repr_def)
  have "2 * (hgt - length ([] :: trie_path)) + resolve_cost n \<le> 2 * hgt + 2"
    by (simp add: resolve_cost_def split: internal_node.split)
  from traverse_loop_repr [OF n frames_Nil Nil_prefix assms(2) _ this]
  obtain fs n' pre K R where z: "traverse_loop (2 * hgt + 2) hgt st key 0 [] n = Inr (fs, n')"
      "repr H hgt st (leaves t) M pre n' K" "frames_repr H hgt st (leaves t) M pre fs R"
      "K \<union> R = dom M" "is_edge_frame fs \<longrightarrow> branching pre K" "end_of_path key pre n'"
    by auto
  have "traverse hgt st key t = Inr (Some (fs, n'))" using z(1) Some by (simp add: traverse_def)
  with z show ?thesis by blast
qed

lemma end_of_path_key:
  assumes "repr H hgt st L M pre n K" and "frames_repr H hgt st L M pre fs R" and "end_of_path key pre n"
  shows "key \<in> K \<union> R \<longleftrightarrow> n = Leaf" and "key \<notin> R"
proof -
  show R: "key \<notin> R" using frames_disjoint [OF assms(2)] assms(3) by (auto simp: end_of_path_def)
  show "key \<in> K \<union> R \<longleftrightarrow> n = Leaf"
  proof (cases "n = Leaf")
    case True
    then show ?thesis using assms(1,3) by (auto simp: end_of_path_def elim: repr_LeafE)
  next
    case False
    then obtain si h p c where n: "n = Edge si h p c" "\<not> prefix (pre @ p) key"
      using assms(3) by (auto simp: end_of_path_def)
    then have "key \<notin> K" using assms(1) repr_prefix by (blast elim: repr_EdgeE)
    then show ?thesis using R False by simp
  qed
qed

lemma tree_repr_plug:
  assumes "frames_repr H hgt st L M pre fs R" and "repr H hgt st L M pre n K"
    and "is_edge_frame fs \<longrightarrow> branching pre K" and "K \<union> R = dom M"
    and "root t = Some (plug fs n)" and "leaves t = L"
  shows "tree_repr H hgt st t M"
  using plug_repr [OF assms(1,2)] assms(3-6) by (simp add: tree_repr_def)

lemma tree_get_repr:
  assumes "tree_repr H hgt st t M" and "length key = hgt"
  shows "\<exists>t'. tree_get hgt st key t = Inr (M key, t') \<and> tree_repr H hgt st t' M"
  using traverse_repr [OF assms]
proof (elim disjE exE conjE)
  fix fs n pre K R
  assume z: "traverse hgt st key t = Inr (Some (fs, n))"
    and n: "repr H hgt st (leaves t) M pre n K" and fr: "frames_repr H hgt st (leaves t) M pre fs R"
    and dom: "K \<union> R = dom M" and br: "is_edge_frame fs \<longrightarrow> branching pre K" and e: "end_of_path key pre n"
  have t': "tree_repr H hgt st (t\<lparr> root := Some (plug fs n) \<rparr>) M"
    by (rule tree_repr_plug [OF fr n br dom]) simp_all
  show ?thesis
  proof (cases "n = Leaf")
    case True
    then have "pre = key" using e by (auto simp: end_of_path_def)
    then obtain v where "M key = Some v" "leaves t key = Some v \<or> leaves t key = None \<and> st_leaf st key = Inr (Some v)"
      using n True by (auto elim: repr_LeafE)
    then show ?thesis using z True t' by (auto simp: tree_get_def)
  next
    case False
    then have "M key = None" using end_of_path_key(1) [OF n fr e] dom by auto
    then show ?thesis using z False t' by (auto simp: tree_get_def)
  qed
qed (use assms in \<open>auto simp: tree_get_def\<close>)

section \<open>Insertion\<close>

lemma common_path_split:
  assumes "drop height key = ks" and "length path \<le> length ks" and "\<not> prefix path ks"
  shows "\<exists>b old new. path = common_path height path key @ b # old \<and>
    ks = common_path height path key @ (\<not> b) # new"
proof -
  let ?c = "\<lambda>path ks. take (length (takeWhile (\<lambda>(a, b). a = b) (zip ks path))) path"
  have "\<exists>b old new. path = ?c path ks @ b # old \<and> ks = ?c path ks @ (\<not> b) # new"
    using assms(2,3)
  proof (induction path arbitrary: ks)
    case (Cons x path)
    then obtain y ks' where ks: "ks = y # ks'" by (cases ks) auto
    show ?case
    proof (cases "x = y")
      case True
      then have "\<exists>b old new. path = ?c path ks' @ b # old \<and> ks' = ?c path ks' @ (\<not> b) # new"
        using Cons ks by (intro Cons.IH) auto
      then show ?thesis using True ks by simp
    qed (use ks in auto)
  qed simp
  then show ?thesis using assms(1) by (simp add: common_path_def)
qed

lemma repr_optional_edge:
  assumes "repr H hgt st L M (q @ p) c K" and "p \<noteq> [] \<Longrightarrow> branching (q @ p) K" and "h = length q"
  shows "repr H hgt st L M q (if p = [] then c else Edge si h p c) K"
  using assms by (auto intro: repr_Edge)

lemma repr_branch:
  assumes "repr H hgt st L M (q @ [\<not> b]) x Kx" and "repr H hgt st L M (q @ [b]) y Ky" and "h = length q"
  shows "repr H hgt st L M q (Binary si h (if b then x else y) (if b then y else x)) (Kx \<union> Ky)"
proof (cases b)
  case False
  then have "repr H hgt st L M q (Binary si h y x) (Ky \<union> Kx)" using assms by (auto intro: repr_Binary)
  then show ?thesis using False by (simp add: Un_commute)
qed (use assms in \<open>auto intro: repr_Binary\<close>)

lemma split_edge_eq:
  assumes "common_path h p key = cm" and "h = length pre" and "p = cm @ b # old"
    and "key = pre @ cm @ (\<not> b) # new"
  shows "split_edge h p c key =
    (let x = if new = [] then Leaf else Edge None (h + length cm + 1) new Leaf;
         y = if old = [] then c else Edge None (h + length cm + 1) old c;
         branch = Binary None (h + length cm) (if b then x else y) (if b then y else x)
     in Inr (if cm = [] then branch else Edge None h cm branch))"
proof -
  have "slice_from key (h + length cm + 1) = Inr new" and "slice_from p (length cm + 1) = Inr old"
    and "index_panic key (h + length cm) = Inr (\<not> b)"
    using assms(2-4) by (simp_all add: slice_from_def index_panic_def nth_append)
  then show ?thesis
    by (simp add: split_edge_def assms(1) Let_def direction_of_bool_def del: add_Suc_right)
qed

lemma split_edge_repr:
  assumes e: "repr H hgt st L M pre (Edge si h p c) K" and pre: "prefix pre key"
    and len: "length key = hgt" and diverges: "\<not> prefix (pre @ p) key"
  shows "\<exists>n. split_edge h p c key = Inr n \<and>
    repr H hgt st (L(key \<mapsto> v)) (M(key \<mapsto> v)) pre n (insert key K)"
proof -
  let ?L = "L(key \<mapsto> v)" and ?M = "M(key \<mapsto> v)"
  have p: "p \<noteq> []" "repr H hgt st L M (pre @ p) c K" "branching (pre @ p) K" "h = length pre"
    using e by (auto elim: repr_EdgeE)
  obtain ks where key: "key = pre @ ks" using pre by (auto simp: prefix_def)
  have "length p \<le> length ks" "\<not> prefix p ks" using repr_height [OF p(2)] len diverges by (auto simp: key)
  moreover have "drop h key = ks" using key p(4) by simp
  ultimately obtain b old new where split: "p = common_path h p key @ b # old" "ks = common_path h p key @ (\<not> b) # new"
    using common_path_split by blast
  define cm where "cm = common_path h p key"
  note pc = split(1) [folded cm_def] and ks = split(2) [folded cm_def]
  have kc: "key = pre @ cm @ (\<not> b) # new" using key ks by simp
  let ?q = "pre @ cm" and ?ch = "h + length cm + 1"
  define x where "x = (if new = [] then Leaf else Edge None ?ch new Leaf)"
  define y where "y = (if old = [] then c else Edge None ?ch old c)"
  define branch where "branch = Binary None (h + length cm) (if b then x else y) (if b then y else x)"
  have notin: "key \<notin> K" using repr_prefix [OF p(2)] diverges by blast
  have leaf: "repr H hgt st ?L ?M key Leaf {key}" using len by (intro repr_Leaf [where v = v]) auto
  have "repr H hgt st ?L ?M (?q @ [\<not> b]) x {key}"
    unfolding x_def using leaf kc p(4) by (intro repr_optional_edge) (auto simp: branching_def)
  moreover have "repr H hgt st ?L ?M (pre @ p) c K" using repr_agree [OF p(2)] notin by auto
  then have "repr H hgt st ?L ?M (?q @ [b]) y K"
    unfolding y_def using p(3,4) pc by (intro repr_optional_edge) auto
  ultimately have br: "repr H hgt st ?L ?M ?q branch ({key} \<union> K)"
    unfolding branch_def using p(4) by (intro repr_branch) auto
  have "branching ?q ({key} \<union> K)"
  proof (rule branching_bits [where b = "\<not> b"])
    show "\<forall>k \<in> {key}. prefix (?q @ [\<not> b]) k" using kc by (simp add: prefix_def)
    have "pre @ p = (?q @ [b]) @ old" using pc by simp
    then have "prefix (?q @ [b]) k" if "k \<in> K" for k
      using repr_prefix [OF p(2) that] append_prefixD by metis
    then show "\<forall>k \<in> K. prefix (?q @ [\<not> \<not> b]) k" by simp
  qed (use repr_nonempty [OF p(2)] in simp_all)
  then have "repr H hgt st ?L ?M pre (if cm = [] then branch else Edge None h cm branch) ({key} \<union> K)"
    using br p(4) by (intro repr_optional_edge) auto
  moreover have "split_edge h p c key = Inr (if cm = [] then branch else Edge None h cm branch)"
    using split_edge_eq [OF cm_def [symmetric] p(4) pc kc, of c]
    by (simp only: Let_def x_def y_def branch_def)
  ultimately show ?thesis by auto
qed

lemma tree_set_repr:
  assumes t: "tree_repr H hgt st t M" and len: "length key = hgt" and "0 < hgt" and "v \<noteq> felt_ZERO"
  shows "\<exists>t'. tree_set hgt st key v t = Inr t' \<and> tree_repr H hgt st t' (M(key \<mapsto> v))"
  using traverse_repr [OF t len]
proof (elim disjE exE conjE)
  assume e: "root t = None" "M = Map.empty" "traverse hgt st key t = Inr None"
  have "repr H hgt st ((leaves t)(key \<mapsto> v)) [key \<mapsto> v] key Leaf {key}"
    using len by (intro repr_Leaf [where v = v]) auto
  then have "repr H hgt st ((leaves t)(key \<mapsto> v)) [key \<mapsto> v] [] (Edge None 0 key Leaf) {key}"
    using assms(3) len by (intro repr_Edge) (auto simp: branching_def)
  then show ?thesis using e assms(4) by (simp add: tree_set_def tree_repr_def)
next
  fix fs n pre K R
  let ?L = "(leaves t)(key \<mapsto> v)" and ?M = "M(key \<mapsto> v)"
  assume z: "traverse hgt st key t = Inr (Some (fs, n))"
    and n: "repr H hgt st (leaves t) M pre n K" and fr: "frames_repr H hgt st (leaves t) M pre fs R"
    and dom: "K \<union> R = dom M" and br: "is_edge_frame fs \<longrightarrow> branching pre K" and e: "end_of_path key pre n"
  have fr': "frames_repr H hgt st ?L ?M pre fs R"
    using frames_agree [OF fr] end_of_path_key(2) [OF n fr e] by auto
  have "\<exists>n' K'. set_node n key = Inr n' \<and> repr H hgt st ?L ?M pre n' K' \<and> K' \<union> R = dom ?M \<and>
      (is_edge_frame fs \<longrightarrow> branching pre K')"
  proof (cases "n = Leaf")
    case True
    then have pre: "pre = key" and K: "K = {key}" using e n by (auto simp: end_of_path_def elim: repr_LeafE)
    have "repr H hgt st ?L ?M pre Leaf {key}" using len pre by (auto intro: repr_Leaf)
    moreover have "set_node n key = Inr Leaf" using True by (simp add: set_node_def)
    moreover have "{key} \<union> R = dom ?M" using dom K by auto
    ultimately show ?thesis using br K by blast
  next
    case False
    then obtain si h p c where edge: "n = Edge si h p c" "\<not> prefix (pre @ p) key" "prefix pre key"
      using e by (auto simp: end_of_path_def)
    from split_edge_repr [OF n [unfolded edge(1)] edge(3) len edge(2)]
    obtain n' where n': "split_edge h p c key = Inr n'" "repr H hgt st ?L ?M pre n' (insert key K)" by blast
    have "\<not> is_edge_frame fs"
      using n br edge(1) edge_not_branching by (blast elim: repr_EdgeE)
    moreover have "insert key K \<union> R = dom ?M" using dom by auto
    moreover have "set_node n key = Inr n'" using n'(1) edge(1) by (simp add: set_node_def)
    ultimately show ?thesis using n'(2) by blast
  qed
  then obtain n' K' where n': "set_node n key = Inr n'" "repr H hgt st ?L ?M pre n' K'" "K' \<union> R = dom ?M"
    "is_edge_frame fs \<longrightarrow> branching pre K'" by blast
  have "tree_repr H hgt st (t\<lparr> root := Some (plug fs n'),
      nodes_removed := push_index (storage_index n) (nodes_removed t), leaves := ?L \<rparr>) ?M"
    by (rule tree_repr_plug [OF fr' n'(2,4,3)]) simp_all
  then show ?thesis using z n'(1) assms(4) by (simp add: tree_set_def)
qed

section \<open>Deletion\<close>

lemma repr_branching:
  assumes "repr H hgt st L M q n K" and "as_edge n = None" and "\<And>idx. n \<noteq> Unresolved idx"
  shows "branching q K"
  using assms(1)
proof (cases rule: repr.cases)
  case (repr_Binary l Kl r Kr h si)
  then show ?thesis
    using branching_bits [of Kl q False Kr] repr_nonempty repr_prefix by (simp add: ball_conj_distrib)
qed (use assms in \<open>auto simp: branching_def as_edge_def\<close>)

lemma merge_edges_repr:
  assumes c: "repr H hgt st L M (q @ p) c K" and "p \<noteq> []" and h: "h = length q"
  shows "\<exists>p' c' removed'. merge_edges hgt st h p c removed = Inr (p', c', removed') \<and>
    repr H hgt st L M q (Edge si h p' c') K"
proof -
  define n where "n = (case c of Unresolved idx \<Rightarrow> resolve hgt st idx (h + length p) | other \<Rightarrow> Inr other)"
  have "\<exists>m. n = Inr m \<and> repr H hgt st L M (q @ p) m K \<and> (\<forall>idx. m \<noteq> Unresolved idx)"
  proof (cases c)
    case (Unresolved idx)
    then obtain m where "resolve hgt st idx (length (q @ p)) = Inr m" "repr H hgt st L M (q @ p) m K"
      using c by (auto elim: repr_UnresolvedE)
    moreover from this(1) have "\<forall>idx. m \<noteq> Unresolved idx"
      using resolve_not_unresolved by (fastforce simp: resolve_cost_def)
    ultimately show ?thesis using Unresolved h by (auto simp: n_def)
  qed (use c in \<open>auto simp: n_def\<close>)
  then obtain m where m: "n = Inr m" "repr H hgt st L M (q @ p) m K" "\<forall>idx. m \<noteq> Unresolved idx" by blast
  have merge: "merge_edges hgt st h p c removed = (case as_edge m of
      Some (si, h, child_path, grandchild) \<Rightarrow> Inr (p @ child_path, grandchild, push_index si removed)
    | None \<Rightarrow> Inr (p, c, removed))"
    using m(1) by (simp add: merge_edges_def n_def)
  show ?thesis
  proof (cases "as_edge m")
    case None
    then have "branching (q @ p) K" using repr_branching [OF m(2)] m(3) by blast
    then show ?thesis using merge None c assms(2) h by (auto intro: repr_Edge)
  next
    case (Some e)
    obtain esi eh ep ec where e: "e = (esi, eh, ep, ec)" by (cases e)
    then have "m = Edge esi eh ep ec" using Some by (auto simp: as_edge_def split: internal_node.splits)
    then have "repr H hgt st L M (q @ (p @ ep)) ec K" "branching (q @ (p @ ep)) K"
      using m(2) by (auto elim: repr_EdgeE)
    then have "repr H hgt st L M q (Edge si h (p @ ep) ec) K" using assms(2) h by (intro repr_Edge) auto
    then show ?thesis using merge Some e by auto
  qed
qed

lemma skip_to_binary_frames:
  assumes "frames_repr H hgt st L M pre fs R"
  shows "(\<exists>rem. skip_to_binary fs is = (None, rem) \<and> R = {}) \<or>
    (\<exists>si d other up rem pre' R' K. skip_to_binary fs is = (Some (BinaryFrame si (length pre') d other, up), rem) \<and>
      prefix (pre' @ [bool_of_direction d]) pre \<and> frames_repr H hgt st L M pre' up R' \<and>
      repr H hgt st L M (pre' @ [\<not> bool_of_direction d]) other K \<and> R = R' \<union> K)"
  using assms
proof (induction arbitrary: "is" rule: frames_repr.induct)
  case frames_Nil
  show ?case by simp
next
  case (frames_Binary pre fs R d other K h si)
  then show ?case by (intro disjI2) fastforce
next
  case (frames_Edge pre fs R p h si)
  from frames_Edge.IH [of "push_index si is"] show ?case
    by (elim disjE exE conjE) (simp, fastforce intro: prefix_order.trans)
qed

lemma delete_branch_repr:
  assumes fr: "frames_repr H hgt st L M pre up R" and other: "repr H hgt st L M (pre @ [\<not> bool_of_direction d]) other K"
    and key: "prefix (pre @ [bool_of_direction d]) key"
  shows "\<exists>n removed'. delete_branch hgt st key (BinaryFrame si (length pre) d other) below up removed = Inr (n, removed') \<and>
    repr H hgt st L M [] n (K \<union> R)"
proof -
  let ?f = "BinaryFrame si (length pre) d other" and ?b = "\<not> bool_of_direction d"
  have dir: "binary_direction (length pre) key = Inr d"
    using key by (cases d) (auto simp: binary_direction_def prefix_def nth_append bool_of_direction_def direction_of_bool_def)
  obtain left right where bin: "as_binary (plug_frame ?f below) = Some (si, length pre, left, right)"
      "get_child left right (invert d) = other"
    by (cases d) (auto simp: plug_frame_def as_binary_def get_child_def invert_def)
  obtain p c r where m: "merge_edges hgt st (length pre) [?b] other removed = Inr (p, c, r)"
      "repr H hgt st L M pre (Edge None (length pre) p c) K"
    using merge_edges_repr [OF other, of "length pre" removed None] by auto
  have step: "delete_branch hgt st key ?f below up removed =
      (case up of
          EdgeFrame psi ph pp # upper \<Rightarrow>
            bind_outcome (merge_edges hgt st ph pp (Edge None (length pre) p c) (push_index si r))
              (\<lambda>(pp, c, removed). Inr (plug upper (Edge psi ph pp c), removed))
        | _ \<Rightarrow> Inr (plug up (Edge None (length pre) p c), push_index si r))"
    unfolding delete_branch_def bin(1) by (simp add: dir bin(2) m(1) Let_def)
  show ?thesis
  proof (cases "is_edge_frame up")
    case True
    then obtain psi ph pp upper where up: "up = EdgeFrame psi ph pp # upper" by (cases up rule: is_edge_frame.cases) auto
    then obtain q where q: "pre = q @ pp" "pp \<noteq> []" "frames_repr H hgt st L M q upper R" "\<not> is_edge_frame upper" "ph = length q"
      using fr by (auto elim: frames_EdgeE)
    obtain p' c' r' where m': "merge_edges hgt st ph pp (Edge None (length pre) p c) (push_index si r) = Inr (p', c', r')"
        "repr H hgt st L M q (Edge psi ph p' c') K"
      using merge_edges_repr [of H hgt st L M q pp _ K ph "push_index si r" psi] m(2) q by blast
    show ?thesis using step up m' plug_repr [OF q(3) m'(2)] q(4) by auto
  next
    case False
    then have "delete_branch hgt st key ?f below up removed = Inr (plug up (Edge None (length pre) p c), push_index si r)"
      using step by (cases up rule: is_edge_frame.cases) auto
    then show ?thesis using plug_repr [OF fr m(2)] False by auto
  qed
qed

lemma delete_leaf_repr:
  assumes t: "tree_repr H hgt st t M" and len: "length key = hgt"
  shows "\<exists>t'. delete_leaf hgt st key t = Inr t' \<and> tree_repr H hgt st t' (M(key := None))"
  using traverse_repr [OF t len]
proof (elim disjE exE conjE)
  assume "root t = None" "M = Map.empty" "traverse hgt st key t = Inr None"
  then show ?thesis by (simp add: delete_leaf_def tree_repr_def)
next
  fix fs n pre K R
  let ?M = "M(key := None)"
  assume z: "traverse hgt st key t = Inr (Some (fs, n))"
    and n: "repr H hgt st (leaves t) M pre n K" and fr: "frames_repr H hgt st (leaves t) M pre fs R"
    and dom: "K \<union> R = dom M" and br: "is_edge_frame fs \<longrightarrow> branching pre K" and e: "end_of_path key pre n"
  show ?thesis
  proof (cases "n = Leaf")
    case False
    have "?M = M" using end_of_path_key(1) [OF n fr e] False dom by (intro ext) (auto simp: dom_def)
    moreover have "tree_repr H hgt st (t\<lparr> root := Some (plug fs n) \<rparr>) M"
      by (rule tree_repr_plug [OF fr n br dom]) simp_all
    ultimately show ?thesis using z False by (simp add: delete_leaf_def)
  next
    case True
    then have pre: "pre = key" and K: "K = {key}" using e n by (auto simp: end_of_path_def elim: repr_LeafE)
    have notin: "key \<notin> R" by (rule end_of_path_key(2) [OF n fr e])
    have domR: "dom ?M = R" using dom K notin by auto
    have fr': "frames_repr H hgt st (leaves t) ?M pre fs R" using frames_agree [OF fr] notin by auto
    from skip_to_binary_frames [OF fr', of "[]"] show ?thesis
    proof (elim disjE exE conjE)
      fix rem assume skip: "skip_to_binary fs [] = (None, rem)" and "R = {}"
      then have "?M = Map.empty" using domR by (simp only: dom_eq_empty_conv)
      then show ?thesis using z True skip by (simp add: delete_leaf_def tree_repr_def)
    next
      fix si d other up rem pre' R' K'
      assume skip: "skip_to_binary fs [] = (Some (BinaryFrame si (length pre') d other, up), rem)"
        and p: "prefix (pre' @ [bool_of_direction d]) pre" and up: "frames_repr H hgt st (leaves t) ?M pre' up R'"
        and other: "repr H hgt st (leaves t) ?M (pre' @ [\<not> bool_of_direction d]) other K'" and R: "R = R' \<union> K'"
      obtain m r where "delete_branch hgt st key (BinaryFrame si (length pre') d other) n up (nodes_removed t) = Inr (m, r)"
          "repr H hgt st (leaves t) ?M [] m (K' \<union> R')"
        using delete_branch_repr [OF up other p [unfolded pre]] by blast
      then show ?thesis using z True skip domR R by (auto simp: delete_leaf_def tree_repr_def Un_commute)
    qed
  qed
qed

end
