(* ===== verification/MerkleCommit.thy ===== *)
theory MerkleCommit
  imports MerkleTree_Correct
begin

text \<open>
  Committing a tree: \<^verbatim>\<open>commit\<close> and \<^verbatim>\<open>commit_subtree\<close> of
  \<^verbatim>\<open>crates/merkle-tree/src/tree.rs\<close>. The root commitment they compute is the reference
  commitment of the map the tree represents.
\<close>

section \<open>The code\<close>

text \<open>
  \<open>added\<close> and \<open>removed\<close> are the \<^verbatim>\<open>&mut Vec\<close> arguments, returned with the hash and the
  reference to the node (\<open>None\<close> for a leaf).
\<close>

type_synonym commit_state = "(felt \<times> trie_node_added) list \<times> trie_index list"

definition persisted_binary :: "node_ref option \<Rightarrow> node_ref option \<Rightarrow> trie_node_added outcome" where
  "persisted_binary left_child right_child = (case (left_child, right_child) of
       (None, None) \<Rightarrow> Inr AddedLeafBinary
     | (Some left, Some right) \<Rightarrow> Inr (AddedBinary left right)
     | _ \<Rightarrow> Inl (Err ''Inconsistent binary children. Both children must be leaves or not leaves.''))"

fun commit_subtree ::
  "felt_hash \<Rightarrow> storage \<Rightarrow> (trie_path \<rightharpoonup> felt) \<Rightarrow> internal_node \<Rightarrow> commit_state \<Rightarrow> trie_path
     \<Rightarrow> ((felt \<times> node_ref option) \<times> commit_state) outcome" where
  "commit_subtree H st L (Unresolved idx) s path =
     bind_outcome (st_hash st idx) (\<lambda>hash.
     bind_outcome (context_some ''Stored node's hash is missing'' hash) (\<lambda>hash.
       Inr ((hash, Some (StorageIndex idx)), s)))"
| "commit_subtree H st L Leaf s path =
     bind_outcome
       (case L path of
          Some value \<Rightarrow> Inr value
        | None \<Rightarrow> bind_outcome (st_leaf st path) (context_some ''Leaf value missing from storage''))
       (\<lambda>hash. Inr ((hash, None), s))"
| "commit_subtree H st L (Binary si h left right) s path =
     bind_outcome (commit_subtree H st L left s (path @ [bool_of_direction Left])) (\<lambda>((left_hash, left_child), s).
     bind_outcome (commit_subtree H st L right s (path @ [bool_of_direction Right])) (\<lambda>((right_hash, right_child), s).
     let hash = binary_calculate_hash H left_hash right_hash in
     bind_outcome (persisted_binary left_child right_child) (\<lambda>persisted_node.
     let (added, removed) = s;
         removed = push_index si removed;
         node_index = length added;
         added = added @ [(hash, persisted_node)]
     in Inr ((hash, Some (Index node_index)), (added, removed)))))"
| "commit_subtree H st L (Edge si h epath child) s path =
     bind_outcome (commit_subtree H st L child s (path @ epath)) (\<lambda>((child_hash, child_ref), s).
     bind_outcome (edge_calculate_hash H child_hash epath) (\<lambda>hash.
     let (added, removed) = s;
         persisted_node = (case child_ref of
             None \<Rightarrow> AddedLeafEdge epath | Some child \<Rightarrow> AddedEdge child epath);
         node_index = length added;
         added = added @ [(hash, persisted_node)];
         removed = push_index si removed
     in Inr ((hash, Some (Index node_index)), (added, removed))))"

definition commit :: "felt_hash \<Rightarrow> storage \<Rightarrow> merkle_tree \<Rightarrow> trie_update outcome" where
  "commit H st t =
     bind_outcome
       (case root t of
          None \<Rightarrow> Inr (felt_ZERO, [], [])
        | Some (Unresolved idx) \<Rightarrow>
            bind_outcome (st_hash st idx) (\<lambda>hash.
            bind_outcome (context_some ''Root node's hash is missing'' hash) (\<lambda>hash. Inr (hash, [], [])))
        | Some other \<Rightarrow>
            bind_outcome (commit_subtree H st (leaves t) other ([], []) [])
              (\<lambda>((root_hash, _), (added, removed)). Inr (root_hash, added, removed)))
       (\<lambda>(root_hash, added, removed).
          Inr \<lparr> nodes_added = added, update_nodes_removed = removed @ nodes_removed t,
                root_commitment = root_hash \<rparr>)"

section \<open>The hash of an edge\<close>

text \<open>The contract of a hash function: it returns 32 bytes.\<close>

locale felt_hash_function =
  fixes H :: felt_hash
  assumes length_hash: "length (H a b) = 32"
begin

lemma edge_calculate_hash_eq:
  assumes "length p \<le> 251"
  shows "edge_calculate_hash H b p = Inr (edge_hash H b p)"
proof -
  define len where "len = (replicate 32 0)[31 := (of_nat (length p) :: u8)]"
  have "length len = 32" by (simp add: len_def)
  have u: "unat (of_nat (length p) :: u8) = length p"
    using assms by (simp add: unsigned_of_nat take_bit_eq_mod)
  then have v: "be_val len = length p" unfolding len_def by (subst be_val_update) simp_all
  have "length p < field_prime" using assms by (simp add: field_prime_def)
  then have l: "felt_from_be_bytes len = Inr len" using v \<open>length len = 32\<close> by (simp add: felt_from_be_bytes_eq)
  obtain f where f: "felt_from_bits p = Inr f" "felt_wf f" "be_val f = bits_val p"
    using felt_from_bits_eq [OF assms] by blast
  then have f_eq: "f = be_bytes 32 (bits_val p)" using felt_wf_be_val by metis
  have "edge_calculate_hash H b p = felt_add (H b f) len"
    unfolding edge_calculate_hash_def len_def [symmetric] Let_def by (simp add: l f(1) unwrap_overflow_def)
  also have "\<dots> = Inr (edge_hash H b p)"
    using felt_add_eq [OF length_hash \<open>length len = 32\<close>] v by (simp add: edge_hash_def f_eq)
  finally show ?thesis .
qed

lemma trie_node_hash_edge:
  assumes "length p \<le> 251"
  shows "trie_node_hash H (TrieEdge b p) = edge_calculate_hash H b p"
proof -
  obtain f where "felt_from_bits p = Inr f" using felt_from_bits_eq [OF assms] by blast
  then show ?thesis
    by (cases "felt_from_be_bytes ((replicate 32 0)[31 := of_nat (length p)])")
       (simp_all add: trie_node_hash_def edge_calculate_hash_def unwrap_overflow_def Let_def)
qed

end

section \<open>The reference commitment of a represented node\<close>

lemma prefix_next_bit:
  fixes pre k :: trie_path
  assumes "prefix pre k" and "length pre < length k"
  shows "prefix (pre @ [k ! length pre]) k"
  using binary_direction_bit(2) [OF assms] .

lemma mpt_None_iff:
  "mpt H n pre M = None \<longleftrightarrow> (\<forall>k. prefix pre k \<longrightarrow> length k = length pre + n \<longrightarrow> M k = None)"
proof (induction n arbitrary: pre)
  case 0
  then show ?case by (auto simp: prefix_def)
next
  case (Suc n)
  have bit: "prefix pre k \<longleftrightarrow> prefix (pre @ [False]) k \<or> prefix (pre @ [True]) k"
    if "length k = Suc (length pre + n)" for k
  proof -
    have "prefix (pre @ [k ! length pre]) k" if "prefix pre k"
      using prefix_next_bit [OF that] \<open>length k = Suc (length pre + n)\<close> by simp
    then show ?thesis by (cases "k ! length pre") (auto dest: append_prefixD)
  qed
  have "mpt H (Suc n) pre M = None \<longleftrightarrow> mpt H n (pre @ [False]) M = None \<and> mpt H n (pre @ [True]) M = None"
    by (auto simp: mpt_join_def split: option.splits)
  then show ?case unfolding Suc using bit by auto
qed

lemma mpt_cong:
  assumes "\<And>k. prefix pre k \<Longrightarrow> M k = M' k"
  shows "mpt H n pre M = mpt H n pre M'"
  using assms
proof (induction n arbitrary: pre)
  case (Suc n)
  have "mpt H n (pre @ [b]) M = mpt H n (pre @ [b]) M'" for b
    by (rule Suc.IH) (use Suc.prems append_prefixD in blast)
  then show ?case by simp
qed simp

lemma mpt_bit:
  assumes "\<And>k. M k \<noteq> None \<Longrightarrow> prefix pre k \<Longrightarrow> prefix (pre @ [b]) k"
  shows "mpt H (Suc n) pre M = map_option (\<lambda>(q, x). (b # q, x)) (mpt H n (pre @ [b]) M)"
proof -
  have "mpt H n (pre @ [\<not> b]) M = None"
    unfolding mpt_None_iff using assms prefix_bit [of pre b] by (metis append_prefixD)
  then show ?thesis by (cases b) (auto simp: mpt_join_def split: option.splits)
qed

lemma mpt_path:
  assumes "\<And>k. M k \<noteq> None \<Longrightarrow> prefix pre k \<Longrightarrow> prefix (pre @ p) k"
  shows "mpt H (length p + n) pre M = map_option (\<lambda>(q, x). (p @ q, x)) (mpt H n (pre @ p) M)"
  using assms
proof (induction p arbitrary: pre)
  case (Cons b p)
  have "mpt H (length p + n) (pre @ [b]) M = map_option (\<lambda>(q, x). (p @ q, x)) (mpt H n ((pre @ [b]) @ p) M)"
    by (rule Cons.IH) (use Cons.prems in \<open>simp, metis append_prefixD\<close>)
  moreover have "mpt H (Suc (length p + n)) pre M
      = map_option (\<lambda>(q, x). (b # q, x)) (mpt H (length p + n) (pre @ [b]) M)"
    using Cons.prems by (intro mpt_bit) (metis append_prefixD append_Cons append_Nil append_assoc)
  ultimately show ?case by (auto simp: option.map_comp o_def split_def)
qed (simp add: option.map_id)

lemma repr_mpt:
  assumes "repr H hgt st L M pre n K"
  shows "mpt H (hgt - length pre) pre (M |` K) \<noteq> None"
    and "branching pre K \<Longrightarrow> \<exists>x. mpt H (hgt - length pre) pre (M |` K) = Some ([], x)"
proof -
  have keys: "prefix pre k" "length k = hgt" "(M |` K) k \<noteq> None" if "k \<in> K" for k
    using repr_keys [OF assms] that by auto
  obtain k where k: "k \<in> K" using repr_nonempty [OF assms] by blast
  have len: "length pre \<le> hgt" by (rule repr_height [OF assms])
  show "mpt H (hgt - length pre) pre (M |` K) \<noteq> None"
    unfolding mpt_None_iff using keys [OF k] len by (metis le_add_diff_inverse)
  show "\<exists>x. mpt H (hgt - length pre) pre (M |` K) = Some ([], x)" if br: "branching pre K"
  proof (cases "K = {pre}")
    case True
    then show ?thesis using keys [of pre] by auto
  next
    case False
    then obtain k0 k1 where kk: "k0 \<in> K" "prefix (pre @ [False]) k0" "k1 \<in> K" "prefix (pre @ [True]) k1"
      using br by (auto simp: branching_def)
    have less: "length pre < hgt" using prefix_length_le [OF kk(2)] keys(2) [OF kk(1)] by simp
    then obtain m where m: "hgt - length pre = Suc m" by (cases "hgt - length pre") auto
    have "mpt H m (pre @ [False]) (M |` K) \<noteq> None" "mpt H m (pre @ [True]) (M |` K) \<noteq> None"
      unfolding mpt_None_iff using kk keys(2,3) m less by force+
    then show ?thesis unfolding m by (auto simp: mpt_join_def)
  qed
qed

lemma subtree_hash_edge:
  assumes "repr H hgt st L M (pre @ p) c K" and "branching (pre @ p) K" and "p \<noteq> []"
  shows "subtree_hash H hgt (M |` K) pre = edge_hash H (subtree_hash H hgt (M |` K) (pre @ p)) p"
proof -
  obtain x where x: "mpt H (hgt - length (pre @ p)) (pre @ p) (M |` K) = Some ([], x)"
    using repr_mpt(2) [OF assms(1,2)] by blast
  have "prefix (pre @ p) k" if "(M |` K) k \<noteq> None" for k
    using repr_prefix [OF assms(1)] that by (cases "k \<in> K") simp_all
  then have "mpt H (length p + (hgt - length (pre @ p))) pre (M |` K) = Some (p, x)"
    using mpt_path [of "M |` K" pre p H "hgt - length (pre @ p)"] x by simp
  moreover have "length p + (hgt - length (pre @ p)) = hgt - length pre" using repr_height [OF assms(1)] by simp
  ultimately show ?thesis using x assms(3) by (simp add: subtree_hash_def node_hash_def)
qed

lemma subtree_hash_binary:
  assumes "repr H hgt st L M (pre @ [False]) l Kl" and "repr H hgt st L M (pre @ [True]) r Kr"
  shows "subtree_hash H hgt (M |` (Kl \<union> Kr)) pre
    = H (subtree_hash H hgt (M |` Kl) (pre @ [False])) (subtree_hash H hgt (M |` Kr) (pre @ [True]))"
proof -
  obtain m where m: "hgt - length pre = Suc m" using repr_height [OF assms(1)] by (cases "hgt - length pre") auto
  have "prefix (pre @ [False]) k \<Longrightarrow> k \<notin> Kr" "prefix (pre @ [True]) k \<Longrightarrow> k \<notin> Kl" for k
    using repr_prefix [OF assms(1)] repr_prefix [OF assms(2)] prefix_bit [of pre] by (metis (full_types))+
  then have "mpt H m (pre @ [False]) (M |` (Kl \<union> Kr)) = mpt H m (pre @ [False]) (M |` Kl)"
    and "mpt H m (pre @ [True]) (M |` (Kl \<union> Kr)) = mpt H m (pre @ [True]) (M |` Kr)"
    by (auto intro!: mpt_cong simp: restrict_map_def)
  moreover have "hgt - length (pre @ [b]) = m" for b using m by simp
  moreover from this obtain x y where "mpt H m (pre @ [False]) (M |` Kl) = Some x"
      "mpt H m (pre @ [True]) (M |` Kr) = Some y"
    using repr_mpt(1) [OF assms(1)] repr_mpt(1) [OF assms(2)] by auto
  moreover have "node_hash H ([], z) = z" for z by (simp add: node_hash_def)
  ultimately show ?thesis using m by (simp add: subtree_hash_def mpt_join_def)
qed

lemma subtree_hash_leaf: "length pre = hgt \<Longrightarrow> M pre = Some v \<Longrightarrow> subtree_hash H hgt (M |` {pre}) pre = v"
  by (simp add: subtree_hash_def node_hash_def)

section \<open>Commit computes the reference commitment\<close>

context felt_hash_function
begin

lemma commit_subtree_repr:
  assumes "repr H hgt st L M pre n K" and "hgt \<le> 251"
  shows "\<exists>r s'. commit_subtree H st L n s pre = Inr ((subtree_hash H hgt (M |` K) pre, r), s') \<and>
    (r = None \<longleftrightarrow> n = Leaf)"
  using assms(1)
proof (induction arbitrary: s rule: repr.induct)
  case (repr_Leaf pre v)
  then show ?case by (auto simp: subtree_hash_leaf)
next
  case (repr_Binary pre l Kl r Kr h si)
  obtain rl sl where l: "commit_subtree H st L l s (pre @ [False]) =
      Inr ((subtree_hash H hgt (M |` Kl) (pre @ [False]), rl), sl)" "rl = None \<longleftrightarrow> l = Leaf"
    using repr_Binary.IH(1) by blast
  obtain rr sr where r: "commit_subtree H st L r sl (pre @ [True]) =
      Inr ((subtree_hash H hgt (M |` Kr) (pre @ [True]), rr), sr)" "rr = None \<longleftrightarrow> r = Leaf"
    using repr_Binary.IH(2) by blast
  have "l = Leaf \<longleftrightarrow> r = Leaf"
    using repr_Binary.hyps(1,2) repr_height_less by (fastforce elim: repr_LeafE)
  then obtain node where node: "persisted_binary rl rr = Inr node"
    using l(2) r(2) by (cases rl; cases rr) (auto simp: persisted_binary_def)
  show ?case using l(1) r(1) node subtree_hash_binary [OF repr_Binary.hyps(1,2)]
    by (cases sr) (simp add: bool_of_direction_def binary_calculate_hash_def Let_def)
next
  case (repr_Edge p pre c K h si)
  obtain rc sc where c: "commit_subtree H st L c s (pre @ p) =
      Inr ((subtree_hash H hgt (M |` K) (pre @ p), rc), sc)"
    using repr_Edge.IH by blast
  have "length p \<le> 251" using repr_height [OF repr_Edge.hyps(2)] assms(2) by simp
  then show ?case
    using c subtree_hash_edge [OF repr_Edge.hyps(2,3,1)] by (cases sc) (simp add: edge_calculate_hash_eq)
next
  case (repr_Unresolved idx pre n K)
  then show ?case by simp
qed

lemma commit_repr:
  assumes "tree_repr H hgt st t M" and "hgt \<le> 251"
  shows "\<exists>u. commit H st t = Inr u \<and> root_commitment u = commitment H hgt M"
proof (cases "root t")
  case None
  then have "M = Map.empty" using assms(1) by (simp add: tree_repr_def)
  moreover have "mpt H hgt [] Map.empty = None" by (simp add: mpt_None_iff)
  ultimately show ?thesis using None by (simp add: commit_def commitment_def subtree_hash_def)
next
  case (Some n)
  then have n: "repr H hgt st (leaves t) M [] n (dom M)" using assms(1) by (simp add: tree_repr_def)
  have M: "M |` dom M = M" by (auto simp: restrict_map_def dom_def)
  show ?thesis
  proof (cases n)
    case (Unresolved idx)
    then have "st_hash st idx = Inr (Some (commitment H hgt M))"
      using n M by (auto simp: commitment_def elim: repr_UnresolvedE)
    then show ?thesis using Some Unresolved by (simp add: commit_def)
  qed (use Some commit_subtree_repr [OF n assms(2), of "([], [])"] M in \<open>auto simp: commit_def commitment_def\<close>)
qed

end

text \<open>The contract of a hash function whose results are felts.\<close>

locale felt_valued_hash =
  fixes H :: felt_hash
  assumes wf_hash: "felt_wf (H a b)"

sublocale felt_valued_hash \<subseteq> felt_hash_function
  using wf_hash by unfold_locales (simp add: felt_wf_def)

end
