(* ===== verification/Poseidon.thy ===== *)
theory Poseidon
  imports MerkleCommit
begin

text \<open>
  The Poseidon hash, \<^verbatim>\<open>crates/crypto/src/hash/poseidon\<close>: the permutation, the hash of two
  elements, of a slice, and the incremental hasher. A \<^verbatim>\<open>PoseidonState\<close> is a triple; a
  \<^verbatim>\<open>&mut\<close> state is returned.
\<close>

type_synonym poseidon_state = "limbs \<times> limbs \<times> limbs"

definition FULL_ROUNDS :: nat where
  "FULL_ROUNDS = 8"

definition PARTIAL_ROUNDS :: nat where
  "PARTIAL_ROUNDS = 83"

definition POSEIDON_COMP_CONSTS :: "limbs list" where
  "POSEIDON_COMP_CONSTS = [
     Limbs 9243643933561577962 18087611126302680282 7098098609281275249 289757450055368158,
     Limbs 7853535095351734343 10850711010770646915 12570458558381957509 325478872510666341,
     Limbs 14487852855283887204 5186719240138179095 8414109922749085282 400708606768273790,
     Limbs 3280395077118373336 17795901222489795490 2641423859640672268 77297546474262716,
     Limbs 8106789448329946608 5622576456418619364 917099606739132255 531983052745549445,
     Limbs 595196979161159364 13104152156623721627 11543764507410437138 296030771607252997,
     Limbs 7816701695378368721 3357934764826603292 15403608342128707689 450788015873872442,
     Limbs 636799349004279181 6138586124645004146 9427309254075631876 241320328808721095,
     Limbs 17291774529514094747 5039440405858006990 9298428421172181112 506951390701988816,
     Limbs 11806696651894481589 1092083221520939347 14414850501582138681 221101813663738384,
     Limbs 13829429898061010046 2611422711440939737 15408727842397286736 507284792967663799,
     Limbs 13083162048600272883 8232965923506882345 10342036084285918913 4246917344608281,
     Limbs 14120941658239655251 2642188447246846335 6420128711794491484 387738584202674747,
     Limbs 4557515129132896247 12925333772434149495 8021291067466006291 359812401200365725,
     Limbs 1890170602709420465 10101417316275735447 14228475625622468342 213055788422889429,
     Limbs 17718807227125703766 3165015027285286767 17001522267729424593 193938768174500364,
     Limbs 11967566541251349 8042878571206807946 12035959970295095627 392852226019534694,
     Limbs 14702858513363496537 1891459712461864795 11108523323717023107 156261542945214132,
     Limbs 1945929902309569324 12703913861703223537 18026399617460967320 552659386849285670,
     Limbs 15676691957102339301 7305794071419508305 15605369973884503830 279124040567655554,
     Limbs 6878414542634060631 6806916028752188971 6743346892345011852 209421398668690776,
     Limbs 14451878242532315248 280667558436689575 7481193996043836595 102898977772584225,
     Limbs 10099174071678455934 10050300413654558496 15460796480957384300 326260635675691414,
     Limbs 12189485177509053284 18189503908521730582 2742965211333049654 246759231813836949,
     Limbs 17131884891365868725 4126475231607707865 4142744258917121527 517354668301661021,
     Limbs 9321360184240157338 8642907823639066926 4815888288973513717 387266619660887473,
     Limbs 9877712865958333042 172887203519774060 14912001171503456000 379922462175671594,
     Limbs 5253862319821606646 3112421893979476452 12476994431456066104 503867426189678810,
     Limbs 6459833828500045091 8544893956421165385 4198699220078046017 361247795501724706,
     Limbs 15367072576308287971 11136955306523718350 1150777808545574589 569094971639990703,
     Limbs 938972551523044539 14766818754575560648 14214531273441880096 519370339044767210,
     Limbs 8541051058482254568 15415072429245325504 14957220415534017748 76536527755312734,
     Limbs 2465712523883598144 6511341599113654315 6309081263114838229 393450888402641516,
     Limbs 940821186092154852 8192839842351846874 5396406749139750234 288112524550260818,
     Limbs 18013945796863515455 14414340112335121757 8020715533944075007 378547930620493071,
     Limbs 10882040312752948163 13534318422278561025 16239338703176780807 315921785019971079,
     Limbs 11804152077864610443 10711845104699761001 2579945555704418307 407428959149964045,
     Limbs 3599124979175311464 12397382694363857548 2441162789755772647 519829512759629210,
     Limbs 1122008851702936351 2255313605192201584 9526529507379911735 297026039684882166,
     Limbs 1993625032903604531 596810388162793045 15598201710380655007 131529263108506346,
     Limbs 4674850965951748614 4226133210265092969 16131311957670865406 224060573845038011,
     Limbs 11214981260617649902 2473985365883836987 5936657039588618128 75239021508281120,
     Limbs 1656325451144825481 9292758618068460829 10708624397900073633 194216947938400317,
     Limbs 8903410050073285790 8661236053987118957 1615364812064241551 67542072505613059,
     Limbs 15404542557975125459 2998788108140034653 2552297003970802502 469030315210549517,
     Limbs 12823358311737123095 7648424977752018148 6761349120637124061 453636870534881918,
     Limbs 9487732293618798109 10740489098835571894 11738903622058165831 161717009046994634,
     Limbs 13651502097878895227 10047101549636218127 10044469647704241764 277982644699321060,
     Limbs 8555164891384310121 8824267949549756926 7305199522290707083 263260756366809017,
     Limbs 8140624856704023682 8045915014876264352 17217076042215213576 72504083815642834,
     Limbs 2393283877389675021 184042354645416614 5319475030094698416 521277606880990981,
     Limbs 434646374717545122 16968292764294941446 397903500864519791 189962858545866132,
     Limbs 15192322066947113426 7230072155523803250 1912611278135465035 484438043712101051,
     Limbs 3404050675041230416 5349474969561382272 10312121908398277288 131659008494808833,
     Limbs 16161573332686472539 11482954176039056988 10321079257176384834 285431294163195780,
     Limbs 7769460563456887047 15933903404722266197 4417375624575928495 509185859951343125,
     Limbs 4757536062552078975 14345591597495868207 5136403899854077412 155548508933381698,
     Limbs 16954136253536679036 15495192077804287724 3602538967473509698 424756635805120473,
     Limbs 782587731399981975 8752948468066486506 11249513498993831494 297791197798108890,
     Limbs 8920685932186110294 607857242333979734 9067276084563478270 257755501610648687,
     Limbs 12797826492922709079 598864940726990753 10808632893013728360 255507877414539372,
     Limbs 18357585898410668675 14427109677195052515 11616133167538022764 337499443474645791,
     Limbs 11006876850199954451 4471887087529055003 13709407269306624594 461544350634460860,
     Limbs 3935449925401609487 7247938434158659126 16055252784997531913 241572537953357206,
     Limbs 12185916472608269828 8599903496731799844 7473372200107268523 20826784995699326,
     Limbs 9114145677234606895 11335924134290767337 12339440635155145939 325284558926946894,
     Limbs 7913511813685739207 13510010034121256720 5786681712809070321 524297675686992468,
     Limbs 11489572640693348549 653791830907185044 1343259707956093156 91862724283776664,
     Limbs 8475224572437702585 6117048525531009669 2612824879774856987 152655841869983584,
     Limbs 10275284836695919781 1229936912426117714 852953717024661566 494626294612738458,
     Limbs 458652097155681902 14888651917691804798 16255075206832288784 24654605265517243,
     Limbs 12078376201244291123 15650814510286239758 7824274777759107853 548147943423761875,
     Limbs 7150607360351293312 15869512646666935948 17547962929740675348 544265221469581427,
     Limbs 8825399362075630882 8320101570235006675 831216380162620582 110482907032568200,
     Limbs 16250629230069546482 2730194971623754710 2257455797750592448 492309260778657687,
     Limbs 14147969271427023624 828879174920615316 774481952233097841 358764916624727771,
     Limbs 2327560102298050020 16326474056896465620 11569722182073805281 505092152210714943,
     Limbs 9785912164301152354 8106490610561126785 1630249814069958098 58834859029597485,
     Limbs 3289890810144882514 3215734868963276321 8055317084564590682 119086600262724981,
     Limbs 5483225686717068229 16371685975512595166 15450955014197186841 247943736268488503,
     Limbs 4381919769144899813 13933618086851303637 5230009595729784912 20792489568442719,
     Limbs 8789178883266410059 16721801817937206035 13400733992682978294 442589726189451790,
     Limbs 14046586735054130921 292037712493469239 5356712645210626551 293939309306751922,
     Limbs 380205073025197349 5755966045834097308 5866406040614980707 348659944710609305,
     Limbs 9134565645309956025 5970118022284662551 7792904134063363468 113718338186485349,
     Limbs 2923116954730895285 4758998626841090083 11310098556304705439 48545222501354940,
     Limbs 10356409984278808132 8626434746901408014 14741910479101271233 288126037191662696,
     Limbs 15089483185994803607 15995340104776500525 8804335419305831150 396859084962881839,
     Limbs 1806552960857676317 5044268144265983057 10937421026512331976 388825756002312816,
     Limbs 195394918711621979 11495023801469827766 10387650783476140513 36031442409401774,
     Limbs 6252690410849898787 15336030451772296178 9931420975657904643 342401574327501171,
     Limbs 8845585704258239691 6335878880627979647 11428826230512157512 125599780553714479,
     Limbs 15678553522198702946 5956556265401411549 15531514790645111620 321829728761679778,
     Limbs 12747317311074323278 18276738862377911125 16869705933132331722 429960475805585734,
     Limbs 8818520944555213172 12659942709060110110 3152386375917271891 538072118411786464,
     Limbs 7051814885573177194 6963721086450009179 17624329337577352587 478549527730244073,
     Limbs 12782217873770289538 15295458184819533181 4074200589034403638 173095944718984339,
     Limbs 1759489451407771803 2198678818123145500 8614653954149136745 522963184775328415,
     Limbs 15754679985287562033 17144367048005459911 8637536145542499282 178770311623751184,
     Limbs 298970159691700591 12014891315505021636 5642896886612387367 320523276021081874,
     Limbs 2161827243834369197 6529000939326479156 3360240309062894342 423278556197684001,
     Limbs 17922407737483631270 10846304006776507478 4814020835957029095 558105788237772190,
     Limbs 14309821559636775821 5191281667707819629 7991629750293746597 55044774064780458,
     Limbs 4475858853850722769 4126326734531744171 14548036495158561611 569399000276545969,
     Limbs 17137171742635080032 13734979251366108230 733658667004231380 393850665517739074,
     Limbs 18207273213375707676 9125832381882861274 13182372482997690796 374441752858986998,
     Limbs 11725146126629035967 2224508228469132237 1606247714594998930 162358740541808928]"

section \<open>Permutation: \<^verbatim>\<open>permutation.rs\<close>\<close>

text \<open>The operators on \<^verbatim>\<open>MontFelt\<close> values.\<close>

abbreviation mf_add :: "limbs \<Rightarrow> limbs \<Rightarrow> limbs" where
  "mf_add \<equiv> mont_add montfelt"

abbreviation mf_sub :: "limbs \<Rightarrow> limbs \<Rightarrow> limbs" where
  "mf_sub \<equiv> mont_sub montfelt"

abbreviation mf_mul :: "limbs \<Rightarrow> limbs \<Rightarrow> limbs" where
  "mf_mul \<equiv> mont_mul montfelt"

abbreviation mf_square :: "limbs \<Rightarrow> limbs" where
  "mf_square \<equiv> mont_square montfelt"

abbreviation mf_double :: "limbs \<Rightarrow> limbs" where
  "mf_double \<equiv> mont_double montfelt"

definition mix :: "poseidon_state \<Rightarrow> poseidon_state" where
  "mix = (\<lambda>(s0, s1, s2).
     let t = mf_add (mf_add s0 s1) s2;
         s0 = mf_add t (mf_double s0);
         s1 = mf_sub t (mf_double s1);
         s2 = mf_sub t (mf_add (mf_double s2) s2)
     in (s0, s1, s2))"

definition full_round :: "poseidon_state \<Rightarrow> nat \<Rightarrow> poseidon_state" where
  "full_round = (\<lambda>(s0, s1, s2) idx.
     let s0 = mf_add s0 (POSEIDON_COMP_CONSTS ! idx);
         s1 = mf_add s1 (POSEIDON_COMP_CONSTS ! (idx + 1));
         s2 = mf_add s2 (POSEIDON_COMP_CONSTS ! (idx + 2));
         s0 = mf_mul (mf_square s0) s0;
         s1 = mf_mul (mf_square s1) s1;
         s2 = mf_mul (mf_square s2) s2
     in mix (s0, s1, s2))"

definition partial_round :: "poseidon_state \<Rightarrow> nat \<Rightarrow> poseidon_state" where
  "partial_round = (\<lambda>(s0, s1, s2) idx.
     let s2 = mf_add s2 (POSEIDON_COMP_CONSTS ! idx);
         s2 = mf_mul (mf_square s2) s2
     in mix (s0, s1, s2))"

text \<open>A \<^verbatim>\<open>for\<close> loop of rounds, each moving the index of the next constant by \<open>step\<close>.\<close>

fun rounds :: "(poseidon_state \<Rightarrow> nat \<Rightarrow> poseidon_state) \<Rightarrow> nat \<Rightarrow> nat \<Rightarrow> poseidon_state \<times> nat \<Rightarrow> poseidon_state \<times> nat" where
  "rounds f step 0 (state, idx) = (state, idx)"
| "rounds f step (Suc n) (state, idx) = rounds f step n (f state idx, idx + step)"

definition permute :: "poseidon_state \<Rightarrow> poseidon_state" where
  "permute state =
     (let s = (state, 0);
          s = rounds full_round 3 (FULL_ROUNDS div 2) s;
          s = rounds partial_round 1 PARTIAL_ROUNDS s;
          s = rounds full_round 3 (FULL_ROUNDS div 2) s
      in fst s)"

section \<open>Hashing: \<^verbatim>\<open>hash.rs\<close>\<close>

definition poseidon_hash :: "limbs \<Rightarrow> limbs \<Rightarrow> limbs" where
  "poseidon_hash x y = (let state = permute (x, y, mf_TWO) in fst state)"

text \<open>The loop over \<^verbatim>\<open>chunks_exact(2)\<close> and the padding of the remainder.\<close>

fun poseidon_absorb :: "poseidon_state \<Rightarrow> limbs list \<Rightarrow> poseidon_state" where
  "poseidon_absorb (s0, s1, s2) (m0 # m1 # msgs) =
     poseidon_absorb (permute (mf_add s0 m0, mf_add s1 m1, s2)) msgs"
| "poseidon_absorb (s0, s1, s2) [r0] = (mf_add s0 r0, mf_add s1 mf_ONE, s2)"
| "poseidon_absorb (s0, s1, s2) [] = (mf_add s0 mf_ONE, s1, s2)"

definition poseidon_hash_many :: "limbs list \<Rightarrow> limbs" where
  "poseidon_hash_many msgs =
     (let state = poseidon_absorb (mf_ZERO, mf_ZERO, mf_ZERO) msgs in fst (permute state))"

record poseidon_hasher =
  hasher_state :: poseidon_state
  hasher_buffer :: "limbs option"

definition poseidon_hasher_new :: poseidon_hasher where
  "poseidon_hasher_new = \<lparr> hasher_state = (mf_ZERO, mf_ZERO, mf_ZERO), hasher_buffer = None \<rparr>"

definition poseidon_hasher_write :: "limbs \<Rightarrow> poseidon_hasher \<Rightarrow> poseidon_hasher" where
  "poseidon_hasher_write msg h = (case hasher_buffer h of
       Some previous_message \<Rightarrow>
         (case hasher_state h of (s0, s1, s2) \<Rightarrow>
            \<lparr> hasher_state = permute (mf_add s0 previous_message, mf_add s1 msg, s2), hasher_buffer = None \<rparr>)
     | None \<Rightarrow> h\<lparr> hasher_buffer := Some msg \<rparr>)"

definition poseidon_hasher_finish :: "poseidon_hasher \<Rightarrow> limbs" where
  "poseidon_hasher_finish h = (case hasher_state h of (s0, s1, s2) \<Rightarrow>
     let state = (case hasher_buffer h of
           Some last_message \<Rightarrow> (mf_add s0 last_message, mf_add s1 mf_ONE, s2)
         | None \<Rightarrow> (mf_add s0 mf_ONE, s1, s2))
     in fst (permute state))"

text \<open>\<^verbatim>\<open>PoseidonHash\<close> of \<^verbatim>\<open>crates/common/src/hash.rs\<close>: the hash of two \<^verbatim>\<open>Felt\<close>s.\<close>

definition poseidon_felt_hash :: felt_hash where
  "poseidon_felt_hash a b =
     const_eval (felt_from_montfelt (poseidon_hash (montfelt_from_felt a) (montfelt_from_felt b)))"

section \<open>Correctness\<close>

text \<open>The conversion back to \<^verbatim>\<open>Felt\<close> never panics.\<close>

lemma poseidon_felt_hash_eq:
  "felt_from_montfelt (poseidon_hash (montfelt_from_felt a) (montfelt_from_felt b)) = Inr (poseidon_felt_hash a b)"
  by (simp add: poseidon_felt_hash_def felt_from_montfelt_eq const_eval_def)

lemma poseidon_felt_hash_wf: "felt_wf (poseidon_felt_hash a b)"
  using mf.native_less by (simp add: poseidon_felt_hash_def felt_from_montfelt_eq const_eval_def felt_wf_be_bytes montfelt_P)

interpretation poseidon: felt_valued_hash poseidon_felt_hash
  by unfold_locales (rule poseidon_felt_hash_wf)

text \<open>The incremental hasher computes the hash of the slice of what was written.\<close>

lemma hasher_run:
  "poseidon_hasher_finish (foldl (\<lambda>h m. poseidon_hasher_write m h) \<lparr> hasher_state = s, hasher_buffer = None \<rparr> msgs)
     = fst (permute (poseidon_absorb s msgs))"
proof (induction s msgs rule: poseidon_absorb.induct)
  case (1 s0 s1 s2 m0 m1 msgs)
  then show ?case by (simp add: poseidon_hasher_write_def)
qed (simp_all add: poseidon_hasher_write_def poseidon_hasher_finish_def)

lemma hasher_hash_many:
  "poseidon_hasher_finish (foldl (\<lambda>h m. poseidon_hasher_write m h) poseidon_hasher_new msgs)
     = poseidon_hash_many msgs"
  by (simp add: poseidon_hasher_new_def poseidon_hash_many_def hasher_run)

text \<open>
  The reference permutation, on integers modulo the field prime: rounds add the constants,
  cube, and multiply by the MDS matrix.
\<close>

definition ref_const :: "nat \<Rightarrow> nat" where
  "ref_const i = native montfelt (POSEIDON_COMP_CONSTS ! i)"

definition ref_mix :: "nat \<times> nat \<times> nat \<Rightarrow> nat \<times> nat \<times> nat" where
  "ref_mix = (\<lambda>(a, b, c).
     ((3 * a + b + c) mod field_prime, (a + (field_prime - 1) * b + c) mod field_prime,
      (a + b + (field_prime - 2) * c) mod field_prime))"

definition ref_full_round :: "nat \<times> nat \<times> nat \<Rightarrow> nat \<Rightarrow> nat \<times> nat \<times> nat" where
  "ref_full_round = (\<lambda>(a, b, c) i.
     ref_mix ((a + ref_const i) ^ 3, (b + ref_const (i + 1)) ^ 3, (c + ref_const (i + 2)) ^ 3))"

definition ref_partial_round :: "nat \<times> nat \<times> nat \<Rightarrow> nat \<Rightarrow> nat \<times> nat \<times> nat" where
  "ref_partial_round = (\<lambda>(a, b, c) i. ref_mix (a, b, (c + ref_const i) ^ 3))"

definition ref_permute :: "nat \<times> nat \<times> nat \<Rightarrow> nat \<times> nat \<times> nat" where
  "ref_permute s =
     (let s = foldl (\<lambda>s r. ref_full_round s (3 * r)) s [0..<4];
          s = foldl (\<lambda>s r. ref_partial_round s (12 + r)) s [0..<83]
      in foldl (\<lambda>s r. ref_full_round s (95 + 3 * r)) s [0..<4])"

end
