(* ===== verification/Poseidon_Correct.thy ===== *)
theory Poseidon_Correct
  imports Poseidon
begin

text \<open>
  The Poseidon permutation over the field. The round functions of the
  program, written with additions and doublings of Montgomery residues, are
  shown to compute the matrix and cube definition of Hades on the represented
  field elements, and \<open>permute\<close> to be the composition of four full,
  eighty-three partial and four full rounds with consecutive constants.
\<close>

definition native3 :: "poseidon_state \<Rightarrow> nat \<times> nat \<times> nat" where
  "native3 = (\<lambda>(a, b, c). (native montfelt a, native montfelt b, native montfelt c))"

definition reduced3 :: "poseidon_state \<Rightarrow> bool" where
  "reduced3 = (\<lambda>(a, b, c). reduced montfelt a \<and> reduced montfelt b \<and> reduced montfelt c)"

lemma mod_diff_eqI:
  fixes X Y T p :: nat
  assumes "(X + Y) mod p = T mod p" and "0 < p"
  shows "(T mod p + (p - Y mod p)) mod p = X mod p"
proof -
  have "(T mod p + (p - Y mod p)) mod p = ((X + Y) mod p + (p - Y mod p)) mod p" by (simp only: assms(1))
  also have "\<dots> = (X + Y mod p + (p - Y mod p)) mod p" by (metis mod_add_left_eq mod_add_right_eq)
  also have "X + Y mod p + (p - Y mod p) = X + p" using assms(2) by (simp add: less_imp_le)
  finally show ?thesis by simp
qed

lemmas mf_native = mf.native_add mf.native_sub mf.const_sub_lval(2) mf.native_double mf.native_mul

lemma mf_reduced:
  assumes "reduced montfelt x" and "reduced montfelt y"
  shows "reduced montfelt (mf_add x y)" and "reduced montfelt (mf_sub x y)" and "reduced montfelt (mf_mul x y)"
    and "reduced montfelt (mf_double x)" and "reduced montfelt (mf_square x)"
  using assms mf_native mf.square_eq_mul by simp_all

lemma mf_cube:
  assumes "reduced montfelt x"
  shows "native montfelt (mf_mul (mf_square x) x) = native montfelt x ^ 3 mod field_prime"
  using assms
  by (simp add: mf.native_mul mf.square_eq_mul montfelt_P mod_mult_left_eq power3_eq_cube)

lemma field_prime_pos: "2 < field_prime"
  by (simp add: field_prime_def)

lemma mix_correct:
  assumes "reduced3 s"
  shows "reduced3 (mix s)" and "native3 (mix s) = ref_mix (native3 s)"
proof -
  obtain a b c where s: "s = (a, b, c)" by (cases s)
  have r: "reduced montfelt a" "reduced montfelt b" "reduced montfelt c" using assms by (auto simp: reduced3_def s)
  show "reduced3 (mix s)" using r by (simp add: s mix_def reduced3_def mf_native Let_def)
  let ?p = field_prime and ?a = "native montfelt a" and ?b = "native montfelt b" and ?c = "native montfelt c"
  obtain q where q: "?p = q + 2" using field_prime_pos by (metis add.commute less_imp_add_positive)
  define t where "t = mf_add (mf_add a b) c"
  have t: "reduced montfelt t" "native montfelt t = (?a + ?b + ?c) mod ?p"
    using r by (simp_all add: t_def mf_native montfelt_P mod_add_left_eq)
  have 1: "native montfelt (mf_add t (mf_double a)) = (3 * ?a + ?b + ?c) mod ?p"
  proof -
    have "native montfelt (mf_add t (mf_double a)) = ((?a + ?b + ?c) mod ?p + (2 * ?a) mod ?p) mod ?p"
      using t r by (simp add: mf_native montfelt_P)
    also have "\<dots> = (?a + ?b + ?c + 2 * ?a) mod ?p" by (simp only: mod_add_eq)
    finally show ?thesis by (simp add: algebra_simps)
  qed
  have 2: "native montfelt (mf_sub t (mf_double b)) = (?a + (?p - 1) * ?b + ?c) mod ?p"
  proof -
    have "?a + (?p - 1) * ?b + ?c + 2 * ?b = ?a + ?b + ?c + ?p * ?b"
      unfolding q by (simp add: algebra_simps)
    then have "(?a + (?p - 1) * ?b + ?c + 2 * ?b) mod ?p = (?a + ?b + ?c) mod ?p"
      by (simp only: mod_mult_self2)
    from mod_diff_eqI [OF this] show ?thesis using t r field_prime_pos by (simp add: mf_native montfelt_P)
  qed
  have 3: "native montfelt (mf_sub t (mf_add (mf_double c) c)) = (?a + ?b + (?p - 2) * ?c) mod ?p"
  proof -
    have "?a + ?b + (?p - 2) * ?c + 3 * ?c = ?a + ?b + ?c + ?p * ?c"
      unfolding q by (simp add: algebra_simps)
    then have "(?a + ?b + (?p - 2) * ?c + 3 * ?c) mod ?p = (?a + ?b + ?c) mod ?p"
      by (simp only: mod_mult_self2)
    moreover have "native montfelt (mf_add (mf_double c) c) = (3 * ?c) mod ?p"
      using r by (simp add: mf_native montfelt_P mod_add_left_eq)
    ultimately show ?thesis
      using mod_diff_eqI [of "?a + ?b + (?p - 2) * ?c" "3 * ?c" ?p] t r field_prime_pos by (simp add: mf_native montfelt_P)
  qed
  show "native3 (mix s) = ref_mix (native3 s)"
    using 1 2 3 by (simp add: s mix_def native3_def ref_mix_def t_def Let_def)
qed

lemma ref_mix_mod:
  "ref_mix (a mod field_prime, b mod field_prime, c mod field_prime) = ref_mix (a, b, c)"
proof -
  have "(x * (a mod p) + y * (b mod p) + z * (c mod p)) mod p = (x * a + y * b + z * c) mod (p :: nat)" for x y z p
    by (metis (no_types) mod_add_eq mod_mult_right_eq)
  from this [of 3 _ 1 1] this [of 1 _ "field_prime - 1" 1] this [of 1 _ 1 "field_prime - 2"]
  show ?thesis by (simp add: ref_mix_def)
qed

lemma reduced_top_limb: "x3 < 576460752303423505 \<Longrightarrow> reduced montfelt (Limbs x0 x1 x2 x3)"
proof -
  assume "x3 < 576460752303423505"
  then have "const_cmp (Limbs x0 x1 x2 x3) (mod_P montfelt) = Less" by (simp add: const_cmp_def montfelt_def)
  then show ?thesis by (simp add: const_cmp_lval reduced_def split: if_splits)
qed

lemma poseidon_consts_reduced: "i < 107 \<Longrightarrow> reduced montfelt (POSEIDON_COMP_CONSTS ! i)"
proof -
  have "list_all (reduced montfelt) POSEIDON_COMP_CONSTS"
    by (simp add: POSEIDON_COMP_CONSTS_def reduced_top_limb)
  moreover have "length POSEIDON_COMP_CONSTS = 107" by (simp add: POSEIDON_COMP_CONSTS_def)
  ultimately show "i < 107 \<Longrightarrow> reduced montfelt (POSEIDON_COMP_CONSTS ! i)" by (simp add: list_all_length)
qed

lemma full_round_correct:
  assumes "reduced3 s" and "idx + 2 < 107"
  shows "reduced3 (full_round s idx)" and "native3 (full_round s idx) = ref_full_round (native3 s) idx"
proof -
  obtain a b c where s: "s = (a, b, c)" by (cases s)
  let ?a = "mf_add a (POSEIDON_COMP_CONSTS ! idx)" and ?b = "mf_add b (POSEIDON_COMP_CONSTS ! (idx + 1))"
    and ?c = "mf_add c (POSEIDON_COMP_CONSTS ! (idx + 2))"
  let ?s = "(mf_mul (mf_square ?a) ?a, mf_mul (mf_square ?b) ?b, mf_mul (mf_square ?c) ?c)"
  have k: "reduced montfelt (POSEIDON_COMP_CONSTS ! idx)" "reduced montfelt (POSEIDON_COMP_CONSTS ! (idx + 1))"
    "reduced montfelt (POSEIDON_COMP_CONSTS ! (idx + 2))"
    using assms(2) by (simp_all add: poseidon_consts_reduced)
  have r: "reduced montfelt ?a" "reduced montfelt ?b" "reduced montfelt ?c"
    using assms(1) k by (simp_all add: reduced3_def s mf_reduced del: runtime_const)
  then have r3: "reduced3 ?s" by (auto simp: reduced3_def simp del: runtime_const mont_mul_const intro: mf_reduced)
  have eq: "full_round s idx = mix ?s" by (simp add: full_round_def s Let_def)
  show "reduced3 (full_round s idx)" unfolding eq by (rule mix_correct(1) [OF r3])
  have add: "native montfelt (mf_add x y) = (native montfelt x + native montfelt y) mod field_prime"
    if "reduced montfelt x" "reduced montfelt y" for x y
    using mf.native_add(1) [OF that] by (simp add: montfelt_P)
  have abc: "reduced montfelt a" "reduced montfelt b" "reduced montfelt c" using assms(1) by (auto simp: reduced3_def s)
  have "native3 ?s = ((native montfelt a + ref_const idx) ^ 3 mod field_prime,
      (native montfelt b + ref_const (idx + 1)) ^ 3 mod field_prime, (native montfelt c + ref_const (idx + 2)) ^ 3 mod field_prime)"
    unfolding native3_def prod.case mf_cube [OF r(1)] mf_cube [OF r(2)] mf_cube [OF r(3)] ref_const_def
      add [OF abc(1) k(1)] add [OF abc(2) k(2)] add [OF abc(3) k(3)] power_mod ..
  then show "native3 (full_round s idx) = ref_full_round (native3 s) idx"
    unfolding eq mix_correct(2) [OF r3] by (simp add: ref_mix_mod ref_full_round_def s native3_def)
qed

lemma partial_round_correct:
  assumes "reduced3 s" and "idx < 107"
  shows "reduced3 (partial_round s idx)" and "native3 (partial_round s idx) = ref_partial_round (native3 s) idx"
proof -
  obtain a b c where s: "s = (a, b, c)" by (cases s)
  let ?c = "mf_add c (POSEIDON_COMP_CONSTS ! idx)"
  let ?s = "(a, b, mf_mul (mf_square ?c) ?c)"
  have k: "reduced montfelt (POSEIDON_COMP_CONSTS ! idx)" using assms(2) by (rule poseidon_consts_reduced)
  have abc: "reduced montfelt a" "reduced montfelt b" "reduced montfelt c" using assms(1) by (auto simp: reduced3_def s)
  have r: "reduced montfelt ?c" using abc(3) k by (rule mf_reduced)
  then have r3: "reduced3 ?s" using abc by (auto simp: reduced3_def simp del: runtime_const mont_mul_const intro: mf_reduced)
  have eq: "partial_round s idx = mix ?s" by (simp add: partial_round_def s Let_def)
  show "reduced3 (partial_round s idx)" unfolding eq by (rule mix_correct(1) [OF r3])
  have "native montfelt ?c = (native montfelt c + ref_const idx) mod field_prime"
    using mf.native_add(1) [OF abc(3) k] by (simp add: montfelt_P ref_const_def)
  then have "native3 ?s = (native montfelt a mod field_prime, native montfelt b mod field_prime,
      (native montfelt c + ref_const idx) ^ 3 mod field_prime)"
    using mf_cube [OF r] mf.native_less [of a] mf.native_less [of b] by (simp add: native3_def montfelt_P power_mod)
  then show "native3 (partial_round s idx) = ref_partial_round (native3 s) idx"
    unfolding eq mix_correct(2) [OF r3] ref_partial_round_def
    by (simp only: ref_mix_mod s native3_def prod.case)
qed

lemma rounds_correct:
  assumes "reduced3 s"
    and step: "\<And>s r. reduced3 s \<Longrightarrow> r < n \<Longrightarrow> reduced3 (f s (idx + k * r)) \<and> native3 (f s (idx + k * r)) = g (native3 s) (idx + k * r)"
  shows "\<exists>s'. rounds f k n (s, idx) = (s', idx + k * n) \<and> reduced3 s' \<and>
    native3 s' = foldl (\<lambda>s r. g s (idx + k * r)) (native3 s) [0..<n]"
  using assms
proof (induction n arbitrary: s idx)
  case (Suc n)
  have "[0..<Suc n] = 0 # map Suc [0..<n]" by (simp add: map_Suc_upt upt_conv_Cons del: upt_Suc)
  moreover have "\<exists>s'. rounds f k n (f s idx, idx + k) = (s', idx + k + k * n) \<and> reduced3 s' \<and>
      native3 s' = foldl (\<lambda>s r. g s (idx + k + k * r)) (native3 (f s idx)) [0..<n]"
  proof (rule Suc.IH)
    show "reduced3 (f s idx)" using Suc.prems(2) [of s 0] Suc.prems(1) by simp
    fix s r assume "reduced3 s" "r < n"
    then show "reduced3 (f s (idx + k + k * r)) \<and> native3 (f s (idx + k + k * r)) = g (native3 s) (idx + k + k * r)"
      using Suc.prems(2) [of s "Suc r"] by (simp add: algebra_simps)
  qed
  moreover have "native3 (f s idx) = g (native3 s) idx" using Suc.prems(2) [of s 0] Suc.prems(1) by simp
  ultimately show ?case by (simp add: foldl_map algebra_simps del: upt_Suc)
qed simp

lemma permute_correct:
  assumes "reduced3 s"
  shows "reduced3 (permute s)" and "native3 (permute s) = ref_permute (native3 s)"
proof -
  obtain s1 where 1: "rounds full_round 3 4 (s, 0) = (s1, 12)" "reduced3 s1"
      "native3 s1 = foldl (\<lambda>s r. ref_full_round s (3 * r)) (native3 s) [0..<4]"
    using rounds_correct [OF assms, of 4 full_round 0 3 ref_full_round] full_round_correct by auto
  obtain s2 where 2: "rounds partial_round 1 83 (s1, 12) = (s2, 95)" "reduced3 s2"
      "native3 s2 = foldl (\<lambda>s r. ref_partial_round s (12 + r)) (native3 s1) [0..<83]"
    using rounds_correct [OF 1(2), of 83 partial_round 12 1 ref_partial_round] partial_round_correct by auto
  obtain s3 where 3: "rounds full_round 3 4 (s2, 95) = (s3, 107)" "reduced3 s3"
      "native3 s3 = foldl (\<lambda>s r. ref_full_round s (95 + 3 * r)) (native3 s2) [0..<4]"
    using rounds_correct [OF 2(2), of 4 full_round 95 3 ref_full_round] full_round_correct by auto
  have "permute s = s3" using 1(1) 2(1) 3(1) by (simp add: permute_def FULL_ROUNDS_def PARTIAL_ROUNDS_def)
  then show "reduced3 (permute s)" and "native3 (permute s) = ref_permute (native3 s)"
    using 1(3) 2(3) 3(2,3) by (simp_all add: ref_permute_def)
qed

end
