(* ===== verification/FieldPrime.thy ===== *)
theory FieldPrime
  imports MontFelt
begin

text \<open>
  The modulus of the base field is prime. The root of unity \<open>unity_root\<close> has order
  \<open>2 ^ 126\<close> modulo every divisor of the modulus, so every divisor other than 1 exceeds the square
  root of the modulus. That its power \<open>2 ^ 125\<close> is the opposite of 1 is a chain of squarings, each
  given with its quotient and remainder and checked by multiplication.
\<close>

definition unity_root :: nat where
  "unity_root = 2515493311686898200200086846413795312263441429654436804494537491931784602602"

text \<open>The result of the squarings whose quotients and remainders are listed, if they are right.\<close>

fun square_chain :: "nat \<Rightarrow> (nat \<times> nat) list \<Rightarrow> nat option" where
  "square_chain x [] = Some x"
| "square_chain x ((q, r) # qrs) = (if x * x = field_prime * q + r then square_chain r qrs else None)"

definition squares1 :: "(nat \<times> nat) list" where
  "squares1 = [
    (1748708504788541580268839630430459662515720727037371280711097432922314456779,
     1540054143867871818763825243910094979702308211934782734065367632768387879705),
    (655455282077838323704704134705699403838292616736271242158508250883763188327,
     115926691424865954619651841678984313124078262423229606331562210825546761738),
    (3713966402571167704834740865331240236009522278014143404150947278896763914,
     2799085141946686836773106532447948287398273293173102834002218266490511058010),
    (2165226362794881763374783781188087525385324274427577854041989057890869331660,
     2003437110337707462683667997036464033324306139025307105714933895887283431640),
    (1109232323283043205565166738539876470801700051525369236350061007940032502592,
     59102031053203838707077415503121130751756140659114271472554698868643502848),
    (965330214904019652320167031597405565455479463869898213606866450052218228,
     2128094764020025532355746270407253578161373618696487500510171321449086583436),
    (1251563861947131489325524386576607514372107708018491438558851883104162620434,
     1461989093026908681047068697699681412805221685872242204077563610256312457342),
    (590689639600235189552393884489583735190979059536121024396364204302001189680,
     3435523113675416517360377473479240614258910118200515831515168995207243868884),
    (3261796315748823058085219637867605323542635323578763745211153312534640556429,
     241044448546233445321311539087349736580225694788194858896820620914259183107),
    (16057035069019736969922663341878296397500856540161010658550707081848861670,
     641391612892373358527854706711909724146447051027145933174492779306178310179),
    (113688789290756922712745043743775440326675438808644320355688283771585783818,
     248811642451259959328623803409321656115690611346688297766759153300200635583),
    (17108521682835057356683148465751419536812031311330173508452779055694000423,
     2365947891070251743224711090243120994921663400932126853527341249294487086426),
    (1546968387254780769038521917708373748058327949618227256218731886228420533141,
     2178837564698102490717778436930098672009618387271674535970671800459502192655),
    (1311960612054562286619432895153684244435423561664311949674209069097333159923,
     1887934373858631010695983460129632893191805345963663160575856079214431566062),
    (985019608430609510999514341874740011170330579009895411550963886411662604838,
     1847431335529343951512100581155696285976831752311089146624732349991324500766),
    (943208486721617752497657911382194061195571254202466427032371757560941273969,
     297945159928539626973140732764657008784253962283116218235554840604934427667),
    (24532610173161242307988754043640971656461709009633289122941270818877369643,
     1064099922964933618740285034029711975489599459739809246687648719239751404606),
    (312921866358813660578143788571337902806746101217392083437183497379451830880,
     3307512177782751389637116255810897505110527860342111304134357164669609761956),
    (3023249516470268356049525002391834307223032237716555569688812933108907071495,
     2645264876694231741693358333568966419827800539481272139664090533076613656841),
    (1933790486438058495956623459845197566160532300375456011480083834427590813598,
     2283748942552642204274995064111653792086159170075440409374015495875596798643),
    (1441344538671165693195955530917414217214343921221294315110534519527487146178,
     3047899998012075337896322714394797268432568702948399844404910427908829769831),
    (2567275732653619928345902673940771900411769578211361750334405696623343180265,
     3422790608444592281222850205198806001760554365170645375917974233410682761096),
    (3237663816634813466280667836133047386858997870107734810302557097620872248190,
     2146618001074135119296953415743023652653166978709639326341559878278015941826),
    (1273446259864325206517431621778113407634987400116803225229568129115007450171,
     475525989672926996310905857543435824630043289263382536465092115296117262025),
    (62491306504636376280291435808592144710190500536663638911051200990398389932,
     355817427280495419374273574250060922573973104746445949891660905992378903333),
    (34988515679210167152121467427395584978759030191734360610920591639362491424,
     1526820435228705682467020319740085608426409317574555131885854965862843653945),
    (644239006456950816905800307970837265322064209761269424104761283709476234027,
     168879122984293523892577348368584703100563629756766711078948967659620956038),
    (7881756584318501041813695759307282263902488772073005539032129995842668979,
     2897732973376524489863900894084362680993824294699063110590110748116737298545),
    (2320533346359210790125183540180610607361685292995831667036031988509362944575,
     2154915919020117611969761350750674361916225920145291221990005326027591276450),
    (1283310498638052978491702451061413278826841666946361264725465070187088913771,
     734359434749333274731561950066033488557132867034037630098673366478969658649),
    (149035059775137962482760239050741563984026405392883835786843834716640689697,
     3464750034885361884462797244925499806435527472302514216467889320310830820944)]"

definition squares2 :: "(nat \<times> nat) list" where
  "squares2 = [
    (3317530344826199946069145596393789818796285906701287208879177616703643095199,
     1019444927719861703233542877340046846144661561598226308082833926528228280417),
    (287209385027682591988783219803307761358071371242006231264682428969213694740,
     426945003336761713201833253667835505040172252156810034594354226121823723949),
    (50374988364019223268035102541650348081933379387727393519855610861412300978,
     2672430702542496843173875831598912576365570392829107975634727685734003824183),
    (1973712962792674082021729742063377373327307513080541279987013904907541936679,
     663212277921288315071486036096159123250273514637236206587580169452882494890),
    (121555944896116510375645597869514935817368894324896948988952769505818976353,
     2752073366363562012872104079792841427111000637547328303125767026077605426307),
    (2093105424036330952428090363253433280230578756925766049188010047169389078723,
     605753963480838526647910255646149143542477158005328580066774687782030332486),
    (101405991843385408210578401883594402852035926733299134289674021335731296526,
     1565608084066774977857900719997336849449978723251571436315493537470350791190),
    (677387531819143362112794319426487025386476647607050573183312035401818181508,
     2587856292161592159686719598494151482190388507863091672462407362565830150752),
    (1850765518229439362660806973707516995337600523319944669829539751631840280386,
     2484687084888432091739487519154702099312561238943706475798762583703671579838),
    (1706139326228663909871304102450443888345424091493590410548755684944083909292,
     1671714710373743445709401138296880723938948819689834674079358764601637896792),
    (772316683472873057887552109239470151887335345558922080203183982526187989174,
     1389416888015432408919000838977700860280446364335488138870766704395309618570),
    (533502224939312706297230814253122792353646776325680787477942339330795517848,
     132592043154717095871837927994232092806864584830520524075965170892431800012),
    (4858542589219067311529307396858610691870440963901246318734771921863254544,
     2970930343065709988181413482663518222880451419370567419423111435574678884480),
    (2439248390520703325093081544200277118510669554046030167776177202891710551694,
     624168419026188547360402247927664075299597934919515177323346498286207625586),
    (107665031108974967455241910734279282905604345406150556351274932542788249505,
     2781445998776869946098284154834169538185032248774026450794349873986463731491),
    (2138022905037942951846365258462001305762120163439855300289896940789000450749,
     802031734035938856781252896872719179606350191750212799541131345461385292812),
    (177768248352743284998050263922808176897227001367804337156105778448215805407,
     2652877308604177735465349172712730841264895267381922182317199601047164326577),
    (1944936462823961429720924309913697556139115115806468130728471883665939191608,
     60693910230708833785321830239673351251463962941469821442860003199149213481),
    (1018031753528442967060888023416408796642693362127654685880302408554810213,
     2992259377774797013130931130697050091528180303985102184719409385229108164908),
    (2474398033331829401954284730697502519251663929261392345757200585464193528226,
     2240676090467957204577804471588550563705527283969559087627807772240599051758),
    (1387488040114374522059515962689895746193801615517275800380650053728636631421,
     1729016699487107603402143142201641733161268202170226487207071682207802757063),
    (826170082407838477118474062415618268746679851076984482123521399939749682839,
     3471619213970306321974643883450923286316510080982190779121677718270334160410),
    (3330697990494162806984538721126345230337818201674124040774780503717015261603,
     3198914868929294039585316352329249150431995938524803022391127023867222477057),
    (2827980779981401577278091875207794353123498505271564993830920707846176638280,
     1369989534215173774502537761982381193156026638615462249439014060955002768569),
    (518687267490256529586283916188651881947816674754233773542643218112297831267,
     327671676045838497864650303892674349952887984012931352288452214573268128334),
    (29672141643496611592878692156570220986381266749709813037677712349706860388,
     623540501186373427936674904884250164239142784029447190472735018582950008928),
    (107448516507313784493672368662954626165926998607935650929443478408661870781,
     542799948121648114536847078849720897675677379595163956823991586595472243523),
    (81423671857794084735764095284863061424930566615834007423400113430211558086,
     57655111497332805815939020253343011411409473881085112060594961891102292163),
    (918642896222618797231542303327103954704736451357663925157291216634852749,
     1705421239468371854408549195382736510033449890970581450203722319542064066300),
    (803774868749505080905348528590062767296527930220857713418415974693169425083,
     620447013543208709829644615690908332194052185654478696802616910010424565077),
    (106385021401790952210883999787736076514488273027892863324648436809168245548,
     488771123863844209355583129054529418600988399527943684023866861371914947341)]"

definition squares3 :: "(nat \<times> nat) list" where
  "squares3 = [
    (66021010753784358375029498168920993410255010323313789918765084499969077078,
     2520422805586262257164957393887936112131487973631106770679674805050119335763),
    (1755568943823040182608310628993392278181527479676612919057484978208218635644,
     1685430337235948795636288417721830360785894495309953957613285038576886167405),
    (785041656060855668515495765329322123490134297226544192117273080374247919354,
     1736906538201723380978685532770286969861799505296601225711398655791360144751),
    (833727234340470826829621257487708729405456955390776945411374596482327438489,
     3323992340014315907661104753771975382774661732728720030099850849397997158792),
    (3053452138017213476345518960356175650159908733950698860618029541114442559892,
     3218927152200771160968124897360126267512943271900804552965778207960569751212),
    (2863474927704799811201410307242273635539842222289053597667686014783251325925,
     1621799870241521319793004370955582963186649634689631302025575979631569199019),
    (726884839595490373773190136344658702330977718877364944416738499999243707091,
     441561054205656328981044802483931928702987704633557958831753801122513631590),
    (53883104692337008885866842560579946878252781256432114325869643683162128744,
     578653515487225190079019084854294521017258472769586722111502409821919122236),
    (92535479600709262068541237139243547123777636691105572018226622413572563999,
     1550969514888665027480659964252596421142521607348950670655099533144898376177),
    (664779489364635680987936256975345873405916922687429988110327459571794260426,
     3584112419332158263672426341740146194829914874254093997526285002211681350423),
    (3550048897197704272250741647322980273098883117963212720801634891180833453813,
     21674904027705781140393160183569415745807421652138043991886969775018734876),
    (129833108345741146808598310554399823056765788854613063528329227507592056,
     2523036465503331824291700663027742334946990329062375689088571504379753836440),
    (1759211855853261094662712636368247548135918725725564435710405211327036784712,
     2527183036984815016744000625222054277062770685226403781468864737469020187128),
    (1764999082611753379066906146037730899413026284155172891894346832215415857216,
     919795520307952071197775173307960234359869571875011474690616553999613247488),
    (233804932202481837016410849641100656075065976793080348574955723113624231264,
     1154804668108513991516968076214883392483580875290749727155826857065449792160),
    (368542985696247905045005832556674014043697901256919138503488619948662771572,
     1374927983041104569048711644287044720861432102729607324204792234194188899468),
    (522433467364091110308909774938704200921674641599678199966244910127932159345,
     258103283284781341314469267289850711163274146460948323705525695890615138079),
    (18410184745758026104589196503710457800386209991412928319770386214441900604,
     3596371882406329793708031568772227224523684274103878388370272184624981539717),
    (3574376329645056603811164712936725755842882553658813188078592807472365399540,
     2695871979792953617670148970020986204632052477932492867810013195217420461349),
    (2008489741723217268203285988514103267759792945491306670102730610745883466638,
     1863733278740973194163756545799723946771511809583317358157512329734386686923),
    (959927886518776438366607582865563756481879819031531062556425552235058787655,
     1252390754480737609759263423229120633834933730806128638489941661241229245874),
    (433461764026168488444480331028061747823417240470576343965073543174931806625,
     1633986134005522519322187923991050763446810897812851642310219297408414537251),
    (737849558796804987805659514669363275954574258617585732540009112499297320267,
     1113178875901063824114491316322134568819036656652349859636841782522226248574),
    (342453020523757409822409105314094776669496095969787225753532762649644842524,
     2906900852430684062390926451259176974067077572549905960490047220876289299432),
    (2335240031410101918540158910806988998374791275675731045007950013040176885167,
     1228377489451803944018088163855314357279724181397983909230230209751946417297),
    (416998782291428983360093230587554475875177392361949985573431944420318317009,
     3369014874615264335762679988973596847293764463839558888117740086607762124880),
    (3136728610775201214822484270127202708762346899081514744820609511552507289660,
     454079519889002904682209345449797907472578748695945936400062271067395487940),
    (56981636446004622462512923158566690759731969514240562870260304479974997780,
     2950383176193724615112287384582509849137136957308062730961080641938595911420),
    (2405625031886671229574560770019745963297939907312774239636666072866482520909,
     1006329975307025002475249161764122658755480765313891654513575010964327679171),
    (279867137970271840214681613198308748522069987930678982633320640044775146331,
     3496343910150381292206254102533302429424041792343847657836742260001703242030),
    (3378309055428938478145954554731865606030010169671325229105662193757542863484,
     633917693793491093438410342303993577239887880640455835956139233879323505096)]"

definition squares4 :: "(nat \<times> nat) list" where
  "squares4 = [
    (111054672601921829034555977091320822430435797721633629889953697375141470894,
     2274283650448687101415851970593711626031105468891204880928373412733104589202),
    (1429421621257024610638523415241146247198418612069238533189544751913670431277,
     2732875990783618332335579120230593087094077780499501830257604862680528012567),
    (2064005921010953987663491050588043971115240610183080950418010978105539694429,
     982134047660929852025779334629405023337767392320059971064889431375340329140),
    (266570828851126058710751495384664942429730565889760936337002507743197908308,
     2671243574039810951864803898612677122151470397775922046811652824862597083452),
    (1971959854279763778254458416370490609211454602022374304692881682353798374167,
     2477957756265675706094135298666630427179608442630851423724318940933526921977),
    (1696910297007309359404339962962393908953181635777660217832926482996826969186,
     876922266912309748724099425703447978111447376928886119793644184598497690063),
    (212516807950310785254905116001844635492609278459671101549558355676202101150,
     1740032260176861730069282301706899931803609121779848595553493302998775290819),
    (836730671022167916142402742155746236977848375224738429152528657428181591693,
     3125382754445177052723936368432116465243259141967510926474057405479550226428),
    (2699463820334390957320633676399414540755501784462364792301494836841394082398,
     3212622950840765133933709657845517377320982515761066354075737946972812045746),
    (2852269799707237170962821766066540463268709533624672109758498103008881619932,
     461625156185106109674757843869089899645188733783009008020560400212434869224),
    (58891148430336480195261754940447132545287825716897648765312479102911681269,
     1760167608450351411175491059251246920596160626412255333011233334102270291787),
    (856207716501414758940098085715763136910721885296405452980886867164148572993,
     884767640635888335079619399138397816824468332068211437205303391566300183736),
    (216336375466760599636063938717840413451536981708706654004708624712443747361,
     2524373679629943969694315332668304401069069270208147504317031858433177217055),
    (1761077121280171459098538100125623798703249670066949271601927653763541469670,
     1276259529452344066087051760234356737143210822436609816392252937419502561755),
    (450141531359258238616316933027319197798789753314580283772100753515726061843,
     2018678091584329218435280089678148721952597162209143564155364750690020073542),
    (1126173303004339228534689672875587916985121195477946360281692757971640898424,
     3008896061661996704389990101929484883829232035463363036227102979064119803820),
    (2501989369261312576527009611592641199364600830635592112976358115082680172007,
     868277774033475215476395060850907016745523396068173821916757070607579717033),
    (208347578242004057837389128550992549305569730566632881781197103193187370289,
     1490096455520052234184227906934233732167884042058884987838510110322811434080),
    (613620487928907254455961904531095857782983743725523822623407678532037812511,
     1617791213734658136968748589722407098633951096380418940975101280625155408609),
    (723295949759884036811137885867563111459525840627536780036932636969123879316,
     1533340560886622357184336952203971929989931006618142264948672762036027043885),
    (649753064450942975674429757187754771285799888473768034958997416073414102890,
     107921729611698366527568132789226143223411882538548396875627203627394603135),
    (3218762124175103478753189579433226359849076883795227920981363907526068209,
     479350917366973328867231618769870247883647010050794749859407019189500839696),
    (63500656321246179258967377659423939527309300331347622688855326716661865487,
     2872618801630522944228933398573680209863705690227914327550521950087758333169),
    (2280484294589433921014525865039026542855492525623108175855473238579042962902,
     503605588685115615492164649363646553713524688081596594798612835801738386699),
    (70089372253426361223174500516504409519281676143598510963518519018807544626,
     355459239873039554746754348566197485723154649641346812441506253094066631495),
    (34918108010549647139715481565283869684597015560871638477928776477780306850,
     27902509089891984638895139203459090191082442476177253201387137074461340175),
    (215158052648205209607961820659475175982862537690948268279868471203603836,
     524650022574296031033701339672259635908291236977496998655060095531066865509),
    (76069485713641261983392757436705844120892345831241232900846412886741083438,
     3409443867035641044245057348756544640549407421541289951053907001322227935403),
    (3212463320154563296143618356292117502263770410268563651327974518968168676608,
     2679026602897868112349604024891625875968950767352485125058791696935099163961),
    (1983467737406436330125155291563378208420531771267922186057212961087710894070,
     2804690217475462062143361339624939640984649667966511418446363596075299761851),
    (2173906633605845825705580223617800599616444714507425527486246530127708488886,
     2779265777490745486907812647164038750808419677710890077123925563301162072035),
    (2134672463463434546970383608880542745257528373816563453473374943425167971145,
     3618502788666131213697322783095070105623107215331596699973092056135872020480)]"

lemma square_chain_power:
  "square_chain x qrs = Some y \<Longrightarrow> y mod field_prime = x ^ (2 ^ length qrs) mod field_prime"
proof (induction x qrs rule: square_chain.induct)
  case (2 x q r qrs)
  then have eq: "x * x = field_prime * q + r" and IH: "y mod field_prime = r ^ (2 ^ length qrs) mod field_prime"
    by (simp_all split: if_splits)
  have "r ^ (2 ^ length qrs) mod field_prime = (x * x) ^ (2 ^ length qrs) mod field_prime"
    unfolding eq by (metis mod_mult_self4 power_mod)
  also have "(x * x) ^ (2 ^ length qrs) = x ^ (2 ^ length ((q, r) # qrs))"
    by (simp add: power_mult_distrib power_add mult_2)
  finally show ?case using IH by simp
qed simp

lemma square_chain_Cons:
  "x * x = field_prime * q + r \<Longrightarrow> square_chain r qrs = Some y \<Longrightarrow> square_chain x ((q, r) # qrs) = Some y"
  by simp

lemma squares1: "square_chain 2515493311686898200200086846413795312263441429654436804494537491931784602602 squares1 = Some 3464750034885361884462797244925499806435527472302514216467889320310830820944"
  unfolding squares1_def by (rule square_chain_Cons, simp add: field_prime_def)+ (rule square_chain.simps(1))

lemma squares2: "square_chain 3464750034885361884462797244925499806435527472302514216467889320310830820944 squares2 = Some 488771123863844209355583129054529418600988399527943684023866861371914947341"
  unfolding squares2_def by (rule square_chain_Cons, simp add: field_prime_def)+ (rule square_chain.simps(1))

lemma squares3: "square_chain 488771123863844209355583129054529418600988399527943684023866861371914947341 squares3 = Some 633917693793491093438410342303993577239887880640455835956139233879323505096"
  unfolding squares3_def by (rule square_chain_Cons, simp add: field_prime_def)+ (rule square_chain.simps(1))

lemma squares4: "square_chain 633917693793491093438410342303993577239887880640455835956139233879323505096 squares4 = Some 3618502788666131213697322783095070105623107215331596699973092056135872020480"
  unfolding squares4_def by (rule square_chain_Cons, simp add: field_prime_def)+ (rule square_chain.simps(1))

section \<open>Divisors\<close>

lemma dvd_power_minus_one:
  fixes d y :: int
  assumes "d dvd y - 1"
  shows "d dvd y ^ n - 1"
  using assms by (rule dvd_trans) (use power_diff_sumr2 [of y n 1] in \<open>simp add: dvd_def\<close>)

lemma dvd_odd_power_plus_one:
  fixes d y :: int
  assumes "d dvd y + 1" and "odd n"
  shows "d dvd y ^ n + 1"
proof -
  have "d dvd - y - 1" using assms(1) by (metis add_uminus_conv_diff dvd_minus_iff minus_add_distrib)
  from dvd_power_minus_one [OF this, of n] have "d dvd - (y ^ n + 1)" using assms(2) by simp
  then show ?thesis by (simp only: dvd_minus_iff)
qed

lemma odd_decomposition: "0 < (n :: nat) \<Longrightarrow> \<exists>e m. n = 2 ^ e * m \<and> odd m"
proof (induction n rule: less_induct)
  case (less n)
  show ?case
  proof (cases "even n")
    case True
    then obtain e m where "n div 2 = 2 ^ e * m" "odd m" using less by (metis div_greater_zero_iff
      dvd_imp_le div_less_dividend one_less_numeral_iff semiring_norm(76) zero_less_numeral)
    then have "n = 2 ^ Suc e * m" using True by auto
    then show ?thesis using \<open>odd m\<close> by blast
  qed (metis mult_1 power_0)
qed

text \<open>An element whose power \<open>2 ^ k\<close> is the opposite of 1 has order \<open>2 ^ Suc k\<close>.\<close>

lemma power_two_order:
  fixes d x :: int
  assumes neg: "d dvd x ^ (2 ^ k) + 1" and "2 < d" and "0 < n" and "n < 2 ^ Suc k"
  shows "\<not> d dvd x ^ n - 1"
proof
  assume one: "d dvd x ^ n - 1"
  obtain e m where n: "n = 2 ^ e * m" and "odd m"
    using odd_decomposition [OF \<open>0 < n\<close>] by blast
  have "e \<le> k"
  proof (rule ccontr)
    assume "\<not> e \<le> k"
    then have "(2 :: nat) ^ Suc k \<le> 2 ^ e" by (intro power_increasing) auto
    also have "\<dots> \<le> n" using \<open>0 < n\<close> n by simp
    finally show False using assms(4) by simp
  qed
  have "d dvd (x ^ n) ^ (2 ^ (k - e)) - 1" using one by (rule dvd_power_minus_one)
  moreover have "(x ^ n) ^ (2 ^ (k - e)) = (x ^ (2 ^ k)) ^ m"
  proof -
    have "n * 2 ^ (k - e) = 2 ^ k * m" using \<open>e \<le> k\<close> by (simp add: n mult_ac flip: power_add)
    then show ?thesis by (simp only: flip: power_mult)
  qed
  moreover have "d dvd (x ^ (2 ^ k)) ^ m + 1" using neg \<open>odd m\<close> by (rule dvd_odd_power_plus_one)
  ultimately have "d dvd ((x ^ (2 ^ k)) ^ m + 1) - ((x ^ (2 ^ k)) ^ m - 1)" by (metis dvd_diff)
  then have "d dvd 2" by simp
  then show False using \<open>2 < d\<close> zdvd_imp_le by fastforce
qed

lemma order_le_modulus:
  fixes d x :: nat
  assumes neg: "int d dvd int x ^ (2 ^ k) + 1" and "2 < d"
  shows "2 ^ Suc k \<le> d"
proof -
  have cop: "coprime (int x) (int d)"
  proof (rule coprimeI)
    fix c assume "c dvd int x" and "c dvd int d"
    then have "c dvd int x ^ (2 ^ k)" and "c dvd int x ^ (2 ^ k) + 1" using neg by (auto intro: dvd_trans)
    then show "is_unit c" by (simp add: dvd_add_right_iff)
  qed
  have less: "x ^ i mod d \<noteq> x ^ j mod d" if "i < j" and "j < 2 ^ Suc k" for i j
  proof
    assume "x ^ i mod d = x ^ j mod d"
    then have "int d dvd int x ^ j - int x ^ i"
      by (simp flip: mod_eq_dvd_iff of_nat_power of_nat_mod)
    also have "int x ^ j - int x ^ i = int x ^ i * (int x ^ (j - i) - 1)"
      using \<open>i < j\<close> by (simp add: right_diff_distrib flip: power_add)
    finally have "int d dvd int x ^ (j - i) - 1"
      using cop by (simp add: coprime_commute coprime_dvd_mult_right_iff coprime_power_left_iff coprime_power_right_iff)
    moreover have "0 < j - i" "j - i < 2 ^ Suc k" using that by linarith+
    ultimately show False using power_two_order [OF neg, of "j - i"] \<open>2 < d\<close> by simp
  qed
  have "inj_on (\<lambda>i. x ^ i mod d) {..<2 ^ Suc k}"
    using less by (intro linorder_inj_onI) auto
  moreover have "(\<lambda>i. x ^ i mod d) ` {..<2 ^ Suc k} \<subseteq> {..<d}" using \<open>2 < d\<close> by auto
  ultimately have "card {..<(2 :: nat) ^ Suc k} \<le> card {..<d}" by (rule card_inj_on_le) simp
  then show ?thesis by simp
qed

lemma unity_root_order: "unity_root ^ (2 ^ 125) mod field_prime = field_prime - 1"
proof -
  have append: "square_chain x (qs @ rs) = Option.bind (square_chain x qs) (\<lambda>y. square_chain y rs)" for x qs rs
    by (induction x qs rule: square_chain.induct) simp_all
  have "square_chain unity_root (squares1 @ squares2 @ squares3 @ squares4) = Some (field_prime - 1)"
    by (simp add: append unity_root_def squares1 squares2 squares3 squares4) (simp add: field_prime_def)
  from square_chain_power [OF this]
  have "(field_prime - 1) mod field_prime = unity_root ^ (2 ^ 125) mod field_prime"
    by (simp add: squares1_def squares2_def squares3_def squares4_def)
  then show ?thesis by (simp add: field_prime_def)
qed

lemma field_prime_divisor:
  assumes "d dvd field_prime" and "d \<noteq> 1"
  shows "2 ^ 126 \<le> d"
proof -
  have "odd field_prime" and "0 < field_prime" by (simp_all add: field_prime_def)
  with assms(1) have "odd d" "d \<noteq> 0" by (meson dvd_trans, metis dvd_0_left neq0_conv)
  then have "2 < d" using assms(2) by (metis One_nat_def even_numeral less_2_cases linorder_neqE_nat)
  have "(unity_root ^ (2 ^ 125) + 1) mod field_prime = (field_prime - 1 + 1) mod field_prime"
    using unity_root_order by (metis mod_add_left_eq)
  then have "field_prime dvd unity_root ^ (2 ^ 125) + 1" using \<open>0 < field_prime\<close> by auto
  then have "int d dvd int (unity_root ^ (2 ^ 125) + 1)"
    using assms(1) by (meson dvd_trans int_dvd_int_iff)
  then have "int d dvd int unity_root ^ (2 ^ 125) + 1" by (simp only: of_nat_add of_nat_power of_nat_1)
  from order_le_modulus [OF this \<open>2 < d\<close>] show ?thesis by simp
qed

lemma field_prime_prime:
  assumes "d dvd field_prime"
  shows "d = 1 \<or> d = field_prime"
proof (rule ccontr)
  assume neg: "\<not> ?thesis"
  from assms obtain e where e: "field_prime = d * e" ..
  then have "e \<noteq> 1" using neg by auto
  then have "2 ^ 126 \<le> d" "2 ^ 126 \<le> e" using field_prime_divisor neg e by (metis dvd_triv_left, metis dvd_triv_right)
  then have "2 ^ 126 * 2 ^ 126 \<le> field_prime" unfolding e by (rule mult_le_mono)
  then show False by (simp add: field_prime_def)
qed

lemma coprime_field_prime:
  assumes "0 < x" and "x < field_prime"
  shows "coprime x field_prime"
proof -
  have "gcd x field_prime \<noteq> field_prime" using assms by (metis gcd_le1_nat leD neq0_conv)
  then have "gcd x field_prime = 1" using field_prime_prime [of "gcd x field_prime"] by simp
  then show ?thesis by (simp add: coprime_iff_gcd_eq_1)
qed

end
