(* ===== verification/Field_Properties.thy ===== *)
theory Field_Properties
  imports Poseidon_Correct FieldPrime
begin

text \<open>
  The properties of the two fields of \<^verbatim>\<open>crates/crypto/src/algebra/field\<close> and of the Poseidon
  hash over the base field. They rest on the interpretations \<open>mf\<close> and \<open>co\<close> of the locale
  \<open>montgomery\<close>; \<open>native m x\<close> is the field element that the limbs \<open>x\<close> represent.
\<close>

lemma field_moduli: "m \<in> {montfelt, curveorder} \<Longrightarrow> montgomery m"
  using mf.montgomery_axioms co.montgomery_axioms by auto

lemma montfelt_one: "reduced montfelt (mod_R montfelt)" "native montfelt (mod_R montfelt) = 1"
  by (simp_all add: mf.native_one mf.reduced_one)

section \<open>Arithmetic\<close>

text \<open>
  C18: on reduced Montgomery residues of either modulus, the run-time addition, subtraction, negation
  and doubling return reduced residues that represent the sum, the difference, the opposite and
  the double modulo the modulus.
\<close>

theorem field_add_sub_neg_double:
  assumes "m \<in> {montfelt, curveorder}" and "reduced m x" and "reduced m y"
  shows "reduced m (mont_add m x y) \<and> reduced m (mont_sub m x y) \<and> reduced m (mont_negate m x) \<and>
    reduced m (mont_double m x) \<and>
    native m (mont_add m x y) = (native m x + native m y) mod lval (mod_P m) \<and>
    native m (mont_sub m x y) = (native m x + (lval (mod_P m) - native m y)) mod lval (mod_P m) \<and>
    native m (mont_negate m x) = (lval (mod_P m) - native m x) mod lval (mod_P m) \<and>
    native m (mont_double m x) = 2 * native m x mod lval (mod_P m)"
  using montgomery.native_add [OF field_moduli] montgomery.native_sub [OF field_moduli]
    montgomery.const_sub_lval(2) [OF field_moduli] montgomery.native_neg [OF field_moduli]
    montgomery.native_double [OF field_moduli] assms
  by simp

theorem field_add_sub_neg_double_witness:
  "reduced montfelt (mont_sub montfelt (mod_R montfelt) (mod_R montfelt)) \<and>
   native montfelt (mont_sub montfelt (mod_R montfelt) (mod_R montfelt)) = 0 \<and>
   native montfelt (mont_double montfelt (mod_R montfelt)) = 2"
  using field_add_sub_neg_double [of montfelt "mod_R montfelt" "mod_R montfelt"]
  by (simp add: montfelt_one montfelt_P field_prime_def)

text \<open>
  C17: the product of two reduced residues of either modulus is a reduced residue that represents the
  product modulo the modulus; the dedicated squaring is the product of an element with itself, and the
  separated (SOS) and the interleaved (CIOS) Montgomery reductions give the same limbs.
\<close>

theorem field_mul_square:
  assumes "m \<in> {montfelt, curveorder}" and "reduced m x" and "reduced m y"
  shows "reduced m (mont_mul m x y) \<and>
    native m (mont_mul m x y) = native m x * native m y mod lval (mod_P m) \<and>
    mont_square m x = mont_mul m x x \<and> const_mul_cios m x y = mont_mul m x y"
  using montgomery.native_mul [OF field_moduli] montgomery.square_eq_mul [OF field_moduli]
    montgomery.cios_eq_mul [OF field_moduli] assms
  by simp

theorem field_mul_square_witness:
  "native montfelt (mont_mul montfelt (mod_R montfelt) (mod_R montfelt)) = 1 \<and>
   mont_square montfelt (mod_R montfelt) = mont_mul montfelt (mod_R montfelt) (mod_R montfelt)"
  using field_mul_square [of montfelt "mod_R montfelt" "mod_R montfelt"]
  by (simp add: montfelt_one montfelt_P field_prime_def)

text \<open>
  C19: the run-time implementations of negation, doubling, addition, subtraction, multiplication,
  squaring and full reduction return the same limbs as the \<^verbatim>\<open>const fn\<close> implementations, on every input.
\<close>

theorem runtime_equals_const:
  "mont_negate m x = const_neg m x \<and> mont_double m x = const_double m x \<and>
   mont_add m x y = const_add m x y \<and> mont_sub m x y = const_sub m x y \<and>
   mont_mul m x y = const_mul m x y \<and> mont_square m x = const_square m x \<and>
   reduce_full m x = const_reduce_full m x"
  by simp

text \<open>
  C16: the binary-Euclid inversion ends within its fuel on every reduced element of the base field: zero
  has no inverse, and every other element has one, reduced, whose product with the element is 1. That
  every nonzero element is invertible rests on the primality of the modulus.
\<close>

theorem montfelt_inverse:
  assumes "reduced montfelt x"
  shows "if native montfelt x = 0 then mont_inverse montfelt x = Inr None
    else \<exists>y. mont_inverse montfelt x = Inr (Some y) \<and> reduced montfelt y \<and>
      native montfelt x * native montfelt y mod field_prime = 1"
proof (cases "lval x = 0")
  case True
  then have "native montfelt x = 0" using mf.native_unique [of 0 x] by simp
  then show ?thesis using mf.inverse_zero [OF True] by simp
next
  case False
  have "lval x < field_prime" using assms by (simp add: reduced_def montfelt_P)
  with False have cop: "coprime (lval x) (lval (mod_P montfelt))"
    by (simp add: montfelt_P coprime_field_prime)
  from mf.inverse_correct [OF assms this] obtain y where y: "mont_inverse montfelt x = Inr (Some y)"
    "reduced montfelt y" "native montfelt x * native montfelt y mod field_prime = 1" by (auto simp: montfelt_P)
  then have "native montfelt x \<noteq> 0" by (metis mod_0 mult_0 zero_neq_one)
  with y show ?thesis by simp
qed

theorem montfelt_inverse_witness:
  "\<exists>y. mont_inverse montfelt (mod_R montfelt) = Inr (Some y) \<and> reduced montfelt y \<and>
     native montfelt y mod field_prime = 1"
  using montfelt_inverse [of "mod_R montfelt"] by (simp add: montfelt_one)

text \<open>
  C20: \<^verbatim>\<open>pow\<close> skips the leading zeros of the exponent and ends for every exponent; its result represents
  the power of the base, for the exponent read as little-endian 64-bit words.
\<close>

theorem field_pow:
  assumes "m \<in> {montfelt, curveorder}" and "reduced m x"
  shows "\<exists>y. mont_pow m x e = Inr y \<and> reduced m y \<and> native m y = native m x ^ words_val e mod lval (mod_P m)"
  using montgomery.pow_correct [OF field_moduli] assms by simp

theorem field_pow_witness:
  "\<exists>y. mont_pow montfelt (mod_R montfelt) [7, 1] = Inr y \<and> native montfelt y = 1"
  using field_pow [of montfelt "mod_R montfelt" "[7, 1]"] by (auto simp: montfelt_one montfelt_P field_prime_def)

section \<open>Conversions\<close>

text \<open>
  C21: the 32 big-endian bytes of an element are those of the number it represents, and reading them back
  gives the element; reading any 32 bytes gives the element of the number they spell, modulo the modulus.
\<close>

theorem field_bytes_round_trip:
  assumes "m \<in> {montfelt, curveorder}" and "reduced m x" and "length bs = 32"
  shows "to_be_bytes m x = be_bytes 32 (native m x) \<and> from_be_bytes m (to_be_bytes m x) = x \<and>
    reduced m (from_be_bytes m bs) \<and> native m (from_be_bytes m bs) = be_val bs mod lval (mod_P m)"
  using montgomery.to_be_bytes_eq [OF field_moduli] montgomery.bytes_round_trip [OF field_moduli]
    montgomery.from_be_bytes_correct [OF field_moduli] assms
  by simp

theorem field_bytes_round_trip_witness:
  "from_be_bytes montfelt (to_be_bytes montfelt (mod_R montfelt)) = mod_R montfelt \<and>
   native montfelt (from_be_bytes montfelt (replicate 32 0)) = 0"
  using field_bytes_round_trip [of montfelt "mod_R montfelt" "replicate 32 0"] by (auto simp: montfelt_one)

text \<open>
  C22: the field element read from at most 64 hexadecimal digits represents their number modulo the field
  prime, and reading the 64 digits displayed for the canonical form of an element gives it back.
\<close>

theorem montfelt_hex:
  assumes "is_hex s" and "length s \<le> 64" and "reduced montfelt x"
  shows "(\<exists>y. from_hex s = Inr y \<and> reduced montfelt y \<and> native montfelt y = hex_string_val s mod field_prime) \<and>
    from_hex (to_hex (reduce_full montfelt x)) = Inr x"
  using from_hex_correct [OF assms(1,2)] hex_round_trip [OF assms(3)] by simp

theorem montfelt_hex_witness:
  "\<exists>y. from_hex [0x31, 0x66] = Inr y \<and> native montfelt y = 31"
  using montfelt_hex [of "[0x31, 0x66]" "mod_R montfelt"]
  by (auto simp: montfelt_one is_hex_def hex_val_def hex_string_val_def field_prime_def)

text \<open>
  C23: the conversion to a scalar accepts exactly the field elements below the curve order, keeps their
  value, and is undone by the conversion back.
\<close>

theorem curve_order_conversion:
  assumes "reduced montfelt x"
  shows "if native montfelt x < curve_order
    then \<exists>y. co_try_from_montfelt x = Inr y \<and> reduced curveorder y \<and>
      native curveorder y = native montfelt x \<and> montfelt_from_curveorder y = x
    else co_try_from_montfelt x = Inl ()"
proof (cases "native montfelt x < curve_order")
  case True
  then obtain y where y: "co_try_from_montfelt x = Inr y" by (simp add: co_try_from_montfelt_correct)
  from co_from_montfelt_native [OF this] co_try_from_round_trip [OF assms this] y True show ?thesis by simp
qed (simp add: co_try_from_montfelt_correct)

theorem curve_order_conversion_witness:
  "\<exists>y. co_try_from_montfelt (mod_R montfelt) = Inr y \<and> native curveorder y = 1"
  using curve_order_conversion [of "mod_R montfelt"] by (auto simp: montfelt_one curve_order_def)

section \<open>Poseidon\<close>



text \<open>
  C25: feeding messages one at a time to the incremental hasher and finishing gives the hash of the whole
  sequence, whatever its length.
\<close>

theorem poseidon_hasher_incremental:
  "poseidon_hasher_finish (foldl (\<lambda>h m. poseidon_hasher_write m h) poseidon_hasher_new msgs)
     = poseidon_hash_many msgs"
  by (rule hasher_hash_many)

end
