(* ===== verification/Felt_Properties.thy ===== *)
theory Felt_Properties
  imports Felt_Correct
begin

text \<open>
  The properties of \<^verbatim>\<open>Felt\<close>, \<^verbatim>\<open>crates/crypto/src/algebra/field/felt.rs\<close>: 32 big-endian bytes below the
  field prime, with their conversions and arithmetic.
\<close>

text \<open>
  C26: a slice is accepted exactly when it has at most 32 bytes and spells a number below the field prime;
  the result is that number in 32 bytes, and every other slice is an overflow error.
\<close>

theorem felt_from_slice:
  "felt_from_be_slice bs = (if length bs \<le> 32 \<and> be_val bs < field_prime
     then Inr (be_bytes 32 (be_val bs)) else Inl OverflowError)"
  by (rule felt_from_be_slice_eq)

text \<open>
  C27: addition and subtraction of felts never panic and are those of the prime field.
\<close>

theorem felt_add_sub:
  assumes "felt_wf x" and "felt_wf y"
  shows "felt_add x y = Inr (be_bytes 32 ((be_val x + be_val y) mod field_prime)) \<and>
    felt_sub x y = Inr (be_bytes 32 ((be_val x + (field_prime - be_val y)) mod field_prime))"
  using assms felt_add_eq [of x y] felt_sub_eq [OF assms] by (simp add: felt_wf_def)

theorem felt_add_sub_witness:
  "felt_add (be_bytes 32 (field_prime - 1)) (be_bytes 32 2) = Inr (be_bytes 32 1) \<and>
   felt_sub (be_bytes 32 (field_prime - 1)) (be_bytes 32 2) = Inr (be_bytes 32 (field_prime - 3))"
proof -
  have lt: "field_prime - 1 < field_prime" "2 < field_prime" "field_prime < 256 ^ 32" by (simp_all add: field_prime_def)
  then have "be_val (be_bytes 32 (field_prime - 1)) = field_prime - 1" "be_val (be_bytes 32 2) = 2"
    by (auto intro!: be_val_be_bytes_small)
  with felt_add_sub [OF felt_wf_be_bytes [OF lt(1)] felt_wf_be_bytes [OF lt(2)]] show ?thesis
    by (simp add: field_prime_def)
qed

text \<open>
  C28: the text \<^verbatim>\<open>0x\<close> followed by at most 64 hexadecimal digits parses to the number they spell, or is an
  overflow error when that number is not below the field prime; the printed form of a felt parses to it.
\<close>

theorem felt_hex_str:
  assumes "is_hex ds" and "length ds \<le> 64" and "felt_wf f"
  shows "from_hex_str (48 # 120 # ds) = (if hex_string_val ds < field_prime
      then Inr (be_bytes 32 (hex_string_val ds)) else Inl HexOverflow) \<and>
    from_hex_str (to_hex_str f) = Inr f"
  using from_hex_str_val [OF assms(1,2)] hex_str_round_trip [OF assms(3)] by simp

theorem felt_hex_str_witness:
  "from_hex_str [48, 120, 49, 102] = Inr (be_bytes 32 31) \<and>
   from_hex_str (to_hex_str (be_bytes 32 31)) = Inr (be_bytes 32 31)"
  using felt_hex_str [of "[49, 102]" "be_bytes 32 31"] felt_wf_be_bytes [of 31]
  by (simp add: is_hex_def hex_val_def hex_string_val_def field_prime_def)

text \<open>
  C29: a digit string that is not hexadecimal is rejected with one of its offending characters, and one of
  more than 64 characters with its length, whatever the characters.
\<close>

theorem felt_hex_str_errors:
  assumes "\<not> is_hex ds" and "length ds \<le> 64" and "64 < length es"
  shows "(\<exists>c. c \<in> set ds \<and> hex_val c = None \<and> from_hex_str (48 # 120 # ds) = Inl (InvalidNibble c)) \<and>
    from_hex_str (48 # 120 # es) = Inl (InvalidLength 64 (length es))"
  using from_hex_str_invalid [OF assms(1,2)] assms(3) by (auto simp: from_hex_str_def hex_payload_len_eq)

theorem felt_hex_str_errors_witness:
  "from_hex_str [48, 120, 122] = Inl (InvalidNibble 122)"
  using felt_hex_str_errors [of "[122]" "replicate 65 48"] by (simp add: is_hex_def hex_val_def)

text \<open>
  C30: the bit view of a felt below two to the 251 has 251 bits, reads as the felt, and converts back to it;
  any path of at most 251 bits converts to a felt whose bit view is the path with leading zeros.
\<close>

theorem felt_bits:
  assumes "felt_wf f" and "be_val f < 2 ^ 251" and "length bits \<le> 251"
  shows "length (view_bits f) = 251 \<and> bits_val (view_bits f) = be_val f \<and> felt_from_bits (view_bits f) = Inr f \<and>
    (\<exists>g. felt_from_bits bits = Inr g \<and> felt_wf g \<and> be_val g = bits_val bits \<and>
      view_bits g = replicate (251 - length bits) False @ bits)"
proof -
  have len: "length f = 32" and small: "\<not> has_more_than_251_bits f"
    using assms(1,2) by (auto simp: felt_wf_def has_more_than_251_bits_iff)
  from view_bits_val [OF this] felt_bits_round_trip [OF assms(1) small] felt_from_bits_eq [OF assms(3)]
  show ?thesis by simp
qed

theorem felt_bits_witness:
  "felt_from_bits (view_bits (be_bytes 32 31)) = Inr (be_bytes 32 31)"
  using felt_bits [of "be_bytes 32 31" "[]"] felt_wf_be_bytes [of 31] be_val_be_bytes_small [of 31 32]
  by (simp add: field_prime_def)

text \<open>
  C31: narrowing a felt to 128 or 64 bits succeeds exactly when its value fits, and keeps the value.
\<close>

theorem felt_try_into:
  assumes "length f = 32"
  shows "felt_try_into_u128 f = (if be_val f < 2 ^ 128 then Inr (of_nat (be_val f)) else Inl OverflowError) \<and>
    felt_try_into_u64 f = (if be_val f < 2 ^ 64 then Inr (of_nat (be_val f)) else Inl OverflowError)"
  using felt_try_into_u128_eq [OF assms] felt_try_into_u64_eq [OF assms] by simp

theorem felt_try_into_witness:
  "felt_try_into_u64 (be_bytes 32 (2 ^ 64)) = Inl OverflowError \<and> felt_try_into_u128 (be_bytes 32 (2 ^ 64)) = Inr (2 ^ 64)"
  using felt_try_into [of "be_bytes 32 (2 ^ 64)"] be_val_be_bytes_small [of "2 ^ 64" 32] by simp

text \<open>
  C32: a felt converts to a Montgomery residue of the same value, and back to itself; a residue converts to a
  well-formed felt and back to itself.
\<close>

theorem felt_montfelt_round_trips:
  assumes "felt_wf f" and "reduced montfelt x"
  shows "felt_from_montfelt (montfelt_from_felt f) = Inr f \<and> native montfelt (montfelt_from_felt f) = be_val f \<and>
    (\<exists>g. felt_from_montfelt x = Inr g \<and> felt_wf g \<and> montfelt_from_felt g = x)"
proof -
  have "felt_from_montfelt x = Inr (be_bytes 32 (native montfelt x))" by (rule felt_from_montfelt_eq)
  moreover have "felt_wf (be_bytes 32 (native montfelt x))"
    using mf.native_less [of x] by (intro felt_wf_be_bytes) (simp add: montfelt_P)
  moreover have "native montfelt (montfelt_from_felt f) = be_val f"
    using montfelt_from_felt_native [of f] assms(1) by (simp add: felt_wf_def)
  ultimately show ?thesis
    using felt_montfelt_round_trip [OF assms(1)] montfelt_felt_round_trip [OF assms(2)] by blast
qed

theorem felt_montfelt_round_trips_witness:
  "felt_from_montfelt (montfelt_from_felt (be_bytes 32 31)) = Inr (be_bytes 32 31)"
  using felt_montfelt_round_trips [of "be_bytes 32 31" "mod_R montfelt"] felt_wf_be_bytes [of 31] mf.reduced_one
  by (simp add: field_prime_def)

end
