(* ===== verification/TrieStorage.thy ===== *)
theory TrieStorage
  imports MerkleCommit
begin

text \<open>
  The trie tables of the database, \<^verbatim>\<open>crates/storage/src/connection/trie.rs\<close>. A table of trie
  nodes is a map from the primary key to its columns; a table without a primary key is the list of
  its rows. The serialisation of \<^verbatim>\<open>bincode\<close>, the unused bits of a \<^verbatim>\<open>BitVec\<close> and the primary key
  that SQLite assigns are not code of the repository: they are arguments, in the record \<open>engine\<close>.
\<close>

section \<open>Indices and block numbers\<close>

definition i64_max :: u64 where
  "i64_max = 0x7FFFFFFFFFFFFFFF"

definition trie_storage_index_new :: "u64 \<Rightarrow> trie_index option" where
  "trie_storage_index_new val = (if val \<le> i64_max then Some val else None)"

type_synonym block_number = u64

definition block_checked_sub :: "block_number \<Rightarrow> u64 \<Rightarrow> block_number option" where
  "block_checked_sub b n = (if n \<le> b then Some (b - n) else None)"

datatype trie_prune_mode = Archive | Prune u64

datatype root_index_update = Unchanged | Updated trie_index | TrieEmpty

section \<open>Serialised nodes\<close>

datatype stored_serde =
    SerdeBinary u64 u64
  | SerdeEdge u64 "u8 list"
  | SerdeLeafBinary
  | SerdeLeafEdge "u8 list"

record trie_row =
  row_hash :: "u8 list"
  row_data :: "u8 list"

record engine =
  encode_serde :: "stored_serde \<Rightarrow> u8 list"
  decode_serde :: "u8 list \<Rightarrow> stored_serde option"
  encode_indices :: "u64 list \<Rightarrow> u8 list"
  decode_indices :: "u8 list \<Rightarrow> u64 list option"
  dead_bits :: "trie_path \<Rightarrow> bool list"
  new_rowid :: "(u64 \<rightharpoonup> trie_row) \<Rightarrow> u64 option"

text \<open>
  \<^verbatim>\<open>force_align\<close> and \<^verbatim>\<open>into_vec\<close>: whole bytes, the bits after the last one of the path being
  whatever the vector's memory holds.
\<close>

definition path_into_vec :: "engine \<Rightarrow> trie_path \<Rightarrow> u8 list" where
  "path_into_vec e path =
     (let n = (length path + 7) div 8; spare = 8 * n - length path
      in bytes_of_bits n (path @ take spare (dead_bits e path @ replicate spare False)))"

definition encode_path :: "engine \<Rightarrow> trie_path \<Rightarrow> u8 list" where
  "encode_path e path = path_into_vec e path @ [of_nat (length path)]"

text \<open>\<^verbatim>\<open>pop\<close>, \<^verbatim>\<open>from_vec\<close> and \<^verbatim>\<open>resize\<close>.\<close>

definition decode_path :: "u8 list \<Rightarrow> trie_path outcome" where
  "decode_path bs =
     (if bs = [] then Inl (Err ''Edge node's path length is missing'')
      else let n = unat (last bs) in Inr (take n (msb0_bits (butlast bs) @ replicate n False)))"

definition stored_encode :: "engine \<Rightarrow> stored_node \<Rightarrow> u8 list outcome" where
  "stored_encode e node =
     (let helper = (case node of
          StoredBinary left right \<Rightarrow> SerdeBinary left right
        | StoredEdge child path \<Rightarrow> SerdeEdge child (encode_path e path)
        | StoredLeafBinary \<Rightarrow> SerdeLeafBinary
        | StoredLeafEdge path \<Rightarrow> SerdeLeafEdge (encode_path e path));
          bytes = encode_serde e helper
      in if length bytes \<le> 256 then Inr bytes else Inl (Err ''Encoding node''))"

definition decode_index :: "u64 \<Rightarrow> trie_index outcome" where
  "decode_index x = context_some ''TrieStorageIndex out of range'' (trie_storage_index_new x)"

definition stored_decode :: "engine \<Rightarrow> u8 list \<Rightarrow> stored_node outcome" where
  "stored_decode e data =
     bind_outcome (context_some ''Decoding node'' (decode_serde e data)) (\<lambda>helper. case helper of
         SerdeBinary left right \<Rightarrow>
           bind_outcome (decode_index left) (\<lambda>left.
           bind_outcome (decode_index right) (\<lambda>right. Inr (StoredBinary left right)))
       | SerdeEdge child path \<Rightarrow>
           bind_outcome (decode_index child) (\<lambda>child.
           bind_outcome (decode_path path) (\<lambda>path. Inr (StoredEdge child path)))
       | SerdeLeafBinary \<Rightarrow> Inr StoredLeafBinary
       | SerdeLeafEdge path \<Rightarrow>
           bind_outcome (decode_path path) (\<lambda>path. Inr (StoredLeafEdge path)))"

definition ref_stored :: "string \<Rightarrow> (nat \<rightharpoonup> trie_index) \<Rightarrow> node_ref \<Rightarrow> trie_index outcome" where
  "ref_stored msg indices r = (case r of
       StorageIndex i \<Rightarrow> Inr i
     | Index idx \<Rightarrow> context_some msg (indices idx))"

definition as_stored :: "(nat \<rightharpoonup> trie_index) \<Rightarrow> trie_node_added \<Rightarrow> stored_node outcome" where
  "as_stored indices node = (case node of
       AddedBinary left right \<Rightarrow>
         bind_outcome (ref_stored ''Left child index missing'' indices left) (\<lambda>left.
         bind_outcome (ref_stored ''Right child index missing'' indices right) (\<lambda>right.
           Inr (StoredBinary left right)))
     | AddedEdge child path \<Rightarrow>
         bind_outcome (ref_stored ''Child index missing'' indices child) (\<lambda>child.
           Inr (StoredEdge child path))
     | AddedLeafEdge path \<Rightarrow> Inr (StoredLeafEdge path)
     | AddedLeafBinary \<Rightarrow> Inr StoredLeafBinary)"

section \<open>Tables\<close>

text \<open>One of \<^verbatim>\<open>trie_class\<close>, \<^verbatim>\<open>trie_contracts\<close> and \<^verbatim>\<open>trie_storage\<close>, with its table of removals.\<close>

record trie_table =
  rows :: "u64 \<rightharpoonup> trie_row"
  removals :: "(block_number \<times> u8 list) list"

definition tx_trie_node :: "engine \<Rightarrow> trie_table \<Rightarrow> trie_index \<Rightarrow> stored_node option outcome" where
  "tx_trie_node e tbl index = (case rows tbl index of
       None \<Rightarrow> Inr None
     | Some row \<Rightarrow> bind_outcome (stored_decode e (row_data row)) (\<lambda>node. Inr (Some node)))"

definition row_get_felt :: "u8 list \<Rightarrow> felt outcome" where
  "row_get_felt blob = (case felt_from_be_slice blob of
       Inl _ \<Rightarrow> Inl (Err ''FromSqlError'')
     | Inr felt \<Rightarrow> Inr felt)"

definition tx_trie_node_hash :: "trie_table \<Rightarrow> trie_index \<Rightarrow> felt option outcome" where
  "tx_trie_node_hash tbl index = (case rows tbl index of
       None \<Rightarrow> Inr None
     | Some row \<Rightarrow> bind_outcome (row_get_felt (row_hash row)) (\<lambda>hash. Inr (Some hash)))"

definition remove_trie :: "engine \<Rightarrow> trie_index list \<Rightarrow> block_number \<Rightarrow> trie_table \<Rightarrow> trie_table" where
  "remove_trie e removed block tbl =
     (if removed \<noteq> [] then tbl\<lparr> removals := removals tbl @ [(block, encode_indices e removed)] \<rparr> else tbl)"

definition coalesce_removed_trie_nodes :: "block_number \<Rightarrow> trie_table \<Rightarrow> trie_table" where
  "coalesce_removed_trie_nodes target tbl =
     tbl\<lparr> removals := map (\<lambda>(n, is). (if target < n then target else n, is)) (removals tbl) \<rparr>"

definition try_into_sql_int :: "u64 \<Rightarrow> u64 outcome" where
  "try_into_sql_int x = (if x \<le> i64_max then Inr x else Inl (Err ''Trie node index exceeds i64::MAX''))"

fun delete_indices :: "u64 list \<Rightarrow> (u64 \<rightharpoonup> trie_row) \<Rightarrow> (u64 \<rightharpoonup> trie_row) outcome" where
  "delete_indices [] rs = Inr rs"
| "delete_indices (idx # is) rs =
     bind_outcome (try_into_sql_int idx) (\<lambda>idx. delete_indices is (rs(idx := None)))"

fun delete_marked :: "engine \<Rightarrow> (block_number \<times> u8 list) list \<Rightarrow> (u64 \<rightharpoonup> trie_row) \<Rightarrow> (u64 \<rightharpoonup> trie_row) outcome" where
  "delete_marked e [] rs = Inr rs"
| "delete_marked e ((n, blob) # ms) rs =
     bind_outcome (context_some ''Decoding indices'' (decode_indices e blob)) (\<lambda>indices.
     bind_outcome (delete_indices indices rs) (\<lambda>rs. delete_marked e ms rs))"

definition prune_trie :: "engine \<Rightarrow> block_number \<Rightarrow> u64 \<Rightarrow> trie_table \<Rightarrow> trie_table outcome" where
  "prune_trie e block num_blocks_kept tbl = (case block_checked_sub block num_blocks_kept of
       None \<Rightarrow> Inr tbl
     | Some before_block \<Rightarrow>
         bind_outcome (delete_marked e (filter (\<lambda>(n, _). n < before_block) (removals tbl)) (rows tbl)) (\<lambda>rs.
           Inr (tbl\<lparr> rows := rs, removals := filter (\<lambda>(n, _). \<not> n < before_block) (removals tbl) \<rparr>)))"

section \<open>Inserting an update\<close>

text \<open>
  The nodes to insert, the root first. The head of the list of references is the top of the
  stack \<^verbatim>\<open>to_process\<close>.
\<close>

fun collect_to_insert ::
  "nat \<Rightarrow> (felt \<times> trie_node_added) list \<Rightarrow> node_ref list \<Rightarrow> nat list \<Rightarrow> nat list outcome" where
  "collect_to_insert 0 added to_process to_insert = Inl OutOfFuel"
| "collect_to_insert (Suc fuel) added [] to_insert = Inr to_insert"
| "collect_to_insert (Suc fuel) added (StorageIndex i # to_process) to_insert =
     collect_to_insert fuel added to_process to_insert"
| "collect_to_insert (Suc fuel) added (Index idx # to_process) to_insert =
     (if \<not> idx < length added then Inl (Err ''Node index missing'')
      else let to_insert = to_insert @ [idx] in case snd (added ! idx) of
          AddedBinary left right \<Rightarrow> collect_to_insert fuel added (right # left # to_process) to_insert
        | AddedEdge child path \<Rightarrow> collect_to_insert fuel added (child # to_process) to_insert
        | _ \<Rightarrow> collect_to_insert fuel added to_process to_insert)"

fun insert_nodes ::
  "engine \<Rightarrow> (felt \<times> trie_node_added) list \<Rightarrow> nat list \<Rightarrow> (nat \<rightharpoonup> trie_index) \<Rightarrow> (u64 \<rightharpoonup> trie_row)
     \<Rightarrow> ((nat \<rightharpoonup> trie_index) \<times> (u64 \<rightharpoonup> trie_row)) outcome" where
  "insert_nodes e added [] indices rs = Inr (indices, rs)"
| "insert_nodes e added (idx # is) indices rs =
     (if \<not> idx < length added then Inl (Err ''Node index missing'')
      else let (hash, node) = added ! idx in
        bind_outcome (as_stored indices node) (\<lambda>node.
        bind_outcome (stored_encode e node) (\<lambda>data.
        bind_outcome (context_some ''Inserting node'' (new_rowid e rs)) (\<lambda>rowid.
        bind_outcome (expect_some ''TrieStorageIndex is non-negative and within i64::MAX'' (trie_storage_index_new rowid)) (\<lambda>storage_idx.
          insert_nodes e added is (indices(idx \<mapsto> storage_idx))
            (rs(rowid \<mapsto> \<lparr> row_hash = hash, row_data = data \<rparr>)))))))"

text \<open>
  Every node is pushed by at most one other: two references for each node and one for the root
  are enough fuel for an update that comes from a commit.
\<close>

definition insert_added ::
  "engine \<Rightarrow> trie_update \<Rightarrow> trie_table \<Rightarrow> (root_index_update \<times> trie_table) outcome" where
  "insert_added e update tbl =
     (if nodes_added update = [] then
        (if update_nodes_removed update \<noteq> [] \<and> felt_is_zero (root_commitment update)
         then Inr (TrieEmpty, tbl) else Inr (Unchanged, tbl))
      else
        let added = nodes_added update; root_idx = length added - 1 in
        bind_outcome (collect_to_insert (2 * length added + 2) added [Index root_idx] []) (\<lambda>to_insert.
        bind_outcome (insert_nodes e added (rev to_insert) Map.empty (rows tbl)) (\<lambda>(indices, rs).
        bind_outcome (expect_some ''Root index must exist as we just inserted it'' (indices root_idx)) (\<lambda>root_index.
          Inr (Updated root_index, tbl\<lparr> rows := rs \<rparr>)))))"

definition insert_trie ::
  "engine \<Rightarrow> trie_prune_mode \<Rightarrow> trie_update \<Rightarrow> block_number \<Rightarrow> trie_table
     \<Rightarrow> (root_index_update \<times> trie_table) outcome" where
  "insert_trie e mode update block tbl =
     bind_outcome
       (case mode of
          Archive \<Rightarrow> Inr tbl
        | Prune num_blocks_kept \<Rightarrow>
            bind_outcome (prune_trie e block num_blocks_kept tbl) (\<lambda>tbl.
              Inr (remove_trie e (update_nodes_removed update) block tbl)))
       (insert_added e update)"

section \<open>Roots\<close>

text \<open>
  A table of roots: the block number is its primary key and the root index may be null. The
  tables \<^verbatim>\<open>contract_roots\<close> and \<^verbatim>\<open>contract_state_hashes\<close> have one such table for each contract.
\<close>

type_synonym 'v by_block = "(block_number \<times> 'v) list"

fun latest_row :: "'v by_block \<Rightarrow> (block_number \<times> 'v) option" where
  "latest_row [] = None"
| "latest_row (r # rs) = (case latest_row rs of
       None \<Rightarrow> Some r
     | Some s \<Rightarrow> if fst r \<le> fst s then Some s else Some r)"

text \<open>\<^verbatim>\<open>WHERE block_number <= ? ORDER BY block_number DESC LIMIT 1\<close>.\<close>

definition latest_at :: "block_number \<Rightarrow> 'v by_block \<Rightarrow> (block_number \<times> 'v) option" where
  "latest_at block tbl = latest_row (filter (\<lambda>(n, _). n \<le> block) tbl)"

definition insert_or_replace :: "block_number \<Rightarrow> 'v \<Rightarrow> 'v by_block \<Rightarrow> 'v by_block" where
  "insert_or_replace block v tbl = filter (\<lambda>(n, _). n \<noteq> block) tbl @ [(block, v)]"

definition root_index_at :: "block_number \<Rightarrow> trie_index option by_block \<Rightarrow> trie_index option" where
  "root_index_at block tbl = (case latest_at block tbl of None \<Rightarrow> None | Some (_, idx) \<Rightarrow> idx)"

definition root_exists :: "block_number \<Rightarrow> 'v by_block \<Rightarrow> bool" where
  "root_exists block tbl = list_ex (\<lambda>(n, _). n = block) tbl"

text \<open>\<^verbatim>\<open>SELECT hash FROM trie WHERE idx = (SELECT root_index ...)\<close>.\<close>

definition root_hash_at ::
  "block_number \<Rightarrow> trie_index option by_block \<Rightarrow> trie_table \<Rightarrow> felt option outcome" where
  "root_hash_at block roots tbl = (case root_index_at block roots of
       None \<Rightarrow> Inr None
     | Some idx \<Rightarrow> tx_trie_node_hash tbl idx)"

definition delete_roots :: "block_number \<Rightarrow> 'v by_block \<Rightarrow> 'v by_block" where
  "delete_roots before_block tbl = (case latest_at before_block tbl of
       None \<Rightarrow> tbl
     | Some (last_block, _) \<Rightarrow> filter (\<lambda>(n, _). \<not> n < last_block) tbl)"

definition insert_by_block ::
  "trie_prune_mode \<Rightarrow> block_number \<Rightarrow> 'v \<Rightarrow> 'v by_block \<Rightarrow> 'v by_block" where
  "insert_by_block mode block v tbl =
     (let tbl = insert_or_replace block v tbl in case mode of
        Archive \<Rightarrow> tbl
      | Prune num_blocks_kept \<Rightarrow> (case block_checked_sub block num_blocks_kept of
            None \<Rightarrow> tbl
          | Some before_block \<Rightarrow> delete_roots before_block tbl))"

text \<open>
  \<^verbatim>\<open>contract_state_hashes\<close> has no unique key: \<^verbatim>\<open>INSERT OR REPLACE\<close> adds a row even when the block has one.
\<close>

definition insert_contract_state_hash ::
  "trie_prune_mode \<Rightarrow> block_number \<Rightarrow> felt \<Rightarrow> felt by_block \<Rightarrow> felt by_block" where
  "insert_contract_state_hash mode block state_hash tbl =
     (let tbl = tbl @ [(block, state_hash)] in case mode of
        Archive \<Rightarrow> tbl
      | Prune num_blocks_kept \<Rightarrow> (case block_checked_sub block num_blocks_kept of
            None \<Rightarrow> tbl
          | Some before_block \<Rightarrow> delete_roots before_block tbl))"

definition insert_root ::
  "trie_prune_mode \<Rightarrow> block_number \<Rightarrow> root_index_update \<Rightarrow> trie_index option by_block
     \<Rightarrow> trie_index option by_block" where
  "insert_root mode block update tbl = (case update of
       Unchanged \<Rightarrow> tbl
     | Updated idx \<Rightarrow> insert_by_block mode block (Some idx) tbl
     | TrieEmpty \<Rightarrow> insert_by_block mode block None tbl)"

end
