(* ===== verification/Header.thy ===== *)
theory Header
  imports Felt TrieStorage
begin

text \<open>
  Block numbers and headers, \<^verbatim>\<open>crates/common/src/lib.rs\<close> and \<^verbatim>\<open>crates/common/src/header.rs\<close>, and the table
  \<^verbatim>\<open>block_headers\<close> with the methods of \<^verbatim>\<open>Transaction\<close> that use only it
  (\<^verbatim>\<open>crates/storage/src/connection/block.rs\<close>). The table has unique block numbers and unique hashes.
\<close>

section \<open>Block numbers\<close>

definition block_new :: "u64 \<Rightarrow> block_number option" where
  "block_new val = (if val \<le> i64_max then Some val else None)"

definition block_parent :: "block_number \<Rightarrow> block_number option" where
  "block_parent b = (if b = 0 then None else Some (b - 1))"

definition block_checked_add :: "block_number \<Rightarrow> u64 \<Rightarrow> block_number option" where
  "block_checked_add b rhs = (if unat b + unat rhs < 2 ^ 64 then block_new (b + rhs) else None)"

text \<open>\<^verbatim>\<open>Add\<close> and \<^verbatim>\<open>Sub\<close> panic when the sum or difference of the words overflows.\<close>

definition block_add :: "block_number \<Rightarrow> u64 \<Rightarrow> block_number outcome" where
  "block_add b rhs = (if unat b + unat rhs < 2 ^ 64 then Inr (b + rhs) else Inl (Panic ''attempt to add with overflow''))"

definition block_sub :: "block_number \<Rightarrow> u64 \<Rightarrow> block_number outcome" where
  "block_sub b rhs = (if rhs \<le> b then Inr (b - rhs) else Inl (Panic ''attempt to subtract with overflow''))"

datatype block_id = BlockNumber block_number | BlockHash felt | BlockLatest

section \<open>Headers\<close>

text \<open>A Starknet version is compared by its four parts.\<close>

type_synonym starknet_version = "u8 \<times> u8 \<times> u8 \<times> u8"

definition version_less :: "starknet_version \<Rightarrow> starknet_version \<Rightarrow> bool" where
  "version_less v w = (case (v, w) of ((a, b, c, d), (a', b', c', d')) \<Rightarrow>
     a < a' \<or> a = a' \<and> (b < b' \<or> b = b' \<and> (c < c' \<or> c = c' \<and> d < d')))"

datatype l1_da_mode = Calldata | Blob

record block_header =
  hd_hash :: felt
  hd_parent_hash :: felt
  hd_number :: block_number
  hd_timestamp :: u64
  hd_eth_l1_gas_price :: u128
  hd_strk_l1_gas_price :: u128
  hd_eth_l1_data_gas_price :: u128
  hd_strk_l1_data_gas_price :: u128
  hd_eth_l2_gas_price :: u128
  hd_strk_l2_gas_price :: u128
  hd_sequencer_address :: felt
  hd_starknet_version :: starknet_version
  hd_event_commitment :: felt
  hd_state_commitment :: felt
  hd_transaction_commitment :: felt
  hd_transaction_count :: u64
  hd_event_count :: u64
  hd_l1_da_mode :: l1_da_mode
  hd_receipt_commitment :: felt
  hd_state_diff_commitment :: felt
  hd_state_diff_length :: u64

section \<open>The table of headers\<close>

type_synonym header_table = "block_header list"

text \<open>\<^verbatim>\<open>ORDER BY number DESC LIMIT 1\<close> and \<^verbatim>\<open>ASC\<close>.\<close>

definition header_latest :: "header_table \<Rightarrow> block_header option" where
  "header_latest hs = map_option snd (latest_row (map (\<lambda>h. (hd_number h, h)) hs))"

fun header_earliest :: "header_table \<Rightarrow> block_header option" where
  "header_earliest [] = None"
| "header_earliest (h # hs) = (case header_earliest hs of
       None \<Rightarrow> Some h
     | Some h' \<Rightarrow> if hd_number h \<le> hd_number h' then Some h else Some h')"

text \<open>The row of a block: \<^verbatim>\<open>SELECT * FROM block_headers\<close> with the condition of the block id.\<close>

definition header_at :: "header_table \<Rightarrow> block_id \<Rightarrow> block_header option" where
  "header_at hs block = (case block of
       BlockLatest \<Rightarrow> header_latest hs
     | BlockNumber number \<Rightarrow> find (\<lambda>h. hd_number h = number) hs
     | BlockHash hash \<Rightarrow> find (\<lambda>h. hd_hash h = hash) hs)"

text \<open>A count that does not fit a signed 64-bit column, a known number or a known hash is an error.\<close>

definition insert_header :: "block_header \<Rightarrow> header_table \<Rightarrow> header_table outcome" where
  "insert_header header hs =
     (if \<not> (hd_transaction_count header \<le> i64_max \<and> hd_event_count header \<le> i64_max \<and> hd_state_diff_length header \<le> i64_max)
      then Inl (Err ''out of range integral type conversion attempted'')
      else if list_ex (\<lambda>h. hd_number h = hd_number header \<or> hd_hash h = hd_hash header) hs
      then Inl (Err ''Inserting block header'')
      else Inr (hs @ [header]))"

definition header_next_ancestor :: "block_number \<Rightarrow> header_table \<Rightarrow> (block_number \<times> felt) option" where
  "header_next_ancestor target hs = map_option (\<lambda>h. (hd_number h, hd_hash h))
     (header_latest (filter (\<lambda>h. hd_number h < target) hs))"

definition header_next_ancestor_without_parent :: "block_number \<Rightarrow> header_table \<Rightarrow> (block_number \<times> felt) option" where
  "header_next_ancestor_without_parent target hs = map_option (\<lambda>h. (hd_number h, hd_hash h))
     (header_latest (filter (\<lambda>t1. hd_number t1 \<le> target \<and> 0 < hd_number t1 \<and>
        \<not> list_ex (\<lambda>t2. hd_number t1 - 1 = hd_number t2) hs) hs))"

definition header_block_id :: "header_table \<Rightarrow> block_id \<Rightarrow> (block_number \<times> felt) option" where
  "header_block_id hs block = map_option (\<lambda>h. (hd_number h, hd_hash h)) (header_at hs block)"

definition header_block_hash :: "header_table \<Rightarrow> block_id \<Rightarrow> felt option" where
  "header_block_hash hs block = map_option hd_hash (header_at hs block)"

definition header_block_number :: "header_table \<Rightarrow> block_id \<Rightarrow> block_number option" where
  "header_block_number hs block = map_option hd_number (header_at hs block)"

definition earliest_block_number :: "header_table \<Rightarrow> block_number option" where
  "earliest_block_number hs = map_option hd_number (header_earliest hs)"

definition header_block_exists :: "header_table \<Rightarrow> block_id \<Rightarrow> bool" where
  "header_block_exists hs block = (case block of
       BlockLatest \<Rightarrow> hs \<noteq> []
     | BlockNumber number \<Rightarrow> list_ex (\<lambda>h. hd_number h = number) hs
     | BlockHash hash \<Rightarrow> list_ex (\<lambda>h. hd_hash h = hash) hs)"

definition header_block_version :: "header_table \<Rightarrow> block_number \<Rightarrow> starknet_version option" where
  "header_block_version hs block = map_option hd_starknet_version (find (\<lambda>h. hd_number h = block) hs)"

definition header_state_commitment :: "header_table \<Rightarrow> block_id \<Rightarrow> felt option" where
  "header_state_commitment hs block = map_option hd_state_commitment (header_at hs block)"

definition headers_ascending :: "header_table \<Rightarrow> header_table" where
  "headers_ascending hs = sort_key hd_number hs"

definition header_block_range :: "header_table \<Rightarrow> block_number \<Rightarrow> block_number \<Rightarrow> header_table" where
  "header_block_range hs fromb to = headers_ascending (filter (\<lambda>h. fromb \<le> hd_number h \<and> hd_number h \<le> to) hs)"

definition header_event_counts :: "header_table \<Rightarrow> block_number \<Rightarrow> nat \<Rightarrow> u64 list" where
  "header_event_counts hs block max_len =
     map hd_event_count (take max_len (headers_ascending (filter (\<lambda>h. block \<le> hd_number h) hs)))"

definition header_transaction_counts :: "header_table \<Rightarrow> block_number \<Rightarrow> nat \<Rightarrow> u64 list" where
  "header_transaction_counts hs block max_len =
     map hd_transaction_count (take max_len (headers_ascending (filter (\<lambda>h. block \<le> hd_number h) hs)))"

definition header_state_diff_commitment :: "header_table \<Rightarrow> block_number \<Rightarrow> felt option" where
  "header_state_diff_commitment hs block = map_option hd_state_diff_commitment (find (\<lambda>h. hd_number h = block) hs)"

definition header_transaction_commitment :: "header_table \<Rightarrow> block_number \<Rightarrow> felt option" where
  "header_transaction_commitment hs block = map_option hd_transaction_commitment (find (\<lambda>h. hd_number h = block) hs)"

definition block_is_l1_accepted :: "block_number option \<Rightarrow> header_table \<Rightarrow> block_id \<Rightarrow> bool" where
  "block_is_l1_accepted l1_l2 hs block = (case l1_l2 of
       None \<Rightarrow> False
     | Some l1_l2 \<Rightarrow> (case header_block_id hs block of
           None \<Rightarrow> False
         | Some (number, _) \<Rightarrow> number \<le> l1_l2))"

end
