(* ===== verification/StateTables.thy ===== *)
theory StateTables
  imports Header Poseidon
begin

text \<open>
  The tables of the database that hold the Starknet state, and the methods of
  \<^verbatim>\<open>Transaction\<close> (\<^verbatim>\<open>crates/storage/src/connection/\<close>) that read and write them. A column that a query
  selects by is an argument of the table: the rows of \<^verbatim>\<open>storage_updates\<close> for a contract and a key
  are a list of values by block. The tables of interned addresses have no content of their own.
\<close>

section \<open>The state update of a block\<close>

datatype contract_class_update = Deploy felt | Replace felt

definition update_class_hash :: "contract_class_update \<Rightarrow> felt" where
  "update_class_hash u = (case u of Deploy x \<Rightarrow> x | Replace x \<Rightarrow> x)"

text \<open>A hash map is the list of its entries, in the order of iteration.\<close>

record contract_update =
  upd_storage :: "(felt \<times> felt) list"
  upd_class :: "contract_class_update option"
  upd_nonce :: "felt option"

record state_update =
  upd_contracts :: "(felt \<times> contract_update) list"
  upd_system_contracts :: "(felt \<times> (felt \<times> felt) list) list"
  declared_cairo_classes :: "felt list"
  declared_sierra_classes :: "(felt \<times> felt) list"
  migrated_compiled_classes :: "(felt \<times> felt) list"

section \<open>Tables\<close>

record state_db =
  trie_class :: trie_table
  trie_storage :: trie_table
  trie_contracts :: trie_table
  class_roots :: "trie_index option by_block"
  storage_roots :: "trie_index option by_block"
  contract_roots :: "felt \<Rightarrow> trie_index option by_block"
  contract_state_hashes :: "felt \<Rightarrow> felt by_block"
  storage_updates :: "felt \<Rightarrow> felt \<Rightarrow> felt by_block"
  nonce_updates :: "felt \<Rightarrow> felt by_block"
  contract_updates :: "felt \<Rightarrow> felt by_block"
  casm_class_hashes :: "felt \<Rightarrow> felt by_block"
  class_commitment_leaves :: "(block_number \<times> felt \<times> felt) list"
  class_definitions :: "felt \<rightharpoonup> block_number option"
  redeclared_classes :: "(felt \<times> block_number) list"
  block_headers :: header_table

section \<open>The trie tables\<close>

definition tx_class_root_index :: "block_number \<Rightarrow> state_db \<Rightarrow> trie_index option" where
  "tx_class_root_index block db = root_index_at block (class_roots db)"

definition tx_class_root :: "block_number \<Rightarrow> state_db \<Rightarrow> felt option outcome" where
  "tx_class_root block db = root_hash_at block (class_roots db) (trie_class db)"

definition tx_class_root_exists :: "block_number \<Rightarrow> state_db \<Rightarrow> bool" where
  "tx_class_root_exists block db = root_exists block (class_roots db)"

definition tx_storage_root_index :: "block_number \<Rightarrow> state_db \<Rightarrow> trie_index option" where
  "tx_storage_root_index block db = root_index_at block (storage_roots db)"

definition tx_storage_root_exists :: "block_number \<Rightarrow> state_db \<Rightarrow> bool" where
  "tx_storage_root_exists block db = root_exists block (storage_roots db)"

definition tx_contract_root_index :: "block_number \<Rightarrow> felt \<Rightarrow> state_db \<Rightarrow> trie_index option" where
  "tx_contract_root_index block contract db = root_index_at block (contract_roots db contract)"

definition tx_contract_root :: "block_number \<Rightarrow> felt \<Rightarrow> state_db \<Rightarrow> felt option outcome" where
  "tx_contract_root block contract db = root_hash_at block (contract_roots db contract) (trie_contracts db)"

definition tx_insert_class_root ::
  "trie_prune_mode \<Rightarrow> block_number \<Rightarrow> root_index_update \<Rightarrow> state_db \<Rightarrow> state_db" where
  "tx_insert_class_root mode block upd db = db\<lparr> class_roots := insert_root mode block upd (class_roots db) \<rparr>"

definition tx_insert_storage_root ::
  "trie_prune_mode \<Rightarrow> block_number \<Rightarrow> root_index_update \<Rightarrow> state_db \<Rightarrow> state_db" where
  "tx_insert_storage_root mode block upd db = db\<lparr> storage_roots := insert_root mode block upd (storage_roots db) \<rparr>"

definition tx_insert_contract_root ::
  "trie_prune_mode \<Rightarrow> block_number \<Rightarrow> felt \<Rightarrow> root_index_update \<Rightarrow> state_db \<Rightarrow> state_db" where
  "tx_insert_contract_root mode block contract upd db =
     db\<lparr> contract_roots := (contract_roots db)(contract := insert_root mode block upd (contract_roots db contract)) \<rparr>"

definition tx_insert_contract_state_hash ::
  "trie_prune_mode \<Rightarrow> block_number \<Rightarrow> felt \<Rightarrow> felt \<Rightarrow> state_db \<Rightarrow> state_db" where
  "tx_insert_contract_state_hash mode block contract state_hash db =
     db\<lparr> contract_state_hashes := (contract_state_hashes db)
       (contract := insert_contract_state_hash mode block state_hash (contract_state_hashes db contract)) \<rparr>"

definition tx_contract_state_hash :: "block_number \<Rightarrow> felt \<Rightarrow> state_db \<Rightarrow> felt option" where
  "tx_contract_state_hash block contract db = map_option snd (latest_at block (contract_state_hashes db contract))"

definition tx_insert_class_trie ::
  "engine \<Rightarrow> trie_prune_mode \<Rightarrow> trie_update \<Rightarrow> block_number \<Rightarrow> state_db \<Rightarrow> (root_index_update \<times> state_db) outcome" where
  "tx_insert_class_trie e mode update block db =
     bind_outcome (insert_trie e mode update block (trie_class db)) (\<lambda>(idx, tbl). Inr (idx, db\<lparr> trie_class := tbl \<rparr>))"

definition tx_insert_storage_trie ::
  "engine \<Rightarrow> trie_prune_mode \<Rightarrow> trie_update \<Rightarrow> block_number \<Rightarrow> state_db \<Rightarrow> (root_index_update \<times> state_db) outcome" where
  "tx_insert_storage_trie e mode update block db =
     bind_outcome (insert_trie e mode update block (trie_storage db)) (\<lambda>(idx, tbl). Inr (idx, db\<lparr> trie_storage := tbl \<rparr>))"

definition tx_insert_contract_trie ::
  "engine \<Rightarrow> trie_prune_mode \<Rightarrow> trie_update \<Rightarrow> block_number \<Rightarrow> state_db \<Rightarrow> (root_index_update \<times> state_db) outcome" where
  "tx_insert_contract_trie e mode update block db =
     bind_outcome (insert_trie e mode update block (trie_contracts db)) (\<lambda>(idx, tbl). Inr (idx, db\<lparr> trie_contracts := tbl \<rparr>))"

definition latest_block_number :: "state_db \<Rightarrow> block_number option" where
  "latest_block_number db = header_block_number (block_headers db) BlockLatest"

definition prune_tries :: "engine \<Rightarrow> trie_prune_mode \<Rightarrow> state_db \<Rightarrow> state_db outcome" where
  "prune_tries e mode db = (case latest_block_number db of
       None \<Rightarrow> Inr db
     | Some block_number \<Rightarrow> (case mode of
           Archive \<Rightarrow> Inr db
         | Prune num_blocks_kept \<Rightarrow>
             bind_outcome (prune_trie e block_number num_blocks_kept (trie_contracts db)) (\<lambda>contracts.
             bind_outcome (prune_trie e block_number num_blocks_kept (trie_class db)) (\<lambda>class.
             bind_outcome (prune_trie e block_number num_blocks_kept (trie_storage db)) (\<lambda>storage.
               Inr (db\<lparr> trie_contracts := contracts, trie_class := class, trie_storage := storage \<rparr>))))))"

definition coalesce_trie_removals :: "block_number \<Rightarrow> state_db \<Rightarrow> state_db" where
  "coalesce_trie_removals target_block db =
     db\<lparr> trie_contracts := coalesce_removed_trie_nodes target_block (trie_contracts db),
         trie_storage := coalesce_removed_trie_nodes target_block (trie_storage db),
         trie_class := coalesce_removed_trie_nodes target_block (trie_class db) \<rparr>"

section \<open>State updates\<close>

text \<open>
  \<^verbatim>\<open>block_number <= ?\<close> for a number, \<^verbatim>\<open>block_number <= (SELECT number FROM block_headers WHERE hash = ?)\<close>
  for a hash, and no condition for the latest block.
\<close>

definition in_block :: "state_db \<Rightarrow> block_id \<Rightarrow> block_number \<Rightarrow> bool" where
  "in_block db block n = (case block of
       BlockLatest \<Rightarrow> True
     | BlockNumber number \<Rightarrow> n \<le> number
     | BlockHash hash \<Rightarrow> (case header_block_number (block_headers db) (BlockHash hash) of
           None \<Rightarrow> False
         | Some number \<Rightarrow> n \<le> number))"

definition latest_in :: "state_db \<Rightarrow> block_id \<Rightarrow> 'v by_block \<Rightarrow> (block_number \<times> 'v) option" where
  "latest_in db block tbl = latest_row (filter (\<lambda>(n, _). in_block db block n) tbl)"

definition tx_storage_value_with_block :: "block_id \<Rightarrow> felt \<Rightarrow> felt \<Rightarrow> state_db \<Rightarrow> (felt \<times> block_number) option" where
  "tx_storage_value_with_block block contract key db =
     map_option (\<lambda>(n, v). (v, n)) (latest_in db block (storage_updates db contract key))"

definition tx_storage_value :: "block_id \<Rightarrow> felt \<Rightarrow> felt \<Rightarrow> state_db \<Rightarrow> felt option" where
  "tx_storage_value block contract key db = map_option fst (tx_storage_value_with_block block contract key db)"

definition tx_contract_exists :: "block_id \<Rightarrow> felt \<Rightarrow> state_db \<Rightarrow> bool" where
  "tx_contract_exists block contract db = list_ex (\<lambda>(n, _). in_block db block n) (contract_updates db contract)"

definition tx_contract_nonce :: "felt \<Rightarrow> block_id \<Rightarrow> state_db \<Rightarrow> felt option" where
  "tx_contract_nonce contract block db = map_option snd (latest_in db block (nonce_updates db contract))"

definition tx_contract_class_hash :: "block_id \<Rightarrow> felt \<Rightarrow> state_db \<Rightarrow> felt option" where
  "tx_contract_class_hash block contract db = map_option snd (latest_in db block (contract_updates db contract))"

definition tx_casm_hash_at :: "block_id \<Rightarrow> felt \<Rightarrow> state_db \<Rightarrow> felt option" where
  "tx_casm_hash_at block class_hash db = map_option snd (latest_in db block (casm_class_hashes db class_hash))"

definition tx_insert_class_commitment_leaf :: "block_number \<Rightarrow> felt \<Rightarrow> felt \<Rightarrow> state_db \<Rightarrow> state_db" where
  "tx_insert_class_commitment_leaf block leaf casm_hash db =
     db\<lparr> class_commitment_leaves := class_commitment_leaves db @ [(block, leaf, casm_hash)] \<rparr>"

text \<open>The query has no order; every row of a compiled class has the same leaf.\<close>

definition tx_class_commitment_leaf :: "block_number \<Rightarrow> felt \<Rightarrow> state_db \<Rightarrow> felt option" where
  "tx_class_commitment_leaf block casm_hash db =
     map_option (\<lambda>(_, leaf, _). leaf) (find (\<lambda>(n, _, casm). casm = casm_hash \<and> n \<le> block) (class_commitment_leaves db))"

definition insert_contract_row :: "block_number \<Rightarrow> felt \<Rightarrow> felt \<Rightarrow> state_db \<Rightarrow> state_db" where
  "insert_contract_row block contract class_hash db =
     db\<lparr> contract_updates := (contract_updates db)(contract := contract_updates db contract @ [(block, class_hash)]) \<rparr>"

definition insert_nonce_row :: "block_number \<Rightarrow> felt \<Rightarrow> felt \<Rightarrow> state_db \<Rightarrow> state_db" where
  "insert_nonce_row block contract nonce db =
     db\<lparr> nonce_updates := (nonce_updates db)(contract := nonce_updates db contract @ [(block, nonce)]) \<rparr>"

definition insert_storage_row :: "block_number \<Rightarrow> felt \<Rightarrow> felt \<times> felt \<Rightarrow> state_db \<Rightarrow> state_db" where
  "insert_storage_row block contract kv db = (case kv of (key, value) \<Rightarrow>
     db\<lparr> storage_updates := (storage_updates db)(contract := (storage_updates db contract)
       (key := storage_updates db contract key @ [(block, value)])) \<rparr>)"

definition insert_contract_update_rows :: "block_number \<Rightarrow> felt \<times> contract_update \<Rightarrow> state_db \<Rightarrow> state_db" where
  "insert_contract_update_rows block u db = (case u of (contract, update) \<Rightarrow>
     let db = (case upd_class update of
           Some class_update \<Rightarrow> insert_contract_row block contract (update_class_hash class_update) db
         | None \<Rightarrow> db);
         db = (case upd_nonce update of
           Some nonce \<Rightarrow> insert_nonce_row block contract nonce db
         | None \<Rightarrow> db)
     in fold (insert_storage_row block contract) (upd_storage update) db)"

text \<open>\<^verbatim>\<open>INSERT ... ON CONFLICT(hash) DO UPDATE SET block_number=IFNULL(block_number, ..) RETURNING block_number\<close>.\<close>

definition upsert_declared_at :: "block_number \<Rightarrow> felt \<Rightarrow> state_db \<Rightarrow> block_number \<times> state_db" where
  "upsert_declared_at block class db = (case class_definitions db class of
       Some (Some declared_at) \<Rightarrow> (declared_at, db)
     | _ \<Rightarrow> (block, db\<lparr> class_definitions := (class_definitions db)(class \<mapsto> Some block) \<rparr>))"

definition insert_declared_class :: "block_number \<Rightarrow> felt \<Rightarrow> state_db \<Rightarrow> state_db" where
  "insert_declared_class block class db =
     (let (declared_at, db) = upsert_declared_at block class db
      in if declared_at \<noteq> block then db\<lparr> redeclared_classes := redeclared_classes db @ [(class, block)] \<rparr> else db)"

definition deployed_class :: "contract_update \<Rightarrow> felt option" where
  "deployed_class update = (case upd_class update of Some (Deploy x) \<Rightarrow> Some x | _ \<Rightarrow> None)"

text \<open>\<^verbatim>\<open>INSERT OR IGNORE\<close> into a table with the unique key \<^verbatim>\<open>(hash, block_number)\<close>.\<close>

definition insert_casm_hash :: "block_number \<Rightarrow> felt \<times> felt \<Rightarrow> state_db \<Rightarrow> state_db" where
  "insert_casm_hash block c db = (case c of (sierra_hash, casm_hash) \<Rightarrow>
     if list_ex (\<lambda>(n, _). n = block) (casm_class_hashes db sierra_hash) then db
     else db\<lparr> casm_class_hashes := (casm_class_hashes db)
       (sierra_hash := casm_class_hashes db sierra_hash @ [(block, casm_hash)]) \<rparr>)"

definition insert_state_update_data0 :: "block_number \<Rightarrow> state_update \<Rightarrow> state_db \<Rightarrow> state_db" where
  "insert_state_update_data0 block u db =
     (let db = fold (insert_contract_update_rows block) (upd_contracts u) db;
          db = fold (\<lambda>(contract, storage). fold (insert_storage_row block contract) storage) (upd_system_contracts u) db;
          db = fold (insert_declared_class block) (map fst (declared_sierra_classes u) @ declared_cairo_classes u) db;
          db = fold (\<lambda>class db. snd (upsert_declared_at block class db))
                 (List.map_filter (\<lambda>(_, update). deployed_class update) (upd_contracts u)) db;
          db = fold (insert_casm_hash block) (declared_sierra_classes u) db
      in fold (insert_casm_hash block) (migrated_compiled_classes u) db)"

text \<open>
  \<^verbatim>\<open>purge_block\<close> on the tables of the state. The rows of \<^verbatim>\<open>redeclared_classes\<close> refer to the header and
  go with it.
\<close>

definition not_in_block :: "block_number \<Rightarrow> block_number \<times> 'v \<Rightarrow> bool" where
  "not_in_block block row \<longleftrightarrow> fst row \<noteq> block"

definition purge_removals :: "block_number \<Rightarrow> trie_table \<Rightarrow> trie_table" where
  "purge_removals block tbl = tbl\<lparr> removals := filter (not_in_block block) (removals tbl) \<rparr>"

definition purge_block :: "block_number \<Rightarrow> state_db \<Rightarrow> state_db" where
  "purge_block block db = db\<lparr>
     block_headers := filter (\<lambda>h. hd_number h \<noteq> block) (block_headers db),
     redeclared_classes := filter (\<lambda>(_, n). n \<noteq> block) (redeclared_classes db),
     contract_updates := (\<lambda>c. filter (not_in_block block) (contract_updates db c)),
     nonce_updates := (\<lambda>c. filter (not_in_block block) (nonce_updates db c)),
     storage_updates := (\<lambda>c k. filter (not_in_block block) (storage_updates db c k)),
     contract_roots := (\<lambda>c. filter (not_in_block block) (contract_roots db c)),
     class_commitment_leaves := filter (not_in_block block) (class_commitment_leaves db),
     contract_state_hashes := (\<lambda>c. filter (not_in_block block) (contract_state_hashes db c)),
     class_roots := filter (not_in_block block) (class_roots db),
     storage_roots := filter (not_in_block block) (storage_roots db),
     trie_contracts := purge_removals block (trie_contracts db),
     trie_storage := purge_removals block (trie_storage db),
     trie_class := purge_removals block (trie_class db),
     class_definitions := (\<lambda>c. if class_definitions db c = Some (Some block) then Some None else class_definitions db c) \<rparr>"

end
