(* ===== verification/TrieStorage_Correct.thy ===== *)
theory TrieStorage_Correct
  imports TrieStorage
begin

text \<open>
  Correctness of the trie tables: a stored node is read back as it was written, and inserting
  the update of a committed tree makes a stored tree whose root, once loaded, holds the same map.
\<close>

section \<open>The engine\<close>

text \<open>
  What the code relies on: \<^verbatim>\<open>bincode\<close> decodes what it encoded, a node whose path takes at most 33
  bytes is encoded in at most 256, and SQLite assigns an unused non-negative key while the table
  is not full.
\<close>

fun serde_path :: "stored_serde \<Rightarrow> u8 list" where
  "serde_path (SerdeEdge child path) = path"
| "serde_path (SerdeLeafEdge path) = path"
| "serde_path x = []"

definition engine_ok :: "engine \<Rightarrow> bool" where
  "engine_ok e \<longleftrightarrow>
     (\<forall>x. decode_serde e (encode_serde e x) = Some x) \<and>
     (\<forall>is. decode_indices e (encode_indices e is) = Some is) \<and>
     (\<forall>x. length (serde_path x) \<le> 33 \<longrightarrow> length (encode_serde e x) \<le> 256) \<and>
     (\<forall>rs. card (dom rs) < 2 ^ 63 \<longrightarrow> (\<exists>i. new_rowid e rs = Some i \<and> i \<le> i64_max \<and> rs i = None))"

section \<open>Stored nodes\<close>

lemma msb0_bits_path_into_vec:
  "\<exists>dead. msb0_bits (path_into_vec e path) = path @ dead"
proof -
  let ?n = "(length path + 7) div 8"
  let ?spare = "8 * ?n - length path"
  let ?dead = "take ?spare (dead_bits e path @ replicate ?spare False)"
  have "length path \<le> 8 * ?n" by linarith
  then have "length (path @ ?dead) = 8 * ?n" by simp
  then have "msb0_bits (path_into_vec e path) = path @ ?dead"
    by (simp only: path_into_vec_def Let_def msb0_bytes_of_bits)
  then show ?thesis ..
qed

lemma decode_encode_path:
  assumes "length path < 256"
  shows "decode_path (encode_path e path) = Inr path"
proof -
  obtain dead where "msb0_bits (path_into_vec e path) = path @ dead"
    using msb0_bits_path_into_vec [of e path] by blast
  moreover have "unat (of_nat (length path) :: u8) = length path"
    using assms by (simp add: unat_of_nat take_bit_eq_mod)
  ultimately show ?thesis by (simp add: decode_path_def encode_path_def)
qed

fun node_path :: "stored_node \<Rightarrow> trie_path" where
  "node_path (StoredEdge child path) = path"
| "node_path (StoredLeafEdge path) = path"
| "node_path n = []"

fun node_children :: "stored_node \<Rightarrow> trie_index list" where
  "node_children (StoredBinary l r) = [l, r]"
| "node_children (StoredEdge c p) = [c]"
| "node_children n = []"

lemma length_encode_path: "length path \<le> 251 \<Longrightarrow> length (encode_path e path) \<le> 33"
  by (simp add: encode_path_def path_into_vec_def Let_def)

lemma stored_round_trip:
  assumes "engine_ok e" and "length (node_path n) \<le> 251" and "\<forall>i \<in> set (node_children n). i \<le> i64_max"
  shows "\<exists>data. stored_encode e n = Inr data \<and> stored_decode e data = Inr n"
proof -
  have dec: "decode_serde e (encode_serde e x) = Some x" for x using assms(1) by (simp add: engine_ok_def)
  have len: "length (serde_path x) \<le> 33 \<Longrightarrow> length (encode_serde e x) \<le> 256" for x
    using assms(1) by (simp add: engine_ok_def)
  show ?thesis
    using assms(2,3) len length_encode_path decode_encode_path
    by (cases n) (auto simp: stored_encode_def stored_decode_def dec decode_index_def trie_storage_index_new_def)
qed

section \<open>The nodes of an update\<close>

text \<open>
  \<open>added_repr H hgt st L M added lo hi pre ref K\<close>: the reference stands for a subtree at the prefix
  \<open>pre\<close> with the keys \<open>K\<close>, and its nodes that are not stored yet are those from \<open>lo\<close> to \<open>hi\<close> of the
  update, children before their parent.
\<close>

inductive added_repr ::
  "felt_hash \<Rightarrow> nat \<Rightarrow> storage \<Rightarrow> (trie_path \<rightharpoonup> felt) \<Rightarrow> (trie_path \<rightharpoonup> felt) \<Rightarrow> (felt \<times> trie_node_added) list
     \<Rightarrow> nat \<Rightarrow> nat \<Rightarrow> trie_path \<Rightarrow> node_ref \<Rightarrow> trie_path set \<Rightarrow> bool"
  for H hgt st L M added where
  added_Stored: "repr H hgt st L M pre (Unresolved idx) K
     \<Longrightarrow> added_repr H hgt st L M added lo lo pre (StorageIndex idx) K"
| added_Binary: "added_repr H hgt st L M added lo mid (pre @ [False]) l Kl
     \<Longrightarrow> added_repr H hgt st L M added mid i (pre @ [True]) r Kr
     \<Longrightarrow> K = Kl \<union> Kr \<Longrightarrow> i < length added \<Longrightarrow> h = subtree_hash H hgt (M |` K) pre \<Longrightarrow> felt_wf h
     \<Longrightarrow> added ! i = (h, AddedBinary l r) \<Longrightarrow> added_repr H hgt st L M added lo (Suc i) pre (Index i) K"
| added_LeafBinary: "Suc (length pre) = hgt \<Longrightarrow> M (pre @ [False]) \<noteq> None \<Longrightarrow> M (pre @ [True]) \<noteq> None
     \<Longrightarrow> K = {pre @ [False], pre @ [True]} \<Longrightarrow> i < length added \<Longrightarrow> h = subtree_hash H hgt (M |` K) pre \<Longrightarrow> felt_wf h
     \<Longrightarrow> added ! i = (h, AddedLeafBinary) \<Longrightarrow> added_repr H hgt st L M added i (Suc i) pre (Index i) K"
| added_Edge: "p \<noteq> [] \<Longrightarrow> added_repr H hgt st L M added lo i (pre @ p) c K \<Longrightarrow> branching (pre @ p) K
     \<Longrightarrow> i < length added \<Longrightarrow> h = subtree_hash H hgt (M |` K) pre \<Longrightarrow> felt_wf h
     \<Longrightarrow> added ! i = (h, AddedEdge c p) \<Longrightarrow> added_repr H hgt st L M added lo (Suc i) pre (Index i) K"
| added_LeafEdge: "p \<noteq> [] \<Longrightarrow> length (pre @ p) = hgt \<Longrightarrow> M (pre @ p) \<noteq> None
     \<Longrightarrow> K = {pre @ p} \<Longrightarrow> i < length added \<Longrightarrow> h = subtree_hash H hgt (M |` K) pre \<Longrightarrow> felt_wf h
     \<Longrightarrow> added ! i = (h, AddedLeafEdge p) \<Longrightarrow> added_repr H hgt st L M added i (Suc i) pre (Index i) K"

lemma added_repr_append:
  "added_repr H hgt st L M added lo hi pre ref K \<Longrightarrow> added_repr H hgt st L M (added @ ys) lo hi pre ref K"
  by (induction rule: added_repr.induct) (auto intro: added_repr.intros simp: nth_append)

lemma repr_leaf_iff: "repr H hgt st L M pre n K \<Longrightarrow> n = Leaf \<longleftrightarrow> length pre = hgt"
  using repr_height_less by (cases "n = Leaf") (fastforce elim: repr_LeafE)+

lemma edge_hash_wf: "felt_wf (edge_hash H b p)"
proof -
  have "0 < field_prime" by (simp add: field_prime_def)
  then show ?thesis by (simp add: edge_hash_def felt_wf_be_bytes)
qed

context felt_valued_hash
begin

lemma commit_subtree_added:
  assumes "repr H hgt st L M pre n K" and "hgt \<le> 251"
  shows "\<exists>r new removed'. commit_subtree H st L n (added, removed) pre =
      Inr ((subtree_hash H hgt (M |` K) pre, r), (added @ new, removed')) \<and>
    (if n = Leaf then r = None \<and> new = []
     else \<exists>ref. r = Some ref \<and> added_repr H hgt st L M (added @ new) (length added) (length added + length new) pre ref K)"
  using assms(1)
proof (induction arbitrary: added removed rule: repr.induct)
  case (repr_Leaf pre v)
  then show ?case by (auto simp: subtree_hash_leaf)
next
  case (repr_Binary pre l Kl r Kr h si)
  obtain rl newl reml where l: "commit_subtree H st L l (added, removed) (pre @ [False]) =
      Inr ((subtree_hash H hgt (M |` Kl) (pre @ [False]), rl), (added @ newl, reml))"
    "if l = Leaf then rl = None \<and> newl = [] else \<exists>ref. rl = Some ref \<and>
      added_repr H hgt st L M (added @ newl) (length added) (length added + length newl) (pre @ [False]) ref Kl"
    using repr_Binary.IH(1) [of added removed] by blast
  obtain rr newr remr where r: "commit_subtree H st L r (added @ newl, reml) (pre @ [True]) =
      Inr ((subtree_hash H hgt (M |` Kr) (pre @ [True]), rr), ((added @ newl) @ newr, remr))"
    "if r = Leaf then rr = None \<and> newr = [] else \<exists>ref. rr = Some ref \<and>
      added_repr H hgt st L M ((added @ newl) @ newr) (length (added @ newl)) (length (added @ newl) + length newr) (pre @ [True]) ref Kr"
    using repr_Binary.IH(2) [of "added @ newl" reml] by blast
  let ?h = "subtree_hash H hgt (M |` (Kl \<union> Kr)) pre"
  have wf: "felt_wf ?h" using subtree_hash_binary [OF repr_Binary.hyps(1,2)] wf_hash by simp
  have leaf: "l = Leaf \<longleftrightarrow> length pre + 1 = hgt" "r = Leaf \<longleftrightarrow> length pre + 1 = hgt"
    using repr_leaf_iff [OF repr_Binary.hyps(1)] repr_leaf_iff [OF repr_Binary.hyps(2)] by simp_all
  have run: "commit_subtree H st L (Binary si h l r) (added, removed) pre =
      Inr ((?h, Some (Index (length (added @ newl @ newr)))), (added @ newl @ newr @ [(?h, node)], push_index si remr))"
    if "persisted_binary rl rr = Inr node" for node
    using that l(1) r(1) subtree_hash_binary [OF repr_Binary.hyps(1,2)]
    by (simp add: bool_of_direction_def binary_calculate_hash_def Let_def)
  show ?case
  proof (cases "length pre + 1 = hgt")
    case True
    then have K: "Kl = {pre @ [False]}" "Kr = {pre @ [True]}" and M: "M (pre @ [False]) \<noteq> None" "M (pre @ [True]) \<noteq> None"
      using repr_Binary.hyps(1,2) leaf by (auto elim: repr_LeafE)
    have "persisted_binary rl rr = Inr AddedLeafBinary" using True l(2) r(2) leaf by (simp add: persisted_binary_def)
    from run [OF this] show ?thesis using True l(2) r(2) leaf wf M
      by (auto simp: K insert_commute intro!: added_LeafBinary)
  next
    case False
    then obtain refl refr where refs: "rl = Some refl" "rr = Some refr"
      "added_repr H hgt st L M (added @ newl) (length added) (length added + length newl) (pre @ [False]) refl Kl"
      "added_repr H hgt st L M (added @ newl @ newr) (length added + length newl) (length added + (length newl + length newr)) (pre @ [True]) refr Kr"
      using l(2) r(2) leaf by (auto simp: add.assoc)
    then have "persisted_binary rl rr = Inr (AddedBinary refl refr)" by (simp add: persisted_binary_def)
    moreover have "added_repr H hgt st L M (added @ newl @ newr @ [(?h, AddedBinary refl refr)]) (length added)
        (Suc (length (added @ newl @ newr))) pre (Index (length (added @ newl @ newr))) (Kl \<union> Kr)"
      using added_repr_append [OF refs(3), of "newr @ [(?h, AddedBinary refl refr)]"]
        added_repr_append [OF refs(4), of "[(?h, AddedBinary refl refr)]"] wf
      by (auto simp: nth_append intro!: added_Binary)
    ultimately show ?thesis using run by auto
  qed
next
  case (repr_Edge p pre c K h si)
  obtain rc newc remc where c: "commit_subtree H st L c (added, removed) (pre @ p) =
      Inr ((subtree_hash H hgt (M |` K) (pre @ p), rc), (added @ newc, remc))"
    "if c = Leaf then rc = None \<and> newc = [] else \<exists>ref. rc = Some ref \<and>
      added_repr H hgt st L M (added @ newc) (length added) (length added + length newc) (pre @ p) ref K"
    using repr_Edge.IH [of added removed] by blast
  let ?h = "subtree_hash H hgt (M |` K) pre"
  have hash: "?h = edge_hash H (subtree_hash H hgt (M |` K) (pre @ p)) p"
    by (rule subtree_hash_edge [OF repr_Edge.hyps(2,3,1)])
  then have wf: "felt_wf ?h" by (simp add: edge_hash_wf)
  have "length p \<le> 251" using repr_height [OF repr_Edge.hyps(2)] assms(2) by simp
  then have run: "commit_subtree H st L (Edge si h p c) (added, removed) pre =
      Inr ((?h, Some (Index (length (added @ newc)))),
        (added @ newc @ [(?h, case rc of None \<Rightarrow> AddedLeafEdge p | Some child \<Rightarrow> AddedEdge child p)], push_index si remc))"
    using c(1) hash by (simp add: edge_calculate_hash_eq)
  show ?case
  proof (cases "c = Leaf")
    case True
    then have "K = {pre @ p}" "length (pre @ p) = hgt" "M (pre @ p) \<noteq> None"
      using repr_Edge.hyps(2) by (auto elim: repr_LeafE)
    then show ?thesis using run True c(2) wf repr_Edge.hyps(1) by (auto intro!: added_LeafEdge)
  next
    case False
    then obtain ref where ref: "rc = Some ref"
      "added_repr H hgt st L M (added @ newc) (length added) (length (added @ newc)) (pre @ p) ref K"
      using c(2) by auto
    from added_repr_append [OF ref(2), of "[(?h, AddedEdge ref p)]"]
    have "added_repr H hgt st L M (added @ newc @ [(?h, AddedEdge ref p)]) (length added)
        (Suc (length (added @ newc))) pre (Index (length (added @ newc))) K"
      using repr_Edge.hyps(1,3) wf by (auto simp: nth_append intro!: added_Edge)
    then show ?thesis using run ref(1) by auto
  qed
next
  case (repr_Unresolved idx pre n K)
  then have "repr H hgt st L M pre (Unresolved idx) K" by (auto intro: repr.repr_Unresolved)
  then show ?case using repr_Unresolved.hyps by (auto intro!: added_Stored)
qed

end

section \<open>Inserting the nodes\<close>

text \<open>The collected order is the reverse of the order of the update.\<close>

lemma added_repr_le: "added_repr H hgt st L M added lo hi pre ref K \<Longrightarrow> lo \<le> hi"
  by (induction rule: added_repr.induct) auto

lemma upt_rev_snoc: "lo \<le> i \<Longrightarrow> rev [lo..<Suc i] = i # rev [lo..<i]"
  by simp

lemma collect_added:
  assumes "added_repr H hgt st L M added lo hi pre ref K"
  shows "\<exists>k. 0 < k \<and> k \<le> 2 * (hi - lo) + 1 \<and> (\<forall>fuel rest out. collect_to_insert (k + fuel) added (ref # rest) out
    = collect_to_insert fuel added rest (out @ rev [lo..<hi]))"
  using assms
proof (induction rule: added_repr.induct)
  case (added_Stored pre idx K lo)
  show ?case by (intro exI [of _ 1]) simp
next
  case (added_Binary lo mid pre l Kl i r Kr K h)
  obtain kl where kl: "0 < kl" "kl \<le> 2 * (mid - lo) + 1" "\<And>fuel rest out. collect_to_insert (kl + fuel) added (l # rest) out
    = collect_to_insert fuel added rest (out @ rev [lo..<mid])" using added_Binary.IH(1) by blast
  obtain kr where kr: "0 < kr" "kr \<le> 2 * (i - mid) + 1" "\<And>fuel rest out. collect_to_insert (kr + fuel) added (r # rest) out
    = collect_to_insert fuel added rest (out @ rev [mid..<i])" using added_Binary.IH(2) by blast
  have le: "lo \<le> mid" "mid \<le> i" using added_repr_le added_Binary.hyps(1,2) by blast+
  then have split: "[lo..<i] = [lo..<mid] @ [mid..<i]" by (metis le_Suc_ex upt_add_eq_append)
  have "collect_to_insert (Suc (kr + kl) + fuel) added (Index i # rest) out
      = collect_to_insert fuel added rest (out @ rev [lo..<Suc i])" for fuel rest out
    using added_Binary.hyps(4,7) kr(3) [of "kl + fuel" "l # rest" "out @ [i]"] kl(3) le
    by (simp add: split add.assoc)
  then show ?case using kl(1,2) kr(1,2) le by (intro exI [of _ "Suc (kr + kl)"]) auto
next
  case (added_Edge p lo i pre c K h)
  obtain k where k: "0 < k" "k \<le> 2 * (i - lo) + 1" "\<And>fuel rest out. collect_to_insert (k + fuel) added (c # rest) out
    = collect_to_insert fuel added rest (out @ rev [lo..<i])" using added_Edge.IH by blast
  have le: "lo \<le> i" using added_repr_le added_Edge.hyps(2) by blast
  have "collect_to_insert (Suc k + fuel) added (Index i # rest) out
      = collect_to_insert fuel added rest (out @ rev [lo..<Suc i])" for fuel rest out
    using added_Edge.hyps k(3) [of fuel rest "out @ [i]"] le by simp
  then show ?case using k(1,2) le by (intro exI [of _ "Suc k"]) auto
qed (rule exI [of _ 1], simp)+

lemma collect_root:
  assumes "added_repr H hgt st L M added 0 (Suc i) pre (Index i) K" and "length added = Suc i"
  shows "collect_to_insert (2 * length added + 2) added [Index i] [] = Inr (rev [0..<length added])"
proof -
  obtain k where k: "0 < k" "k \<le> 2 * Suc i + 1" "\<And>fuel rest out. collect_to_insert (k + fuel) added (Index i # rest) out
    = collect_to_insert fuel added rest (out @ rev [0..<Suc i])" using collect_added [OF assms(1)] by auto
  have "2 * length added + 2 = k + Suc (2 * length added + 1 - k)" using k(2) assms(2) by simp
  then show ?thesis using k(3) [of "Suc (2 * length added + 1 - k)" "[]" "[]"] assms(2) by simp
qed

text \<open>
  A node can be stored once its children are: \<open>ref_index\<close> is the key of a reference, and
  \<open>node_ok\<close> says that the node's children are stored nodes or earlier nodes of the update.
\<close>

definition ref_ok :: "nat \<Rightarrow> node_ref \<Rightarrow> bool" where
  "ref_ok i r = (case r of StorageIndex idx \<Rightarrow> idx \<le> i64_max | Index j \<Rightarrow> j < i)"

fun node_refs :: "trie_node_added \<Rightarrow> node_ref list" where
  "node_refs (AddedBinary l r) = [l, r]"
| "node_refs (AddedEdge c p) = [c]"
| "node_refs n = []"

fun added_path :: "trie_node_added \<Rightarrow> trie_path" where
  "added_path (AddedEdge c p) = p"
| "added_path (AddedLeafEdge p) = p"
| "added_path n = []"

definition node_ok :: "nat \<Rightarrow> trie_node_added \<Rightarrow> bool" where
  "node_ok i n \<longleftrightarrow> list_all (ref_ok i) (node_refs n) \<and> length (added_path n) \<le> 251"

definition ref_index :: "(nat \<rightharpoonup> trie_index) \<Rightarrow> node_ref \<Rightarrow> trie_index" where
  "ref_index ix r = (case r of StorageIndex idx \<Rightarrow> idx | Index j \<Rightarrow> the (ix j))"

fun stored_form :: "(nat \<rightharpoonup> trie_index) \<Rightarrow> trie_node_added \<Rightarrow> stored_node" where
  "stored_form ix (AddedBinary l r) = StoredBinary (ref_index ix l) (ref_index ix r)"
| "stored_form ix (AddedEdge c p) = StoredEdge (ref_index ix c) p"
| "stored_form ix AddedLeafBinary = StoredLeafBinary"
| "stored_form ix (AddedLeafEdge p) = StoredLeafEdge p"

text \<open>The nodes before \<open>i\<close> are in the table, each under its key, with what was in it before.\<close>

definition stored_upto ::
  "engine \<Rightarrow> (felt \<times> trie_node_added) list \<Rightarrow> (u64 \<rightharpoonup> trie_row) \<Rightarrow> nat \<Rightarrow> (nat \<rightharpoonup> trie_index) \<Rightarrow> (u64 \<rightharpoonup> trie_row) \<Rightarrow> bool" where
  "stored_upto e added rs0 i ix rs \<longleftrightarrow> rs0 \<subseteq>\<^sub>m rs \<and> (\<forall>k \<in> dom rs - dom rs0. k \<le> i64_max) \<and>
     inj_on ix {..<i} \<and> (\<forall>j<i. \<exists>k data. ix j = Some k \<and> k \<le> i64_max \<and> k \<notin> dom rs0 \<and>
     rs k = Some \<lparr> row_hash = fst (added ! j), row_data = data \<rparr> \<and>
     stored_decode e data = Inr (stored_form ix (snd (added ! j))))"

lemma ref_stored_index:
  assumes "ref_ok i r" and "\<forall>j<i. \<exists>k. ix j = Some k \<and> k \<le> i64_max"
  shows "ref_stored msg ix r = Inr (ref_index ix r)" and "ref_index ix r \<le> i64_max"
  using assms by (auto simp: ref_ok_def ref_stored_def ref_index_def split: node_ref.splits)

lemma as_stored_form:
  assumes "node_ok i n" and "\<forall>j<i. \<exists>k. ix j = Some k \<and> k \<le> i64_max"
  shows "as_stored ix n = Inr (stored_form ix n)" and "\<forall>k \<in> set (node_children (stored_form ix n)). k \<le> i64_max"
    and "length (node_path (stored_form ix n)) \<le> 251"
  using assms by (cases n; auto simp: node_ok_def as_stored_def ref_stored_index)+

lemma stored_form_mono:
  assumes "node_ok j n" and "j \<le> i"
  shows "stored_form (ix(i \<mapsto> k)) n = stored_form ix n"
  using assms by (cases n) (auto simp: node_ok_def ref_ok_def ref_index_def split: node_ref.splits)

lemma stored_upto_step:
  assumes up: "stored_upto e added rs0 i ix rs" and ok: "\<forall>j<length added. node_ok j (snd (added ! j))"
    and "i < length added" and fresh: "rs k = None" "k \<le> i64_max"
    and data: "stored_decode e data = Inr (stored_form ix (snd (added ! i)))"
  shows "stored_upto e added rs0 (Suc i) (ix(i \<mapsto> k)) (rs(k \<mapsto> \<lparr> row_hash = fst (added ! i), row_data = data \<rparr>))"
  unfolding stored_upto_def
proof (intro conjI allI ballI impI)
  show "rs0 \<subseteq>\<^sub>m rs(k \<mapsto> \<lparr> row_hash = fst (added ! i), row_data = data \<rparr>)"
    using up fresh(1) unfolding stored_upto_def map_le_def by (metis domIff fun_upd_other)
  show "k' \<le> i64_max" if "k' \<in> dom (rs(k \<mapsto> \<lparr> row_hash = fst (added ! i), row_data = data \<rparr>)) - dom rs0" for k'
    using that up fresh(2) by (auto simp: stored_upto_def split: if_splits)
  have new: "k \<notin> dom rs0" using up fresh(1) unfolding stored_upto_def map_le_def by (metis domIff)
  have "ix j \<noteq> Some k" if "j < i" for j
    using that up fresh(1) unfolding stored_upto_def by fastforce
  then show "inj_on (ix(i \<mapsto> k)) {..<Suc i}"
    using up by (auto simp: stored_upto_def lessThan_Suc inj_on_def)
  fix j assume "j < Suc i"
  then have form: "stored_form (ix(i \<mapsto> k)) (snd (added ! j)) = stored_form ix (snd (added ! j))"
    using stored_form_mono [of j "snd (added ! j)" i ix k] ok \<open>i < length added\<close> by simp
  show "\<exists>k' data'. (ix(i \<mapsto> k)) j = Some k' \<and> k' \<le> i64_max \<and> k' \<notin> dom rs0 \<and>
      (rs(k \<mapsto> \<lparr> row_hash = fst (added ! i), row_data = data \<rparr>)) k' = Some \<lparr> row_hash = fst (added ! j), row_data = data' \<rparr> \<and>
      stored_decode e data' = Inr (stored_form (ix(i \<mapsto> k)) (snd (added ! j)))"
  proof (cases "j = i")
    case False
    with \<open>j < Suc i\<close> have "j < i" by simp
    with up obtain k' data' where "ix j = Some k'" "k' \<le> i64_max" "k' \<notin> dom rs0"
      "rs k' = Some \<lparr> row_hash = fst (added ! j), row_data = data' \<rparr>"
      "stored_decode e data' = Inr (stored_form ix (snd (added ! j)))" unfolding stored_upto_def by blast
    moreover from this have "k' \<noteq> k" using fresh(1) by auto
    ultimately show ?thesis using form False by auto
  qed (use form data fresh new in auto)
qed

lemma insert_nodes_stored:
  assumes e: "engine_ok e" and ok: "\<forall>j<length added. node_ok j (snd (added ! j))"
    and "stored_upto e added rs0 i ix rs" and "i \<le> length added"
    and "card (dom rs) + (length added - i) < 2 ^ 63"
  shows "\<exists>ix' rs'. insert_nodes e added [i..<length added] ix rs = Inr (ix', rs') \<and>
    stored_upto e added rs0 (length added) ix' rs'"
  using assms(3-)
proof (induction "length added - i" arbitrary: i ix rs)
  case (Suc n)
  then have "i < length added" by simp
  then have upt: "[i..<length added] = i # [Suc i..<length added]" by (rule upt_conv_Cons)
  have ix: "\<forall>j<i. \<exists>k. ix j = Some k \<and> k \<le> i64_max" using Suc.prems(1) by (fastforce simp: stored_upto_def)
  obtain h node where hn: "added ! i = (h, node)" by (cases "added ! i")
  have "node_ok i node" using ok \<open>i < length added\<close> hn by (metis snd_conv)
  note form = as_stored_form [OF this ix]
  obtain data where data: "stored_encode e (stored_form ix node) = Inr data" "stored_decode e data = Inr (stored_form ix node)"
    using stored_round_trip [OF e form(3,2)] by blast
  have "card (dom rs) < 2 ^ 63" using Suc.prems(3) by linarith
  then obtain k where k: "new_rowid e rs = Some k" "k \<le> i64_max" "rs k = None" using e by (auto simp: engine_ok_def)
  let ?rs = "rs(k \<mapsto> \<lparr> row_hash = h, row_data = data \<rparr>)"
  have "stored_upto e added rs0 (Suc i) (ix(i \<mapsto> k)) ?rs"
    using stored_upto_step [OF Suc.prems(1) ok \<open>i < length added\<close> k(3,2), of data] data(2) hn by simp
  moreover have "card (dom ?rs) + (length added - Suc i) < 2 ^ 63"
  proof -
    have "k \<notin> dom rs" using k(3) by auto
    then have "card (dom ?rs) = Suc (card (dom rs))" by simp
    then show ?thesis using Suc.prems(3) \<open>i < length added\<close> by linarith
  qed
  ultimately obtain ix' rs' where "insert_nodes e added [Suc i..<length added] (ix(i \<mapsto> k)) ?rs = Inr (ix', rs')"
      "stored_upto e added rs0 (length added) ix' rs'"
    using Suc.hyps(1) [of "Suc i" "ix(i \<mapsto> k)" ?rs] Suc.hyps(2) \<open>i < length added\<close> by (metis Suc_diff_Suc Suc_leI diff_Suc_1)
  then show ?case
    using \<open>i < length added\<close> by (simp add: upt hn form(1) data(1) k trie_storage_index_new_def)
qed auto

section \<open>A stored tree holds what the committed tree held\<close>

lemma added_repr_height: "added_repr H hgt st L M added lo hi pre ref K \<Longrightarrow> length pre \<le> hgt"
  by (induction rule: added_repr.induct) (auto dest: repr_height)

lemma added_repr_Index: "added_repr H hgt st L M added lo hi pre (Index i) K \<Longrightarrow> hi = Suc i"
  by (erule added_repr.cases) auto

lemma added_repr_ref_ok:
  assumes "added_repr H hgt st L M added lo hi pre ref K" and "hi \<le> i"
    and "\<And>idx pre K. repr H hgt st L M pre (Unresolved idx) K \<Longrightarrow> idx \<le> i64_max"
  shows "ref_ok i ref"
proof (cases ref)
  case (StorageIndex idx)
  then show ?thesis using assms(1,3) by (auto simp: ref_ok_def elim: added_repr.cases)
qed (use assms(1,2) added_repr_Index in \<open>fastforce simp: ref_ok_def\<close>)

lemma added_repr_node_ok:
  assumes "added_repr H hgt st L M added lo hi pre ref K" and "hgt \<le> 251"
    and small: "\<And>idx pre K. repr H hgt st L M pre (Unresolved idx) K \<Longrightarrow> idx \<le> i64_max"
    and "lo \<le> j" and "j < hi"
  shows "node_ok j (snd (added ! j))"
  using assms(1,4,5)
proof (induction rule: added_repr.induct)
  case (added_Binary lo mid pre l Kl i r Kr K h)
  have "mid \<le> i" using added_repr_le added_Binary.hyps(2) by blast
  then have "ref_ok i l" "ref_ok i r"
    using added_repr_ref_ok [OF added_Binary.hyps(1) _ small] added_repr_ref_ok [OF added_Binary.hyps(2) _ small] by simp_all
  then show ?case using added_Binary by (cases "j < mid"; cases "j < i") (auto simp: node_ok_def less_Suc_eq)
next
  case (added_Edge p lo i pre c K h)
  have "ref_ok i c" using added_repr_ref_ok [OF added_Edge.hyps(2) _ small] by simp
  moreover have "length p \<le> 251" using added_repr_height [OF added_Edge.hyps(2)] assms(2) by simp
  ultimately show ?case using added_Edge by (cases "j < i") (auto simp: node_ok_def less_Suc_eq)
qed (use assms(2) in \<open>auto simp: node_ok_def less_Suc_eq\<close>)

text \<open>A storage that has every node of another, and the leaves of the map, holds its trees.\<close>

definition extends_storage :: "storage \<Rightarrow> storage \<Rightarrow> bool" where
  "extends_storage st st' \<longleftrightarrow>
     (\<forall>i n. st_get st i = Inr (Some n) \<longrightarrow> st_get st' i = Inr (Some n)) \<and>
     (\<forall>i h. st_hash st i = Inr (Some h) \<longrightarrow> st_hash st' i = Inr (Some h))"

lemma resolve_extends:
  assumes "extends_storage st st'" and "resolve hgt st idx h = Inr n"
  shows "resolve hgt st' idx h = Inr n"
proof -
  from assms(2) obtain m where "st_get st idx = Inr (Some m)"
    by (auto simp: resolve_def bind_outcome_Inr_iff context_some_def split: if_splits option.splits)
  then have "st_get st' idx = st_get st idx" using assms(1) by (simp add: extends_storage_def)
  then have "resolve hgt st' idx h = resolve hgt st idx h" by (simp only: resolve_def)
  then show ?thesis using assms(2) by simp
qed

lemma repr_extends:
  assumes "repr H hgt st L M pre n K" and "extends_storage st st'" and "\<forall>k \<in> K. st_leaf st' k = Inr (M k)"
  shows "repr H hgt st' Map.empty M pre n K"
  using assms(1,3)
proof (induction rule: repr.induct)
  case (repr_Leaf pre v)
  then show ?case by (intro repr.repr_Leaf) auto
next
  case (repr_Unresolved idx pre n K)
  then show ?case using resolve_extends [OF assms(2)] assms(2)
    by (auto intro!: repr.repr_Unresolved simp: extends_storage_def)
qed (auto intro: repr.intros)

definition table_storage :: "engine \<Rightarrow> trie_table \<Rightarrow> (trie_path \<Rightarrow> felt option outcome) \<Rightarrow> storage" where
  "table_storage e tbl leaf = \<lparr> st_get = tx_trie_node e tbl, st_hash = tx_trie_node_hash tbl, st_leaf = leaf \<rparr>"

definition table_wf :: "trie_table \<Rightarrow> bool" where
  "table_wf tbl \<longleftrightarrow> (\<forall>i \<in> dom (rows tbl). i \<le> i64_max)"

lemma table_storage_extends:
  assumes "rows tbl \<subseteq>\<^sub>m rows tbl'"
  shows "extends_storage (table_storage e tbl leaf) (table_storage e tbl' leaf')"
proof -
  have "rows tbl' i = Some r" if "rows tbl i = Some r" for i r
    using assms that by (metis domI map_le_def)
  then show ?thesis
    by (auto simp: extends_storage_def table_storage_def tx_trie_node_def tx_trie_node_hash_def split: option.splits)
qed

lemma row_get_felt_wf: "felt_wf h \<Longrightarrow> row_get_felt h = Inr h"
  by (simp add: row_get_felt_def felt_from_be_slice_eq felt_wf_be_val) (simp add: felt_wf_def)

lemma stored_upto_node:
  assumes "stored_upto e added rs0 (length added) ix (rows tbl)" and "i < length added" and "added ! i = (h, node)"
  shows "st_get (table_storage e tbl leaf) (ref_index ix (Index i)) = Inr (Some (stored_form ix node))"
    and "felt_wf h \<Longrightarrow> st_hash (table_storage e tbl leaf) (ref_index ix (Index i)) = Inr (Some h)"
proof -
  obtain k data where "ix i = Some k" "rows tbl k = Some \<lparr> row_hash = h, row_data = data \<rparr>"
    "stored_decode e data = Inr (stored_form ix node)"
    using assms unfolding stored_upto_def by fastforce
  then show "st_get (table_storage e tbl leaf) (ref_index ix (Index i)) = Inr (Some (stored_form ix node))"
    and "felt_wf h \<Longrightarrow> st_hash (table_storage e tbl leaf) (ref_index ix (Index i)) = Inr (Some h)"
    using row_get_felt_wf
    by (simp_all add: table_storage_def tx_trie_node_def tx_trie_node_hash_def ref_index_def)
qed

lemma stored_added_repr:
  assumes "added_repr H hgt st L M added lo hi pre ref K"
    and up: "stored_upto e added rs0 (length added) ix (rows tbl')"
    and "extends_storage st (table_storage e tbl' leaf')" and "\<forall>k \<in> K. leaf' k = Inr (M k)"
  shows "repr H hgt (table_storage e tbl' leaf') Map.empty M pre (Unresolved (ref_index ix ref)) K"
  using assms(1,4)
proof (induction rule: added_repr.induct)
  case (added_Stored pre idx K lo)
  then show ?case using repr_extends [OF added_Stored.hyps assms(3)]
    by (simp add: ref_index_def table_storage_def)
next
  case (added_Binary lo mid pre l Kl i r Kr K h)
  note node = stored_upto_node(1) [OF up added_Binary.hyps(4,7), of leaf'] stored_upto_node(2) [OF up added_Binary.hyps(4,7,6), of leaf']
  have "length pre < hgt" using added_repr_height [OF added_Binary.hyps(1)] by simp
  then have "resolve hgt (table_storage e tbl' leaf') (ref_index ix (Index i)) (length pre)
      = Inr (Binary (Some (ref_index ix (Index i))) (length pre) (Unresolved (ref_index ix l)) (Unresolved (ref_index ix r)))"
    using node(1) by (simp add: resolve_def)
  moreover have "repr H hgt (table_storage e tbl' leaf') Map.empty M pre
      (Binary (Some (ref_index ix (Index i))) (length pre) (Unresolved (ref_index ix l)) (Unresolved (ref_index ix r))) K"
    using added_Binary.IH added_Binary.prems added_Binary.hyps(3) by (auto intro: repr.repr_Binary)
  ultimately show ?case using node(2) added_Binary.hyps(5) by (auto intro!: repr.repr_Unresolved)
next
  case (added_LeafBinary pre K i h)
  note node = stored_upto_node(1) [OF up added_LeafBinary.hyps(5,8), of leaf'] stored_upto_node(2) [OF up added_LeafBinary.hyps(5,8,7), of leaf']
  let ?n = "Binary (Some (ref_index ix (Index i))) (length pre) Leaf Leaf"
  have "resolve hgt (table_storage e tbl' leaf') (ref_index ix (Index i)) (length pre) = Inr ?n"
    using node(1) added_LeafBinary.hyps(1) by (auto simp: resolve_def)
  moreover have "repr H hgt (table_storage e tbl' leaf') Map.empty M (pre @ [b]) Leaf {pre @ [b]}" for b
    using added_LeafBinary by (cases b) (auto intro!: repr.repr_Leaf simp: table_storage_def)
  then have "repr H hgt (table_storage e tbl' leaf') Map.empty M pre ?n ({pre @ [False]} \<union> {pre @ [True]})"
    by (intro repr.repr_Binary) simp_all
  then have "repr H hgt (table_storage e tbl' leaf') Map.empty M pre ?n K"
    using added_LeafBinary.hyps(4) by (simp add: insert_commute)
  ultimately show ?case using node(2) added_LeafBinary.hyps(6) by (auto intro!: repr.repr_Unresolved)
next
  case (added_Edge p lo i pre c K h)
  note node = stored_upto_node(1) [OF up added_Edge.hyps(4,7), of leaf'] stored_upto_node(2) [OF up added_Edge.hyps(4,7,6), of leaf']
  let ?n = "Edge (Some (ref_index ix (Index i))) (length pre) p (Unresolved (ref_index ix c))"
  have "length pre < hgt" using added_repr_height [OF added_Edge.hyps(2)] added_Edge.hyps(1) by (cases p) auto
  then have "resolve hgt (table_storage e tbl' leaf') (ref_index ix (Index i)) (length pre) = Inr ?n"
    using node(1) by (simp add: resolve_def)
  moreover have "repr H hgt (table_storage e tbl' leaf') Map.empty M pre ?n K"
    using added_Edge.IH added_Edge.prems added_Edge.hyps(1,3) by (auto intro: repr.repr_Edge)
  ultimately show ?case using node(2) added_Edge.hyps(5) by (auto intro!: repr.repr_Unresolved)
next
  case (added_LeafEdge p pre K i h)
  note node = stored_upto_node(1) [OF up added_LeafEdge.hyps(5,8), of leaf'] stored_upto_node(2) [OF up added_LeafEdge.hyps(5,8,7), of leaf']
  let ?n = "Edge (Some (ref_index ix (Index i))) (length pre) p Leaf"
  have "length pre < hgt" using added_LeafEdge.hyps(1,2) by (cases p) auto
  then have "resolve hgt (table_storage e tbl' leaf') (ref_index ix (Index i)) (length pre) = Inr ?n"
    using node(1) by (simp add: resolve_def)
  moreover have "repr H hgt (table_storage e tbl' leaf') Map.empty M (pre @ p) Leaf {pre @ p}"
    using added_LeafEdge by (auto intro!: repr.repr_Leaf simp: table_storage_def)
  then have "repr H hgt (table_storage e tbl' leaf') Map.empty M pre ?n K"
    using added_LeafEdge.hyps(1,4) by (auto intro!: repr.repr_Edge simp: branching_def)
  ultimately show ?case using node(2) added_LeafEdge.hyps(6) by (auto intro!: repr.repr_Unresolved)
qed

text \<open>The root index that is recorded for an update, given the one before it.\<close>

definition new_root :: "trie_index option \<Rightarrow> root_index_update \<Rightarrow> trie_index option" where
  "new_root old u = (case u of Unchanged \<Rightarrow> old | Updated i \<Rightarrow> Some i | TrieEmpty \<Rightarrow> None)"

definition load_root :: "trie_index option \<Rightarrow> merkle_tree" where
  "load_root i = (case i of None \<Rightarrow> tree_empty | Some i \<Rightarrow> tree_new i)"

lemma table_storage_small:
  assumes "table_wf tbl" and "repr H hgt (table_storage e tbl leaf) L M pre (Unresolved idx) K"
  shows "idx \<le> i64_max"
  using assms(2)
proof (rule repr_UnresolvedE)
  fix n assume "resolve hgt (table_storage e tbl leaf) idx (length pre) = Inr n"
  then have "rows tbl idx \<noteq> None"
    by (auto simp: resolve_def table_storage_def tx_trie_node_def context_some_def split: if_splits option.splits)
  then show ?thesis using assms(1) by (auto simp: table_wf_def)
qed

lemma insert_nodes_card:
  "insert_nodes e added is ix rs = Inr (ix', rs') \<Longrightarrow> card (dom rs') \<le> card (dom rs) + length is"
proof (induction "is" arbitrary: ix rs)
  case (Cons idx "is")
  obtain hash node where "added ! idx = (hash, node)" by (cases "added ! idx")
  with Cons.prems obtain ix1 rowid row where "insert_nodes e added is ix1 (rs(rowid \<mapsto> row)) = Inr (ix', rs')"
    by (auto split: if_splits)
  moreover have "dom (rs(rowid \<mapsto> row)) = insert rowid (dom rs)" by simp
  ultimately have "card (dom rs') \<le> card (insert rowid (dom rs)) + length is" using Cons.IH by metis
  also have "\<dots> \<le> Suc (card (dom rs)) + length is" by (simp add: card_insert_if)
  finally show ?case by simp
qed simp

text \<open>What inserting an update leaves in the table: its nodes, each in a row of its own.\<close>

definition stored_update :: "engine \<Rightarrow> trie_update \<Rightarrow> trie_table \<Rightarrow> root_index_update \<Rightarrow> trie_table \<Rightarrow> bool" where
  "stored_update e u tbl upd tbl' \<longleftrightarrow> removals tbl' = removals tbl \<and>
     card (dom (rows tbl')) \<le> card (dom (rows tbl)) + length (nodes_added u) \<and>
     (if nodes_added u = [] then rows tbl' = rows tbl
      else \<exists>i ix. upd = Updated i \<and> ix (length (nodes_added u) - 1) = Some i \<and>
        stored_upto e (nodes_added u) (rows tbl) (length (nodes_added u)) ix (rows tbl'))"

context felt_valued_hash
begin

lemma persist_updated:
  assumes e: "engine_ok e" and wf: "table_wf tbl" and t: "tree_repr H hgt (table_storage e tbl leaf) t M"
    and "hgt \<le> 251" and root: "root t = Some n" "\<forall>idx. n \<noteq> Unresolved idx" and "n \<noteq> Leaf"
    and u: "commit H (table_storage e tbl leaf) t = Inr u"
    and room: "card (dom (rows tbl)) + length (nodes_added u) < 2 ^ 63"
  shows "\<exists>i tbl'. insert_added e u tbl = Inr (Updated i, tbl') \<and> rows tbl \<subseteq>\<^sub>m rows tbl' \<and> table_wf tbl' \<and>
    stored_update e u tbl (Updated i) tbl' \<and>
    (\<forall>leaf'. (\<forall>k \<in> dom M. leaf' k = Inr (M k)) \<longrightarrow> tree_repr H hgt (table_storage e tbl' leaf') (tree_new i) M)"
proof -
  let ?st = "table_storage e tbl leaf"
  have n: "repr H hgt ?st (leaves t) M [] n (dom M)" using t root(1) by (simp add: tree_repr_def)
  obtain ref new removed' where c: "commit_subtree H ?st (leaves t) n ([], []) [] =
      Inr ((subtree_hash H hgt (M |` dom M) [], Some ref), (new, removed'))"
    "added_repr H hgt ?st (leaves t) M new 0 (length new) [] ref (dom M)"
    using commit_subtree_added [OF n assms(4), of "[]" "[]"] \<open>n \<noteq> Leaf\<close> by auto
  obtain i where i: "ref = Index i" "length new = Suc i"
  proof (cases ref)
    case (StorageIndex idx)
    have "(case n of Unresolved j \<Rightarrow> True | _ \<Rightarrow> False)"
      using c(1) StorageIndex by (cases n) (auto simp: Let_def)
    then show ?thesis using root(2) by (cases n) auto
  qed (use c(2) added_repr_Index in blast)
  have new: "nodes_added u = new"
    using u root c(1) by (cases n) (auto simp: commit_def)
  have ok: "\<forall>j<length new. node_ok j (snd (new ! j))"
    using added_repr_node_ok [OF c(2) assms(4) table_storage_small [OF wf]] by simp
  have collect: "collect_to_insert (2 * length new + 2) new [Index (length new - 1)] [] = Inr (rev [0..<length new])"
    using collect_root [of H hgt ?st "leaves t" M new i "[]" "dom M"] c(2) i by simp
  have "stored_upto e new (rows tbl) 0 Map.empty (rows tbl)" by (simp add: stored_upto_def)
  then obtain ix rs where ins: "insert_nodes e new [0..<length new] Map.empty (rows tbl) = Inr (ix, rs)"
    "stored_upto e new (rows tbl) (length new) ix rs"
    using insert_nodes_stored [OF e ok, of "rows tbl" 0 Map.empty "rows tbl"] room new by auto
  then obtain k where k: "ix i = Some k" "ref_index ix ref = k"
    using i by (fastforce simp: stored_upto_def ref_index_def)
  let ?tbl = "tbl\<lparr> rows := rs \<rparr>"
  have run: "insert_added e u tbl = Inr (Updated k, ?tbl)"
  proof -
    have "new \<noteq> []" "ix (length new - 1) = Some k" using i(2) k(1) by auto
    then show ?thesis unfolding insert_added_def new Let_def collect by (simp add: ins(1))
  qed
  have le: "rows tbl \<subseteq>\<^sub>m rows ?tbl" using ins(2) by (simp add: stored_upto_def)
  have "\<forall>i \<in> dom rs - dom (rows tbl). i \<le> i64_max" using ins(2) by (simp add: stored_upto_def)
  then have "table_wf ?tbl" using wf by (auto simp: table_wf_def)
  moreover have "tree_repr H hgt (table_storage e ?tbl leaf') (tree_new k) M" if leaf': "\<forall>k \<in> dom M. leaf' k = Inr (M k)" for leaf'
  proof -
    have "repr H hgt (table_storage e ?tbl leaf') Map.empty M [] (Unresolved k) (dom M)"
      using stored_added_repr [OF c(2), of e "rows tbl" ix ?tbl leaf'] ins(2) table_storage_extends [OF le, of e leaf leaf'] leaf' k(2)
      by simp
    then show ?thesis by (simp add: tree_repr_def tree_new_def)
  qed
  moreover have "stored_update e u tbl (Updated k) ?tbl"
    using ins(2) i(2) k(1) new insert_nodes_card [OF ins(1)] by (auto simp: stored_update_def)
  ultimately show ?thesis using run le by blast
qed

end

end
