(* ===== verification/TriePersist.thy ===== *)
theory TriePersist
  imports TrieStorage_Correct
begin

text \<open>
  Trees across commits: where a tree comes from, what a sequence of writes makes of it, and that
  storing its update and loading the recorded root gives a tree that holds the same map.
\<close>

section \<open>Where a tree comes from\<close>

text \<open>
  A tree that was loaded from the root \<open>old\<close> is unresolved only while it is untouched, and
  once its root node is gone an index was recorded as removed.
\<close>

definition origin :: "trie_index option \<Rightarrow> merkle_tree \<Rightarrow> bool" where
  "origin old t \<longleftrightarrow>
     (\<forall>idx. root t = Some (Unresolved idx) \<longrightarrow> old = Some idx \<and> nodes_removed t = []) \<and>
     (old \<noteq> None \<longrightarrow> nodes_removed t \<noteq> [] \<or> (\<exists>n. root t = Some n \<and> storage_index n \<noteq> None))"

lemma load_root_origin: "origin old (load_root old)"
  by (cases old) (auto simp: origin_def load_root_def tree_empty_def tree_new_def storage_index_def)

lemma plug_frame_storage_index: "storage_index (plug_frame f n) = storage_index (plug_frame f n')"
  by (auto simp: plug_frame_def storage_index_def split: frame.split direction.split)

lemma plug_append: "plug (fs @ gs) n = plug gs (plug fs n)"
  by (induction fs arbitrary: n) auto

lemma plug_storage_index: "fs \<noteq> [] \<Longrightarrow> storage_index (plug fs n) = storage_index (plug fs n')"
proof (induction fs arbitrary: n n')
  case (Cons f fs)
  then show ?case using plug_frame_storage_index [of f n n'] by (cases fs) auto
qed simp

lemma plug_storage_index_cong: "storage_index n = storage_index n' \<Longrightarrow> storage_index (plug fs n) = storage_index (plug fs n')"
  by (cases fs) (auto simp del: plug.simps(2) intro: plug_storage_index)

lemma plug_not_unresolved: "\<forall>idx. n \<noteq> Unresolved idx \<Longrightarrow> plug fs n \<noteq> Unresolved idx"
proof (induction fs arbitrary: n)
  case (Cons f fs)
  have "\<forall>idx. plug_frame f n \<noteq> Unresolved idx" by (auto simp: plug_frame_def split: frame.split direction.split)
  then show ?case using Cons.IH by simp
qed simp

lemma resolve_storage_index: "resolve hgt st idx h = Inr n \<Longrightarrow> storage_index n = Some idx \<and> (\<forall>i. n \<noteq> Unresolved i)"
  by (auto simp: resolve_def storage_index_def context_some_def split: if_splits option.splits stored_node.splits)

lemma traverse_loop_root:
  "traverse_loop fuel hgt st dst height fs current = Inr (fs', node) \<Longrightarrow>
     storage_index (plug fs' node) = storage_index (plug fs current) \<and> (\<forall>i. node \<noteq> Unresolved i)"
proof (induction fuel hgt st dst height fs current rule: traverse_loop.induct)
  case (2 fuel hgt st dst height fs current)
  show ?case
  proof (cases current)
    case (Unresolved idx)
    then obtain n where n: "resolve hgt st idx height = Inr n" "traverse_loop fuel hgt st dst height fs n = Inr (fs', node)"
      using "2.prems" by auto
    have "storage_index n = storage_index current"
      using resolve_storage_index [OF n(1)] Unresolved by (simp add: storage_index_def)
    then show ?thesis using "2.IH"(1) [OF Unresolved n(2)] plug_storage_index_cong by metis
  next
    case (Binary si h left right)
    then obtain d where d: "traverse_loop fuel hgt st dst (height + 1)
        (BinaryFrame si h d (get_child left right (invert d)) # fs) (get_child left right d) = Inr (fs', node)"
      "binary_direction h dst = Inr d"
      using "2.prems" by auto
    have "plug_frame (BinaryFrame si h d (get_child left right (invert d))) (get_child left right d) = current"
      using Binary by (cases d) (simp_all add: plug_frame_def get_child_def invert_def)
    then show ?thesis using "2.IH"(2) [OF Binary d(1)] by simp
  next
    case (Edge si h path child)
    show ?thesis
    proof (cases "path_matches h path dst = Inr True")
      case True
      then have "traverse_loop fuel hgt st dst (height + length path) (EdgeFrame si h path # fs) child = Inr (fs', node)"
        using "2.prems" Edge by simp
      then show ?thesis using "2.IH"(3) [OF Edge True] Edge by (simp add: plug_frame_def)
    next
      case False
      then show ?thesis using "2.prems" Edge by (auto split: if_splits)
    qed
  next
    case Leaf
    then show ?thesis using "2.prems" by auto
  qed
qed simp

lemma traverse_root:
  assumes "traverse hgt st key t = Inr (Some (fs, node))"
  shows "\<exists>n. root t = Some n \<and> storage_index (plug fs node) = storage_index n \<and> (\<forall>i. node \<noteq> Unresolved i)"
proof -
  obtain n where "root t = Some n" "traverse_loop (2 * hgt + 2) hgt st key 0 [] n = Inr (fs, node)"
    using assms by (auto simp: traverse_def simp del: traverse_loop.simps split: option.splits)
  then show ?thesis using traverse_loop_root [of "2 * hgt + 2" hgt st key 0 "[]" n fs node] by simp
qed

lemma push_index_nonempty: "is \<noteq> [] \<or> i \<noteq> None \<Longrightarrow> push_index i is \<noteq> []"
  by (auto simp: push_index_def split: option.split)

lemma skip_to_binary_None:
  "skip_to_binary fs is = (None, is') \<Longrightarrow> is \<noteq> [] \<or> storage_index (plug fs Leaf) \<noteq> None \<Longrightarrow> is' \<noteq> []"
proof (induction fs "is" rule: skip_to_binary.induct)
  case (3 si h p fs removed)
  have "si = None \<Longrightarrow> removed = [] \<Longrightarrow> storage_index (plug fs Leaf) \<noteq> None"
    using 3(3) plug_storage_index_cong [of "Edge si h p Leaf" Leaf fs] by (auto simp: plug_frame_def storage_index_def)
  then show ?case using 3(1,2) push_index_nonempty by (cases si; cases removed) auto
qed (auto simp: storage_index_def)

lemma skip_to_binary_Some:
  assumes "skip_to_binary fs is = (Some (f, upper), is')"
  shows "\<exists>below. fs = below @ f # upper \<and> (\<exists>si h d other. f = BinaryFrame si h d other)"
  using assms
proof (induction fs "is" rule: skip_to_binary.induct)
  case (3 si h p fs removed)
  from 3(2) have "skip_to_binary fs (push_index si removed) = (Some (f, upper), is')" by simp
  from 3(1) [OF this] obtain below where "fs = below @ f # upper" "\<exists>si h d other. f = BinaryFrame si h d other" by blast
  then show ?case by (intro exI [of _ "EdgeFrame si h p # below"]) simp
qed auto

lemma merge_edges_removed:
  "merge_edges hgt st height path child removed = Inr (p, c, removed') \<Longrightarrow> \<exists>ys. removed' = removed @ ys"
  by (auto simp: merge_edges_def push_index_def split: option.splits)

lemma delete_branch_root:
  assumes "delete_branch hgt st key (BinaryFrame si h d other) below fs removed = Inr (n, removed')"
  shows "(\<forall>i. n \<noteq> Unresolved i) \<and> (\<exists>ys. removed' = removed @ ys) \<and>
    (removed' \<noteq> [] \<or> storage_index n = storage_index (plug fs (plug_frame (BinaryFrame si h d other) below)))"
proof -
  let ?old = "plug_frame (BinaryFrame si h d other) below"
  have old: "storage_index ?old = si" by (cases d) (simp_all add: plug_frame_def storage_index_def)
  obtain left right d' where "as_binary ?old = Some (si, h, left, right)" "binary_direction h key = Inr d'"
    using assms by (cases d) (auto simp: delete_branch_def plug_frame_def as_binary_def)
  then obtain path c ys where m: "merge_edges hgt st h [bool_of_direction (invert d')] (get_child left right (invert d')) removed
        = Inr (path, c, removed @ ys)"
    and rest: "(case fs of
          EdgeFrame psi ph pp # upper \<Rightarrow>
            bind_outcome (merge_edges hgt st ph pp (Edge None h path c) (push_index si (removed @ ys))) (\<lambda>(pp, c, removed).
              Inr (plug upper (Edge psi ph pp c), removed))
        | _ \<Rightarrow> Inr (plug fs (Edge None h path c), push_index si (removed @ ys))) = Inr (n, removed')"
  proof -
    assume a: "as_binary ?old = Some (si, h, left, right)" "binary_direction h key = Inr d'"
    then obtain path c r where "merge_edges hgt st h [bool_of_direction (invert d')] (get_child left right (invert d')) removed
        = Inr (path, c, r)" using assms by (auto simp: delete_branch_def Let_def)
    moreover from this obtain ys where "r = removed @ ys" using merge_edges_removed by blast
    ultimately show thesis using assms that a by (simp add: delete_branch_def Let_def)
  qed
  show ?thesis
  proof (cases "\<exists>psi ph pp upper. fs = EdgeFrame psi ph pp # upper")
    case True
    then obtain psi ph pp upper where fs: "fs = EdgeFrame psi ph pp # upper" by blast
    with rest obtain pp' c' where "merge_edges hgt st ph pp (Edge None h path c) (push_index si (removed @ ys)) = Inr (pp', c', removed')"
      and n: "n = plug upper (Edge psi ph pp' c')" by auto
    then obtain zs where "removed' = push_index si (removed @ ys) @ zs" using merge_edges_removed by blast
    moreover have "storage_index n = storage_index (plug fs ?old)"
      unfolding n fs plug.simps by (rule plug_storage_index_cong) (simp add: plug_frame_def storage_index_def)
    ultimately show ?thesis using n plug_not_unresolved by (auto simp: push_index_def split: option.splits)
  next
    case False
    then have n: "n = plug fs (Edge None h path c)" and r: "removed' = push_index si (removed @ ys)"
      using rest by (cases fs; auto split: frame.splits)+
    have "storage_index n = storage_index (plug fs ?old)" if "si = None"
      unfolding n by (rule plug_storage_index_cong) (use that old in \<open>simp add: storage_index_def\<close>)
    then show ?thesis using n r plug_not_unresolved by (auto simp: push_index_def split: option.splits)
  qed
qed

lemma delete_leaf_origin:
  assumes o: "origin old t" and "delete_leaf hgt st key t = Inr t'"
  shows "origin old t'"
proof (cases "traverse hgt st key t = Inr None")
  case False
  then obtain fs node where tr: "traverse hgt st key t = Inr (Some (fs, node))"
    using assms(2) by (auto simp: delete_leaf_def split: option.splits)
  from traverse_root [OF tr] obtain n where n: "root t = Some n"
    "storage_index (plug fs node) = storage_index n" "\<forall>i. node \<noteq> Unresolved i" by blast
  have gone: "old \<noteq> None \<Longrightarrow> nodes_removed t \<noteq> [] \<or> storage_index (plug fs node) \<noteq> None"
    using o n by (auto simp: origin_def)
  show ?thesis
  proof (cases "node = Leaf")
    case False
    then have "t' = t\<lparr> root := Some (plug fs node) \<rparr>" using assms(2) tr by (simp add: delete_leaf_def)
    then show ?thesis using gone plug_not_unresolved [OF n(3)] by (simp add: origin_def)
  next
    case True
    show ?thesis
    proof (cases "fst (skip_to_binary fs [])")
      case None
      then obtain is' where skip: "skip_to_binary fs [] = (None, is')" by (cases "skip_to_binary fs []") auto
      then have "t' = t\<lparr> root := None, nodes_removed := nodes_removed t @ is' \<rparr>"
        using assms(2) tr True by (simp add: delete_leaf_def)
      then show ?thesis using skip_to_binary_None [OF skip] gone True by (auto simp: origin_def)
    next
      case (Some fu)
      then obtain f upper is' where skip: "skip_to_binary fs [] = (Some (f, upper), is')"
        by (cases "skip_to_binary fs []"; cases fu) auto
      then obtain below si h d other where fs: "fs = below @ f # upper" and f: "f = BinaryFrame si h d other"
        using skip_to_binary_Some by blast
      obtain m removed where db: "delete_branch hgt st key f node upper (nodes_removed t) = Inr (m, removed)"
        and t': "t' = t\<lparr> root := Some m, nodes_removed := removed @ is' \<rparr>"
        using assms(2) tr True skip by (auto simp: delete_leaf_def)
      have "storage_index (plug fs node) = storage_index (plug upper (plug_frame f node))"
        unfolding fs plug_append plug.simps by (rule plug_storage_index_cong) (rule plug_frame_storage_index)
      then show ?thesis using delete_branch_root [OF db [unfolded f]] gone f t' by (auto simp: origin_def)
    qed
  qed
next
  case True
  then show ?thesis using assms by (simp add: delete_leaf_def)
qed

lemma tree_set_origin:
  assumes o: "origin old t" and "tree_set hgt st key v t = Inr t'"
  shows "origin old t'"
proof (cases "v = felt_ZERO")
  case True
  then show ?thesis using assms delete_leaf_origin by (simp add: tree_set_def)
next
  case False
  show ?thesis
  proof (cases "traverse hgt st key t = Inr None")
    case True
    then have "root t = None" by (auto simp: traverse_def split: option.splits)
    then have "old \<noteq> None \<Longrightarrow> nodes_removed t \<noteq> []" using o by (simp add: origin_def)
    then show ?thesis using assms(2) False True by (auto simp: tree_set_def origin_def)
  next
    case 2: False
    then obtain fs node where tr: "traverse hgt st key t = Inr (Some (fs, node))"
      using assms(2) False by (auto simp: tree_set_def split: option.splits)
    from traverse_root [OF tr] obtain n where n: "root t = Some n"
      "storage_index (plug fs node) = storage_index n" "\<forall>i. node \<noteq> Unresolved i" by blast
    obtain updated where up: "set_node node key = Inr updated"
      and t': "t' = t\<lparr> root := Some (plug fs updated), nodes_removed := push_index (storage_index node) (nodes_removed t),
        leaves := (leaves t)(key \<mapsto> v) \<rparr>"
      using assms(2) False tr by (auto simp: tree_set_def)
    have "\<forall>i. updated \<noteq> Unresolved i"
      using up by (auto simp: set_node_def split_edge_def Let_def split: internal_node.splits if_splits direction.splits)
    moreover have "push_index (storage_index node) (nodes_removed t) \<noteq> [] \<or> storage_index (plug fs updated) \<noteq> None" if "old \<noteq> None"
    proof (cases "nodes_removed t \<noteq> [] \<or> storage_index node \<noteq> None")
      case False
      then have "storage_index n \<noteq> None" "fs \<noteq> []" using that o n by (auto simp: origin_def)
      then show ?thesis using n(2) plug_storage_index [of fs node updated] by simp
    qed (use push_index_nonempty in blast)
    ultimately show ?thesis using t' plug_not_unresolved by (auto simp: origin_def)
  qed
qed

section \<open>A sequence of writes, persisted\<close>

text \<open>The map after a sequence of writes: zero deletes a key.\<close>

fun apply_updates :: "(trie_path \<rightharpoonup> felt) \<Rightarrow> (trie_path \<times> felt) list \<Rightarrow> (trie_path \<rightharpoonup> felt)" where
  "apply_updates M [] = M"
| "apply_updates M ((key, value) # updates) =
     apply_updates (M(key := if value = felt_ZERO then None else Some value)) updates"

lemma tree_set_map:
  assumes "tree_repr H hgt st t M" and "length key = hgt" and "0 < hgt"
  shows "\<exists>t'. tree_set hgt st key v t = Inr t' \<and>
    tree_repr H hgt st t' (M(key := if v = felt_ZERO then None else Some v))"
proof (cases "v = felt_ZERO")
  case True
  then show ?thesis using delete_leaf_repr [OF assms(1,2)] by (simp add: tree_set_def)
qed (use tree_set_repr [OF assms] in simp)

lemma tree_set_all_repr:
  assumes "tree_repr H hgt st t M" and "\<forall>(key, value) \<in> set updates. length key = hgt" and "0 < hgt" and "origin old t"
  shows "\<exists>t'. tree_set_all hgt st updates t = Inr t' \<and> tree_repr H hgt st t' (apply_updates M updates) \<and> origin old t'"
  using assms
proof (induction updates arbitrary: t M)
  case (Cons kv updates)
  obtain key v where kv: "kv = (key, v)" by (cases kv)
  obtain t1 where "tree_set hgt st key v t = Inr t1"
    "tree_repr H hgt st t1 (M(key := if v = felt_ZERO then None else Some v))"
    using tree_set_map [OF Cons.prems(1), of key v] Cons.prems(2,3) kv by auto
  moreover from this have "origin old t1" using tree_set_origin Cons.prems(4) by blast
  ultimately show ?case using Cons.IH [of t1] Cons.prems(2,3) kv by auto
qed simp

lemma tree_empty_repr: "tree_repr H hgt st tree_empty Map.empty"
  by (simp add: tree_repr_def tree_empty_def)

context felt_valued_hash
begin

lemma persist_commit:
  assumes e: "engine_ok e" and wf: "table_wf tbl" and t: "tree_repr H hgt (table_storage e tbl leaf) t M"
    and "hgt \<le> 251" and "0 < hgt" and o: "origin old t"
    and u: "commit H (table_storage e tbl leaf) t = Inr u"
    and room: "card (dom (rows tbl)) + length (nodes_added u) < 2 ^ 63"
  shows "\<exists>upd tbl'. insert_trie e Archive u block tbl = Inr (upd, tbl') \<and> rows tbl \<subseteq>\<^sub>m rows tbl' \<and> table_wf tbl' \<and>
    stored_update e u tbl upd tbl' \<and>
    (\<forall>leaf'. (\<forall>k \<in> dom M. leaf' k = Inr (M k)) \<longrightarrow>
      tree_repr H hgt (table_storage e tbl' leaf') (load_root (new_root old upd)) M)"
proof (cases "root t")
  case None
  then have M: "M = Map.empty" and u': "nodes_added u = []" "root_commitment u = felt_ZERO" "update_nodes_removed u = nodes_removed t"
    using t u by (auto simp: tree_repr_def commit_def)
  have "load_root (new_root old (if nodes_removed t \<noteq> [] then TrieEmpty else Unchanged)) = tree_empty"
    using o None by (cases old) (auto simp: origin_def new_root_def load_root_def)
  then show ?thesis using u' wf by (auto simp: M insert_trie_def insert_added_def felt_is_zero_def tree_empty_repr stored_update_def)
next
  case (Some n)
  then have n: "repr H hgt (table_storage e tbl leaf) (leaves t) M [] n (dom M)" using t by (simp add: tree_repr_def)
  show ?thesis
  proof (cases "\<exists>idx. n = Unresolved idx")
    case True
    then obtain idx where idx: "n = Unresolved idx" ..
    then have old: "old = Some idx" "nodes_removed t = []" using o Some by (auto simp: origin_def)
    then have "nodes_added u = []" "update_nodes_removed u = []" using u Some idx by (auto simp: commit_def)
    then have run: "insert_trie e Archive u block tbl = Inr (Unchanged, tbl)"
      "stored_update e u tbl Unchanged tbl" by (simp_all add: insert_trie_def insert_added_def stored_update_def)
    have "tree_repr H hgt (table_storage e tbl leaf') (tree_new idx) M" if "\<forall>k \<in> dom M. leaf' k = Inr (M k)" for leaf'
    proof -
      have "extends_storage (table_storage e tbl leaf) (table_storage e tbl leaf')" by (rule table_storage_extends) simp
      from repr_extends [OF n this] that show ?thesis by (simp add: idx tree_repr_def tree_new_def table_storage_def)
    qed
    then show ?thesis using run wf by (auto simp: new_root_def load_root_def old(1))
  next
    case False
    have "n \<noteq> Leaf" using n \<open>0 < hgt\<close> by (auto elim: repr_LeafE)
    from persist_updated [OF e wf t assms(4) Some _ this u room] False
    obtain i tbl' where "insert_added e u tbl = Inr (Updated i, tbl')" "rows tbl \<subseteq>\<^sub>m rows tbl'" "table_wf tbl'"
      "stored_update e u tbl (Updated i) tbl'" "\<forall>leaf'. (\<forall>k \<in> dom M. leaf' k = Inr (M k)) \<longrightarrow> tree_repr H hgt (table_storage e tbl' leaf') (tree_new i) M" by blast
    then show ?thesis by (auto simp: insert_trie_def new_root_def load_root_def)
  qed
qed

end

section \<open>The size of an update\<close>

fun node_count :: "internal_node \<Rightarrow> nat" where
  "node_count (Binary si h l r) = Suc (node_count l + node_count r)"
| "node_count (Edge si h p c) = Suc (node_count c)"
| "node_count n = 0"

lemma commit_subtree_length:
  "commit_subtree H st L n s pre = Inr ((h, r), s') \<Longrightarrow> length (fst s') \<le> length (fst s) + node_count n"
proof (induction n arbitrary: s pre h r s')
  case (Binary si height left right)
  from Binary.prems obtain hl rl sl hr rr sr where
    "commit_subtree H st L left s (pre @ [bool_of_direction Left]) = Inr ((hl, rl), sl)"
    "commit_subtree H st L right sl (pre @ [bool_of_direction Right]) = Inr ((hr, rr), sr)"
    "length (fst s') = Suc (length (fst sr))"
    by (auto simp: Let_def)
  then show ?case using Binary.IH(1) [of s _ hl rl sl] Binary.IH(2) [of sl _ hr rr sr] by fastforce
next
  case (Edge si height path child)
  from Edge.prems obtain hc rc sc where "commit_subtree H st L child s (pre @ path) = Inr ((hc, rc), sc)"
    "length (fst s') = Suc (length (fst sc))"
    by (auto simp: Let_def)
  then show ?case using Edge.IH [of s _ hc rc sc] by fastforce
qed auto

lemma commit_length:
  assumes "commit H st t = Inr u" and "root t = Some n"
  shows "length (nodes_added u) \<le> node_count n"
proof (cases "\<exists>idx. n = Unresolved idx")
  case False
  then obtain h r s' where "commit_subtree H st (leaves t) n ([], []) [] = Inr ((h, r), s')" "nodes_added u = fst s'"
    using assms by (cases n) (auto simp: commit_def)
  then show ?thesis using commit_subtree_length by fastforce
qed (use assms in \<open>auto simp: commit_def\<close>)

end
