(* ===== verification/TrieRoots.thy ===== *)
theory TrieRoots
  imports TrieStorage_Correct
begin

text \<open>
  The tables of roots by block and the tables of removed nodes: which root a block has after an
  insertion, which blocks are kept, and what pruning and coalescing do.
\<close>

section \<open>Roots by block\<close>

lemma latest_row_None [simp]: "latest_row rs = None \<longleftrightarrow> rs = []"
  by (cases rs) (auto split: option.splits)

lemma latest_row_Some:
  "latest_row rs = Some r \<Longrightarrow> r \<in> set rs \<and> (\<forall>s \<in> set rs. fst s \<le> fst r)"
proof (induction rs arbitrary: r)
  case (Cons a rs)
  show ?case
  proof (cases "latest_row rs")
    case (Some s)
    then show ?thesis using Cons.prems Cons.IH [OF Some] by (fastforce split: if_splits)
  qed (use Cons.prems in auto)
qed simp

lemma latest_row_filter:
  assumes "latest_row rs = Some r" and "\<forall>s \<in> set rs. fst s = fst r \<longrightarrow> P s"
  shows "latest_row (filter P rs) = Some r"
  using assms
proof (induction rs arbitrary: r)
  case (Cons a rs)
  show ?case
  proof (cases "latest_row rs")
    case None
    then show ?thesis using Cons.prems by simp
  next
    case (Some s)
    show ?thesis
    proof (cases "fst a \<le> fst s")
      case True
      then have "latest_row (filter P rs) = Some r" using Cons Some by simp
      then show ?thesis using True Some Cons.prems(1) by simp
    next
      case False
      then have r: "r = a" using Cons.prems(1) Some by simp
      have "fst t < fst a" if "latest_row (filter P rs) = Some t" for t
        using latest_row_Some [OF that] latest_row_Some [OF Some] False by fastforce
      then show ?thesis using Cons.prems(2) r by (cases "latest_row (filter P rs)") auto
    qed
  qed
qed simp

lemma latest_row_snoc: "\<forall>s \<in> set rs. fst s \<le> fst r \<Longrightarrow> latest_row (rs @ [r]) = Some r"
  by (induction rs) auto

lemma latest_at_insert: "latest_at block (insert_or_replace block v tbl) = Some (block, v)"
  unfolding latest_at_def insert_or_replace_def by (simp, rule latest_row_snoc) auto

lemma latest_at_insert_older: "b < block \<Longrightarrow> latest_at b (insert_or_replace block v tbl) = latest_at b tbl"
proof -
  assume "b < block"
  then have "filter (\<lambda>(n, _). n \<le> b) (filter (\<lambda>(n, _). n \<noteq> block) tbl) = filter (\<lambda>(n, _). n \<le> b) tbl"
    unfolding filter_filter by (intro filter_cong) auto
  moreover have "\<not> block \<le> b" using \<open>b < block\<close> by simp
  ultimately show ?thesis by (simp add: latest_at_def insert_or_replace_def del: filter_filter)
qed

lemma latest_at_delete_roots:
  assumes "before \<le> b"
  shows "latest_at b (delete_roots before tbl) = latest_at b tbl"
proof (cases "latest_at before tbl")
  case (Some r)
  obtain last w where r: "r = (last, w)" by (cases r)
  have last: "(last, w) \<in> set tbl" "last \<le> before"
    using latest_row_Some Some r unfolding latest_at_def by fastforce+
  then have in_b: "(last, w) \<in> set (filter (\<lambda>(n, _). n \<le> b) tbl)" using assms by auto
  then obtain s where s: "latest_row (filter (\<lambda>(n, _). n \<le> b) tbl) = Some s"
    using latest_row_None by (metis empty_iff list.set(1) not_Some_eq)
  then have "last \<le> fst s" using latest_row_Some [OF s] in_b by fastforce
  then have "latest_row (filter (\<lambda>(n, _). \<not> n < last) (filter (\<lambda>(n, _). n \<le> b) tbl)) = Some s"
    by (intro latest_row_filter [OF s]) auto
  moreover have "filter (\<lambda>(n, _). n \<le> b) (filter (\<lambda>(n, _). \<not> n < last) tbl)
      = filter (\<lambda>(n, _). \<not> n < last) (filter (\<lambda>(n, _). n \<le> b) tbl)"
    unfolding filter_filter by (intro filter_cong) auto
  ultimately show ?thesis using Some r s by (simp add: latest_at_def delete_roots_def)
qed (simp add: delete_roots_def)

definition kept :: "trie_prune_mode \<Rightarrow> block_number \<Rightarrow> block_number \<Rightarrow> bool" where
  "kept mode head b = (case mode of Archive \<Rightarrow> True | Prune n \<Rightarrow> n \<le> head \<longrightarrow> head - n \<le> b)"

lemma latest_at_insert_by_block:
  assumes "kept mode block b" and "b \<le> block"
  shows "latest_at b (insert_by_block mode block v tbl) = (if b = block then Some (block, v) else latest_at b tbl)"
proof -
  have "latest_at b (insert_by_block mode block v tbl) = latest_at b (insert_or_replace block v tbl)"
    using assms(1) by (auto simp: insert_by_block_def kept_def block_checked_sub_def Let_def latest_at_delete_roots
      split: trie_prune_mode.splits)
  then show ?thesis using assms(2) latest_at_insert latest_at_insert_older [of b block v tbl] by auto
qed

lemma root_index_at_insert_root:
  assumes "kept mode block b" and "b \<le> block"
  shows "root_index_at b (insert_root mode block upd tbl) =
    (if b = block then new_root (root_index_at block tbl) upd else root_index_at b tbl)"
proof -
  have "root_index_at b (insert_by_block mode block v tbl) = (if b = block then v else root_index_at b tbl)" for v
    unfolding root_index_at_def latest_at_insert_by_block [OF assms] by simp
  then show ?thesis by (auto simp: insert_root_def new_root_def split: root_index_update.splits)
qed

section \<open>Pruning\<close>

text \<open>The indices marked for removal in the blocks that satisfy \<open>P\<close>.\<close>

definition blob_indices :: "engine \<Rightarrow> (block_number \<times> u8 list) list \<Rightarrow> trie_index set" where
  "blob_indices e ms = (\<Union>(n, blob) \<in> set ms. case decode_indices e blob of None \<Rightarrow> {} | Some is \<Rightarrow> set is)"

definition marked :: "engine \<Rightarrow> (block_number \<Rightarrow> bool) \<Rightarrow> trie_table \<Rightarrow> trie_index set" where
  "marked e P tbl = blob_indices e (filter (\<lambda>(n, _). P n) (removals tbl))"

definition removals_ok :: "engine \<Rightarrow> trie_table \<Rightarrow> bool" where
  "removals_ok e tbl \<longleftrightarrow> (\<forall>(n, blob) \<in> set (removals tbl). \<exists>is. decode_indices e blob = Some is \<and> (\<forall>i \<in> set is. i \<le> i64_max))"

lemma delete_indices_eq: "\<forall>i \<in> set is. i \<le> i64_max \<Longrightarrow> delete_indices is rs = Inr (rs |` (- set is))"
proof (induction "is" arbitrary: rs)
  case (Cons i "is")
  then show ?case by (auto simp: try_into_sql_int_def restrict_map_def fun_eq_iff)
qed (simp add: restrict_map_def)

lemma delete_marked_eq:
  assumes "\<forall>(n, blob) \<in> set ms. \<exists>is. decode_indices e blob = Some is \<and> (\<forall>i \<in> set is. i \<le> i64_max)"
  shows "delete_marked e ms rs = Inr (rs |` (- blob_indices e ms))"
  using assms
proof (induction ms arbitrary: rs)
  case (Cons m ms)
  obtain n blob where m: "m = (n, blob)" by (cases m)
  obtain "is" where "is": "decode_indices e blob = Some is" "\<forall>i \<in> set is. i \<le> i64_max" using Cons.prems m by auto
  have "delete_marked e (m # ms) rs = delete_marked e ms (rs |` (- set is))"
    using "is" by (simp add: m delete_indices_eq)
  also have "\<dots> = Inr ((rs |` (- set is)) |` (- blob_indices e ms))"
    by (rule Cons.IH) (use Cons.prems in simp)
  also have "\<dots> = Inr (rs |` (- blob_indices e (m # ms)))"
    using "is"(1) by (simp add: m blob_indices_def)
  finally show ?case .
qed (simp add: restrict_map_def blob_indices_def)

lemma prune_trie_eq:
  assumes "removals_ok e tbl" and "num \<le> block"
  shows "\<exists>tbl'. prune_trie e block num tbl = Inr tbl' \<and>
    rows tbl' = rows tbl |` (- marked e (\<lambda>n. n < block - num) tbl) \<and>
    removals tbl' = filter (\<lambda>(n, _). \<not> n < block - num) (removals tbl) \<and> removals_ok e tbl'"
proof -
  have "delete_marked e (filter (\<lambda>(n, _). n < block - num) (removals tbl)) (rows tbl)
      = Inr (rows tbl |` (- marked e (\<lambda>n. n < block - num) tbl))"
    unfolding marked_def by (rule delete_marked_eq) (use assms(1) in \<open>auto simp: removals_ok_def\<close>)
  then show ?thesis using assms by (auto simp: prune_trie_def block_checked_sub_def removals_ok_def)
qed

lemma remove_trie_ok:
  assumes "engine_ok e" and "removals_ok e tbl" and "\<forall>i \<in> set removed. i \<le> i64_max"
  shows "removals_ok e (remove_trie e removed block tbl)"
    and "marked e P (remove_trie e removed block tbl) = marked e P tbl \<union> (if P block then set removed else {})"
  using assms by (auto simp: remove_trie_def removals_ok_def engine_ok_def marked_def blob_indices_def)

lemma coalesce_removed_ok:
  assumes "removals_ok e tbl"
  shows "removals_ok e (coalesce_removed_trie_nodes target tbl)"
    and "marked e (\<lambda>_. True) (coalesce_removed_trie_nodes target tbl) = marked e (\<lambda>_. True) tbl"
    and "marked e (\<lambda>n. target < n) (coalesce_removed_trie_nodes target tbl) = {}"
proof -
  show "removals_ok e (coalesce_removed_trie_nodes target tbl)"
    using assms by (auto simp: coalesce_removed_trie_nodes_def removals_ok_def)
  show "marked e (\<lambda>_. True) (coalesce_removed_trie_nodes target tbl) = marked e (\<lambda>_. True) tbl"
    by (auto simp: coalesce_removed_trie_nodes_def marked_def blob_indices_def split: prod.splits)
  show "marked e (\<lambda>n. target < n) (coalesce_removed_trie_nodes target tbl) = {}"
    by (auto simp: coalesce_removed_trie_nodes_def marked_def blob_indices_def split: prod.splits if_splits)
qed

end
