(* ===== verification/TrieOwned.thy ===== *)
theory TrieOwned
  imports TriePersist TrieRoots "HOL-Library.Multiset"
begin

text \<open>
  Which stored nodes a tree in memory stands for, and that every write to the tree conserves them:
  each stored node is still part of the tree or recorded as removed, exactly once.
\<close>

section \<open>The stored nodes of a tree\<close>

definition idx_mset :: "trie_index option \<Rightarrow> trie_index multiset" where
  "idx_mset i = (case i of None \<Rightarrow> {#} | Some i \<Rightarrow> {#i#})"

definition stored_view :: "trie_index \<Rightarrow> stored_node \<Rightarrow> internal_node" where
  "stored_view idx s = (case s of
       StoredBinary l r \<Rightarrow> Binary (Some idx) 0 (Unresolved l) (Unresolved r)
     | StoredEdge c p \<Rightarrow> Edge (Some idx) 0 p (Unresolved c)
     | StoredLeafBinary \<Rightarrow> Binary (Some idx) 0 Leaf Leaf
     | StoredLeafEdge p \<Rightarrow> Edge (Some idx) 0 p Leaf)"

text \<open>
  \<open>owned st n X\<close>: \<open>X\<close> are the indices of the stored nodes that the node \<open>n\<close> stands for, those it
  was resolved from and those below its unresolved parts, each as often as it occurs.
\<close>

inductive owned :: "storage \<Rightarrow> internal_node \<Rightarrow> trie_index multiset \<Rightarrow> bool" for st where
  owned_Leaf: "owned st Leaf {#}"
| owned_Binary: "owned st l A \<Longrightarrow> owned st r B \<Longrightarrow> X = idx_mset si + A + B \<Longrightarrow> owned st (Binary si h l r) X"
| owned_Edge: "owned st c A \<Longrightarrow> X = idx_mset si + A \<Longrightarrow> owned st (Edge si h p c) X"
| owned_Unresolved: "st_get st idx = Inr (Some s) \<Longrightarrow> owned st (stored_view idx s) X \<Longrightarrow> owned st (Unresolved idx) X"

inductive_cases owned_UnresolvedE: "owned st (Unresolved idx) X"
inductive_simps owned_simps: "owned st Leaf X" "owned st (Binary si h l r) X" "owned st (Edge si h p c) X"

lemma owned_resolve:
  assumes "resolve hgt st idx h = Inr n" and "owned st (Unresolved idx) X"
  shows "owned st n X"
proof -
  from assms(2) obtain s where s: "st_get st idx = Inr (Some s)" "owned st (stored_view idx s) X"
    by (auto elim: owned_UnresolvedE)
  then show ?thesis using assms(1)
    by (cases s) (auto simp: resolve_def stored_view_def owned_simps split: if_splits, blast)
qed

text \<open>The indices of the frames above a node.\<close>

inductive frames_owned :: "storage \<Rightarrow> frame list \<Rightarrow> trie_index multiset \<Rightarrow> bool" for st where
  frames_owned_Nil: "frames_owned st [] {#}"
| frames_owned_Binary: "owned st other A \<Longrightarrow> frames_owned st fs F \<Longrightarrow> X = idx_mset si + A + F
     \<Longrightarrow> frames_owned st (BinaryFrame si h d other # fs) X"
| frames_owned_Edge: "frames_owned st fs F \<Longrightarrow> X = idx_mset si + F \<Longrightarrow> frames_owned st (EdgeFrame si h p # fs) X"

inductive_simps frames_owned_simps:
  "frames_owned st [] X" "frames_owned st (BinaryFrame si h d other # fs) X" "frames_owned st (EdgeFrame si h p # fs) X"

lemma plug_owned: "frames_owned st fs F \<Longrightarrow> owned st n X \<Longrightarrow> owned st (plug fs n) (F + X)"
proof (induction arbitrary: n X rule: frames_owned.induct)
  case (frames_owned_Binary other A fs F Y si h d)
  have "owned st (plug_frame (BinaryFrame si h d other) n) (idx_mset si + A + X)"
    using frames_owned_Binary.hyps(1) frames_owned_Binary.prems
    by (cases d) (auto simp: plug_frame_def owned_simps ac_simps intro: exI)
  then show ?case using frames_owned_Binary.IH frames_owned_Binary.hyps(3) by (fastforce simp: ac_simps)
next
  case (frames_owned_Edge fs F Y si h p)
  have "owned st (plug_frame (EdgeFrame si h p) n) (idx_mset si + X)"
    using frames_owned_Edge.prems by (auto simp: plug_frame_def owned_simps)
  then show ?case using frames_owned_Edge.IH frames_owned_Edge.hyps(2) by (fastforce simp: ac_simps)
qed simp

fun directed :: "trie_path \<Rightarrow> frame list \<Rightarrow> bool" where
  "directed key [] = True"
| "directed key (BinaryFrame si h d other # fs) = (binary_direction h key = Inr d \<and> directed key fs)"
| "directed key (EdgeFrame si h p # fs) = directed key fs"

lemma traverse_loop_owned:
  assumes "traverse_loop fuel hgt st dst height fs cur = Inr (fs', node)"
    and "frames_owned st fs F" and "owned st cur X" and "directed dst fs"
  shows "\<exists>F' X'. frames_owned st fs' F' \<and> owned st node X' \<and> F' + X' = F + X \<and> directed dst fs'"
  using assms
proof (induction fuel hgt st dst height fs cur arbitrary: F X rule: traverse_loop.induct)
  case (2 fuel hgt st dst height fs cur)
  show ?case
  proof (cases cur)
    case (Unresolved idx)
    then obtain n where n: "resolve hgt st idx height = Inr n" "traverse_loop fuel hgt st dst height fs n = Inr (fs', node)"
      using "2.prems"(1) by auto
    have "owned st n X" using owned_resolve [OF n(1)] "2.prems"(3) Unresolved by simp
    then show ?thesis using "2.IH"(1) [OF Unresolved n(2)] "2.prems"(2,4) by blast
  next
    case (Binary si h left right)
    then obtain d where d: "binary_direction h dst = Inr d" "traverse_loop fuel hgt st dst (height + 1)
        (BinaryFrame si h d (get_child left right (invert d)) # fs) (get_child left right d) = Inr (fs', node)"
      using "2.prems"(1) by auto
    obtain A B where AB: "owned st (get_child left right d) A" "owned st (get_child left right (invert d)) B" "X = idx_mset si + A + B"
      using "2.prems"(3) Binary by (cases d) (auto simp: owned_simps get_child_def invert_def ac_simps)
    have "frames_owned st (BinaryFrame si h d (get_child left right (invert d)) # fs) (idx_mset si + B + F)"
      using AB(2) "2.prems"(2) by (auto intro: frames_owned.intros)
    from "2.IH"(2) [OF Binary d(2) this AB(1)] show ?thesis using d(1) "2.prems"(4) AB(3) by (simp add: ac_simps)
  next
    case (Edge si h path child)
    show ?thesis
    proof (cases "path_matches h path dst = Inr True")
      case True
      then have loop: "traverse_loop fuel hgt st dst (height + length path) (EdgeFrame si h path # fs) child = Inr (fs', node)"
        using "2.prems"(1) Edge by simp
      obtain A where A: "owned st child A" "X = idx_mset si + A" using "2.prems"(3) Edge by (auto simp: owned_simps)
      have "frames_owned st (EdgeFrame si h path # fs) (idx_mset si + F)" using "2.prems"(2) by (auto intro: frames_owned.intros)
      from "2.IH"(3) [OF Edge True loop this A(1)] show ?thesis using "2.prems"(4) A(2) by (simp add: ac_simps)
    next
      case False
      then show ?thesis using "2.prems" Edge by (auto split: if_splits)
    qed
  next
    case Leaf
    then show ?thesis using "2.prems" by auto
  qed
qed simp

lemma traverse_owned:
  assumes "traverse hgt st key t = Inr (Some (fs, node))" and "root t = Some n" and "owned st n X"
  shows "\<exists>F Y. frames_owned st fs F \<and> owned st node Y \<and> F + Y = X \<and> directed key fs"
proof -
  have "traverse_loop (2 * hgt + 2) hgt st key 0 [] n = Inr (fs, node)"
    using assms(1,2) by (auto simp: traverse_def simp del: traverse_loop.simps)
  from traverse_loop_owned [OF this frames_owned_Nil assms(3)] show ?thesis by simp
qed

section \<open>Writes conserve the stored nodes\<close>

lemma mset_push_index: "mset (push_index i is) = idx_mset i + mset is"
  by (cases i) (simp_all add: push_index_def idx_mset_def)

lemma set_node_owned:
  assumes "set_node node key = Inr updated" and "owned st node Y"
  shows "\<exists>Z. owned st updated Z \<and> Y = idx_mset (storage_index node) + Z"
proof (cases node)
  case (Edge si h p c)
  then obtain A where A: "owned st c A" "Y = idx_mset si + A" using assms(2) by (auto simp: owned_simps)
  have "owned st updated A"
    using assms(1) Edge A(1)
    by (auto simp: set_node_def split_edge_def Let_def owned_simps idx_mset_def split: if_splits direction.splits)
  then show ?thesis using A(2) Edge by (auto simp: storage_index_def)
qed (use assms in \<open>auto simp: set_node_def owned_simps storage_index_def idx_mset_def\<close>)

lemma merge_edges_owned:
  assumes "merge_edges hgt st h path child removed = Inr (p', c', removed')" and "owned st child X"
  shows "\<exists>Y. owned st c' Y \<and> Y + mset removed' = X + mset removed"
proof -
  obtain rc where rc: "(case child of Unresolved idx \<Rightarrow> resolve hgt st idx (h + length path) | other \<Rightarrow> Inr other) = Inr rc"
    and res: "(case as_edge rc of Some (si, h, child_path, grandchild) \<Rightarrow> Inr (path @ child_path, grandchild, push_index si removed)
      | None \<Rightarrow> Inr (path, child, removed)) = (Inr (p', c', removed') :: (trie_path \<times> internal_node \<times> trie_index list) outcome)"
    using assms(1) by (auto simp: merge_edges_def)
  have X: "owned st rc X" using rc assms(2) owned_resolve by (auto split: internal_node.splits)
  show ?thesis
  proof (cases "as_edge rc")
    case None
    then show ?thesis using res assms(2) by auto
  next
    case (Some e)
    then obtain si h' cp g where e: "rc = Edge si h' cp g" "as_edge rc = Some (si, h', cp, g)"
      by (auto simp: as_edge_def split: internal_node.splits)
    then show ?thesis using res X by (auto simp: owned_simps mset_push_index ac_simps)
  qed
qed

lemma delete_branch_owned:
  assumes run: "delete_branch hgt st key (BinaryFrame si h d other) below fs removed = Inr (n, removed')"
    and d: "binary_direction h key = Inr d" and A: "owned st other A" and F: "frames_owned st fs F"
  shows "\<exists>Y. owned st n Y \<and> Y + mset removed' = idx_mset si + A + F + mset removed"
proof -
  obtain left right where bin: "as_binary (plug_frame (BinaryFrame si h d other) below) = Some (si, h, left, right)"
    "get_child left right (invert d) = other"
    by (cases d) (simp_all add: plug_frame_def as_binary_def get_child_def invert_def)
  then obtain path c r where m: "merge_edges hgt st h [bool_of_direction (invert d)] other removed = Inr (path, c, r)"
    and rest: "(case fs of
          EdgeFrame psi ph pp # upper \<Rightarrow>
            bind_outcome (merge_edges hgt st ph pp (Edge None h path c) (push_index si r)) (\<lambda>(pp, c, removed).
              Inr (plug upper (Edge psi ph pp c), removed))
        | _ \<Rightarrow> Inr (plug fs (Edge None h path c), push_index si r)) = Inr (n, removed')"
    using run d by (auto simp: delete_branch_def Let_def)
  obtain C where C: "owned st c C" "C + mset r = A + mset removed" using merge_edges_owned [OF m A] by blast
  then have edge: "owned st (Edge None h path c) C" by (simp add: owned_simps idx_mset_def)
  show ?thesis
  proof (cases "\<exists>psi ph pp upper. fs = EdgeFrame psi ph pp # upper")
    case True
    then obtain psi ph pp upper where fs: "fs = EdgeFrame psi ph pp # upper" by blast
    with rest obtain pp' c' where m2: "merge_edges hgt st ph pp (Edge None h path c) (push_index si r) = Inr (pp', c', removed')"
      and n: "n = plug upper (Edge psi ph pp' c')" by auto
    obtain C' where C': "owned st c' C'" "C' + mset removed' = C + mset (push_index si r)"
      using merge_edges_owned [OF m2 edge] by blast
    obtain U where U: "frames_owned st upper U" "F = idx_mset psi + U" using F fs by (auto simp: frames_owned_simps)
    have "owned st n (U + (idx_mset psi + C'))" unfolding n using C'(1) by (intro plug_owned [OF U(1)]) (auto simp: owned_simps)
    moreover have "U + (idx_mset psi + C') + mset removed' = idx_mset si + A + F + mset removed"
      using C'(2) C(2) U(2) by (simp add: mset_push_index ac_simps)
    ultimately show ?thesis by blast
  next
    case False
    then have n: "n = plug fs (Edge None h path c)" and r: "removed' = push_index si r"
      using rest by (cases fs; auto split: frame.splits)+
    have "owned st n (F + C)" unfolding n by (rule plug_owned [OF F edge])
    moreover have "F + C + mset removed' = idx_mset si + A + F + mset removed"
      using C(2) r by (simp add: mset_push_index ac_simps)
    ultimately show ?thesis by blast
  qed
qed

lemma skip_to_binary_owned:
  assumes "skip_to_binary fs is = (res, is')" and "frames_owned st fs F"
  shows "case res of None \<Rightarrow> F + mset is = mset is'
    | Some (f, upper) \<Rightarrow> \<exists>F'. frames_owned st (f # upper) F' \<and> F + mset is = F' + mset is'"
  using assms
proof (induction fs "is" arbitrary: F rule: skip_to_binary.induct)
  case (3 si h p fs removed)
  obtain G where G: "frames_owned st fs G" "F = idx_mset si + G" using 3(3) by (auto simp: frames_owned_simps)
  have "skip_to_binary fs (push_index si removed) = (res, is')" using 3(2) by simp
  from 3(1) [OF this G(1)] show ?case by (auto simp: mset_push_index G(2) ac_simps split: option.splits)
qed (auto simp: frames_owned_simps, blast)

text \<open>The stored nodes a tree stands for together with those it recorded as removed.\<close>

definition tree_indices :: "storage \<Rightarrow> merkle_tree \<Rightarrow> trie_index multiset \<Rightarrow> bool" where
  "tree_indices st t X \<longleftrightarrow>
     (\<exists>Y. (case root t of None \<Rightarrow> Y = {#} | Some n \<Rightarrow> owned st n Y) \<and> X = Y + mset (nodes_removed t))"

lemma delete_leaf_indices:
  assumes run: "delete_leaf hgt st key t = Inr t'" and X: "tree_indices st t X"
  shows "tree_indices st t' X"
proof (cases "traverse hgt st key t = Inr None")
  case False
  then obtain fs node where tr: "traverse hgt st key t = Inr (Some (fs, node))"
    using run by (auto simp: delete_leaf_def split: option.splits)
  then obtain n where n: "root t = Some n" using traverse_root by blast
  then obtain Y where Y: "owned st n Y" "X = Y + mset (nodes_removed t)" using X by (auto simp: tree_indices_def)
  from traverse_owned [OF tr n Y(1)] obtain F Z where
    FZ: "frames_owned st fs F" "owned st node Z" "F + Z = Y" "directed key fs" by blast
  show ?thesis
  proof (cases "node = Leaf")
    case False
    then have "t' = t\<lparr> root := Some (plug fs node) \<rparr>" using run tr by (simp add: delete_leaf_def)
    then show ?thesis using plug_owned [OF FZ(1,2)] FZ(3) Y(2) by (auto simp: tree_indices_def)
  next
    case True
    then have Z: "F = Y" using FZ(2,3) by (simp add: owned_simps)
    obtain res is' where skip: "skip_to_binary fs [] = (res, is')" by (cases "skip_to_binary fs []")
    note owned = skip_to_binary_owned [OF skip FZ(1)]
    show ?thesis
    proof (cases res)
      case None
      then have "t' = t\<lparr> root := None, nodes_removed := nodes_removed t @ is' \<rparr>"
        using run tr True skip by (simp add: delete_leaf_def)
      then show ?thesis using owned None Z Y(2) by (simp add: tree_indices_def ac_simps)
    next
      case (Some fu)
      obtain f upper where fu: "fu = (f, upper)" by (cases fu)
      obtain below si h d other where fs: "fs = below @ f # upper" and f: "f = BinaryFrame si h d other"
        using skip_to_binary_Some skip Some fu by blast
      obtain m removed where db: "delete_branch hgt st key f node upper (nodes_removed t) = Inr (m, removed)"
        and t': "t' = t\<lparr> root := Some m, nodes_removed := removed @ is' \<rparr>"
        using run tr True skip Some fu by (auto simp: delete_leaf_def)
      have "directed key (f # upper)" using FZ(4) unfolding fs by (induction below rule: directed.induct) auto
      then have d: "binary_direction h key = Inr d" using f by simp
      obtain A U where AU: "owned st other A" "frames_owned st upper U" "Y = idx_mset si + A + U + mset is'"
        using owned Some fu f Z by (auto simp: frames_owned_simps)
      obtain M where "owned st m M" "M + mset removed = idx_mset si + A + U + mset (nodes_removed t)"
        using delete_branch_owned [OF db [unfolded f] d AU(1,2)] by blast
      then show ?thesis using t' AU(3) Y(2) by (auto simp: tree_indices_def ac_simps)
    qed
  qed
qed (use assms in \<open>simp add: delete_leaf_def\<close>)

lemma tree_set_indices:
  assumes run: "tree_set hgt st key v t = Inr t'" and X: "tree_indices st t X"
  shows "tree_indices st t' X"
proof (cases "v = felt_ZERO")
  case True
  then show ?thesis using assms delete_leaf_indices by (simp add: tree_set_def)
next
  case nz: False
  show ?thesis
  proof (cases "traverse hgt st key t = Inr None")
    case True
    then have "root t = None" by (auto simp: traverse_def split: option.splits)
    then show ?thesis using run X True nz by (auto simp: tree_set_def tree_indices_def owned_simps idx_mset_def)
  next
    case False
    then obtain fs node where tr: "traverse hgt st key t = Inr (Some (fs, node))"
      using run nz by (auto simp: tree_set_def split: option.splits)
    then obtain n where n: "root t = Some n" using traverse_root by blast
    then obtain Y where Y: "owned st n Y" "X = Y + mset (nodes_removed t)" using X by (auto simp: tree_indices_def)
    from traverse_owned [OF tr n Y(1)] obtain F Z where
      FZ: "frames_owned st fs F" "owned st node Z" "F + Z = Y" by blast
    obtain updated where up: "set_node node key = Inr updated"
      and t': "t' = t\<lparr> root := Some (plug fs updated), nodes_removed := push_index (storage_index node) (nodes_removed t),
        leaves := (leaves t)(key \<mapsto> v) \<rparr>"
      using run nz tr by (auto simp: tree_set_def)
    obtain W where W: "owned st updated W" "Z = idx_mset (storage_index node) + W"
      using set_node_owned [OF up FZ(2)] by blast
    have "owned st (plug fs updated) (F + W)" using FZ(1) W(1) by (rule plug_owned)
    then show ?thesis using t' W(2) FZ(3) Y(2) by (auto simp: tree_indices_def mset_push_index ac_simps)
  qed
qed

lemma tree_set_all_indices:
  "tree_set_all hgt st updates t = Inr t' \<Longrightarrow> tree_indices st t X \<Longrightarrow> tree_indices st t' X"
proof (induction updates arbitrary: t)
  case (Cons kv updates)
  then show ?case using tree_set_indices by (cases kv) fastforce
qed simp

end
