(* ===== verification/TrieLive.thy ===== *)
theory TrieLive
  imports TrieOwned
begin

text \<open>
  What a commit keeps and what it removes, and the stored nodes of the tree it writes.
\<close>

section \<open>What a commit keeps and what it removes\<close>

fun resolved :: "internal_node \<Rightarrow> trie_index multiset" where
  "resolved (Binary si h l r) = idx_mset si + resolved l + resolved r"
| "resolved (Edge si h p c) = idx_mset si + resolved c"
| "resolved n = {#}"

text \<open>The stored nodes below the unresolved parts of a node: those a commit keeps.\<close>

inductive live :: "storage \<Rightarrow> internal_node \<Rightarrow> trie_index multiset \<Rightarrow> bool" for st where
  live_Leaf: "live st Leaf {#}"
| live_Binary: "live st l A \<Longrightarrow> live st r B \<Longrightarrow> X = A + B \<Longrightarrow> live st (Binary si h l r) X"
| live_Edge: "live st c X \<Longrightarrow> live st (Edge si h p c) X"
| live_Unresolved: "owned st (Unresolved idx) X \<Longrightarrow> live st (Unresolved idx) X"

inductive_simps live_simps: "live st Leaf X" "live st (Binary si h l r) X" "live st (Edge si h p c) X"
  "live st (Unresolved idx) X"

lemma owned_live: "owned st n X \<Longrightarrow> \<exists>Lv. live st n Lv \<and> X = resolved n + Lv"
proof (induction n arbitrary: X)
  case (Binary si h l r)
  then obtain A B where AB: "owned st l A" "owned st r B" "X = idx_mset si + A + B" by (auto simp: owned_simps)
  obtain Al where "live st l Al" "A = resolved l + Al" using Binary.IH(1) [OF AB(1)] by blast
  moreover obtain Bl where "live st r Bl" "B = resolved r + Bl" using Binary.IH(2) [OF AB(2)] by blast
  ultimately show ?case using AB(3) by (intro exI [of _ "Al + Bl"]) (auto intro: live.intros simp: ac_simps)
next
  case (Edge si h p c)
  then obtain A where A: "owned st c A" "X = idx_mset si + A" by (auto simp: owned_simps)
  obtain Al where "live st c Al" "A = resolved c + Al" using Edge.IH [OF A(1)] by blast
  then show ?case using A(2) by (intro exI [of _ Al]) (auto intro: live.intros simp: ac_simps)
qed (auto simp: owned_simps live_simps)

lemma commit_subtree_removed:
  "commit_subtree H st L n s pre = Inr ((h, r), s') \<Longrightarrow> mset (snd s') = mset (snd s) + resolved n"
proof (induction n arbitrary: s pre h r s')
  case (Binary si height left right)
  from Binary.prems obtain hl rl sl hr rr sr where
    "commit_subtree H st L left s (pre @ [bool_of_direction Left]) = Inr ((hl, rl), sl)"
    "commit_subtree H st L right sl (pre @ [bool_of_direction Right]) = Inr ((hr, rr), sr)"
    "snd s' = push_index si (snd sr)"
    by (auto simp: Let_def)
  then show ?case using Binary.IH(1) [of s _ hl rl sl] Binary.IH(2) [of sl _ hr rr sr]
    by (fastforce simp: mset_push_index ac_simps)
next
  case (Edge si height path child)
  from Edge.prems obtain hc rc sc where "commit_subtree H st L child s (pre @ path) = Inr ((hc, rc), sc)"
    "snd s' = push_index si (snd sc)"
    by (auto simp: Let_def)
  then show ?case using Edge.IH [of s _ hc rc sc] by (fastforce simp: mset_push_index ac_simps)
qed auto

text \<open>A storage with the same stored nodes at the indices \<open>X\<close>.\<close>

definition agree_on :: "trie_index multiset \<Rightarrow> storage \<Rightarrow> storage \<Rightarrow> bool" where
  "agree_on X st st' \<longleftrightarrow> (\<forall>i \<in># X. st_get st' i = st_get st i \<and> st_hash st' i = st_hash st i)"

lemma owned_index: "owned st (Unresolved idx) X \<Longrightarrow> idx \<in># X"
  by (erule owned_UnresolvedE) (auto simp: stored_view_def owned_simps idx_mset_def split: stored_node.splits)

lemma owned_agree: "owned st n X \<Longrightarrow> agree_on X st st' \<Longrightarrow> owned st' n X"
proof (induction rule: owned.induct)
  case (owned_Unresolved idx s X)
  have "idx \<in># X" using owned_Unresolved.hyps by (intro owned_index) (auto intro: owned.owned_Unresolved)
  then show ?case using owned_Unresolved by (auto simp: agree_on_def intro: owned.owned_Unresolved)
qed (auto simp: agree_on_def intro: owned.intros)

lemma repr_live_agree:
  assumes "repr H hgt st L M pre n K" and "live st n Lv" and "agree_on Lv st st'" and "st_leaf st' = st_leaf st"
  shows "repr H hgt st' L M pre n K"
  using assms(1-3)
proof (induction arbitrary: Lv rule: repr.induct)
  case (repr_Leaf pre v)
  then show ?case using assms(4) by (intro repr.repr_Leaf) auto
next
  case (repr_Binary pre l Kl r Kr h si)
  then obtain A B where "live st l A" "live st r B" "Lv = A + B" by (auto simp: live_simps)
  then show ?case using repr_Binary by (auto intro!: repr.repr_Binary simp: agree_on_def)
next
  case (repr_Edge p pre c K h si)
  then show ?case by (auto intro!: repr.repr_Edge simp: live_simps)
next
  case (repr_Unresolved idx pre n K)
  have X: "owned st (Unresolved idx) Lv" using repr_Unresolved.prems(1) by (simp add: live_simps)
  then have idx: "st_get st' idx = st_get st idx" "st_hash st' idx = st_hash st idx"
    using owned_index repr_Unresolved.prems(2) by (auto simp: agree_on_def)
  have n: "owned st n Lv" using owned_resolve [OF repr_Unresolved.hyps(1) X] .
  obtain Lv' where Lv': "live st n Lv'" "Lv = resolved n + Lv'" using owned_live [OF n] by blast
  have "repr H hgt st' L M pre n K"
    using repr_Unresolved.IH [OF Lv'(1)] repr_Unresolved.prems(2) Lv'(2) by (simp add: agree_on_def)
  moreover have "resolve hgt st' idx (length pre) = Inr n"
    using repr_Unresolved.hyps(1) idx(1) by (simp only: resolve_def)
  ultimately show ?case using repr_Unresolved.hyps(3,4) idx(2) by (auto intro!: repr.repr_Unresolved)
qed

lemma commit_subtree_agree:
  assumes "live st n Lv" and "agree_on Lv st st'" and "st_leaf st' = st_leaf st"
  shows "commit_subtree H st' L n s pre = commit_subtree H st L n s pre"
  using assms(1,2)
proof (induction arbitrary: s pre rule: live.induct)
  case live_Leaf
  show ?case using assms(3) by (simp split: option.split)
next
  case (live_Unresolved idx X)
  then show ?case using owned_index by (simp add: agree_on_def)
qed (auto simp: agree_on_def intro!: arg_cong2 [where f = bind_outcome])

text \<open>The stored nodes a reference of an update stands for.\<close>

inductive added_owned ::
  "storage \<Rightarrow> (felt \<times> trie_node_added) list \<Rightarrow> nat \<Rightarrow> nat \<Rightarrow> node_ref \<Rightarrow> trie_index multiset \<Rightarrow> bool"
  for st added where
  added_owned_Stored: "owned st (Unresolved idx) X \<Longrightarrow> added_owned st added lo lo (StorageIndex idx) X"
| added_owned_Binary: "added_owned st added lo mid l A \<Longrightarrow> added_owned st added mid i r B
     \<Longrightarrow> i < length added \<Longrightarrow> snd (added ! i) = AddedBinary l r \<Longrightarrow> X = A + B
     \<Longrightarrow> added_owned st added lo (Suc i) (Index i) X"
| added_owned_LeafBinary: "i < length added \<Longrightarrow> snd (added ! i) = AddedLeafBinary
     \<Longrightarrow> added_owned st added i (Suc i) (Index i) {#}"
| added_owned_Edge: "added_owned st added lo i c X
     \<Longrightarrow> i < length added \<Longrightarrow> snd (added ! i) = AddedEdge c p \<Longrightarrow> added_owned st added lo (Suc i) (Index i) X"
| added_owned_LeafEdge: "i < length added \<Longrightarrow> snd (added ! i) = AddedLeafEdge p
     \<Longrightarrow> added_owned st added i (Suc i) (Index i) {#}"

lemma added_owned_append: "added_owned st added lo hi ref X \<Longrightarrow> added_owned st (added @ ys) lo hi ref X"
  by (induction rule: added_owned.induct) (auto intro: added_owned.intros simp: nth_append)

lemma added_owned_le: "added_owned st added lo hi ref X \<Longrightarrow> lo \<le> hi"
  by (induction rule: added_owned.induct) auto

lemma commit_subtree_owned:
  assumes "commit_subtree H st L n (added, removed) pre = Inr ((h, r), (added', removed'))" and "live st n Lv"
  shows "\<exists>new. added' = added @ new \<and> (case r of None \<Rightarrow> new = [] \<and> Lv = {#}
    | Some ref \<Rightarrow> added_owned st added' (length added) (length added') ref Lv)"
  using assms
proof (induction n arbitrary: added removed pre h r added' removed' Lv)
  case (Binary si height left right)
  obtain A B where AB: "live st left A" "live st right B" "Lv = A + B" using Binary.prems(2) by (auto simp: live_simps)
  obtain hl rl al rel hr rr ar rer node where
    l: "commit_subtree H st L left (added, removed) (pre @ [bool_of_direction Left]) = Inr ((hl, rl), (al, rel))" and
    r: "commit_subtree H st L right (al, rel) (pre @ [bool_of_direction Right]) = Inr ((hr, rr), (ar, rer))" and
    node: "persisted_binary rl rr = Inr node" and out: "r = Some (Index (length ar))" "added' = ar @ [(h, node)]"
    using Binary.prems(1) by (auto simp: Let_def)
  obtain nl where nl: "al = added @ nl" "case rl of None \<Rightarrow> nl = [] \<and> A = {#}
      | Some ref \<Rightarrow> added_owned st al (length added) (length al) ref A"
    using Binary.IH(1) [OF l AB(1)] by blast
  obtain nr where nr: "ar = al @ nr" "case rr of None \<Rightarrow> nr = [] \<and> B = {#}
      | Some ref \<Rightarrow> added_owned st ar (length al) (length ar) ref B"
    using Binary.IH(2) [OF r AB(2)] by blast
  have "added_owned st added' (length added) (Suc (length ar)) (Index (length ar)) Lv"
  proof (cases rl)
    case None
    then have "rr = None" "node = AddedLeafBinary" using node by (auto simp: persisted_binary_def split: option.splits)
    then show ?thesis using None nl nr AB(3) out(2) by (auto intro: added_owned_LeafBinary)
  next
    case (Some refl)
    then obtain refr where refr: "rr = Some refr" "node = AddedBinary refl refr"
      using node by (auto simp: persisted_binary_def split: option.splits)
    have "added_owned st added' (length added) (length al) refl A"
      using added_owned_append [of st al _ _ refl A "nr @ [(h, node)]"] nl(2) nr(1) out(2) Some by simp
    moreover have "added_owned st added' (length al) (length ar) refr B"
      using added_owned_append [of st ar _ _ refr B "[(h, node)]"] nr(2) out(2) refr(1) by simp
    ultimately show ?thesis using out(2) refr(2) AB(3) by (auto intro!: added_owned_Binary)
  qed
  then show ?case using nl(1) nr(1) out by simp
next
  case (Edge si height path child)
  have Lv: "live st child Lv" using Edge.prems(2) by (simp add: live_simps)
  obtain hc rc ac rec where
    c: "commit_subtree H st L child (added, removed) (pre @ path) = Inr ((hc, rc), (ac, rec))" and
    out: "r = Some (Index (length ac))" "added' = ac @ [(h, case rc of None \<Rightarrow> AddedLeafEdge path | Some child \<Rightarrow> AddedEdge child path)]"
    using Edge.prems(1) by (auto simp: Let_def)
  obtain nc where nc: "ac = added @ nc" "case rc of None \<Rightarrow> nc = [] \<and> Lv = {#}
      | Some ref \<Rightarrow> added_owned st ac (length added) (length ac) ref Lv"
    using Edge.IH [OF c Lv] by blast
  have "added_owned st added' (length added) (Suc (length ac)) (Index (length ac)) Lv"
  proof (cases rc)
    case None
    then show ?thesis using nc out(2) by (auto intro: added_owned_LeafEdge)
  next
    case (Some ref)
    then have "added_owned st added' (length added) (length ac) ref Lv"
      using added_owned_append [of st ac _ _ ref Lv "[(h, AddedEdge ref path)]"] nc(2) out(2) by simp
    then show ?thesis using out(2) Some by (auto intro!: added_owned_Edge)
  qed
  then show ?case using nc(1) out by simp
qed (auto simp: live_simps intro: added_owned_Stored split: option.splits)

definition fresh_indices :: "(nat \<rightharpoonup> trie_index) \<Rightarrow> nat \<Rightarrow> nat \<Rightarrow> trie_index multiset" where
  "fresh_indices ix lo hi = mset (map (\<lambda>j. the (ix j)) [lo..<hi])"

lemma fresh_indices_split:
  "lo \<le> mid \<Longrightarrow> mid \<le> i \<Longrightarrow> fresh_indices ix lo (Suc i) = {#the (ix i)#} + fresh_indices ix lo mid + fresh_indices ix mid i"
proof -
  assume "lo \<le> mid" "mid \<le> i"
  then have "[lo..<Suc i] = [lo..<mid] @ [mid..<i] @ [i]" by (metis le_Suc_ex le_trans upt_add_eq_append upt_Suc_append append_assoc)
  then show ?thesis by (simp add: fresh_indices_def)
qed

lemma stored_added_owned:
  assumes "added_owned st added lo hi ref X" and "stored_upto e added rs0 (length added) ix (rows tbl)"
    and "agree_on X st (table_storage e tbl leaf)"
  shows "owned (table_storage e tbl leaf) (Unresolved (ref_index ix ref)) (fresh_indices ix lo hi + X)"
  using assms(1,3)
proof (induction rule: added_owned.induct)
  case (added_owned_Stored idx X lo)
  then show ?case using owned_agree by (simp add: ref_index_def fresh_indices_def)
next
  case (added_owned_Binary lo mid l A i r B X)
  have "lo \<le> mid" "mid \<le> i" using added_owned_le added_owned_Binary.hyps(1,2) by blast+
  note split = fresh_indices_split [OF this, of ix]
  obtain h where "added ! i = (h, AddedBinary l r)" using added_owned_Binary.hyps(4) by (cases "added ! i") auto
  note node = stored_upto_node(1) [OF assms(2) added_owned_Binary.hyps(3) this, of leaf]
  have "owned (table_storage e tbl leaf) (Unresolved (ref_index ix l)) (fresh_indices ix lo mid + A)"
    "owned (table_storage e tbl leaf) (Unresolved (ref_index ix r)) (fresh_indices ix mid i + B)"
    using added_owned_Binary.IH added_owned_Binary.prems added_owned_Binary.hyps(5) by (simp_all add: agree_on_def)
  moreover have "ref_index ix (Index i) = the (ix i)" by (simp add: ref_index_def)
  ultimately show ?case using node added_owned_Binary.hyps(5) split
    by (intro owned_Unresolved [OF node]) (auto simp: stored_view_def owned_simps idx_mset_def ac_simps intro!: exI)
next
  case (added_owned_Edge lo i c X p)
  have "lo \<le> i" using added_owned_le added_owned_Edge.hyps(1) by blast
  note split = fresh_indices_split [OF this order.refl, of ix]
  obtain h where "added ! i = (h, AddedEdge c p)" using added_owned_Edge.hyps(3) by (cases "added ! i") auto
  note node = stored_upto_node(1) [OF assms(2) added_owned_Edge.hyps(2) this, of leaf]
  have "ref_index ix (Index i) = the (ix i)" by (simp add: ref_index_def)
  then show ?case using added_owned_Edge.IH added_owned_Edge.prems split
    by (intro owned_Unresolved [OF node]) (auto simp: stored_view_def owned_simps idx_mset_def fresh_indices_def)
next
  case (added_owned_LeafBinary i)
  obtain h where "added ! i = (h, AddedLeafBinary)" using added_owned_LeafBinary.hyps(2) by (cases "added ! i") auto
  note node = stored_upto_node(1) [OF assms(2) added_owned_LeafBinary.hyps(1) this, of leaf]
  then show ?case
    by (intro owned_Unresolved [OF node]) (auto simp: stored_view_def owned_simps idx_mset_def fresh_indices_def ref_index_def)
next
  case (added_owned_LeafEdge i p)
  obtain h where "added ! i = (h, AddedLeafEdge p)" using added_owned_LeafEdge.hyps(2) by (cases "added ! i") auto
  note node = stored_upto_node(1) [OF assms(2) added_owned_LeafEdge.hyps(1) this, of leaf]
  then show ?case
    by (intro owned_Unresolved [OF node]) (auto simp: stored_view_def owned_simps idx_mset_def fresh_indices_def ref_index_def)
qed

section \<open>Stored trees\<close>

definition tree_at ::
  "engine \<Rightarrow> felt_hash \<Rightarrow> nat \<Rightarrow> trie_table \<Rightarrow> (trie_path \<Rightarrow> felt option outcome) \<Rightarrow> trie_index option
     \<Rightarrow> (trie_path \<rightharpoonup> felt) \<Rightarrow> trie_index multiset \<Rightarrow> bool" where
  "tree_at e H hgt tbl leaf r M X \<longleftrightarrow> tree_repr H hgt (table_storage e tbl leaf) (load_root r) M \<and>
     tree_indices (table_storage e tbl leaf) (load_root r) X"

lemma tree_indices_load [simp]:
  "tree_indices st (load_root None) X \<longleftrightarrow> X = {#}"
  "tree_indices st (load_root (Some i)) X \<longleftrightarrow> owned st (Unresolved i) X"
  by (auto simp: tree_indices_def load_root_def tree_empty_def tree_new_def)

lemma tree_at_empty: "tree_at e H hgt tbl leaf None Map.empty {#}"
  by (simp add: tree_at_def tree_empty_repr load_root_def [of None])
     (simp add: tree_indices_def tree_empty_def)

lemma agree_on_table:
  "\<forall>i \<in># X. rows tbl' i = rows tbl i \<Longrightarrow> agree_on X (table_storage e tbl leaf) (table_storage e tbl' leaf')"
  by (simp add: agree_on_def table_storage_def tx_trie_node_def tx_trie_node_hash_def)

lemma owned_rows: "owned (table_storage e tbl leaf) n X \<Longrightarrow> set_mset X \<subseteq> set_mset (resolved n) \<union> dom (rows tbl)"
proof (induction rule: owned.induct)
  case (owned_Unresolved idx s X)
  then have "idx \<in> dom (rows tbl)" by (auto simp: table_storage_def tx_trie_node_def split: option.splits)
  moreover have "set_mset (resolved (stored_view idx s)) = {idx}"
    by (cases s) (simp_all add: stored_view_def idx_mset_def)
  ultimately show ?case using owned_Unresolved.IH by auto
qed auto

lemma tree_at_rows: "tree_at e H hgt tbl leaf r M X \<Longrightarrow> set_mset X \<subseteq> dom (rows tbl)"
proof (cases r)
  case (Some i)
  assume "tree_at e H hgt tbl leaf r M X"
  then have "owned (table_storage e tbl leaf) (Unresolved i) X" using Some by (simp add: tree_at_def)
  from owned_rows [OF this] show ?thesis by simp
qed (simp add: tree_at_def)

lemma tree_at_agree:
  assumes "tree_at e H hgt tbl leaf r M X" and "\<forall>i \<in># X. rows tbl' i = rows tbl i"
  shows "tree_at e H hgt tbl' leaf r M X"
proof (cases r)
  case (Some i)
  let ?st = "table_storage e tbl leaf" and ?st' = "table_storage e tbl' leaf"
  have X: "owned ?st (Unresolved i) X" "repr H hgt ?st Map.empty M [] (Unresolved i) (dom M)"
    using assms(1) Some by (simp_all add: tree_at_def tree_repr_def load_root_def tree_new_def)
       (simp add: tree_indices_def)
  have a: "agree_on X ?st ?st'" using agree_on_table assms(2) by blast
  have "repr H hgt ?st' Map.empty M [] (Unresolved i) (dom M)"
    using X by (intro repr_live_agree [OF X(2) _ a]) (simp_all add: live_simps table_storage_def)
  then show ?thesis using owned_agree [OF X(1) a] Some
    by (simp add: tree_at_def tree_repr_def) (simp add: load_root_def tree_new_def)
qed (use assms in \<open>simp add: tree_at_def tree_repr_def load_root_def tree_empty_def tree_indices_def\<close>)

lemma commit_indices:
  assumes "commit H st t = Inr u" and "tree_indices st t X"
  shows "\<exists>Lv. X = Lv + mset (update_nodes_removed u) \<and> (case root t of None \<Rightarrow> Lv = {#} | Some n \<Rightarrow> live st n Lv)"
proof (cases "root t")
  case None
  then show ?thesis using assms by (auto simp: commit_def tree_indices_def)
next
  case (Some n)
  obtain Y where Y: "owned st n Y" "X = Y + mset (nodes_removed t)" using assms(2) Some by (auto simp: tree_indices_def)
  obtain Lv where Lv: "live st n Lv" "Y = resolved n + Lv" using owned_live [OF Y(1)] by blast
  have "mset (update_nodes_removed u) = resolved n + mset (nodes_removed t)"
  proof (cases "\<exists>idx. n = Unresolved idx")
    case True
    then show ?thesis using assms(1) Some by (auto simp: commit_def)
  next
    case False
    then obtain h r added removed where "commit_subtree H st (leaves t) n ([], []) [] = Inr ((h, r), (added, removed))"
      "update_nodes_removed u = removed @ nodes_removed t"
      using assms(1) Some by (cases n) (auto simp: commit_def)
    with commit_subtree_removed [OF this(1)] show ?thesis by simp
  qed
  then show ?thesis using Some Lv Y(2) by (auto simp: ac_simps)
qed

lemma live_agree: "live st n Lv \<Longrightarrow> agree_on Lv st st' \<Longrightarrow> live st' n Lv"
  by (induction rule: live.induct) (auto simp: agree_on_def live_simps intro: owned_agree [unfolded agree_on_def])

lemma commit_agree:
  assumes "case root t of None \<Rightarrow> True | Some n \<Rightarrow> live st n Lv" and "agree_on Lv st st'" and "st_leaf st' = st_leaf st"
  shows "commit H st' t = commit H st t"
proof (cases "root t")
  case (Some n)
  then have n: "live st n Lv" using assms(1) by simp
  note sub = commit_subtree_agree [OF n assms(2,3), of H "leaves t"]
  show ?thesis
  proof (cases n)
    case (Unresolved idx)
    then have "st_hash st' idx = st_hash st idx" using n assms(2) owned_index by (auto simp: live_simps agree_on_def)
    then show ?thesis using Some Unresolved by (simp add: commit_def)
  qed (use sub Some in \<open>simp_all add: commit_def del: commit_subtree.simps\<close>)
qed (simp add: commit_def)

lemma tree_repr_agree:
  assumes "tree_repr H hgt st t M" and "case root t of None \<Rightarrow> True | Some n \<Rightarrow> live st n Lv"
    and "agree_on Lv st st'" and "st_leaf st' = st_leaf st"
  shows "tree_repr H hgt st' t M"
  using assms repr_live_agree by (auto simp: tree_repr_def split: option.splits)

definition single :: "'a multiset \<Rightarrow> bool" where
  "single X \<longleftrightarrow> (\<forall>i. count X i \<le> 1)"

lemma single_split:
  assumes "single (A + B)"
  shows "set_mset A \<inter> set_mset B = {}" and "single A" and "single B"
proof -
  have c: "count A i + count B i \<le> 1" for i using assms by (simp add: single_def)
  have False if "i \<in># A" "i \<in># B" for i
  proof -
    have "0 < count A i" "0 < count B i" using that by simp_all
    then show False using c [of i] by linarith
  qed
  then show "set_mset A \<inter> set_mset B = {}" by blast
  show "single A" "single B" using c unfolding single_def by (meson add_leD1 add_leD2)+
qed

lemma single_join:
  assumes "single A" and "single B" and "set_mset A \<inter> set_mset B = {}"
  shows "single (A + B)"
  unfolding single_def
proof
  fix i
  have "count A i = 0 \<or> count B i = 0" using assms(3) by (metis IntI count_greater_zero_iff empty_iff neq0_conv)
  then show "count (A + B) i \<le> 1" using assms(1,2) by (auto simp: single_def)
qed

lemma live_rows: "live (table_storage e tbl leaf) n Lv \<Longrightarrow> set_mset Lv \<subseteq> dom (rows tbl)"
proof (induction rule: live.induct)
  case (live_Unresolved idx X)
  from owned_rows [OF this] show ?case by simp
qed auto

lemma commit_subtree_index:
  "commit_subtree H st L n s pre = Inr ((h, r), (added, removed)) \<Longrightarrow> n \<noteq> Leaf \<Longrightarrow> \<forall>idx. n \<noteq> Unresolved idx
     \<Longrightarrow> r = Some (Index (length added - 1))"
  by (cases n) (auto simp: Let_def)

lemma commit_subtree_nonempty:
  "commit_subtree H st L n s pre = Inr ((h, r), (added, removed)) \<Longrightarrow> n \<noteq> Leaf \<Longrightarrow> \<forall>idx. n \<noteq> Unresolved idx \<Longrightarrow> added \<noteq> []"
  by (cases n) (auto simp: Let_def)

lemma commit_subtree_of_commit:
  assumes "commit H st t = Inr u" and "root t = Some n" and "\<forall>idx. n \<noteq> Unresolved idx"
  shows "\<exists>h r removed. commit_subtree H st (leaves t) n ([], []) [] = Inr ((h, r), (nodes_added u, removed))"
proof -
  have "commit H st t = bind_outcome (bind_outcome (commit_subtree H st (leaves t) n ([], []) [])
      (\<lambda>((root_hash, _), (added, removed)). Inr (root_hash, added, removed)))
      (\<lambda>(root_hash, added, removed). Inr \<lparr> nodes_added = added, update_nodes_removed = removed @ nodes_removed t,
         root_commitment = root_hash \<rparr>)"
    using assms(2,3) by (cases n) (simp_all add: commit_def del: commit_subtree.simps)
  from trans [OF this [symmetric] assms(1)] show ?thesis by (auto simp del: commit_subtree.simps)
qed

lemma insert_nothing_indices:
  assumes u: "commit H (table_storage e tbl leaf) t = Inr u" and o: "origin old t" and none: "nodes_added u = []"
    and "root t \<noteq> Some Leaf" and ins: "insert_added e u tbl = Inr (upd, tbl')"
    and Lv: "case root t of None \<Rightarrow> Lv = {#} | Some n \<Rightarrow> live (table_storage e tbl leaf) n Lv"
  shows "tree_indices (table_storage e tbl' leaf') (load_root (new_root old upd)) Lv"
proof -
  have upd: "upd = (if update_nodes_removed u \<noteq> [] \<and> felt_is_zero (root_commitment u) then TrieEmpty else Unchanged)"
    and tbl': "tbl' = tbl"
    using ins none by (auto simp: insert_added_def split: if_splits)
  show ?thesis
  proof (cases "root t")
    case None
    then have "root_commitment u = felt_ZERO" "update_nodes_removed u = nodes_removed t" using u by (auto simp: commit_def)
    then have "new_root old upd = None" using o None upd by (cases old) (auto simp: origin_def new_root_def felt_is_zero_def)
    then show ?thesis using Lv None by simp
  next
    case (Some n)
    have "\<exists>idx. n = Unresolved idx"
    proof (rule ccontr)
      assume *: "\<not> ?thesis"
      then obtain h r removed where c: "commit_subtree H (table_storage e tbl leaf) (leaves t) n ([], []) [] = Inr ((h, r), (nodes_added u, removed))"
        using commit_subtree_of_commit [OF u Some] by blast
      show False using commit_subtree_nonempty [OF c] * none assms(4) Some by simp
    qed
    then obtain idx where idx: "n = Unresolved idx" ..
    then have old: "old = Some idx" "nodes_removed t = []" using o Some by (auto simp: origin_def)
    then have "upd = Unchanged" using u upd Some idx by (auto simp: commit_def)
    moreover have "owned (table_storage e tbl' leaf') (Unresolved idx) Lv"
      by (rule owned_agree [OF _ agree_on_table, of e tbl leaf]) (use Lv Some idx tbl' in \<open>simp_all add: live_simps\<close>)
    ultimately show ?thesis using old by (simp add: new_root_def)
  qed
qed

lemma fresh_indices_new:
  assumes "stored_upto e added rs0 n ix rs"
  shows "single (fresh_indices ix 0 n)" and "set_mset (fresh_indices ix 0 n) \<inter> dom rs0 = {}"
    and "set_mset (fresh_indices ix 0 n) \<subseteq> dom rs"
proof -
  have inj: "inj_on ix {..<n}" using assms by (simp add: stored_upto_def)
  have ix: "\<forall>j<n. \<exists>k. ix j = Some k \<and> k \<notin> dom rs0 \<and> k \<in> dom rs"
    using assms unfolding stored_upto_def by blast
  have "inj_on (\<lambda>j. the (ix j)) {0..<n}"
    using ix inj by (intro inj_onI) (metis atLeastLessThan_iff inj_onD lessThan_iff option.sel)
  then have "distinct (map (\<lambda>j. the (ix j)) [0..<n])" by (simp add: distinct_map)
  then show "single (fresh_indices ix 0 n)" by (simp add: single_def fresh_indices_def distinct_count_atmost_1)
  show "set_mset (fresh_indices ix 0 n) \<inter> dom rs0 = {}" "set_mset (fresh_indices ix 0 n) \<subseteq> dom rs"
    using ix by (force simp: fresh_indices_def)+
qed

context felt_valued_hash
begin

lemma write_indices:
  assumes "engine_ok e" and "table_wf tbl" and t: "tree_repr H hgt (table_storage e tbl leaf) t M"
    and "hgt \<le> 251" and "0 < hgt" and o: "origin old t"
    and u: "commit H (table_storage e tbl leaf) t = Inr u"
    and room: "card (dom (rows tbl)) + length (nodes_added u) < 2 ^ 63"
    and Lv: "case root t of None \<Rightarrow> Lv = {#} | Some n \<Rightarrow> live (table_storage e tbl leaf) n Lv"
  shows "\<exists>upd tbl' fresh. insert_added e u tbl = Inr (upd, tbl') \<and> rows tbl \<subseteq>\<^sub>m rows tbl' \<and> table_wf tbl' \<and>
    removals tbl' = removals tbl \<and> card (dom (rows tbl')) \<le> card (dom (rows tbl)) + length (nodes_added u) \<and> single fresh \<and> set_mset fresh \<inter> dom (rows tbl) = {} \<and> set_mset fresh \<subseteq> dom (rows tbl') \<and>
    (\<forall>leaf'. (\<forall>k \<in> dom M. leaf' k = Inr (M k)) \<longrightarrow> tree_at e H hgt tbl' leaf' (new_root old upd) M (Lv + fresh))"
proof -
  let ?st = "table_storage e tbl leaf"
  obtain upd tbl' where ins: "insert_added e u tbl = Inr (upd, tbl')" "rows tbl \<subseteq>\<^sub>m rows tbl'" "table_wf tbl'"
      "stored_update e u tbl upd tbl'"
      "\<forall>leaf'. (\<forall>k \<in> dom M. leaf' k = Inr (M k)) \<longrightarrow> tree_repr H hgt (table_storage e tbl' leaf') (load_root (new_root old upd)) M"
    using persist_commit [OF assms(1,2) t assms(4,5) o u room, of 0] by (auto simp: insert_trie_def)
  have "\<exists>fresh. single fresh \<and> set_mset fresh \<inter> dom (rows tbl) = {} \<and> set_mset fresh \<subseteq> dom (rows tbl') \<and>
      (\<forall>leaf'. tree_indices (table_storage e tbl' leaf') (load_root (new_root old upd)) (Lv + fresh))"
  proof (cases "nodes_added u = []")
    case True
    have "root t \<noteq> Some Leaf" using t \<open>0 < hgt\<close> by (auto simp: tree_repr_def elim: repr_LeafE)
    from insert_nothing_indices [OF u o True this ins(1) Lv]
    show ?thesis by (intro exI [of _ "{#}"]) (simp add: single_def)
  next
    case False
    then obtain i ix where ix: "upd = Updated i" "ix (length (nodes_added u) - 1) = Some i"
      "stored_upto e (nodes_added u) (rows tbl) (length (nodes_added u)) ix (rows tbl')"
      using ins(4) by (auto simp: stored_update_def)
    obtain n where n: "root t = Some n" using u False by (cases "root t") (auto simp: commit_def)
    have n': "\<forall>idx. n \<noteq> Unresolved idx" using u False n by (auto simp: commit_def)
    have "n \<noteq> Leaf" using t n \<open>0 < hgt\<close> by (auto simp: tree_repr_def elim: repr_LeafE)
    obtain h r removed where c: "commit_subtree H ?st (leaves t) n ([], []) [] = Inr ((h, r), (nodes_added u, removed))"
      using commit_subtree_of_commit [OF u n n'] by blast
    have r: "r = Some (Index (length (nodes_added u) - 1))" 
      by (rule commit_subtree_index [OF c \<open>n \<noteq> Leaf\<close> n'])
    have own: "added_owned ?st (nodes_added u) 0 (length (nodes_added u)) (Index (length (nodes_added u) - 1)) Lv"
      using commit_subtree_owned [OF c, of Lv] Lv n r by simp
    have sub: "set_mset Lv \<subseteq> dom (rows tbl)" using live_rows Lv n by simp
    have "agree_on Lv ?st (table_storage e tbl' leaf')" for leaf'
    proof (rule agree_on_table)
      show "\<forall>i \<in># Lv. rows tbl' i = rows tbl i" using sub ins(2) unfolding map_le_def by (metis subsetD)
    qed
    from stored_added_owned [OF own ix(3) this]
    have "\<forall>leaf'. tree_indices (table_storage e tbl' leaf') (load_root (new_root old upd))
        (Lv + fresh_indices ix 0 (length (nodes_added u)))"
      using ix(1,2) by (simp add: ref_index_def new_root_def ac_simps)
    then show ?thesis using fresh_indices_new [OF ix(3)] by blast
  qed
  moreover have "removals tbl' = removals tbl" "card (dom (rows tbl')) \<le> card (dom (rows tbl)) + length (nodes_added u)"
    using ins(4) by (simp_all add: stored_update_def)
  ultimately show ?thesis unfolding tree_at_def using ins(1,2,3,5) by blast
qed

end

end
