(* ===== verification/TrieForest.thy ===== *)
theory TrieForest
  imports TrieLive
begin

text \<open>
  Tables that hold many trees, each at many blocks, and the removal of nodes that no kept tree
  needs: an insertion prunes and marks without touching any kept tree.
\<close>

section \<open>Marks\<close>

text \<open>
  \<open>R\<close> are the rows, \<open>mk n\<close> those marked for removal in the block \<open>n\<close> and \<open>X c b\<close> those of the tree \<open>c\<close> at
  the block \<open>b\<close>. No row of a tree is marked in its block or before, no row is marked twice and
  no row belongs to two trees.
\<close>

definition marks_ok ::
  "block_number \<Rightarrow> block_number \<Rightarrow> ('c \<Rightarrow> block_number \<Rightarrow> trie_index multiset) \<Rightarrow> trie_index set \<Rightarrow> (block_number \<Rightarrow> trie_index set) \<Rightarrow> bool" where
  "marks_ok low head X R mk \<longleftrightarrow>
     (\<forall>n i. i \<in> mk n \<longrightarrow> i \<in> R \<and> n \<le> head) \<and> (\<forall>n m i. i \<in> mk n \<longrightarrow> i \<in> mk m \<longrightarrow> n = m) \<and>
     (\<forall>c b. low \<le> b \<and> b \<le> head \<longrightarrow> single (X c b) \<and> set_mset (X c b) \<subseteq> R) \<and>
     (\<forall>c b n i. low \<le> b \<and> b \<le> head \<and> n \<le> b \<and> i \<in># X c b \<longrightarrow> i \<notin> mk n) \<and>
     (\<forall>c b c' b' i. low \<le> b \<and> b \<le> head \<and> low \<le> b' \<and> b' \<le> head \<and> i \<in># X c b \<and> i \<in># X c' b' \<longrightarrow> c = c')"

lemma marks_okD:
  assumes "marks_ok low head X R mk"
  shows "i \<in> mk n \<Longrightarrow> i \<in> R" and "i \<in> mk n \<Longrightarrow> n \<le> head" and "i \<in> mk n \<Longrightarrow> i \<in> mk m \<Longrightarrow> n = m"
    and "low \<le> b \<Longrightarrow> b \<le> head \<Longrightarrow> single (X c b)" and "low \<le> b \<Longrightarrow> b \<le> head \<Longrightarrow> i \<in># X c b \<Longrightarrow> i \<in> R"
    and "low \<le> b \<Longrightarrow> b \<le> head \<Longrightarrow> n \<le> b \<Longrightarrow> i \<in># X c b \<Longrightarrow> i \<notin> mk n"
    and "low \<le> b \<Longrightarrow> b \<le> head \<Longrightarrow> low \<le> b' \<Longrightarrow> b' \<le> head \<Longrightarrow> i \<in># X c b \<Longrightarrow> i \<in># X c' b' \<Longrightarrow> c = c'"
  using assms unfolding marks_ok_def by blast+

lemma marks_okI:
  assumes "\<And>n i. i \<in> mk n \<Longrightarrow> i \<in> R" and "\<And>n i. i \<in> mk n \<Longrightarrow> n \<le> head" and "\<And>n m i. i \<in> mk n \<Longrightarrow> i \<in> mk m \<Longrightarrow> n = m"
    and "\<And>c b. low \<le> b \<Longrightarrow> b \<le> head \<Longrightarrow> single (X c b)" and "\<And>c b i. low \<le> b \<Longrightarrow> b \<le> head \<Longrightarrow> i \<in># X c b \<Longrightarrow> i \<in> R"
    and "\<And>c b n i. low \<le> b \<Longrightarrow> b \<le> head \<Longrightarrow> n \<le> b \<Longrightarrow> i \<in># X c b \<Longrightarrow> i \<notin> mk n"
    and "\<And>c b c' b' i. low \<le> b \<Longrightarrow> b \<le> head \<Longrightarrow> low \<le> b' \<Longrightarrow> b' \<le> head \<Longrightarrow> i \<in># X c b \<Longrightarrow> i \<in># X c' b' \<Longrightarrow> c = c'"
  shows "marks_ok low head X R mk"
  unfolding marks_ok_def by (intro conjI allI impI subsetI; (elim conjE)?; (rule assms; assumption))

text \<open>Pruning and marking: rows marked in blocks that are not kept go.\<close>

lemma marks_ok_prune:
  assumes ok: "marks_ok low head X R mk" and low: "low \<le> low'" "low' \<le> head"
    and K: "\<forall>b. low' \<le> b \<longrightarrow> K b" 
    and R1: "R1 = R - (\<Union>n \<in> {n. \<not> K n}. mk n)"
  shows "marks_ok low' head X R1 (\<lambda>n. if K n then mk n else {})"
proof -
  note D = marks_okD [OF ok]
  have out: "i \<in> R1" if "low' \<le> b" "b \<le> head" "i \<in># X c b" for c b i
  proof -
    have "i \<notin> mk n" if "\<not> K n" for n
    proof -
      have "n \<le> b" using K that \<open>low' \<le> b\<close> by (meson linear order_trans)
      then show ?thesis using D(6) low \<open>low' \<le> b\<close> \<open>b \<le> head\<close> \<open>i \<in># X c b\<close> by (meson order_trans)
    qed
    moreover have "i \<in> R" using D(5) low that by (meson order_trans)
    ultimately show ?thesis using R1 by blast
  qed
  have l: "low \<le> b" if "low' \<le> b" for b using that low by (meson order_trans)
  show ?thesis
  proof (rule marks_okI)
    fix i n assume "i \<in> (if K n then mk n else {})"
    then show "i \<in> R1" "n \<le> head" using D(1,2,3) R1 by (auto split: if_splits) blast+
  next
    fix i n m assume "i \<in> (if K n then mk n else {})" "i \<in> (if K m then mk m else {})"
    then show "n = m" using D(3) by (simp split: if_splits)
  next
    fix c b n i assume "low' \<le> b" "b \<le> head" "n \<le> b" "i \<in># X c b"
    then show "i \<notin> (if K n then mk n else {})" using D(6) [of b n i c] l by auto
  qed (use D(4,7) l out in blast)+
qed

lemma marks_ok_mark:
  assumes ok: "marks_ok low head X R mk" and "low \<le> head" and Lv: "X c head = Lv + mset removed"
  shows "marks_ok low head (X(c := (X c)(head := Lv))) R (mk(head := mk head \<union> set removed))"
proof -
  note D = marks_okD [OF ok]
  let ?X = "X(c := (X c)(head := Lv))" and ?mk = "mk(head := mk head \<union> set removed)"
  have single: "single (Lv + mset removed)" using D(4) [of head c] \<open>low \<le> head\<close> Lv by simp
  have sub: "i \<in># X c' b" if "i \<in># ?X c' b" for c' b i using that Lv by (auto split: if_splits)
  have rem: "i \<in># X c head" if "i \<in> set removed" for i using that Lv by simp
  have mk: "i \<in> mk n \<or> n = head \<and> i \<in> set removed" if "i \<in> ?mk n" for i n using that by (auto split: if_splits)
  have new: "i \<notin> mk n" if "i \<in> set removed" for i n
    using D(2) [of i n] D(6) [of head n i c] rem [OF that] \<open>low \<le> head\<close> by blast
  show ?thesis
  proof (rule marks_okI)
    fix i n assume "i \<in> ?mk n"
    from mk [OF this] show "i \<in> R" "n \<le> head" using D(1,2) D(5) [of head i c] rem \<open>low \<le> head\<close> by auto
  next
    fix i n m assume "i \<in> ?mk n" "i \<in> ?mk m"
    from mk [OF this(1)] mk [OF this(2)] show "n = m" using D(3) new by blast
  next
    fix c' b assume "low \<le> b" "b \<le> head"
    then show "single (?X c' b)" using D(4) single_split(2) [OF single] by simp
  next
    fix c' b n i assume b: "low \<le> b" "b \<le> head" "n \<le> b" and i: "i \<in># ?X c' b"
    have False if "n = head" "i \<in> set removed"
    proof -
      have "b = head" using b that(1) by simp
      then show False using D(7) [of b head i c' c] b sub [OF i] rem [OF that(2)] single_split(1) [OF single] i that(2) by auto
    qed
    then show "i \<notin> ?mk n" using mk [of i n] D(6) [OF b sub [OF i]] by blast
  qed (use D(5,7) sub in blast)+
qed

lemma marks_ok_subset: "marks_ok low head X R mk \<Longrightarrow> (\<And>n. mk' n \<subseteq> mk n) \<Longrightarrow> marks_ok low head X R mk'"
proof (rule marks_okI)
  assume ok: "marks_ok low head X R mk" and "\<And>n. mk' n \<subseteq> mk n"
  then have sub: "i \<in> mk n" if "i \<in> mk' n" for i n using that by blast
  show "i \<in> R" "n \<le> head" if "i \<in> mk' n" for i n using marks_okD(1,2) [OF ok sub [OF that]] .
  show "n = m" if "i \<in> mk' n" "i \<in> mk' m" for i n m using marks_okD(3) [OF ok sub [OF that(1)] sub [OF that(2)]] .
  show "i \<notin> mk' n" if "low \<le> b" "b \<le> head" "n \<le> b" "i \<in># X c b" for c b n i
    using marks_okD(6) [OF ok that] sub by blast
qed (rule marks_okD; assumption)+

lemma marks_ok_fresh:
  assumes ok: "marks_ok low head X R mk" and "low \<le> head" and "single fresh" and fresh: "set_mset fresh \<inter> R = {}"
    and R': "R \<union> set_mset fresh \<subseteq> R'"
  shows "marks_ok low head (X(c := (X c)(head := X c head + fresh))) R' mk"
proof -
  note D = marks_okD [OF ok]
  let ?X = "X(c := (X c)(head := X c head + fresh))"
  have X: "i \<in># X c' b \<or> c' = c \<and> i \<in># fresh" if "i \<in># ?X c' b" for c' b i using that by (auto split: if_splits)
  have single: "single (X c head + fresh)"
    using D(4) [of head c] D(5) [of head _ c] \<open>low \<le> head\<close> \<open>single fresh\<close> fresh by (intro single_join) blast+
  show ?thesis
  proof (rule marks_okI)
    fix c' b assume "low \<le> b" "b \<le> head"
    then show "single (?X c' b)" using D(4) single by simp
  next
    fix c' b i assume b: "low \<le> b" "b \<le> head" and i: "i \<in># ?X c' b"
    from X [OF i] show "i \<in> R'" using D(5) [OF b] R' by blast
  next
    fix c' b n i assume b: "low \<le> b" "b \<le> head" "n \<le> b" and i: "i \<in># ?X c' b"
    from X [OF i] show "i \<notin> mk n" using D(6) [OF b] D(1) fresh by blast
  next
    fix c1 b1 c2 b2 i
    assume b: "low \<le> b1" "b1 \<le> head" "low \<le> b2" "b2 \<le> head" and i: "i \<in># ?X c1 b1" "i \<in># ?X c2 b2"
    from X [OF i(1)] X [OF i(2)] show "c1 = c2" using D(7) [OF b] D(5) [OF b(1,2)] D(5) [OF b(3,4)] fresh by blast
  qed (use D(1,2,3) R' in blast)+
qed

definition mark_at :: "engine \<Rightarrow> trie_table \<Rightarrow> block_number \<Rightarrow> trie_index set" where
  "mark_at e tbl n = marked e (\<lambda>m. m = n) tbl"

lemma marked_mark_at: "marked e P tbl = (\<Union>n \<in> {n. P n}. mark_at e tbl n)"
  by (auto simp: mark_at_def marked_def blob_indices_def)

text \<open>The marks after an insertion at the block \<open>head\<close>.\<close>

definition next_marks ::
  "trie_prune_mode \<Rightarrow> block_number \<Rightarrow> trie_index list \<Rightarrow> (block_number \<Rightarrow> trie_index set) \<Rightarrow> block_number \<Rightarrow> trie_index set" where
  "next_marks mode head removed mk n = (if kept mode head n then mk n else {}) \<union>
     (if mode \<noteq> Archive \<and> n = head then set removed else {})"

text \<open>
  What \<open>insert_trie\<close> does before it adds the nodes: rows that were marked in blocks which are not
  kept any more go, and the removed nodes are marked.
\<close>

lemma insert_trie_steps:
  assumes "engine_ok e" and "removals_ok e tbl" and "\<forall>i \<in> set (update_nodes_removed u). i \<le> i64_max"
  shows "\<exists>tbl1. insert_trie e mode u block tbl = insert_added e u tbl1 \<and> removals_ok e tbl1 \<and>
    rows tbl1 = rows tbl |` (- marked e (\<lambda>n. \<not> kept mode block n) tbl) \<and>
    mark_at e tbl1 = next_marks mode block (update_nodes_removed u) (mark_at e tbl)"
proof (cases mode)
  case Archive
  then show ?thesis using assms(2)
    by (intro exI [of _ tbl])
       (auto simp: insert_trie_def kept_def marked_def blob_indices_def restrict_map_def next_marks_def fun_eq_iff)
next
  case (Prune k)
  obtain tbl1 where tbl1: "prune_trie e block k tbl = Inr tbl1" "removals_ok e tbl1"
    "rows tbl1 = rows tbl |` (- marked e (\<lambda>n. \<not> kept mode block n) tbl)"
    "removals tbl1 = filter (\<lambda>(n, _). kept mode block n) (removals tbl)"
  proof (cases "k \<le> block")
    case True
    have eq: "(\<lambda>n. \<not> kept mode block n) = (\<lambda>n. n < block - k)" "(\<lambda>(n, _ :: u8 list). kept mode block n) = (\<lambda>(n, _). \<not> n < block - k)"
      using True Prune by (auto simp: kept_def fun_eq_iff)
    show ?thesis using prune_trie_eq [OF assms(2) True] that unfolding eq by blast
  next
    case False
    then have "(\<lambda>n. \<not> kept mode block n) = (\<lambda>n. False)" "(\<lambda>(n, _ :: u8 list). kept mode block n) = (\<lambda>_. True)"
      using Prune by (auto simp: kept_def fun_eq_iff)
    then show ?thesis using that [of tbl] False assms(2)
      by (simp add: prune_trie_def block_checked_sub_def marked_def blob_indices_def restrict_map_def)
  qed
  let ?tbl = "remove_trie e (update_nodes_removed u) block tbl1"
  have run: "insert_trie e mode u block tbl = insert_added e u ?tbl" using Prune tbl1(1) by (simp add: insert_trie_def)
  have ok: "removals_ok e ?tbl" using remove_trie_ok(1) [OF assms(1) tbl1(2) assms(3)] by blast
  have "mark_at e tbl1 n = (if kept mode block n then mark_at e tbl n else {})" for n
    by (auto simp: mark_at_def marked_def tbl1(4) blob_indices_def)
  then have "mark_at e ?tbl n = next_marks mode block (update_nodes_removed u) (mark_at e tbl) n" for n
    using remove_trie_ok(2) [OF assms(1) tbl1(2) assms(3)] Prune by (auto simp: mark_at_def next_marks_def)
  then show ?thesis using run ok tbl1(3) by (intro exI [of _ ?tbl]) (simp add: remove_trie_def fun_eq_iff)
qed

text \<open>
  A table that holds the trees at the blocks from \<open>low\<close> to \<open>head\<close>: \<open>rt c b\<close> is the root of the tree
  \<open>c\<close> at the block \<open>b\<close>, \<open>Ms c b\<close> its map and \<open>X c b\<close> are the rows of its nodes. The removed nodes count
  as marked in the blocks that \<open>mk\<close> gives.
\<close>

definition forest_ok ::
  "engine \<Rightarrow> felt_hash \<Rightarrow> nat \<Rightarrow> block_number \<Rightarrow> block_number \<Rightarrow> ('c \<Rightarrow> block_number \<Rightarrow> trie_path \<rightharpoonup> felt)
     \<Rightarrow> ('c \<Rightarrow> block_number \<Rightarrow> trie_index multiset) \<Rightarrow> trie_table \<Rightarrow> ('c \<Rightarrow> block_number \<Rightarrow> trie_index option)
     \<Rightarrow> (block_number \<Rightarrow> trie_index set) \<Rightarrow> bool" where
  "forest_ok e H hgt low head Ms X tbl rt mk \<longleftrightarrow> table_wf tbl \<and> removals_ok e tbl \<and>
     marks_ok low head X (dom (rows tbl)) mk \<and>
     (\<forall>c b. low \<le> b \<and> b \<le> head \<longrightarrow> tree_at e H hgt tbl (\<lambda>k. Inr (Ms c b k)) (rt c b) (Ms c b) (X c b))"

lemma forest_okD:
  assumes "forest_ok e H hgt low head Ms X tbl rt mk"
  shows "table_wf tbl" and "removals_ok e tbl" and "marks_ok low head X (dom (rows tbl)) mk"
    and "low \<le> b \<Longrightarrow> b \<le> head \<Longrightarrow> tree_at e H hgt tbl (\<lambda>k. Inr (Ms c b k)) (rt c b) (Ms c b) (X c b)"
  using assms by (simp_all add: forest_ok_def)

lemma tree_at_leaf:
  assumes "tree_at e H hgt tbl leaf r M X" and "r \<noteq> None \<longrightarrow> (\<forall>k \<in> dom M. leaf' k = Inr (M k))"
  shows "tree_at e H hgt tbl leaf' r M X"
proof (cases r)
  case (Some i)
  have ext: "extends_storage (table_storage e tbl leaf) (table_storage e tbl leaf')" by (rule table_storage_extends) simp
  have "repr H hgt (table_storage e tbl leaf) Map.empty M [] (Unresolved i) (dom M)"
    using assms(1) Some by (simp add: tree_at_def tree_repr_def load_root_def tree_new_def)
  from repr_extends [OF this ext] assms(2) Some have "tree_repr H hgt (table_storage e tbl leaf') (load_root r) M"
    by (simp add: tree_repr_def load_root_def tree_new_def table_storage_def)
  moreover have "owned (table_storage e tbl leaf') (Unresolved i) X"
    by (rule owned_agree [OF _ agree_on_table, of e tbl leaf]) (use assms(1) Some in \<open>simp_all add: tree_at_def\<close>)
  ultimately show ?thesis using Some by (simp add: tree_at_def)
qed (use assms(1) in \<open>simp add: tree_at_def tree_repr_def load_root_def tree_empty_def tree_indices_def\<close>)

lemma kept_mono: "kept mode head b \<Longrightarrow> b \<le> n \<Longrightarrow> kept mode head n"
  by (auto simp: kept_def split: trie_prune_mode.splits)

lemma insert_root_blocks: "\<forall>n \<in> fst ` set tbl. n \<le> head \<Longrightarrow> \<forall>n \<in> fst ` set (insert_root mode head upd tbl). n \<le> head"
  by (auto simp: insert_root_def insert_by_block_def insert_or_replace_def delete_roots_def Let_def
    split: root_index_update.splits trie_prune_mode.splits option.splits)

lemma kept_rows:
  assumes marks: "marks_ok low head X R mk" and low: "low \<le> low'" "low' \<le> head"
    and kept: "\<forall>b. low' \<le> b \<longrightarrow> kept mode head b"
    and pruned: "\<forall>n. \<not> kept mode head n \<longrightarrow> mk n = mark_at e tbl n"
  shows "marks_ok low' head X (R - marked e (\<lambda>n. \<not> kept mode head n) tbl) (\<lambda>n. if kept mode head n then mk n else {})"
proof (rule marks_ok_prune [OF marks low kept])
  show "R - marked e (\<lambda>n. \<not> kept mode head n) tbl = R - (\<Union>n \<in> {n. \<not> kept mode head n}. mk n)"
    using pruned by (simp add: marked_mark_at)
qed

lemma forest_replace:
  assumes ok: "forest_ok e H hgt low head Ms X tbl rt mk" and low: "low \<le> low'" "low' \<le> head"
    and kept: "\<forall>b. low' \<le> b \<longrightarrow> kept mode head b" and pruned: "\<forall>n. \<not> kept mode head n \<longrightarrow> mk n = mark_at e tbl n"
    and Lv: "X c head = Lv + mset removed"
    and tbl1: "removals_ok e tbl1" "rows tbl1 = rows tbl |` (- marked e (\<lambda>n. \<not> kept mode head n) tbl)"
    and tbl': "rows tbl1 \<subseteq>\<^sub>m rows tbl'" "table_wf tbl'" "removals tbl' = removals tbl1"
    and fresh: "single fresh" "set_mset fresh \<inter> dom (rows tbl1) = {}"
    and new: "tree_at e H hgt tbl' (\<lambda>k. Inr (M k)) r' M (Lv + fresh)"
  shows "forest_ok e H hgt low' head (Ms(c := (Ms c)(head := M))) (X(c := (X c)(head := Lv + fresh))) tbl'
    (rt(c := (rt c)(head := r'))) (next_marks mode head removed mk)"
proof -
  let ?X = "X(c := (X c)(head := Lv))"
  have l: "low \<le> b" if "low' \<le> b" for b using that low by (meson order_trans)
  have dom1: "dom (rows tbl1) = dom (rows tbl) - marked e (\<lambda>n. \<not> kept mode head n) tbl" using tbl1(2) by auto
  note m1 = kept_rows [OF forest_okD(3) [OF ok] low kept pruned, folded dom1]
  have m2: "marks_ok low' head ?X (dom (rows tbl1)) (next_marks mode head removed mk)"
    by (rule marks_ok_subset [OF marks_ok_mark [OF m1 low(2) Lv]]) (auto simp: next_marks_def)
  have "set_mset (Lv + fresh) \<subseteq> dom (rows tbl')" "dom (rows tbl1) \<subseteq> dom (rows tbl')"
    using tree_at_rows [OF new] map_le_implies_dom_le [OF tbl'(1)] by simp_all
  then have "marks_ok low' head (?X(c := (?X c)(head := ?X c head + fresh))) (dom (rows tbl')) (next_marks mode head removed mk)"
    by (intro marks_ok_fresh [OF m2 low(2) fresh]) simp
  then have m3: "marks_ok low' head (X(c := (X c)(head := Lv + fresh))) (dom (rows tbl')) (next_marks mode head removed mk)"
    by simp
  have old: "tree_at e H hgt tbl' (\<lambda>k. Inr (Ms c' b k)) (rt c' b) (Ms c' b) (X c' b)" if b: "low' \<le> b" "b \<le> head" for c' b
  proof (rule tree_at_agree [OF forest_okD(4) [OF ok l [OF b(1)] b(2)]], rule ballI)
    fix i assume "i \<in># X c' b"
    then have "i \<in> dom (rows tbl1)" using marks_okD(5) [OF m1 b] by blast
    then show "rows tbl' i = rows tbl i" using tbl'(1) tbl1(2) dom1 by (auto simp: map_le_def)
  qed
  have "tree_at e H hgt tbl' (\<lambda>k. Inr ((Ms(c := (Ms c)(head := M))) c' b k)) ((rt(c := (rt c)(head := r'))) c' b)
      ((Ms(c := (Ms c)(head := M))) c' b) ((X(c := (X c)(head := Lv + fresh))) c' b)" if "low' \<le> b" "b \<le> head" for c' b
    using old [OF that] new by (cases "c' = c"; cases "b = head") simp_all
  moreover have "removals_ok e tbl'" using tbl1(1) tbl'(3) by (simp add: removals_ok_def)
  ultimately show ?thesis unfolding forest_ok_def using tbl'(2) m3 by blast
qed

text \<open>
  Inserting the update \<open>u\<close> of a tree that was loaded from the root \<open>r\<close> and holds the map \<open>M\<close> now:
  the new root stands for the rows \<open>Lv\<close> it keeps and for new ones.
\<close>

definition inserts_as ::
  "engine \<Rightarrow> felt_hash \<Rightarrow> nat \<Rightarrow> trie_update \<Rightarrow> trie_table \<Rightarrow> trie_index option \<Rightarrow> (trie_path \<rightharpoonup> felt) \<Rightarrow> trie_index multiset \<Rightarrow> bool" where
  "inserts_as e H hgt u tbl r M Lv \<longleftrightarrow>
     (\<exists>upd tbl' fresh. insert_added e u tbl = Inr (upd, tbl') \<and> rows tbl \<subseteq>\<^sub>m rows tbl' \<and> table_wf tbl' \<and>
        removals tbl' = removals tbl \<and> card (dom (rows tbl')) \<le> card (dom (rows tbl)) + length (nodes_added u) \<and> single fresh \<and> set_mset fresh \<inter> dom (rows tbl) = {} \<and>
        (\<forall>leaf'. (\<forall>k \<in> dom M. leaf' k = Inr (M k)) \<longrightarrow> tree_at e H hgt tbl' leaf' (new_root r upd) M (Lv + fresh)))"

text \<open>
  An update of a tree with the rows \<open>X\<close> that was computed on the table \<open>tbl0\<close>: it can be inserted into every
  table that still has the rows it refers to.
\<close>

definition prepared ::
  "engine \<Rightarrow> felt_hash \<Rightarrow> nat \<Rightarrow> trie_table \<Rightarrow> trie_index option \<Rightarrow> (trie_path \<rightharpoonup> felt) \<Rightarrow> trie_index multiset \<Rightarrow> trie_update \<Rightarrow> bool" where
  "prepared e H hgt tbl0 r M X u \<longleftrightarrow> (\<exists>Lv. X = Lv + mset (update_nodes_removed u) \<and>
     (\<forall>tbl1. table_wf tbl1 \<longrightarrow> (\<forall>i \<in># Lv. rows tbl1 i = rows tbl0 i) \<longrightarrow>
       card (dom (rows tbl1)) + length (nodes_added u) < 2 ^ 63 \<longrightarrow> inserts_as e H hgt u tbl1 r M Lv))"

context felt_valued_hash
begin

lemma forest_insert:
  assumes e: "engine_ok e" and ok: "forest_ok e H hgt low head Ms X tbl rt mk" and low: "low \<le> low'" "low' \<le> head"
    and kept: "\<forall>b. low' \<le> b \<longrightarrow> kept mode head b" and pruned: "\<forall>n. \<not> kept mode head n \<longrightarrow> mk n = mark_at e tbl n"
    and u: "prepared e H hgt tbl0 (rt c head) M (X c head) u" and rows0: "\<forall>i \<in># X c head. rows tbl i = rows tbl0 i"
    and room: "card (dom (rows tbl)) + length (nodes_added u) < 2 ^ 63"
  shows "\<exists>upd tbl' Y. insert_trie e mode u head tbl = Inr (upd, tbl') \<and>
    mark_at e tbl' = next_marks mode head (update_nodes_removed u) (mark_at e tbl) \<and>
    (\<forall>c' b. low' \<le> b \<longrightarrow> b \<le> head \<longrightarrow> (\<forall>i \<in># X c' b. rows tbl' i = rows tbl i)) \<and>
    card (dom (rows tbl')) \<le> card (dom (rows tbl)) + length (nodes_added u) \<and>
    forest_ok e H hgt low' head (Ms(c := (Ms c)(head := M))) (X(c := (X c)(head := Y))) tbl'
      (rt(c := (rt c)(head := new_root (rt c head) upd))) (next_marks mode head (update_nodes_removed u) mk)"
proof -
  obtain Lv where Lv: "X c head = Lv + mset (update_nodes_removed u)" and ins: "\<forall>tbl1. table_wf tbl1 \<longrightarrow>
      (\<forall>i \<in># Lv. rows tbl1 i = rows tbl0 i) \<longrightarrow> card (dom (rows tbl1)) + length (nodes_added u) < 2 ^ 63 \<longrightarrow>
      inserts_as e H hgt u tbl1 (rt c head) M Lv"
    using u unfolding prepared_def by blast
  let ?D = "marked e (\<lambda>n. \<not> kept mode head n) tbl"
  note wf = forest_okD(1) [OF ok]
  have lh: "low \<le> head" using low by simp
  have "set (update_nodes_removed u) \<subseteq> set_mset (X c head)" using Lv by simp
  then have "\<forall>i \<in> set (update_nodes_removed u). i \<le> i64_max"
    using tree_at_rows [OF forest_okD(4) [OF ok lh order.refl, of c]] wf by (auto simp: table_wf_def)
  from insert_trie_steps [OF e forest_okD(2) [OF ok] this, of mode head] obtain tbl1 where
    tbl1: "insert_trie e mode u head tbl = insert_added e u tbl1" "removals_ok e tbl1" "rows tbl1 = rows tbl |` (- ?D)"
    "mark_at e tbl1 = next_marks mode head (update_nodes_removed u) (mark_at e tbl)" by blast
  note m1 = kept_rows [OF forest_okD(3) [OF ok] low kept pruned]
  have same1: "rows tbl1 i = rows tbl i" "i \<in> dom (rows tbl1)" if "low' \<le> b" "b \<le> head" "i \<in># X c' b" for c' b i
    using marks_okD(5) [OF m1 that] tbl1(3) by auto
  have wf1: "table_wf tbl1" using wf tbl1(3) by (auto simp: table_wf_def)
  have le: "card (dom (rows tbl1)) \<le> card (dom (rows tbl))" using tbl1(3) by (intro card_mono) auto
  then have "card (dom (rows tbl1)) + length (nodes_added u) < 2 ^ 63" using room by linarith
  moreover have "\<forall>i \<in># Lv. rows tbl1 i = rows tbl0 i" using same1(1) [OF low(2) order.refl, of _ c] rows0 Lv by simp
  ultimately have "inserts_as e H hgt u tbl1 (rt c head) M Lv" using ins wf1 by blast
  then obtain upd tbl' fresh where
    new: "insert_added e u tbl1 = Inr (upd, tbl')" "rows tbl1 \<subseteq>\<^sub>m rows tbl'" "table_wf tbl'" "removals tbl' = removals tbl1"
      "card (dom (rows tbl')) \<le> card (dom (rows tbl1)) + length (nodes_added u)"
      "single fresh" "set_mset fresh \<inter> dom (rows tbl1) = {}"
      "\<forall>leaf'. (\<forall>k \<in> dom M. leaf' k = Inr (M k)) \<longrightarrow> tree_at e H hgt tbl' leaf' (new_root (rt c head) upd) M (Lv + fresh)"
    unfolding inserts_as_def by blast
  have "tree_at e H hgt tbl' (\<lambda>k. Inr (M k)) (new_root (rt c head) upd) M (Lv + fresh)"
    by (rule new(8) [rule_format, of "\<lambda>k. Inr (M k)"]) (rule refl)
  then have ok': "forest_ok e H hgt low' head (Ms(c := (Ms c)(head := M))) (X(c := (X c)(head := Lv + fresh))) tbl'
      (rt(c := (rt c)(head := new_root (rt c head) upd))) (next_marks mode head (update_nodes_removed u) mk)"
    by (rule forest_replace [OF ok low kept pruned Lv tbl1(2,3) new(2-4,6,7)])
  have "insert_trie e mode u head tbl = Inr (upd, tbl')" using new(1) tbl1(1) by simp
  moreover have "mark_at e tbl' = mark_at e tbl1" using new(4) by (simp add: mark_at_def [abs_def] marked_def)
  moreover have "rows tbl' i = rows tbl i" if "low' \<le> b" "b \<le> head" "i \<in># X c' b" for c' b i
    using same1 [OF that] new(2) by (simp add: map_le_def)
  moreover have "card (dom (rows tbl')) \<le> card (dom (rows tbl)) + length (nodes_added u)" using new(5) le by linarith
  ultimately show ?thesis using ok' tbl1(4) by (intro exI conjI allI impI ballI) simp_all
qed

end

end
