(* ===== verification/StateTrees.thy ===== *)
theory StateTrees
  imports StateTables TrieForest
begin

text \<open>
  The trees of the Starknet state over the tables of the database, \<^verbatim>\<open>crates/merkle-tree/src/\<close>:
  \<^verbatim>\<open>class.rs\<close>, \<^verbatim>\<open>contract.rs\<close>, \<^verbatim>\<open>contract_state.rs\<close> and \<^verbatim>\<open>starknet_state.rs\<close>. The Pedersen hash is the
  argument \<open>P\<close>. A tree is the in-memory tree with the block of its storage.
\<close>

section \<open>Leaves\<close>

definition felt_of_path :: "string \<Rightarrow> trie_path \<Rightarrow> felt outcome" where
  "felt_of_path msg path = (case felt_from_bits path of Inl _ \<Rightarrow> Inl (Err msg) | Inr f \<Rightarrow> Inr f)"

definition class_storage_leaf :: "state_db \<Rightarrow> block_number option \<Rightarrow> trie_path \<Rightarrow> felt option outcome" where
  "class_storage_leaf db block path =
     (if length path \<noteq> 251 then Inl (Panic ''path.len() == 251'')
      else case block of
        None \<Rightarrow> Inr None
      | Some block \<Rightarrow>
          bind_outcome (felt_of_path ''Mapping path to sierra hash'' path) (\<lambda>sierra.
            Inr (case tx_casm_hash_at (BlockNumber block) sierra db of
                None \<Rightarrow> None
              | Some casm \<Rightarrow> tx_class_commitment_leaf block casm db)))"

definition class_storage :: "engine \<Rightarrow> state_db \<Rightarrow> block_number option \<Rightarrow> storage" where
  "class_storage e db block = \<lparr> st_get = tx_trie_node e (trie_class db),
     st_hash = tx_trie_node_hash (trie_class db), st_leaf = class_storage_leaf db block \<rparr>"

definition contract_storage_leaf :: "state_db \<Rightarrow> felt \<Rightarrow> block_number option \<Rightarrow> trie_path \<Rightarrow> felt option outcome" where
  "contract_storage_leaf db contract block path =
     (if length path \<noteq> 251 then Inl (Panic ''path.len() == 251'')
      else case block of
        None \<Rightarrow> Inr None
      | Some block \<Rightarrow>
          bind_outcome (felt_of_path ''Mapping leaf path to storage address'' path) (\<lambda>key.
            Inr (tx_storage_value (BlockNumber block) contract key db)))"

definition contract_storage :: "engine \<Rightarrow> state_db \<Rightarrow> felt \<Rightarrow> block_number option \<Rightarrow> storage" where
  "contract_storage e db contract block = \<lparr> st_get = tx_trie_node e (trie_contracts db),
     st_hash = tx_trie_node_hash (trie_contracts db), st_leaf = contract_storage_leaf db contract block \<rparr>"

definition storage_trie_leaf :: "state_db \<Rightarrow> block_number option \<Rightarrow> trie_path \<Rightarrow> felt option outcome" where
  "storage_trie_leaf db block path =
     (if length path \<noteq> 251 then Inl (Panic ''path.len() == 251'')
      else case block of
        None \<Rightarrow> Inr None
      | Some block \<Rightarrow>
          bind_outcome (felt_of_path ''Mapping leaf path to contract address'' path) (\<lambda>contract.
            Inr (tx_contract_state_hash block contract db)))"

definition storage_trie_storage :: "engine \<Rightarrow> state_db \<Rightarrow> block_number option \<Rightarrow> storage" where
  "storage_trie_storage e db block = \<lparr> st_get = tx_trie_node e (trie_storage db),
     st_hash = tx_trie_node_hash (trie_storage db), st_leaf = storage_trie_leaf db block \<rparr>"

section \<open>Trees\<close>

type_synonym tree_in = "merkle_tree \<times> block_number option"

definition tree_in_empty :: tree_in where
  "tree_in_empty = (tree_empty, None)"

definition tree_in_load :: "trie_index option \<Rightarrow> block_number \<Rightarrow> tree_in" where
  "tree_in_load idx block = (case idx of None \<Rightarrow> tree_in_empty | Some idx \<Rightarrow> (tree_new idx, Some block))"

definition class_tree_load :: "state_db \<Rightarrow> block_number \<Rightarrow> tree_in" where
  "class_tree_load db block = tree_in_load (tx_class_root_index block db) block"

definition class_tree_set :: "engine \<Rightarrow> state_db \<Rightarrow> felt \<Rightarrow> felt \<Rightarrow> tree_in \<Rightarrow> tree_in outcome" where
  "class_tree_set e db class value t = (case t of (tree, block) \<Rightarrow>
     bind_outcome (tree_set 251 (class_storage e db block) (view_bits class) value tree) (\<lambda>tree. Inr (tree, block)))"

definition class_tree_commit :: "engine \<Rightarrow> state_db \<Rightarrow> tree_in \<Rightarrow> (felt \<times> trie_update) outcome" where
  "class_tree_commit e db t = (case t of (tree, block) \<Rightarrow>
     bind_outcome (commit poseidon_felt_hash (class_storage e db block) tree) (\<lambda>update.
       Inr (root_commitment update, update)))"

definition contract_tree_load :: "state_db \<Rightarrow> felt \<Rightarrow> block_number \<Rightarrow> tree_in" where
  "contract_tree_load db contract block = tree_in_load (tx_contract_root_index block contract db) block"

definition contract_tree_set :: "engine \<Rightarrow> state_db \<Rightarrow> felt \<Rightarrow> felt \<Rightarrow> felt \<Rightarrow> tree_in \<Rightarrow> tree_in outcome" where
  "contract_tree_set e db contract address value t = (case t of (tree, block) \<Rightarrow>
     bind_outcome (tree_set 251 (contract_storage e db contract block) (view_bits address) value tree) (\<lambda>tree. Inr (tree, block)))"

definition contract_tree_commit :: "engine \<Rightarrow> felt_hash \<Rightarrow> state_db \<Rightarrow> felt \<Rightarrow> tree_in \<Rightarrow> (felt \<times> trie_update) outcome" where
  "contract_tree_commit e P db contract t = (case t of (tree, block) \<Rightarrow>
     bind_outcome (commit P (contract_storage e db contract block) tree) (\<lambda>update.
       Inr (root_commitment update, update)))"

definition storage_tree_load :: "state_db \<Rightarrow> block_number \<Rightarrow> tree_in" where
  "storage_tree_load db block = tree_in_load (tx_storage_root_index block db) block"

definition storage_tree_set :: "engine \<Rightarrow> state_db \<Rightarrow> felt \<Rightarrow> felt \<Rightarrow> tree_in \<Rightarrow> tree_in outcome" where
  "storage_tree_set e db address value t = (case t of (tree, block) \<Rightarrow>
     bind_outcome (tree_set 251 (storage_trie_storage e db block) (view_bits address) value tree) (\<lambda>tree. Inr (tree, block)))"

definition storage_tree_get :: "engine \<Rightarrow> state_db \<Rightarrow> felt \<Rightarrow> tree_in \<Rightarrow> (felt option \<times> tree_in) outcome" where
  "storage_tree_get e db address t = (case t of (tree, block) \<Rightarrow>
     bind_outcome (tree_get 251 (storage_trie_storage e db block) (view_bits address) tree) (\<lambda>(v, tree). Inr (v, tree, block)))"

definition storage_tree_commit :: "engine \<Rightarrow> felt_hash \<Rightarrow> state_db \<Rightarrow> tree_in \<Rightarrow> (felt \<times> trie_update) outcome" where
  "storage_tree_commit e P db t = (case t of (tree, block) \<Rightarrow>
     bind_outcome (commit P (storage_trie_storage e db block) tree) (\<lambda>update.
       Inr (root_commitment update, update)))"

definition tree_in_verify :: "bool \<Rightarrow> tree_in \<Rightarrow> tree_in" where
  "tree_in_verify v t = (case t of (tree, block) \<Rightarrow> (with_verify_hashes v tree, block))"

section \<open>The state of a contract\<close>

record contract_state_update_result =
  res_state_hash :: felt
  res_contract_address :: felt
  did_storage_updates :: bool
  res_trie_update :: trie_update

definition default_trie_update :: trie_update where
  "default_trie_update = \<lparr> nodes_added = [], update_nodes_removed = [], root_commitment = felt_ZERO \<rparr>"

definition contract_result_insert ::
  "engine \<Rightarrow> trie_prune_mode \<Rightarrow> block_number \<Rightarrow> contract_state_update_result \<Rightarrow> state_db \<Rightarrow> state_db outcome" where
  "contract_result_insert e mode block r db =
     bind_outcome
       (if did_storage_updates r then
          bind_outcome (tx_insert_contract_trie e mode (res_trie_update r) block db) (\<lambda>(root_index, db).
            Inr (tx_insert_contract_root mode block (res_contract_address r) root_index db))
        else Inr db)
       (\<lambda>db. Inr (tx_insert_contract_state_hash mode block (res_contract_address r) (res_state_hash r) db))"

definition contract_address_ONE :: felt where
  "contract_address_ONE = be_bytes 32 1"

definition contract_address_TWO :: felt where
  "contract_address_TWO = be_bytes 32 2"

definition is_system_contract :: "felt \<Rightarrow> bool" where
  "is_system_contract address \<longleftrightarrow> address = contract_address_ONE \<or> address = contract_address_TWO"

definition calculate_contract_state_hash :: "felt_hash \<Rightarrow> felt \<Rightarrow> felt \<Rightarrow> felt \<Rightarrow> felt" where
  "calculate_contract_state_hash P hash contract_root nonce =
     (let hash = P hash contract_root; hash = P hash nonce in P hash felt_ZERO)"

fun contract_tree_set_all :: "engine \<Rightarrow> state_db \<Rightarrow> felt \<Rightarrow> (felt \<times> felt) list \<Rightarrow> tree_in \<Rightarrow> tree_in outcome" where
  "contract_tree_set_all e db contract [] t = Inr t"
| "contract_tree_set_all e db contract ((key, value) # updates) t =
     bind_outcome (contract_tree_set e db contract key value t) (contract_tree_set_all e db contract updates)"

definition update_contract_state ::
  "engine \<Rightarrow> felt_hash \<Rightarrow> felt \<Rightarrow> (felt \<times> felt) list \<Rightarrow> felt option \<Rightarrow> felt option \<Rightarrow> state_db \<Rightarrow> bool \<Rightarrow> block_number
     \<Rightarrow> contract_state_update_result outcome" where
  "update_contract_state e P contract updates new_nonce new_class_hash db verify block =
     bind_outcome
       (if updates \<noteq> [] then
          let contract_tree = tree_in_verify verify (case block_parent block of
                Some parent \<Rightarrow> contract_tree_load db contract parent
              | None \<Rightarrow> tree_in_empty)
          in bind_outcome (contract_tree_set_all e db contract updates contract_tree)
               (contract_tree_commit e P db contract)
        else
          bind_outcome (tx_contract_root block contract db) (\<lambda>current_root.
            Inr (case current_root of None \<Rightarrow> felt_ZERO | Some r \<Rightarrow> r, default_trie_update)))
       (\<lambda>(new_root, trie_update).
     bind_outcome
       (if is_system_contract contract then Inr felt_ZERO
        else case new_class_hash of
            Some class_hash \<Rightarrow> Inr class_hash
          | None \<Rightarrow> context_some ''Contract class hash missing'' (tx_contract_class_hash (BlockNumber block) contract db))
       (\<lambda>class_hash.
     let nonce = (case new_nonce of
             Some nonce \<Rightarrow> nonce
           | None \<Rightarrow> (case tx_contract_nonce contract (BlockNumber block) db of None \<Rightarrow> felt_ZERO | Some n \<Rightarrow> n))
     in Inr \<lparr> res_state_hash = calculate_contract_state_hash P class_hash new_root nonce,
              res_contract_address = contract, did_storage_updates = (updates \<noteq> []), res_trie_update = trie_update \<rparr>))"

section \<open>The state of a block\<close>

text \<open>
  \<^verbatim>\<open>update_starknet_state\<close>. The updates of the contracts are computed in threads that read the
  committed database \<open>committed\<close> through connections of their own; their results are collected in
  order and then inserted one by one.
\<close>

fun contract_results ::
  "engine \<Rightarrow> felt_hash \<Rightarrow> state_db \<Rightarrow> bool \<Rightarrow> block_number \<Rightarrow> (felt \<times> contract_update) list
     \<Rightarrow> contract_state_update_result list outcome" where
  "contract_results e P committed verify block [] = Inr []"
| "contract_results e P committed verify block ((contract, update) # us) =
     bind_outcome (update_contract_state e P contract (upd_storage update) (upd_nonce update)
         (map_option update_class_hash (upd_class update)) committed verify block) (\<lambda>r.
     bind_outcome (contract_results e P committed verify block us) (\<lambda>rs. Inr (r # rs)))"

fun insert_contract_results ::
  "engine \<Rightarrow> trie_prune_mode \<Rightarrow> block_number \<Rightarrow> contract_state_update_result list \<Rightarrow> tree_in \<times> state_db
     \<Rightarrow> (tree_in \<times> state_db) outcome" where
  "insert_contract_results e mode block [] s = Inr s"
| "insert_contract_results e mode block (r # rs) (tree, db) =
     bind_outcome (storage_tree_set e db (res_contract_address r) (res_state_hash r) tree) (\<lambda>tree.
     bind_outcome (contract_result_insert e mode block r db) (\<lambda>db.
       insert_contract_results e mode block rs (tree, db)))"

fun update_system_contracts ::
  "engine \<Rightarrow> felt_hash \<Rightarrow> trie_prune_mode \<Rightarrow> bool \<Rightarrow> block_number \<Rightarrow> (felt \<times> (felt \<times> felt) list) list \<Rightarrow> tree_in \<times> state_db
     \<Rightarrow> (tree_in \<times> state_db) outcome" where
  "update_system_contracts e P mode verify block [] s = Inr s"
| "update_system_contracts e P mode verify block ((contract, storage) # us) (tree, db) =
     bind_outcome (update_contract_state e P contract storage None None db verify block) (\<lambda>r.
     bind_outcome (storage_tree_set e db contract (res_state_hash r) tree) (\<lambda>tree.
     bind_outcome (contract_result_insert e mode block r db) (\<lambda>db.
       update_system_contracts e P mode verify block us (tree, db))))"

definition CONTRACT_CLASS_HASH_VERSION :: felt where
  "CONTRACT_CLASS_HASH_VERSION = const_eval (unwrap_overflow (felt_from_be_slice (map of_char ''CONTRACT_CLASS_LEAF_V0'')))"

definition calculate_class_commitment_leaf_hash :: "felt \<Rightarrow> felt" where
  "calculate_class_commitment_leaf_hash casm =
     const_eval (felt_from_montfelt (poseidon_hash (montfelt_from_felt CONTRACT_CLASS_HASH_VERSION) (montfelt_from_felt casm)))"

fun update_classes :: "engine \<Rightarrow> block_number \<Rightarrow> (felt \<times> felt) list \<Rightarrow> tree_in \<times> state_db \<Rightarrow> (tree_in \<times> state_db) outcome" where
  "update_classes e block [] s = Inr s"
| "update_classes e block ((sierra, casm) # cs) (tree, db) =
     (let leaf_hash = calculate_class_commitment_leaf_hash casm;
          db = tx_insert_class_commitment_leaf block leaf_hash casm db
      in bind_outcome (class_tree_set e db sierra leaf_hash tree) (\<lambda>tree. update_classes e block cs (tree, db)))"

definition update_class_trie ::
  "engine \<Rightarrow> trie_prune_mode \<Rightarrow> bool \<Rightarrow> block_number \<Rightarrow> (felt \<times> felt) list \<Rightarrow> state_db \<Rightarrow> (felt \<times> state_db) outcome" where
  "update_class_trie e mode verify block classes db =
     (let class_tree = tree_in_verify verify (case block_parent block of
            Some parent \<Rightarrow> class_tree_load db parent
          | None \<Rightarrow> tree_in_empty)
      in bind_outcome (update_classes e block classes (class_tree, db)) (\<lambda>(class_tree, db).
         bind_outcome (class_tree_commit e db class_tree) (\<lambda>(class_commitment, trie_update).
         bind_outcome (tx_insert_class_trie e mode trie_update block db) (\<lambda>(class_root_idx, db).
           Inr (class_commitment, tx_insert_class_root mode block class_root_idx db)))))"

definition update_starknet_state ::
  "engine \<Rightarrow> felt_hash \<Rightarrow> trie_prune_mode \<Rightarrow> state_db \<Rightarrow> bool \<Rightarrow> block_number \<Rightarrow> state_update \<Rightarrow> state_db
     \<Rightarrow> ((felt \<times> felt) \<times> state_db) outcome" where
  "update_starknet_state e P mode committed verify block u db =
     (let storage_tree = tree_in_verify verify (case block_parent block of
            Some parent \<Rightarrow> storage_tree_load db parent
          | None \<Rightarrow> tree_in_empty)
      in bind_outcome (contract_results e P committed verify block (upd_contracts u)) (\<lambda>rs.
         bind_outcome (insert_contract_results e mode block rs (storage_tree, db)) (\<lambda>s.
         bind_outcome (update_system_contracts e P mode verify block (upd_system_contracts u) s) (\<lambda>(storage_tree, db).
         bind_outcome (storage_tree_commit e P db storage_tree) (\<lambda>(storage_commitment, trie_update).
         bind_outcome (tx_insert_storage_trie e mode trie_update block db) (\<lambda>(root_idx, db).
         let db = tx_insert_storage_root mode block root_idx db in
         bind_outcome (update_class_trie e mode verify block (declared_sierra_classes u @ migrated_compiled_classes u) db)
           (\<lambda>(class_commitment, db). Inr ((storage_commitment, class_commitment), db))))))))"

section \<open>The state commitment\<close>

definition GLOBAL_STATE_VERSION :: felt where
  "GLOBAL_STATE_VERSION = const_eval (unwrap_overflow (felt_from_be_slice (map of_char ''STARKNET_STATE_V0'')))"

definition state_commitment_calculate :: "felt \<Rightarrow> felt \<Rightarrow> starknet_version \<Rightarrow> felt" where
  "state_commitment_calculate storage_commitment class_commitment version =
     (if class_commitment = felt_ZERO \<and> storage_commitment = felt_ZERO then felt_ZERO
      else if class_commitment = felt_ZERO \<and> version_less version (0, 14, 0, 0) then storage_commitment
      else const_eval (felt_from_montfelt (poseidon_hash_many
        [montfelt_from_felt GLOBAL_STATE_VERSION, montfelt_from_felt storage_commitment, montfelt_from_felt class_commitment])))"

end
