(* ===== verification/TrieSize.thy ===== *)
theory TrieSize
  imports TriePersist
begin

text \<open>
  How many nodes an update adds: the nodes of the in-memory tree, of which each write resolves or
  creates a bounded number. So the number of writes bounds the room that an insertion needs.
\<close>

fun frame_count :: "frame \<Rightarrow> nat" where
  "frame_count (BinaryFrame si h d other) = Suc (node_count other)"
| "frame_count (EdgeFrame si h p) = 1"

definition frames_count :: "frame list \<Rightarrow> nat" where
  "frames_count fs = sum_list (map frame_count fs)"

lemma node_count_plug: "node_count (plug fs n) = frames_count fs + node_count n"
proof (induction fs arbitrary: n)
  case (Cons f fs)
  have "node_count (plug_frame f n) = frame_count f + node_count n"
    by (cases f) (auto simp: plug_frame_def split: direction.split)
  then show ?case using Cons by (simp add: frames_count_def)
qed (simp add: frames_count_def)

lemma resolve_count: "resolve hgt st idx h = Inr n \<Longrightarrow> node_count n = 1"
  by (auto simp: resolve_def split: if_splits option.splits stored_node.splits)

lemma traverse_loop_count:
  "traverse_loop fuel hgt st dst h fs n = Inr (fs', n') \<Longrightarrow>
     frames_count fs' + node_count n' \<le> frames_count fs + node_count n + fuel"
proof (induction fuel arbitrary: h fs n)
  case (Suc fuel)
  show ?case
  proof (cases n)
    case (Unresolved idx)
    then show ?thesis using Suc.prems Suc.IH resolve_count by fastforce
  next
    case (Binary si ht l r)
    then obtain d where d: "traverse_loop fuel hgt st dst (h + 1) (BinaryFrame si ht d (get_child l r (invert d)) # fs)
        (get_child l r d) = Inr (fs', n')" using Suc.prems by auto
    then show ?thesis using Suc.IH [OF d] Binary
      by (cases d) (simp_all add: frames_count_def get_child_def invert_def)
  next
    case (Edge si ht p c)
    then show ?thesis using Suc.prems Suc.IH [of "h + length p" "EdgeFrame si ht p # fs" c]
      by (auto simp: frames_count_def split: if_splits)
  qed (use Suc.prems in auto)
qed simp

lemma split_edge_count: "split_edge h p c key = Inr n \<Longrightarrow> node_count n \<le> node_count c + 4"
  by (auto simp: split_edge_def Let_def split: if_splits direction.splits)

lemma merge_edges_count: "merge_edges hgt st h p c removed = Inr (p', c', removed') \<Longrightarrow> node_count c' \<le> node_count c"
proof (cases c)
  case (Unresolved idx)
  assume "merge_edges hgt st h p c removed = Inr (p', c', removed')"
  then obtain n where n: "resolve hgt st idx (h + length p) = Inr n" "c' = c \<or> (\<exists>si ht q. n = Edge si ht q c')"
    using Unresolved by (auto simp: merge_edges_def as_edge_def split: internal_node.splits)
  then show ?thesis using resolve_count [OF n(1)] by auto
qed (auto simp: merge_edges_def as_edge_def)

lemma delete_branch_count:
  assumes "delete_branch hgt st key f below fs removed = Inr (n, removed')" and "node_count below = 0"
  shows "node_count n \<le> frame_count f + frames_count fs"
proof -
  obtain si h d other where f: "f = BinaryFrame si h d other"
    using assms(1) by (cases f) (auto simp: delete_branch_def plug_frame_def as_binary_def)
  have child: "node_count (get_child l r d') \<le> node_count other" if "plug_frame f below = Binary si h l r" for l r d'
    using that assms(2) f by (cases d; cases d') (auto simp: plug_frame_def get_child_def)
  have bin: "\<exists>l r. plug_frame f below = Binary si h l r" using f by (cases d) (auto simp: plug_frame_def)
  then obtain l r where lr: "plug_frame f below = Binary si h l r" by blast
  obtain d' path c rm where m: "merge_edges hgt st h [bool_of_direction (invert d')] (get_child l r (invert d')) removed = Inr (path, c, rm)"
    and rest: "(case fs of EdgeFrame psi ph pp # upper \<Rightarrow>
            bind_outcome (merge_edges hgt st ph pp (Edge None h path c) (push_index si rm)) (\<lambda>(pp, c, removed).
              Inr (plug upper (Edge psi ph pp c), removed))
        | _ \<Rightarrow> Inr (plug fs (Edge None h path c), push_index si rm)) = Inr (n, removed')"
    using assms(1) by (auto simp: delete_branch_def lr as_binary_def Let_def)
  have c: "node_count c \<le> node_count other" using merge_edges_count [OF m] child [OF lr] by (meson order_trans)
  show ?thesis
  proof (cases "\<exists>psi ph pp upper. fs = EdgeFrame psi ph pp # upper")
    case True
    then obtain psi ph pp upper where fs: "fs = EdgeFrame psi ph pp # upper" by blast
    then obtain pp' c' where c': "merge_edges hgt st ph pp (Edge None h path c) (push_index si rm) = Inr (pp', c', removed')"
      "n = plug upper (Edge psi ph pp' c')" using rest by auto
    have "node_count c' \<le> Suc (node_count c)" using merge_edges_count [OF c'(1)] by simp
    then show ?thesis using c c'(2) by (simp add: node_count_plug fs f frames_count_def)
  next
    case False
    then have "n = plug fs (Edge None h path c)" using rest by (auto split: list.splits frame.splits)
    then show ?thesis using c by (simp add: node_count_plug f)
  qed
qed

definition tree_count :: "merkle_tree \<Rightarrow> nat" where
  "tree_count t = (case root t of None \<Rightarrow> 0 | Some n \<Rightarrow> node_count n)"

lemma traverse_count:
  assumes "traverse hgt st key t = Inr (Some (fs, n))"
  shows "frames_count fs + node_count n \<le> tree_count t + 2 * hgt + 2"
proof -
  obtain m where m: "root t = Some m" "traverse_loop (2 * hgt + 2) hgt st key 0 [] m = Inr (fs, n)"
    using assms by (auto simp: traverse_def split: option.splits)
  show ?thesis using traverse_loop_count [OF m(2)] m(1) by (simp add: tree_count_def frames_count_def)
qed

lemma skip_to_binary_count:
  "skip_to_binary fs removed = (Some (f, upper), removed') \<Longrightarrow> frame_count f + frames_count upper \<le> frames_count fs"
  by (induction fs removed rule: skip_to_binary.induct) (auto simp: frames_count_def)

lemma tree_set_count:
  assumes "tree_set hgt st key v t = Inr t'"
  shows "tree_count t' \<le> tree_count t + (2 * hgt + 5)"
proof -
  obtain z where z: "traverse hgt st key t = Inr z" using assms by (auto simp: tree_set_def delete_leaf_def split: if_splits)
  show ?thesis
  proof (cases z)
    case None
    then show ?thesis using assms z by (auto simp: tree_set_def delete_leaf_def tree_count_def split: if_splits)
  next
    case (Some w)
    obtain fs n where w: "w = (fs, n)" by (cases w)
    note le = traverse_count [OF z [unfolded Some w]]
    show ?thesis
    proof (cases "v = felt_ZERO")
      case False
      then obtain n' where n': "set_node n key = Inr n'" "root t' = Some (plug fs n')" using assms z Some w by (auto simp: tree_set_def)
      have "node_count n' \<le> node_count n + 3"
        using n'(1) split_edge_count by (cases n) (fastforce simp: set_node_def)+
      then show ?thesis using le n'(2) by (simp add: tree_count_def node_count_plug)
    next
      case True
      show ?thesis
      proof (cases "n = Leaf")
        case False
        then show ?thesis using assms z Some w True le by (auto simp: tree_set_def delete_leaf_def tree_count_def node_count_plug)
      next
        case leaf: True
        show ?thesis
        proof (cases "fst (skip_to_binary fs [])")
          case None
          then show ?thesis using assms z Some w True leaf
            by (auto simp: tree_set_def delete_leaf_def tree_count_def split: prod.splits)
        next
          case (Some fu)
          obtain f upper removed where fu: "skip_to_binary fs [] = (Some (f, upper), removed)"
            using Some by (cases fu; cases "skip_to_binary fs []") auto
          obtain m rm where m: "delete_branch hgt st key f Leaf upper (nodes_removed t) = Inr (m, rm)" "root t' = Some m"
            using assms z \<open>z = Some w\<close> w True leaf fu by (auto simp: tree_set_def delete_leaf_def)
          show ?thesis using delete_branch_count [OF m(1)] skip_to_binary_count [OF fu] le m(2) by (simp add: tree_count_def)
        qed
      qed
    qed
  qed
qed

lemma tree_set_all_count:
  "tree_set_all hgt st us t = Inr t' \<Longrightarrow> tree_count t' \<le> tree_count t + length us * (2 * hgt + 5)"
proof (induction us arbitrary: t)
  case (Cons u us)
  obtain key v where u: "u = (key, v)" by (cases u)
  obtain t1 where t1: "tree_set hgt st key v t = Inr t1" "tree_set_all hgt st us t1 = Inr t'"
    using Cons.prems u by auto
  show ?case using Cons.IH [OF t1(2)] tree_set_count [OF t1(1)] by simp
qed simp

lemma tree_count_load [simp]: "tree_count (load_root r) = 0"
  by (cases r) (simp_all add: tree_count_def load_root_def tree_empty_def tree_new_def)

lemma commit_size: "commit H st t = Inr u \<Longrightarrow> length (nodes_added u) \<le> tree_count t"
proof (cases "root t")
  case (Some n)
  assume "commit H st t = Inr u"
  from commit_length [OF this Some] show ?thesis using Some by (simp add: tree_count_def)
qed (auto simp: commit_def)

end
