(* ===== verification/TrieWrite.thy ===== *)
theory TrieWrite
  imports TrieForest TrieSize
begin

text \<open>
  Writing a tree of a table: the tree is loaded from its root, updated and committed, and the
  result can be inserted into every table that still has the rows it refers to. Writing looks at
  stored nodes only, committing also at the stored values of leaves that were not written.
\<close>

section \<open>Operations that do not look at everything\<close>

lemma resolve_cong: "st_get st' = st_get st \<Longrightarrow> resolve hgt st' = resolve hgt st"
  by (intro ext) (simp add: resolve_def)

lemma traverse_loop_cong:
  assumes "st_get st' = st_get st"
  shows "traverse_loop fuel hgt st' dst = traverse_loop fuel hgt st dst"
proof (induction fuel)
  case (Suc fuel)
  show ?case by (intro ext) (simp only: traverse_loop.simps Suc resolve_cong [OF assms])
qed (intro ext, simp)

lemma tree_set_cong:
  assumes "st_get st' = st_get st"
  shows "tree_set hgt st' key v t = tree_set hgt st key v t"
proof -
  have tr: "traverse hgt st' key t = traverse hgt st key t"
    by (simp only: traverse_def traverse_loop_cong [OF assms])
  have m: "merge_edges hgt st' = merge_edges hgt st"
    by (intro ext) (simp only: merge_edges_def resolve_cong [OF assms])
  have d: "delete_branch hgt st' = delete_branch hgt st" by (intro ext) (simp only: delete_branch_def m)
  show ?thesis unfolding tree_set_def delete_leaf_def tr d ..
qed

lemma tree_set_all_cong:
  assumes "st_get st' = st_get st"
  shows "tree_set_all hgt st' us t = tree_set_all hgt st us t"
proof (induction us arbitrary: t)
  case (Cons u us)
  then show ?case by (cases u) (simp add: tree_set_cong [OF assms] bind_outcome_def split: sum.split)
qed simp

lemma tree_set_all_append:
  "tree_set_all hgt st (xs @ ys) t = bind_outcome (tree_set_all hgt st xs t) (tree_set_all hgt st ys)"
proof (induction xs arbitrary: t)
  case (Cons x xs)
  then show ?case by (cases x) (simp add: bind_outcome_def split: sum.split)
qed simp

lemma with_verify_hashes_simps [simp]:
  "root (with_verify_hashes b t) = root t" "leaves (with_verify_hashes b t) = leaves t"
  "nodes_removed (with_verify_hashes b t) = nodes_removed t"
  by (simp_all add: with_verify_hashes_def)

lemma traverse_verify [simp]: "traverse hgt st key (with_verify_hashes b t) = traverse hgt st key t"
  by (simp add: traverse_def with_verify_hashes_def)

lemma tree_set_verify:
  "tree_set hgt st key v (with_verify_hashes b t) = map_sum id (with_verify_hashes b) (tree_set hgt st key v t)"
proof -
  have "delete_leaf hgt st key (with_verify_hashes b t) = map_sum id (with_verify_hashes b) (delete_leaf hgt st key t)"
    by (auto simp: delete_leaf_def bind_outcome_def with_verify_hashes_def traverse_verify [unfolded with_verify_hashes_def]
      split: sum.split option.split prod.split)
  then show ?thesis
    by (auto simp: tree_set_def bind_outcome_def with_verify_hashes_def traverse_verify [unfolded with_verify_hashes_def]
      split: sum.split option.split prod.split)
qed

lemma tree_set_all_verify:
  "tree_set_all hgt st us (with_verify_hashes b t) = map_sum id (with_verify_hashes b) (tree_set_all hgt st us t)"
proof (induction us arbitrary: t)
  case (Cons u us)
  obtain k v where u: "u = (k, v)" by (cases u)
  show ?case by (cases "tree_set hgt st k v t") (simp_all add: u tree_set_verify Cons.IH)
qed simp

lemma commit_verify [simp]: "commit H st (with_verify_hashes b t) = commit H st t"
  by (simp only: commit_def with_verify_hashes_simps)

section \<open>Leaves that are not read\<close>

lemma repr_leaves:
  assumes "repr H hgt st L M pre n K" and "st_get st' = st_get st" and "st_hash st' = st_hash st"
    and "\<forall>k \<in> K. L k = None \<longrightarrow> st_leaf st' k = st_leaf st k"
  shows "repr H hgt st' L M pre n K"
  using assms(1,4)
proof (induction rule: repr.induct)
  case (repr_Unresolved idx pre n K)
  then show ?case using assms(3) resolve_cong [OF assms(2)] by (auto intro!: repr.repr_Unresolved)
qed (auto intro: repr.intros)

lemma tree_set_leaves:
  assumes "tree_set hgt st key v t = Inr t'"
  shows "leaves t' = (if v = felt_ZERO then leaves t else (leaves t)(key \<mapsto> v))"
  using assms
  by (auto simp: tree_set_def delete_leaf_def Let_def elim!: bind_outcome_InrE split: if_splits option.splits prod.splits)

lemma tree_set_all_leaves:
  assumes "tree_set_all hgt st us t = Inr t'" and "\<forall>k \<in> dom M. k \<in> S \<longrightarrow> leaves t k \<noteq> None"
  shows "\<forall>k \<in> dom (apply_updates M us). k \<in> S \<union> fst ` set us \<longrightarrow> leaves t' k \<noteq> None"
  using assms
proof (induction us arbitrary: t M S)
  case (Cons u us)
  obtain key v where u: "u = (key, v)" by (cases u)
  let ?M = "M(key := if v = felt_ZERO then None else Some v)"
  obtain t1 where t1: "tree_set hgt st key v t = Inr t1" "tree_set_all hgt st us t1 = Inr t'"
    using Cons.prems(1) u by (auto elim: bind_outcome_InrE)
  have "\<forall>k \<in> dom ?M. k \<in> insert key S \<longrightarrow> leaves t1 k \<noteq> None"
    using Cons.prems(2) tree_set_leaves [OF t1(1)] by (auto split: if_splits)
  from Cons.IH [OF t1(2) this] show ?case by (simp only: u apply_updates.simps list.set image_insert fst_conv Un_insert_left Un_insert_right)
qed simp

lemma apply_updates_other: "k \<notin> fst ` set us \<Longrightarrow> apply_updates M us k = M k"
  by (induction M us rule: apply_updates.induct) auto

text \<open>Only the leaves that the updates do not write have to be in the storage.\<close>

lemma tree_set_all_repr_leaves:
  assumes "tree_repr H hgt st (load_root r) M" and "st_get st' = st_get st" and "st_hash st' = st_hash st"
    and leaf: "\<forall>k \<in> dom M. k \<notin> fst ` set us \<longrightarrow> st_leaf st' k = st_leaf st k"
    and "\<forall>(key, value) \<in> set us. length key = hgt" and "0 < hgt"
  shows "\<exists>t. tree_set_all hgt st' us (load_root r) = Inr t \<and> tree_repr H hgt st' t (apply_updates M us) \<and> origin r t"
proof -
  obtain t where t: "tree_set_all hgt st us (load_root r) = Inr t" "tree_repr H hgt st t (apply_updates M us)" "origin r t"
    using tree_set_all_repr [OF assms(1,5,6) load_root_origin] by blast
  have "\<forall>k \<in> dom (apply_updates M us). leaves t k = None \<longrightarrow> st_leaf st' k = st_leaf st k"
  proof (intro ballI impI)
    fix k assume k: "k \<in> dom (apply_updates M us)" "leaves t k = None"
    then have "k \<notin> fst ` set us" using tree_set_all_leaves [OF t(1), of M "{}"] by auto
    moreover from this have "k \<in> dom M" using k(1) apply_updates_other by (metis domIff)
    ultimately show "st_leaf st' k = st_leaf st k" using leaf by blast
  qed
  then have "tree_repr H hgt st' t (apply_updates M us)"
    using t(2) repr_leaves [OF _ assms(2,3)] by (auto simp: tree_repr_def split: option.splits)
  then show ?thesis using t(1,3) tree_set_all_cong [OF assms(2)] by metis
qed

lemma forest_cong:
  assumes "forest_ok e H hgt low head Ms X tbl rt mk" and "low \<le> low'"
    and "\<And>c b. low' \<le> b \<Longrightarrow> b \<le> head \<Longrightarrow> rt' c b = rt c b \<and> Ms' c b = Ms c b \<and> X' c b = X c b"
  shows "forest_ok e H hgt low' head Ms' X' tbl rt' mk"
proof -
  have l: "low \<le> b" if "low' \<le> b" for b using that assms(2) by (meson order_trans)
  have "marks_ok low' head X' (dom (rows tbl)) mk"
  proof (rule marks_okI)
    note D = marks_okD [OF forest_okD(3) [OF assms(1)]]
    show "i \<in> dom (rows tbl)" "n \<le> head" if "i \<in> mk n" for i n using D(1,2) that by blast+
    show "n = m" if "i \<in> mk n" "i \<in> mk m" for i n m using D(3) that by blast
    fix b c assume b: "low' \<le> b" "b \<le> head"
    note eq = assms(3) [OF b, of c]
    show "single (X' c b)" using D(4) [OF l [OF b(1)] b(2)] eq by simp
    show "i \<in> dom (rows tbl)" if "i \<in># X' c b" for i using D(5) [OF l [OF b(1)] b(2)] eq that by simp
    show "i \<notin> mk n" if "n \<le> b" "i \<in># X' c b" for i n using D(6) [OF l [OF b(1)] b(2) that(1)] eq that(2) by simp
    fix c' b' i assume b': "low' \<le> b'" "b' \<le> head" and "i \<in># X' c b" "i \<in># X' c' b'"
    then show "c = c'" using D(7) [OF l [OF b(1)] b(2) l [OF b'(1)] b'(2), of i c c'] eq assms(3) [OF b', of c'] by simp
  qed
  moreover have "tree_at e H hgt tbl (\<lambda>k. Inr (Ms' c b k)) (rt' c b) (Ms' c b) (X' c b)" if "low' \<le> b" "b \<le> head" for c b
    using forest_okD(4) [OF assms(1) l [OF that(1)] that(2), of c] assms(3) [OF that, of c] by simp
  ultimately show ?thesis using forest_okD(1,2) [OF assms(1)] unfolding forest_ok_def by blast
qed

section \<open>Writing\<close>

context felt_valued_hash
begin

lemma write_tree:
  assumes e: "engine_ok e" and old: "tree_at e H hgt tbl (\<lambda>k. Inr (M k)) r M X"
    and leaf: "r \<noteq> None \<longrightarrow> (\<forall>k \<in> dom M. k \<notin> fst ` set updates \<longrightarrow> leaf k = Inr (M k))"
    and hgt: "hgt \<le> 251" "0 < hgt" and keys: "\<forall>(key, value) \<in> set updates. length key = hgt"
  shows "\<exists>t u. tree_set_all hgt (table_storage e tbl leaf) updates (load_root r) = Inr t \<and>
    commit H (table_storage e tbl leaf) t = Inr u \<and> root_commitment u = commitment H hgt (apply_updates M updates) \<and>
    prepared e H hgt tbl r (apply_updates M updates) X u \<and> length (nodes_added u) \<le> length updates * (2 * hgt + 5)"
proof -
  let ?st = "table_storage e tbl leaf" and ?virtual = "table_storage e tbl (\<lambda>k. Inr (M k))" and ?M = "apply_updates M updates"
  have "\<forall>k \<in> dom M. k \<notin> fst ` set updates \<longrightarrow> st_leaf ?st k = st_leaf ?virtual k"
  proof (cases r)
    case None
    then show ?thesis using old by (simp add: tree_at_def tree_repr_def load_root_def tree_empty_def)
  qed (use leaf in \<open>simp add: table_storage_def\<close>)
  moreover have "st_get ?st = st_get ?virtual" "st_hash ?st = st_hash ?virtual" by (simp_all add: table_storage_def)
  moreover have "tree_repr H hgt ?virtual (load_root r) M" using old by (simp add: tree_at_def)
  ultimately obtain t where
    t: "tree_set_all hgt ?st updates (load_root r) = Inr t" "tree_repr H hgt ?st t ?M" "origin r t"
    using tree_set_all_repr_leaves [of H hgt ?virtual r M ?st, OF _ _ _ _ keys hgt(2)] by blast
  obtain u where u: "commit H ?st t = Inr u" "root_commitment u = commitment H hgt ?M"
    using commit_repr [OF t(2) hgt(1)] by blast
  have "tree_indices ?st (load_root r) X"
    using old owned_agree [OF _ agree_on_table, of e tbl "\<lambda>k. Inr (M k)" _ X tbl leaf] by (cases r) (simp_all add: tree_at_def)
  then have "tree_indices ?st t X" using tree_set_all_indices [OF t(1)] by blast
  then obtain Lv where Lv: "X = Lv + mset (update_nodes_removed u)"
    "case root t of None \<Rightarrow> Lv = {#} | Some n \<Rightarrow> live ?st n Lv" using commit_indices [OF u(1)] by blast
  have "inserts_as e H hgt u tbl1 r ?M Lv"
    if tbl1: "table_wf tbl1" "\<forall>i \<in># Lv. rows tbl1 i = rows tbl i" "card (dom (rows tbl1)) + length (nodes_added u) < 2 ^ 63" for tbl1
  proof -
    let ?st_1 = "table_storage e tbl1 leaf"
    have a: "agree_on Lv ?st ?st_1" "st_leaf ?st_1 = st_leaf ?st" using agree_on_table [OF tbl1(2)] by (auto simp: table_storage_def)
    have L: "case root t of None \<Rightarrow> True | Some n \<Rightarrow> live ?st n Lv" using Lv(2) by (auto split: option.splits)
    have t1: "tree_repr H hgt ?st_1 t ?M" "commit H ?st_1 t = Inr u"
      using tree_repr_agree [OF t(2) L a] commit_agree [OF L a] u(1) by simp_all
    have "case root t of None \<Rightarrow> Lv = {#} | Some n \<Rightarrow> live ?st_1 n Lv"
      using Lv(2) live_agree [OF _ a(1)] by (auto split: option.splits)
    from write_indices [OF e tbl1(1) t1(1) hgt t(3) t1(2) tbl1(3) this] show ?thesis unfolding inserts_as_def by blast
  qed
  then have "prepared e H hgt tbl r ?M X u" unfolding prepared_def using Lv(1) by blast
  moreover have "length (nodes_added u) \<le> length updates * (2 * hgt + 5)"
    using commit_size [OF u(1)] tree_set_all_count [OF t(1)] by simp
  ultimately show ?thesis using t(1) u by blast
qed

lemma forest_write:
  assumes e: "engine_ok e" and ok: "forest_ok e H hgt low head Ms X tbl rt mk" and "low \<le> head"
    and hgt: "hgt \<le> 251" "0 < hgt" and keys: "\<forall>(key, value) \<in> set updates. length key = hgt"
    and leaf: "rt c head \<noteq> None \<longrightarrow> (\<forall>k \<in> dom (Ms c head). k \<notin> fst ` set updates \<longrightarrow> leaf k = Inr (Ms c head k))"
  shows "\<exists>t u. tree_set_all hgt (table_storage e tbl leaf) updates (load_root (rt c head)) = Inr t \<and>
    commit H (table_storage e tbl leaf) t = Inr u \<and> root_commitment u = commitment H hgt (apply_updates (Ms c head) updates) \<and>
    prepared e H hgt tbl (rt c head) (apply_updates (Ms c head) updates) (X c head) u \<and>
    length (nodes_added u) \<le> length updates * (2 * hgt + 5)"
  by (rule write_tree [OF e forest_okD(4) [OF ok \<open>low \<le> head\<close> order.refl, of c] leaf hgt keys])

end

end
