(* ===== verification/ContractUpdate.thy ===== *)
theory ContractUpdate
  imports StateTrees TrieWrite
begin

text \<open>
  A single contract: \<^verbatim>\<open>update_contract_state\<close> and \<^verbatim>\<open>ContractStateUpdateResult::insert\<close> of
  merkle-tree/src/contract_state.rs, on a database whose contract tries hold the maps \<open>Ms\<close>.
\<close>

section \<open>Updating a contract\<close>

definition bit_updates :: "(felt \<times> felt) list \<Rightarrow> (trie_path \<times> felt) list" where
  "bit_updates us = map (\<lambda>(k, v). (view_bits k, v)) us"

lemma view_bits_length: "length k = 32 \<Longrightarrow> length (view_bits k) = 251"
  by (simp add: view_bits_def)

lemma contract_tree_set_all_eq:
  "contract_tree_set_all e db c us (t, b) =
     map_sum id (\<lambda>t. (t, b)) (tree_set_all 251 (contract_storage e db c b) (bit_updates us) t)"
proof (induction us arbitrary: t)
  case (Cons u us)
  obtain k v where u: "u = (k, v)" by (cases u)
  show ?case using Cons
    by (cases "tree_set 251 (contract_storage e db c b) (view_bits k) v t") (simp_all add: u bit_updates_def contract_tree_set_def)
qed (simp add: bit_updates_def)

lemma contract_storage_table:
  "contract_storage e db c b = table_storage e (trie_contracts db) (contract_storage_leaf db c b)"
  by (simp add: contract_storage_def table_storage_def)

definition loaded :: "trie_index option \<Rightarrow> block_number \<Rightarrow> tree_in" where
  "loaded r block = (load_root r, if r = None then None else block_parent block)"

lemma tree_in_load_loaded:
  assumes "block_parent block = Some parent"
  shows "tree_in_load r parent = loaded r block"
  using assms by (simp add: tree_in_load_def loaded_def tree_in_empty_def load_root_def split: option.split)

lemma tree_in_empty_loaded: "tree_in_empty = loaded None block"
  by (simp add: loaded_def tree_in_empty_def load_root_def)

lemma root_index_at_parent:
  assumes "\<forall>n \<in> fst ` set tbl. n < block" and "block_parent block = Some parent"
  shows "root_index_at parent tbl = root_index_at block tbl"
proof -
  have "parent = block - 1" "block \<noteq> 0" using assms(2) by (auto simp: block_parent_def split: if_splits)
  then have "n \<le> parent" if "n < block" for n using that less_imp_less_eq_dec by simp
  then have "filter (\<lambda>(n, _). n \<le> parent) tbl = filter (\<lambda>(n, _). n \<le> block) tbl"
    using assms(1) by (intro filter_cong) force+
  then show ?thesis by (simp add: root_index_at_def latest_at_def)
qed

lemma root_index_at_genesis: "\<forall>n \<in> fst ` set tbl. n < 0 \<Longrightarrow> root_index_at b tbl = None"
  for tbl :: "trie_index option by_block"
  by (cases tbl) (auto simp: root_index_at_def latest_at_def)

text \<open>
  A tree that has not been written in the block: its root is that of the parent block, and the
  leaves in \<open>M\<close> can be read there.
\<close>

definition pending ::
  "block_number \<Rightarrow> trie_index option by_block \<Rightarrow> (trie_path \<rightharpoonup> felt) \<Rightarrow> (block_number option \<Rightarrow> trie_path \<Rightarrow> felt option outcome) \<Rightarrow> bool" where
  "pending block roots M leaf \<longleftrightarrow> (\<forall>n \<in> fst ` set roots. n < block) \<and>
     (root_index_at block roots \<noteq> None \<longrightarrow> (\<forall>k \<in> dom M. leaf (block_parent block) k = Inr (M k)))"

lemma pendingD:
  assumes "pending block roots M leaf"
  shows "n \<in> fst ` set roots \<Longrightarrow> n < block"
    and "root_index_at block roots \<noteq> None \<Longrightarrow> k \<in> dom M \<Longrightarrow> leaf (block_parent block) k = Inr (M k)"
  using assms unfolding pending_def by blast+

lemma pending_load:
  assumes "pending block roots M leaf"
  shows "(case block_parent block of Some parent \<Rightarrow> tree_in_load (root_index_at parent roots) parent | None \<Rightarrow> tree_in_empty)
    = loaded (root_index_at block roots) block"
proof (cases "block_parent block")
  case None
  then have "block = 0" by (simp add: block_parent_def split: if_splits)
  then have "root_index_at block roots = None"
    using assms by (intro root_index_at_genesis) (simp add: pending_def)
  then show ?thesis using None tree_in_empty_loaded by simp
next
  case (Some parent)
  then show ?thesis
    using root_index_at_parent [OF _ Some, of roots] assms tree_in_load_loaded [OF Some] by (simp add: pending_def)
qed

lemma pending_restrict: "pending block roots M leaf \<Longrightarrow> pending block roots (M |` S) leaf"
  by (auto simp: pending_def)

context felt_valued_hash
begin

lemma loaded_write:
  assumes e: "engine_ok e" and ok: "forest_ok e H 251 low block Ms X tbl rt mk" and "low \<le> block"
    and rt: "rt c block = root_index_at block roots" and pend: "pending block roots (Ms c block |` (- fst ` set (bit_updates us))) leaf"
    and keys: "\<forall>(k, v) \<in> set us. length k = 32"
  shows "\<exists>t u. tree_set_all 251 (table_storage e tbl (leaf (snd (loaded (rt c block) block)))) (bit_updates us)
      (with_verify_hashes v (fst (loaded (rt c block) block))) = Inr t \<and>
    commit H (table_storage e tbl (leaf (snd (loaded (rt c block) block)))) t = Inr u \<and>
    root_commitment u = commitment H 251 (apply_updates (Ms c block) (bit_updates us)) \<and>
    prepared e H 251 tbl (rt c block) (apply_updates (Ms c block) (bit_updates us)) (X c block) u \<and>
    length (nodes_added u) \<le> length us * 507"
proof -
  have keys': "\<forall>(key, value) \<in> set (bit_updates us). length key = 251"
    using keys view_bits_length by (auto simp: bit_updates_def)
  have leaf': "rt c block \<noteq> None \<longrightarrow> (\<forall>k \<in> dom (Ms c block). k \<notin> fst ` set (bit_updates us) \<longrightarrow> leaf (snd (loaded (rt c block) block)) k = Inr (Ms c block k))"
    using pend rt by (auto simp: pending_def loaded_def)
  have "0 < (251 :: nat)" by simp
  from forest_write [OF e ok \<open>low \<le> block\<close> order.refl this keys' leaf'] obtain t u where
    "tree_set_all 251 (table_storage e tbl (leaf (snd (loaded (rt c block) block)))) (bit_updates us) (load_root (rt c block)) = Inr t"
    "commit H (table_storage e tbl (leaf (snd (loaded (rt c block) block)))) t = Inr u"
    "root_commitment u = commitment H 251 (apply_updates (Ms c block) (bit_updates us))"
    "prepared e H 251 tbl (rt c block) (apply_updates (Ms c block) (bit_updates us)) (X c block) u"
    "length (nodes_added u) \<le> length (bit_updates us) * (2 * 251 + 5)"
    by blast
  then show ?thesis
    by (intro exI [of _ "with_verify_hashes v t"] exI [of _ u]) (simp add: tree_set_all_verify loaded_def bit_updates_def)
qed

lemma root_hash_at_commitment:
  assumes "tree_at e H hgt tbl leaf (root_index_at block roots) M X"
  shows "\<exists>h. root_hash_at block roots tbl = Inr h \<and> (case h of None \<Rightarrow> felt_ZERO | Some h \<Rightarrow> h) = commitment H hgt M"
proof (cases "root_index_at block roots")
  case None
  then have "M = Map.empty" using assms by (simp add: tree_at_def tree_repr_def load_root_def tree_empty_def)
  moreover have "mpt H hgt [] Map.empty = None" by (simp add: mpt_None_iff)
  ultimately show ?thesis using None by (simp add: root_hash_at_def commitment_def subtree_hash_def)
next
  case (Some i)
  then have "repr H hgt (table_storage e tbl leaf) Map.empty M [] (Unresolved i) (dom M)"
    using assms by (simp add: tree_at_def tree_repr_def load_root_def tree_new_def)
  then have "st_hash (table_storage e tbl leaf) i = Inr (Some (subtree_hash H hgt (M |` dom M) []))"
    by (auto elim: repr_UnresolvedE)
  moreover have "M |` dom M = M" by (auto simp: restrict_map_def dom_def)
  ultimately show ?thesis using Some by (simp add: root_hash_at_def table_storage_def commitment_def)
qed

end

definition next_class_hash :: "state_db \<Rightarrow> block_number \<Rightarrow> felt \<Rightarrow> felt option \<Rightarrow> felt" where
  "next_class_hash db block c new = (if is_system_contract c then felt_ZERO
     else case new of Some h \<Rightarrow> h | None \<Rightarrow> the (tx_contract_class_hash (BlockNumber block) c db))"

definition next_nonce :: "state_db \<Rightarrow> block_number \<Rightarrow> felt \<Rightarrow> felt option \<Rightarrow> felt" where
  "next_nonce db block c new = (case new of Some n \<Rightarrow> n
     | None \<Rightarrow> (case tx_contract_nonce c (BlockNumber block) db of None \<Rightarrow> felt_ZERO | Some n \<Rightarrow> n))"

text \<open>The state hash of a contract whose storage is the map \<open>M\<close> at the end of the block.\<close>

definition next_state_hash ::
  "felt_hash \<Rightarrow> state_db \<Rightarrow> block_number \<Rightarrow> felt \<Rightarrow> (trie_path \<rightharpoonup> felt) \<Rightarrow> felt option \<Rightarrow> felt option \<Rightarrow> felt" where
  "next_state_hash P db block c M nonce class =
     calculate_contract_state_hash P (next_class_hash db block c class) (commitment P 251 M) (next_nonce db block c nonce)"

abbreviation roots_at :: "('c \<Rightarrow> trie_index option by_block) \<Rightarrow> 'c \<Rightarrow> block_number \<Rightarrow> trie_index option" where
  "roots_at roots \<equiv> \<lambda>c b. root_index_at b (roots c)"

text \<open>A result that is ready to be inserted.\<close>

definition result_ok ::
  "engine \<Rightarrow> felt_hash \<Rightarrow> trie_table \<Rightarrow> trie_index option \<Rightarrow> (trie_path \<rightharpoonup> felt) \<Rightarrow> trie_index multiset \<Rightarrow> (felt \<times> felt) list
     \<Rightarrow> contract_state_update_result \<Rightarrow> bool" where
  "result_ok e P tbl r M X us res \<longleftrightarrow> did_storage_updates res = (us \<noteq> []) \<and>
     (us \<noteq> [] \<longrightarrow> prepared e P 251 tbl r (apply_updates M (bit_updates us)) X (res_trie_update res)) \<and>
     length (nodes_added (res_trie_update res)) \<le> length us * 507"

context felt_valued_hash
begin

lemma update_contract_state_ok:
  assumes e: "engine_ok e" and ok: "forest_ok e H 251 low block Ms X (trie_contracts db) (roots_at (contract_roots db)) mk"
    and "low \<le> block" and pend: "pending block (contract_roots db c) (Ms c block) (contract_storage_leaf db c)"
    and keys: "\<forall>(k, v) \<in> set us. length k = 32"
    and known: "is_system_contract c \<or> class \<noteq> None \<or> tx_contract_class_hash (BlockNumber block) c db \<noteq> None"
  shows "\<exists>r. update_contract_state e H c us nonce class db v block = Inr r \<and> res_contract_address r = c \<and>
    res_state_hash r = next_state_hash H db block c (apply_updates (Ms c block) (bit_updates us)) nonce class \<and>
    result_ok e H (trie_contracts db) (root_index_at block (contract_roots db c)) (Ms c block) (X c block) us r"
proof -
  let ?M = "apply_updates (Ms c block) (bit_updates us)" and ?rt = "root_index_at block (contract_roots db c)"
  define root_part where "root_part = (if us \<noteq> [] then
          let contract_tree = tree_in_verify v (case block_parent block of
                Some parent \<Rightarrow> contract_tree_load db c parent | None \<Rightarrow> tree_in_empty)
          in bind_outcome (contract_tree_set_all e db c us contract_tree) (contract_tree_commit e H db c)
        else bind_outcome (tx_contract_root block c db) (\<lambda>current_root.
            Inr (case current_root of None \<Rightarrow> felt_ZERO | Some r \<Rightarrow> r, default_trie_update)))"
  have "\<exists>u. root_part = Inr (commitment H 251 ?M, u) \<and>
      (us \<noteq> [] \<longrightarrow> prepared e H 251 (trie_contracts db) ?rt ?M (X c block) u) \<and> length (nodes_added u) \<le> length us * 507"
  proof (cases "us = []")
    case True
    have "tree_at e H 251 (trie_contracts db) (\<lambda>k. Inr (Ms c block k)) ?rt (Ms c block) (X c block)"
      using forest_okD(4) [OF ok \<open>low \<le> block\<close> order.refl] by blast
    from root_hash_at_commitment [OF this] obtain h where
      "tx_contract_root block c db = Inr h" "(case h of None \<Rightarrow> felt_ZERO | Some h \<Rightarrow> h) = commitment H 251 (Ms c block)"
      by (auto simp: tx_contract_root_def)
    then show ?thesis using True by (simp add: root_part_def bit_updates_def default_trie_update_def)
  next
    case False
    obtain t u where tu: "tree_set_all 251 (contract_storage e db c (snd (loaded ?rt block))) (bit_updates us)
        (with_verify_hashes v (fst (loaded ?rt block))) = Inr t"
      "commit H (contract_storage e db c (snd (loaded ?rt block))) t = Inr u" "root_commitment u = commitment H 251 ?M"
      "prepared e H 251 (trie_contracts db) ?rt ?M (X c block) u" "length (nodes_added u) \<le> length us * 507"
      using loaded_write [OF e ok \<open>low \<le> block\<close> refl pending_restrict [OF pend] keys, of v] unfolding contract_storage_table by blast
    have tree: "tree_in_verify v (case block_parent block of Some parent \<Rightarrow> contract_tree_load db c parent | None \<Rightarrow> tree_in_empty)
        = (with_verify_hashes v (fst (loaded ?rt block)), snd (loaded ?rt block))"
      unfolding contract_tree_load_def tx_contract_root_index_def pending_load [OF pend]
      by (simp add: tree_in_verify_def loaded_def)
    have "root_part = Inr (root_commitment u, u)"
      unfolding root_part_def Let_def tree using False tu(1,2) by (simp add: contract_tree_set_all_eq contract_tree_commit_def)
    then show ?thesis using tu(3-5) by simp
  qed
  then obtain u where u: "root_part = Inr (commitment H 251 ?M, u)"
    "us \<noteq> [] \<longrightarrow> prepared e H 251 (trie_contracts db) ?rt ?M (X c block) u" "length (nodes_added u) \<le> length us * 507" by blast
  let ?cls = "if is_system_contract c then Inr felt_ZERO else case class of Some class_hash \<Rightarrow> Inr class_hash
      | None \<Rightarrow> context_some ''Contract class hash missing'' (tx_contract_class_hash (BlockNumber block) c db)"
  have cls: "?cls = Inr (next_class_hash db block c class)"
    using known by (auto simp: next_class_hash_def split: option.split)
  show ?thesis
    unfolding update_contract_state_def root_part_def [symmetric] cls u(1)
    using u(2,3) by (simp add: next_state_hash_def next_nonce_def result_ok_def Let_def)
qed

end

section \<open>Inserting the results\<close>

text \<open>What holds of the database while the results of a block are inserted.\<close>

definition contracts_ok ::
  "engine \<Rightarrow> felt_hash \<Rightarrow> block_number \<Rightarrow> block_number \<Rightarrow> (felt \<Rightarrow> block_number \<Rightarrow> trie_path \<rightharpoonup> felt)
     \<Rightarrow> (felt \<Rightarrow> block_number \<Rightarrow> trie_index multiset) \<Rightarrow> state_db \<Rightarrow> bool" where
  "contracts_ok e P low block Ms X db \<longleftrightarrow>
     forest_ok e P 251 low block Ms X (trie_contracts db) (roots_at (contract_roots db)) (mark_at e (trie_contracts db)) \<and>
     (\<forall>c. \<forall>n \<in> fst ` set (contract_roots db c). n \<le> block)"

context felt_valued_hash
begin

lemma contract_result_insert_ok:
  assumes e: "engine_ok e" and ok: "contracts_ok e H low block Ms X db" and low: "low \<le> block"
    and kept: "\<forall>b. low \<le> b \<longrightarrow> kept mode block b"
    and res: "result_ok e H tbl0 (root_index_at block (contract_roots db c)) (Ms c block) (X c block) us r"
    and c: "res_contract_address r = c"
    and rows0: "\<forall>i \<in># X c block. rows (trie_contracts db) i = rows tbl0 i"
    and room: "card (dom (rows (trie_contracts db))) + length (nodes_added (res_trie_update r)) < 2 ^ 63"
  shows "\<exists>db1 Y. contract_result_insert e mode block r db =
      Inr (tx_insert_contract_state_hash mode block c (res_state_hash r) db1) \<and>
    db1 = db\<lparr> trie_contracts := trie_contracts db1, contract_roots := (contract_roots db)(c := contract_roots db1 c) \<rparr> \<and>
    contracts_ok e H low block (Ms(c := (Ms c)(block := apply_updates (Ms c block) (bit_updates us)))) (X(c := (X c)(block := Y))) db1 \<and>
    (\<forall>c'. \<forall>i \<in># X c' block. rows (trie_contracts db1) i = rows (trie_contracts db) i) \<and>
    card (dom (rows (trie_contracts db1))) \<le> card (dom (rows (trie_contracts db))) + length (nodes_added (res_trie_update r))"
proof (cases "us = []")
  case True
  then have "did_storage_updates r = False" using res by (simp add: result_ok_def)
  then have "contract_result_insert e mode block r db = Inr (tx_insert_contract_state_hash mode block c (res_state_hash r) db)"
    using c by (simp add: contract_result_insert_def)
  then show ?thesis using True ok by (intro exI [of _ db] exI [of _ "X c block"]) (simp add: bit_updates_def)
next
  case False
  let ?M = "apply_updates (Ms c block) (bit_updates us)" and ?u = "res_trie_update r"
  let ?rt = "roots_at (contract_roots db)"
  have forest: "forest_ok e H 251 low block Ms X (trie_contracts db) ?rt (mark_at e (trie_contracts db))"
    and blocks: "\<forall>c. \<forall>n \<in> fst ` set (contract_roots db c). n \<le> block"
    using ok by (simp_all add: contracts_ok_def)
  have did: "did_storage_updates r" and prep: "prepared e H 251 tbl0 (?rt c block) ?M (X c block) ?u"
    using res False by (simp_all add: result_ok_def)
  from forest_insert [OF e forest order.refl low kept _ prep rows0 room] obtain upd tbl' Y where
    ins: "insert_trie e mode ?u block (trie_contracts db) = Inr (upd, tbl')"
    "mark_at e tbl' = next_marks mode block (update_nodes_removed ?u) (mark_at e (trie_contracts db))"
    "\<forall>c' b. low \<le> b \<longrightarrow> b \<le> block \<longrightarrow> (\<forall>i \<in># X c' b. rows tbl' i = rows (trie_contracts db) i)"
    "card (dom (rows tbl')) \<le> card (dom (rows (trie_contracts db))) + length (nodes_added ?u)"
    "forest_ok e H 251 low block (Ms(c := (Ms c)(block := ?M))) (X(c := (X c)(block := Y))) tbl'
      (?rt(c := (?rt c)(block := new_root (?rt c block) upd))) (next_marks mode block (update_nodes_removed ?u) (mark_at e (trie_contracts db)))"
    by auto
  let ?db = "db\<lparr> trie_contracts := tbl',
      contract_roots := (contract_roots db)(c := insert_root mode block upd (contract_roots db c)) \<rparr>"
  have run: "contract_result_insert e mode block r db = Inr (tx_insert_contract_state_hash mode block c (res_state_hash r) ?db)"
    using did ins(1) c by (simp add: contract_result_insert_def tx_insert_contract_trie_def tx_insert_contract_root_def)
  have "roots_at (contract_roots ?db) c' b = (?rt(c := (?rt c)(block := new_root (?rt c block) upd))) c' b"
    if "low \<le> b" "b \<le> block" for c' b
    using root_index_at_insert_root [of mode block b upd "contract_roots db c"] kept that by simp
  then have "forest_ok e H 251 low block (Ms(c := (Ms c)(block := ?M))) (X(c := (X c)(block := Y))) tbl'
      (roots_at (contract_roots ?db)) (mark_at e tbl')"
    unfolding ins(2) by (intro forest_cong [OF ins(5) order.refl]) simp
  moreover have "\<forall>n \<in> fst ` set (contract_roots ?db c'). n \<le> block" for c'
  proof -
    have "\<forall>n \<in> fst ` set (contract_roots db c). n \<le> block" using blocks by blast
    from insert_root_blocks [OF this, of mode upd] show ?thesis using blocks by (cases "c' = c") simp_all
  qed
  ultimately have "contracts_ok e H low block (Ms(c := (Ms c)(block := ?M))) (X(c := (X c)(block := Y))) ?db"
    unfolding contracts_ok_def by simp
  then show ?thesis using run ins(3,4) low by (intro exI [of _ ?db] exI [of _ Y]) simp
qed

end

end
