(* ===== verification/ContractUpdates.thy ===== *)
theory ContractUpdates
  imports ContractUpdate
begin

text \<open>
  The contracts of a block: the parallel updates, the inserts of their results and the updates of the
  system contracts in \<^verbatim>\<open>update_starknet_state\<close> (merkle-tree/src/starknet_state.rs).
\<close>

section \<open>Many contracts\<close>

type_synonym contract_maps = "felt \<Rightarrow> block_number \<Rightarrow> trie_path \<rightharpoonup> felt"

text \<open>The storage of the contracts after the writes of a block.\<close>

fun next_maps :: "block_number \<Rightarrow> (felt \<times> (felt \<times> felt) list) list \<Rightarrow> contract_maps \<Rightarrow> contract_maps" where
  "next_maps block [] Ms = Ms"
| "next_maps block ((c, us) # cs) Ms =
     next_maps block cs (Ms(c := (Ms c)(block := apply_updates (Ms c block) (bit_updates us))))"

lemma next_maps_other: "c \<notin> fst ` set cs \<Longrightarrow> next_maps block cs Ms c = Ms c"
  by (induction cs arbitrary: Ms) auto

lemma next_maps_block: "b \<noteq> block \<Longrightarrow> next_maps block cs Ms c b = Ms c b"
  by (induction cs arbitrary: Ms) auto

lemma next_maps_in:
  "distinct (map fst cs) \<Longrightarrow> (c, us) \<in> set cs \<Longrightarrow> next_maps block cs Ms c block = apply_updates (Ms c block) (bit_updates us)"
proof (induction cs arbitrary: Ms)
  case (Cons x cs)
  obtain c' us' where x: "x = (c', us')" by (cases x)
  show ?case
  proof (cases "c = c'")
    case True
    then have "c \<notin> fst ` set cs" "us = us'" using Cons.prems x by force+
    then show ?thesis using True x by (simp add: next_maps_other)
  next
    case False
    then have "(c, us) \<in> set cs" using Cons.prems x by simp
    from Cons.IH [OF _ this] show ?thesis using Cons.prems(1) False x by simp
  qed
qed simp

definition update_count :: "(felt \<times> (felt \<times> felt) list) list \<Rightarrow> nat" where
  "update_count cs = sum_list (map (length \<circ> snd) cs)"

text \<open>The rows of state hashes after those of the block.\<close>

fun record_hashes :: "trie_prune_mode \<Rightarrow> block_number \<Rightarrow> (felt \<times> felt) list \<Rightarrow> (felt \<Rightarrow> felt by_block) \<Rightarrow> felt \<Rightarrow> felt by_block" where
  "record_hashes mode block [] hs = hs"
| "record_hashes mode block ((c, h) # rest) hs =
     record_hashes mode block rest (hs(c := insert_contract_state_hash mode block h (hs c)))"

lemma record_hashes_other: "c \<notin> fst ` set rest \<Longrightarrow> record_hashes mode block rest hs c = hs c"
  by (induction rest arbitrary: hs) auto

lemma record_hashes_append:
  "record_hashes mode block (xs @ ys) hs = record_hashes mode block ys (record_hashes mode block xs hs)"
  by (induction xs arbitrary: hs) auto

lemma next_maps_append: "next_maps block (xs @ ys) Ms = next_maps block ys (next_maps block xs Ms)"
  by (induction xs arbitrary: Ms) auto

text \<open>The tables that inserting the results of contracts changes.\<close>

definition contracts_changed :: "trie_prune_mode \<Rightarrow> block_number \<Rightarrow> (felt \<times> felt) list \<Rightarrow> state_db \<Rightarrow> state_db \<Rightarrow> bool" where
  "contracts_changed mode block hs db db' \<longleftrightarrow> (\<exists>tbl roots.
     db' = db\<lparr> trie_contracts := tbl, contract_roots := roots,
               contract_state_hashes := record_hashes mode block hs (contract_state_hashes db) \<rparr> \<and>
     (\<forall>c. c \<notin> fst ` set hs \<longrightarrow> roots c = contract_roots db c))"

lemma contracts_changed_refl: "contracts_changed mode block [] db db"
  unfolding contracts_changed_def by (intro exI [of _ "trie_contracts db"] exI [of _ "contract_roots db"]) simp

lemma contracts_changed_trans:
  assumes "contracts_changed mode block xs db1 db2" and "contracts_changed mode block ys db2 db3"
  shows "contracts_changed mode block (xs @ ys) db1 db3"
proof -
  obtain tbl roots where 1: "db2 = db1\<lparr> trie_contracts := tbl, contract_roots := roots,
      contract_state_hashes := record_hashes mode block xs (contract_state_hashes db1) \<rparr>"
    "\<forall>c. c \<notin> fst ` set xs \<longrightarrow> roots c = contract_roots db1 c" using assms(1) unfolding contracts_changed_def by blast
  obtain tbl' roots' where 2: "db3 = db2\<lparr> trie_contracts := tbl', contract_roots := roots',
      contract_state_hashes := record_hashes mode block ys (contract_state_hashes db2) \<rparr>"
    "\<forall>c. c \<notin> fst ` set ys \<longrightarrow> roots' c = contract_roots db2 c" using assms(2) unfolding contracts_changed_def by blast
  have "\<forall>c. c \<notin> fst ` set (xs @ ys) \<longrightarrow> roots' c = contract_roots db1 c" using 1 2(2) by (simp add: image_Un)
  then show ?thesis using 1(1) 2(1) unfolding contracts_changed_def
    by (intro exI [of _ tbl'] exI [of _ roots']) (simp add: record_hashes_append)
qed

lemma contracts_changed_fields:
  assumes "contracts_changed mode block hs db db'"
  shows "storage_updates db' = storage_updates db" "nonce_updates db' = nonce_updates db"
    "contract_updates db' = contract_updates db" "trie_storage db' = trie_storage db" "storage_roots db' = storage_roots db"
    "trie_class db' = trie_class db" "class_roots db' = class_roots db" "block_headers db' = block_headers db"
    "casm_class_hashes db' = casm_class_hashes db" "class_commitment_leaves db' = class_commitment_leaves db"
    "contract_state_hashes db' = record_hashes mode block hs (contract_state_hashes db)"
    "c \<notin> fst ` set hs \<Longrightarrow> contract_roots db' c = contract_roots db c"
  using assms unfolding contracts_changed_def by auto

text \<open>The insertions without the tree of the contracts.\<close>

fun insert_results ::
  "engine \<Rightarrow> trie_prune_mode \<Rightarrow> block_number \<Rightarrow> contract_state_update_result list \<Rightarrow> state_db \<Rightarrow> state_db outcome" where
  "insert_results e mode block [] db = Inr db"
| "insert_results e mode block (r # rs) db =
     bind_outcome (contract_result_insert e mode block r db) (insert_results e mode block rs)"

definition result_hashes :: "contract_state_update_result list \<Rightarrow> (felt \<times> felt) list" where
  "result_hashes rs = map (\<lambda>r. (res_contract_address r, res_state_hash r)) rs"

context felt_valued_hash
begin

lemma contract_results_ok:
  assumes e: "engine_ok e" and ok: "forest_ok e H 251 low block Ms X (trie_contracts db) (roots_at (contract_roots db)) mk"
    and "low \<le> block"
    and each: "\<forall>(c, u) \<in> set us. pending block (contract_roots db c) (Ms c block) (contract_storage_leaf db c) \<and>
      (\<forall>(k, v) \<in> set (upd_storage u). length k = 32) \<and>
      (is_system_contract c \<or> upd_class u \<noteq> None \<or> tx_contract_class_hash (BlockNumber block) c db \<noteq> None)"
  shows "\<exists>rs. contract_results e H db v block us = Inr rs \<and>
    list_all2 (\<lambda>(c, u) r. res_contract_address r = c \<and>
      res_state_hash r = next_state_hash H db block c (apply_updates (Ms c block) (bit_updates (upd_storage u)))
        (upd_nonce u) (map_option update_class_hash (upd_class u)) \<and>
      result_ok e H (trie_contracts db) (root_index_at block (contract_roots db c)) (Ms c block) (X c block) (upd_storage u) r) us rs"
  using each
proof (induction us)
  case (Cons cu us)
  obtain c u where cu: "cu = (c, u)" by (cases cu)
  have "\<exists>r. update_contract_state e H c (upd_storage u) (upd_nonce u) (map_option update_class_hash (upd_class u)) db v block = Inr r \<and>
      res_contract_address r = c \<and>
      res_state_hash r = next_state_hash H db block c (apply_updates (Ms c block) (bit_updates (upd_storage u)))
        (upd_nonce u) (map_option update_class_hash (upd_class u)) \<and>
      result_ok e H (trie_contracts db) (root_index_at block (contract_roots db c)) (Ms c block) (X c block) (upd_storage u) r"
    by (rule update_contract_state_ok [OF e ok \<open>low \<le> block\<close>]) (use Cons.prems cu in auto)
  moreover have "\<exists>rs. contract_results e H db v block us = Inr rs \<and>
    list_all2 (\<lambda>(c, u) r. res_contract_address r = c \<and>
      res_state_hash r = next_state_hash H db block c (apply_updates (Ms c block) (bit_updates (upd_storage u)))
        (upd_nonce u) (map_option update_class_hash (upd_class u)) \<and>
      result_ok e H (trie_contracts db) (root_index_at block (contract_roots db c)) (Ms c block) (X c block) (upd_storage u) r) us rs"
    by (rule Cons.IH) (use Cons.prems in simp)
  ultimately show ?case unfolding cu by fastforce
qed simp

lemma insert_results_ok:
  assumes e: "engine_ok e" and "low \<le> block" and "\<forall>b. low \<le> b \<longrightarrow> kept mode block b"
    and "contracts_ok e H low block Ms X db" and "distinct (map fst cs)"
    and "list_all2 (\<lambda>(c, us) r. res_contract_address r = c \<and>
      result_ok e H tbl0 (root_index_at block (contract_roots db c)) (Ms c block) (X c block) us r) cs rs"
    and "\<forall>(c, us) \<in> set cs. \<forall>i \<in># X c block. rows (trie_contracts db) i = rows tbl0 i"
    and "card (dom (rows (trie_contracts db))) + update_count cs * 507 < 2 ^ 63"
  shows "\<exists>db' X'. insert_results e mode block rs db = Inr db' \<and>
    contracts_changed mode block (result_hashes rs) db db' \<and>
    contracts_ok e H low block (next_maps block cs Ms) X' db' \<and>
    card (dom (rows (trie_contracts db'))) \<le> card (dom (rows (trie_contracts db))) + update_count cs * 507"
  using assms(4-8)
proof (induction cs arbitrary: rs Ms X db)
  case Nil
  then show ?case by (auto simp: result_hashes_def contracts_changed_refl update_count_def)
next
  case (Cons cu cs)
  obtain c us where cu: "cu = (c, us)" by (cases cu)
  obtain r rs' where rs: "rs = r # rs'" "res_contract_address r = c"
    "result_ok e H tbl0 (root_index_at block (contract_roots db c)) (Ms c block) (X c block) us r"
    "list_all2 (\<lambda>(c, us) r. res_contract_address r = c \<and>
      result_ok e H tbl0 (root_index_at block (contract_roots db c)) (Ms c block) (X c block) us r) cs rs'"
    using Cons.prems(3) cu by (auto simp: list_all2_Cons1)
  have len: "length (nodes_added (res_trie_update r)) \<le> length us * 507" using rs(3) by (simp add: result_ok_def)
  have cnt: "update_count (cu # cs) = length us + update_count cs" by (simp add: update_count_def cu)
  have rows0: "\<forall>i \<in># X c block. rows (trie_contracts db) i = rows tbl0 i" using Cons.prems(4) cu by simp
  have room: "card (dom (rows (trie_contracts db))) + length (nodes_added (res_trie_update r)) < 2 ^ 63"
    using Cons.prems(5) len cnt by simp
  obtain db1 Y where db1:
    "contract_result_insert e mode block r db = Inr (tx_insert_contract_state_hash mode block c (res_state_hash r) db1)"
    "db1 = db\<lparr> trie_contracts := trie_contracts db1, contract_roots := (contract_roots db)(c := contract_roots db1 c) \<rparr>"
    "contracts_ok e H low block (Ms(c := (Ms c)(block := apply_updates (Ms c block) (bit_updates us)))) (X(c := (X c)(block := Y))) db1"
    "\<forall>c'. \<forall>i \<in># X c' block. rows (trie_contracts db1) i = rows (trie_contracts db) i"
    "card (dom (rows (trie_contracts db1))) \<le> card (dom (rows (trie_contracts db))) + length (nodes_added (res_trie_update r))"
    using contract_result_insert_ok [OF e Cons.prems(1) assms(2,3) rs(3,2) rows0 room] by blast
  define db2 where "db2 = tx_insert_contract_state_hash mode block c (res_state_hash r) db1"
  define tc cr where "tc = trie_contracts db1" and "cr = contract_roots db1 c"
  have db1': "db1 = db\<lparr> trie_contracts := tc, contract_roots := (contract_roots db)(c := cr) \<rparr>"
    using db1(2) by (simp add: tc_def cr_def)
  have db2: "trie_contracts db2 = trie_contracts db1" "contract_roots db2 = contract_roots db1"
    by (simp_all add: db2_def tx_insert_contract_state_hash_def)
  have changed: "contracts_changed mode block [(c, res_state_hash r)] db db2"
    unfolding contracts_changed_def db2_def tx_insert_contract_state_hash_def db1'
    by (intro exI [of _ tc] exI [of _ "(contract_roots db)(c := cr)"]) simp
  let ?Ms = "Ms(c := (Ms c)(block := apply_updates (Ms c block) (bit_updates us)))" and ?X = "X(c := (X c)(block := Y))"
  have notin: "c \<notin> fst ` set cs" using Cons.prems(2) cu by simp
  have ok2: "contracts_ok e H low block ?Ms ?X db2" using db1(3) db2 by (simp add: contracts_ok_def)
  have "list_all2 (\<lambda>(c, us) r. res_contract_address r = c \<and>
      result_ok e H tbl0 (root_index_at block (contract_roots db2 c)) (?Ms c block) (?X c block) us r) cs rs'"
    by (rule list.rel_mono_strong [OF rs(4)]) (use notin db2 db1' in force)
  moreover have "\<forall>(c, us) \<in> set cs. \<forall>i \<in># ?X c block. rows (trie_contracts db2) i = rows tbl0 i"
  proof (clarify)
    fix c' us' i assume c': "(c', us') \<in> set cs" and i: "i \<in># ?X c' block"
    then have "c' \<noteq> c" using notin by force
    then have "i \<in># X c' block" using i by simp
    moreover from this have "rows (trie_contracts db) i = rows tbl0 i" using Cons.prems(4) c' by fastforce
    ultimately show "rows (trie_contracts db2) i = rows tbl0 i" using db1(4) db2 by simp
  qed
  moreover have "card (dom (rows (trie_contracts db2))) + update_count cs * 507 < 2 ^ 63"
    using Cons.prems(5) len cnt db1(5) db2 by simp
  moreover have "distinct (map fst cs)" using Cons.prems(2) by simp
  ultimately obtain db' X' where "insert_results e mode block rs' db2 = Inr db'"
    "contracts_changed mode block (result_hashes rs') db2 db'" "contracts_ok e H low block (next_maps block cs ?Ms) X' db'"
    "card (dom (rows (trie_contracts db'))) \<le> card (dom (rows (trie_contracts db2))) + update_count cs * 507"
    using Cons.IH [OF ok2] by blast
  moreover from this(1) have "insert_results e mode block rs db = Inr db'"
    using db1(1) by (simp add: rs(1) db2_def)
  moreover have "contracts_changed mode block (result_hashes rs) db db'"
    using contracts_changed_trans [OF changed calculation(2)] rs(2) by (simp add: rs(1) result_hashes_def)
  ultimately show ?case using db1(5) db2 len cnt by (intro exI [of _ db'] exI [of _ X']) (simp add: cu)
qed

end

section \<open>The tree of the contracts\<close>

lemma contract_result_insert_trie_storage:
  "contract_result_insert e mode block r db = Inr db1 \<Longrightarrow> trie_storage db1 = trie_storage db"
  by (auto simp: contract_result_insert_def tx_insert_contract_trie_def tx_insert_contract_root_def
    tx_insert_contract_state_hash_def split: if_splits prod.splits)

lemma storage_trie_storage_table:
  "storage_trie_storage e db b = table_storage e (trie_storage db) (storage_trie_leaf db b)"
  by (simp add: storage_trie_storage_def table_storage_def)

lemma storage_tree_set_eq:
  assumes "trie_storage db = tbl"
  shows "storage_tree_set e db c h (t, b) = map_sum id (\<lambda>t. (t, b)) (tree_set 251 (table_storage e tbl leaf) (view_bits c) h t)"
proof -
  have "tree_set 251 (storage_trie_storage e db b) (view_bits c) h t = tree_set 251 (table_storage e tbl leaf) (view_bits c) h t"
    by (rule tree_set_cong) (simp add: storage_trie_storage_def table_storage_def assms)
  then show ?thesis
    by (cases "tree_set 251 (table_storage e tbl leaf) (view_bits c) h t") (simp_all add: storage_tree_set_def)
qed

lemma insert_contract_results_eq:
  assumes "trie_storage db = tbl" and "tree_set_all 251 (table_storage e tbl leaf) (bit_updates (result_hashes rs)) t = Inr t'"
    and "insert_results e mode block rs db = Inr db'"
  shows "insert_contract_results e mode block rs ((t, b), db) = Inr ((t', b), db') \<and> trie_storage db' = tbl"
  using assms
proof (induction rs arbitrary: t db)
  case (Cons r rs)
  obtain t1 where t1: "tree_set 251 (table_storage e tbl leaf) (view_bits (res_contract_address r)) (res_state_hash r) t = Inr t1"
    "tree_set_all 251 (table_storage e tbl leaf) (bit_updates (result_hashes rs)) t1 = Inr t'"
    using Cons.prems(2) by (auto simp: result_hashes_def bit_updates_def)
  obtain db1 where db1: "contract_result_insert e mode block r db = Inr db1" "insert_results e mode block rs db1 = Inr db'"
    using Cons.prems(3) by auto
  have "trie_storage db1 = tbl" using contract_result_insert_trie_storage [OF db1(1)] Cons.prems(1) by simp
  from Cons.IH [OF this t1(2) db1(2)] show ?case
    using storage_tree_set_eq [OF Cons.prems(1), of e "res_contract_address r" "res_state_hash r" t b leaf] t1(1) db1(1) by simp
qed (simp_all add: result_hashes_def bit_updates_def)

text \<open>The system contracts, whose updates are computed one after the other.\<close>

fun update_systems ::
  "engine \<Rightarrow> felt_hash \<Rightarrow> trie_prune_mode \<Rightarrow> bool \<Rightarrow> block_number \<Rightarrow> (felt \<times> (felt \<times> felt) list) list \<Rightarrow> state_db
     \<Rightarrow> ((felt \<times> felt) list \<times> state_db) outcome" where
  "update_systems e P mode verify block [] db = Inr ([], db)"
| "update_systems e P mode verify block ((c, storage) # us) db =
     bind_outcome (update_contract_state e P c storage None None db verify block) (\<lambda>r.
     bind_outcome (contract_result_insert e mode block r db) (\<lambda>db.
     bind_outcome (update_systems e P mode verify block us db) (\<lambda>(hs, db). Inr ((c, res_state_hash r) # hs, db))))"

lemma update_system_contracts_eq:
  assumes "trie_storage db = tbl" and "update_systems e P mode v block us db = Inr (hs, db')"
    and "tree_set_all 251 (table_storage e tbl leaf) (bit_updates hs) t = Inr t'"
  shows "update_system_contracts e P mode v block us ((t, b), db) = Inr ((t', b), db') \<and> trie_storage db' = tbl"
  using assms
proof (induction us arbitrary: t db hs)
  case (Cons u us)
  obtain c s where u: "u = (c, s)" by (cases u)
  obtain r db1 hs' where r: "update_contract_state e P c s None None db v block = Inr r"
    "contract_result_insert e mode block r db = Inr db1" "update_systems e P mode v block us db1 = Inr (hs', db')"
    "hs = (c, res_state_hash r) # hs'" using Cons.prems(2) by (auto simp: u)
  obtain t1 where t1: "tree_set 251 (table_storage e tbl leaf) (view_bits c) (res_state_hash r) t = Inr t1"
    "tree_set_all 251 (table_storage e tbl leaf) (bit_updates hs') t1 = Inr t'"
    using Cons.prems(3) by (auto simp: r(4) bit_updates_def)
  have "trie_storage db1 = tbl" using contract_result_insert_trie_storage [OF r(2)] Cons.prems(1) by simp
  from Cons.IH [OF this r(3) t1(2)] show ?case
    using storage_tree_set_eq [OF Cons.prems(1), of e c "res_state_hash r" t b leaf] t1(1) r(1,2) by (simp add: u)
qed (simp_all add: bit_updates_def)

lemma tx_values_cong:
  "contract_updates db' = contract_updates db \<Longrightarrow> tx_contract_class_hash (BlockNumber b) c db' = tx_contract_class_hash (BlockNumber b) c db"
  "nonce_updates db' = nonce_updates db \<Longrightarrow> tx_contract_nonce c (BlockNumber b) db' = tx_contract_nonce c (BlockNumber b) db"
  "storage_updates db' = storage_updates db \<Longrightarrow> tx_storage_value (BlockNumber b) c k db' = tx_storage_value (BlockNumber b) c k db"
  "contract_state_hashes db' c = contract_state_hashes db c \<Longrightarrow> tx_contract_state_hash b c db' = tx_contract_state_hash b c db"
  "casm_class_hashes db' = casm_class_hashes db \<Longrightarrow> tx_casm_hash_at (BlockNumber b) c db' = tx_casm_hash_at (BlockNumber b) c db"
  by (simp_all add: tx_contract_class_hash_def tx_contract_nonce_def tx_storage_value_def tx_storage_value_with_block_def
    tx_contract_state_hash_def tx_casm_hash_at_def latest_in_def in_block_def)

lemma next_state_hash_changed:
  assumes "contracts_changed mode block hs db db'"
  shows "next_state_hash P db' b c M n k = next_state_hash P db b c M n k"
  unfolding next_state_hash_def next_class_hash_def next_nonce_def
    tx_values_cong(1) [OF contracts_changed_fields(3) [OF assms]] tx_values_cong(2) [OF contracts_changed_fields(2) [OF assms]] ..

lemma contract_storage_leaf_changed:
  assumes "contracts_changed mode block hs db db'"
  shows "contract_storage_leaf db' c = contract_storage_leaf db c"
  by (intro ext) (simp only: contract_storage_leaf_def tx_values_cong(3) [OF contracts_changed_fields(1) [OF assms]])

text \<open>What an update of a contract needs: a block that has not been written and keys of 32 bytes.\<close>

definition writable ::
  "state_db \<Rightarrow> block_number \<Rightarrow> contract_maps \<Rightarrow> felt \<times> (felt \<times> felt) list \<times> felt option \<Rightarrow> bool" where
  "writable db block Ms = (\<lambda>(c, us, class). pending block (contract_roots db c) (Ms c block) (contract_storage_leaf db c) \<and>
     (\<forall>(k, v) \<in> set us. length k = 32) \<and>
     (is_system_contract c \<or> class \<noteq> None \<or> tx_contract_class_hash (BlockNumber block) c db \<noteq> None))"

lemma writable_changed:
  assumes "contracts_changed mode block hs db db'" and "c \<notin> fst ` set hs" and "writable db block Ms (c, us, class)"
    and "Ms' c block = Ms c block"
  shows "writable db' block Ms' (c, us, class)"
  using assms(2-4) contracts_changed_fields(12) [OF assms(1,2)] contract_storage_leaf_changed [OF assms(1), of c]
    tx_values_cong(1) [OF contracts_changed_fields(3) [OF assms(1)], of block c] by (simp add: writable_def)

context felt_valued_hash
begin

lemma update_systems_ok:
  assumes e: "engine_ok e" and "low \<le> block" and kept: "\<forall>b. low \<le> b \<longrightarrow> kept mode block b"
    and "contracts_ok e H low block Ms X db" and "distinct (map fst us)"
    and "\<forall>(c, s) \<in> set us. writable db block Ms (c, s, None)"
    and "card (dom (rows (trie_contracts db))) + update_count us * 507 < 2 ^ 63"
  shows "\<exists>hs db' X'. update_systems e H mode v block us db = Inr (hs, db') \<and>
    contracts_changed mode block hs db db' \<and> contracts_ok e H low block (next_maps block us Ms) X' db' \<and>
    card (dom (rows (trie_contracts db'))) \<le> card (dom (rows (trie_contracts db))) + update_count us * 507 \<and>
    hs = map (\<lambda>(c, s). (c, next_state_hash H db block c (apply_updates (Ms c block) (bit_updates s)) None None)) us"
  using assms(4-7)
proof (induction us arbitrary: Ms X db)
  case Nil
  then show ?case by (auto simp: contracts_changed_refl update_count_def)
next
  case (Cons u us)
  obtain c s where u: "u = (c, s)" by (cases u)
  have w: "writable db block Ms (c, s, None)" using Cons.prems(3) u by simp
  have forest: "forest_ok e H 251 low block Ms X (trie_contracts db) (roots_at (contract_roots db)) (mark_at e (trie_contracts db))"
    using Cons.prems(1) by (simp add: contracts_ok_def)
  obtain r where r: "update_contract_state e H c s None None db v block = Inr r" "res_contract_address r = c"
    "res_state_hash r = next_state_hash H db block c (apply_updates (Ms c block) (bit_updates s)) None None"
    "result_ok e H (trie_contracts db) (root_index_at block (contract_roots db c)) (Ms c block) (X c block) s r"
    using update_contract_state_ok [OF e forest \<open>low \<le> block\<close>, of c s None None v] w unfolding writable_def by auto
  have cnt: "update_count (u # us) = length s + update_count us" by (simp add: update_count_def u)
  have one: "list_all2 (\<lambda>(c, us) r. res_contract_address r = c \<and>
      result_ok e H (trie_contracts db) (root_index_at block (contract_roots db c)) (Ms c block) (X c block) us r) [(c, s)] [r]"
    using r(2,4) by simp
  obtain db1 X1 where db1: "contract_result_insert e mode block r db = Inr db1"
    "contracts_changed mode block [(c, res_state_hash r)] db db1"
    "contracts_ok e H low block (next_maps block [(c, s)] Ms) X1 db1"
    "card (dom (rows (trie_contracts db1))) \<le> card (dom (rows (trie_contracts db))) + length s * 507"
  proof -
    have "card (dom (rows (trie_contracts db))) + update_count [(c, s)] * 507 < 2 ^ 63"
      using Cons.prems(4) cnt by (simp add: update_count_def)
    from insert_results_ok [OF e \<open>low \<le> block\<close> kept Cons.prems(1) _ one _ this] obtain db1 X1 where
      "insert_results e mode block [r] db = Inr db1" "contracts_changed mode block (result_hashes [r]) db db1"
      "contracts_ok e H low block (next_maps block [(c, s)] Ms) X1 db1"
      "card (dom (rows (trie_contracts db1))) \<le> card (dom (rows (trie_contracts db))) + update_count [(c, s)] * 507" by auto
    then show ?thesis using that r(2) by (auto simp: result_hashes_def update_count_def)
  qed
  have notin: "c \<notin> fst ` set us" using Cons.prems(2) u by simp
  let ?Ms = "next_maps block [(c, s)] Ms"
  have Ms: "?Ms c' = Ms c'" if "c' \<noteq> c" for c' using that by simp
  have "\<forall>(c', s') \<in> set us. writable db1 block ?Ms (c', s', None)"
  proof clarify
    fix c' s' assume c': "(c', s') \<in> set us"
    then have ne: "c' \<noteq> c" using notin by force
    show "writable db1 block ?Ms (c', s', None)"
      by (rule writable_changed [OF db1(2), of c' Ms]) (use ne Ms Cons.prems(3) c' in auto)
  qed
  moreover have "card (dom (rows (trie_contracts db1))) + update_count us * 507 < 2 ^ 63"
    using Cons.prems(4) cnt db1(4) by simp
  moreover have "distinct (map fst us)" using Cons.prems(2) by simp
  ultimately obtain hs db' X' where IH: "update_systems e H mode v block us db1 = Inr (hs, db')"
    "contracts_changed mode block hs db1 db'" "contracts_ok e H low block (next_maps block us ?Ms) X' db'"
    "card (dom (rows (trie_contracts db'))) \<le> card (dom (rows (trie_contracts db1))) + update_count us * 507"
    "hs = map (\<lambda>(c, s). (c, next_state_hash H db1 block c (apply_updates (?Ms c block) (bit_updates s)) None None)) us"
    using Cons.IH [OF db1(3)] by blast
  have hs: "hs = map (\<lambda>(c, s). (c, next_state_hash H db block c (apply_updates (Ms c block) (bit_updates s)) None None)) us"
    unfolding IH(5) next_state_hash_changed [OF db1(2)] using notin by (intro map_cong) force+
  show ?case
  proof (intro exI conjI)
    show "update_systems e H mode v block (u # us) db = Inr ((c, res_state_hash r) # hs, db')"
      using r(1) db1(1) IH(1) by (simp add: u)
    show "contracts_changed mode block ((c, res_state_hash r) # hs) db db'"
      using contracts_changed_trans [OF db1(2) IH(2)] by simp
    show "contracts_ok e H low block (next_maps block (u # us) Ms) X' db'" using IH(3) by (simp add: u)
    show "card (dom (rows (trie_contracts db'))) \<le> card (dom (rows (trie_contracts db))) + update_count (u # us) * 507"
      using IH(4) db1(4) cnt by simp
    show "(c, res_state_hash r) # hs =
      map (\<lambda>(c, s). (c, next_state_hash H db block c (apply_updates (Ms c block) (bit_updates s)) None None)) (u # us)"
      using hs r(3) by (simp add: u)
  qed
qed

end

end
