(* ===== verification/StateUpdate_Correct.thy ===== *)
theory StateUpdate_Correct
  imports ContractUpdates
begin

text \<open>
  \<^verbatim>\<open>update_starknet_state\<close> as a whole: the two commitments it returns are those of the updated
  maps, and the tries hold these maps afterwards.
\<close>

section \<open>A trie with one tree\<close>

definition trees_ok ::
  "engine \<Rightarrow> felt_hash \<Rightarrow> block_number \<Rightarrow> block_number \<Rightarrow> (block_number \<Rightarrow> trie_path \<rightharpoonup> felt)
     \<Rightarrow> (block_number \<Rightarrow> trie_index multiset) \<Rightarrow> trie_table \<Rightarrow> trie_index option by_block \<Rightarrow> bool" where
  "trees_ok e P low block M X tbl roots \<longleftrightarrow>
     forest_ok e P 251 low block (\<lambda>_ :: unit. M) (\<lambda>_. X) tbl (\<lambda>_ b. root_index_at b roots) (mark_at e tbl) \<and>
     (\<forall>n \<in> fst ` set roots. n \<le> block)"

context felt_valued_hash
begin

lemma trees_insert:
  assumes e: "engine_ok e" and ok: "trees_ok e H low block M X tbl roots" and "low \<le> block"
    and kept: "\<forall>b. low \<le> b \<longrightarrow> kept mode block b"
    and u: "prepared e H 251 tbl (root_index_at block roots) M' (X block) u"
    and room: "card (dom (rows tbl)) + length (nodes_added u) < 2 ^ 63"
  shows "\<exists>upd tbl' Y. insert_trie e mode u block tbl = Inr (upd, tbl') \<and>
    trees_ok e H low block (M(block := M')) (X(block := Y)) tbl' (insert_root mode block upd roots) \<and>
    card (dom (rows tbl')) \<le> card (dom (rows tbl)) + length (nodes_added u)"
proof -
  have forest: "forest_ok e H 251 low block (\<lambda>_ :: unit. M) (\<lambda>_. X) tbl (\<lambda>_ b. root_index_at b roots) (mark_at e tbl)"
    and blocks: "\<forall>n \<in> fst ` set roots. n \<le> block" using ok by (simp_all add: trees_ok_def)
  from forest_insert [OF e forest order.refl \<open>low \<le> block\<close> kept _ u _ room] obtain upd tbl' Y where
    ins: "insert_trie e mode u block tbl = Inr (upd, tbl')"
    "mark_at e tbl' = next_marks mode block (update_nodes_removed u) (mark_at e tbl)"
    "card (dom (rows tbl')) \<le> card (dom (rows tbl)) + length (nodes_added u)"
    "forest_ok e H 251 low block ((\<lambda>_. M)(() := M(block := M'))) ((\<lambda>_. X)(() := X(block := Y))) tbl'
      ((\<lambda>_ b. root_index_at b roots)(() := (\<lambda>b. root_index_at b roots)(block := new_root (root_index_at block roots) upd)))
      (next_marks mode block (update_nodes_removed u) (mark_at e tbl))" by auto
  have "forest_ok e H 251 low block (\<lambda>_ :: unit. M(block := M')) (\<lambda>_. X(block := Y)) tbl'
      (\<lambda>_ b. root_index_at b (insert_root mode block upd roots)) (mark_at e tbl')"
    unfolding ins(2)
  proof (rule forest_cong [OF ins(4) order.refl])
    fix c :: unit and b assume "low \<le> b" "b \<le> block"
    then show "root_index_at b (insert_root mode block upd roots) =
        ((\<lambda>_ b. root_index_at b roots)(() := (\<lambda>b. root_index_at b roots)(block := new_root (root_index_at block roots) upd))) c b \<and>
        (M(block := M')) b = ((\<lambda>_. M)(() := M(block := M'))) c b \<and> (X(block := Y)) b = ((\<lambda>_. X)(() := X(block := Y))) c b"
      using root_index_at_insert_root [of mode block b upd roots] kept by simp
  qed
  then show ?thesis using ins(1,3) insert_root_blocks [OF blocks, of mode upd] by (auto simp: trees_ok_def)
qed

lemma trees_write:
  assumes e: "engine_ok e" and ok: "trees_ok e H low block M X tbl roots" and "low \<le> block"
    and kept: "\<forall>b. low \<le> b \<longrightarrow> kept mode block b"
    and pend: "pending block roots (M block |` (- fst ` set (bit_updates us))) leaf"
    and keys: "\<forall>(k, v) \<in> set us. length k = 32"
    and room: "card (dom (rows tbl)) + length us * 507 < 2 ^ 63"
  shows "\<exists>t u upd tbl' Y. tree_set_all 251 (table_storage e tbl (leaf (snd (loaded (root_index_at block roots) block)))) (bit_updates us)
      (with_verify_hashes v (fst (loaded (root_index_at block roots) block))) = Inr t \<and>
    commit H (table_storage e tbl (leaf (snd (loaded (root_index_at block roots) block)))) t = Inr u \<and>
    root_commitment u = commitment H 251 (apply_updates (M block) (bit_updates us)) \<and>
    insert_trie e mode u block tbl = Inr (upd, tbl') \<and>
    trees_ok e H low block (M(block := apply_updates (M block) (bit_updates us))) (X(block := Y)) tbl' (insert_root mode block upd roots)"
proof -
  have forest: "forest_ok e H 251 low block (\<lambda>_ :: unit. M) (\<lambda>_. X) tbl (\<lambda>_ b. root_index_at b roots) (mark_at e tbl)"
    using ok by (simp add: trees_ok_def)
  obtain t u where tu: "tree_set_all 251 (table_storage e tbl (leaf (snd (loaded (root_index_at block roots) block)))) (bit_updates us)
      (with_verify_hashes v (fst (loaded (root_index_at block roots) block))) = Inr t"
    "commit H (table_storage e tbl (leaf (snd (loaded (root_index_at block roots) block)))) t = Inr u"
    "root_commitment u = commitment H 251 (apply_updates (M block) (bit_updates us))"
    "prepared e H 251 tbl (root_index_at block roots) (apply_updates (M block) (bit_updates us)) (X block) u"
    "length (nodes_added u) \<le> length us * 507"
    using loaded_write [OF e forest \<open>low \<le> block\<close>, where roots = roots and us = us and leaf = leaf and v = v] pend keys by auto
  have "card (dom (rows tbl)) + length (nodes_added u) < 2 ^ 63" using room tu(5) by simp
  from trees_insert [OF e ok \<open>low \<le> block\<close> kept tu(4) this] show ?thesis using tu(1-3) by blast
qed

end

section \<open>Leaves of the parent block\<close>

lemma felt_of_path_eq:
  assumes "length k = 251"
  shows "\<exists>f. felt_of_path msg k = Inr f \<and> view_bits f = k"
proof -
  obtain f where "felt_from_bits k = Inr f" "view_bits f = replicate (251 - length k) False @ k"
    using felt_from_bits_eq [of k] assms by auto
  then show ?thesis using assms by (simp add: felt_of_path_def)
qed

text \<open>The hashes of contracts that the block does not write are those of the parent block.\<close>

lemma storage_trie_leaf_changed:
  assumes "contracts_changed mode block hs db db'" and "k \<notin> fst ` set (bit_updates hs)"
  shows "storage_trie_leaf db' b k = storage_trie_leaf db b k"
proof (cases "length k = 251 \<and> b \<noteq> None")
  case True
  then obtain b' f where b: "b = Some b'" and f: "felt_of_path ''Mapping leaf path to contract address'' k = Inr f" "view_bits f = k"
    using felt_of_path_eq by blast
  have "f \<notin> fst ` set hs" using assms(2) f(2) by (force simp: bit_updates_def)
  then have "contract_state_hashes db' f = contract_state_hashes db f"
    using contracts_changed_fields(11) [OF assms(1)] record_hashes_other by simp
  from tx_values_cong(4) [OF this] show ?thesis using f(1) True by (simp add: storage_trie_leaf_def b)
qed (auto simp: storage_trie_leaf_def)

section \<open>Classes\<close>

definition class_leaves :: "(felt \<times> felt) list \<Rightarrow> (felt \<times> felt) list" where
  "class_leaves cs = map (\<lambda>(sierra, casm). (sierra, calculate_class_commitment_leaf_hash casm)) cs"

definition insert_class_leaves :: "block_number \<Rightarrow> (felt \<times> felt) list \<Rightarrow> state_db \<Rightarrow> state_db" where
  "insert_class_leaves block cs db = db\<lparr> class_commitment_leaves :=
     class_commitment_leaves db @ map (\<lambda>(_, casm). (block, calculate_class_commitment_leaf_hash casm, casm)) cs \<rparr>"

lemma class_storage_table:
  "class_storage e db b = table_storage e (trie_class db) (class_storage_leaf db b)"
  by (simp add: class_storage_def table_storage_def)

lemma update_classes_eq:
  assumes "trie_class db = tbl" and "tree_set_all 251 (table_storage e tbl leaf) (bit_updates (class_leaves cs)) t = Inr t'"
  shows "update_classes e block cs ((t, b), db) = Inr ((t', b), insert_class_leaves block cs db)"
  using assms
proof (induction cs arbitrary: t db)
  case (Cons x cs)
  obtain s c where x: "x = (s, c)" by (cases x)
  let ?h = "calculate_class_commitment_leaf_hash c"
  obtain t1 where t1: "tree_set 251 (table_storage e tbl leaf) (view_bits s) ?h t = Inr t1"
    "tree_set_all 251 (table_storage e tbl leaf) (bit_updates (class_leaves cs)) t1 = Inr t'"
    using Cons.prems(2) by (auto simp: x class_leaves_def bit_updates_def)
  let ?db = "tx_insert_class_commitment_leaf block ?h c db"
  have tbl: "trie_class ?db = tbl" using Cons.prems(1) by (simp add: tx_insert_class_commitment_leaf_def)
  have "tree_set 251 (class_storage e ?db b) (view_bits s) ?h t = Inr t1"
    using t1(1) tree_set_cong [of "class_storage e ?db b" "table_storage e tbl leaf"] tbl
    by (simp add: class_storage_def table_storage_def)
  then have "class_tree_set e ?db s ?h (t, b) = Inr (t1, b)" by (simp add: class_tree_set_def)
  with Cons.IH [OF tbl t1(2)] show ?case
    by (simp add: x insert_class_leaves_def tx_insert_class_commitment_leaf_def)
qed (simp_all add: class_leaves_def bit_updates_def insert_class_leaves_def)

lemma class_storage_leaf_later:
  assumes "b < block"
  shows "class_storage_leaf (insert_class_leaves block cs db) (Some b) k = class_storage_leaf db (Some b) k"
proof -
  have "\<not> block \<le> b" using assms by simp
  then have none: "find (\<lambda>(n, _, casm'). casm' = casm \<and> n \<le> b)
      (map (\<lambda>(_, casm). (block, calculate_class_commitment_leaf_hash casm, casm)) cs) = None" for casm
    by (auto simp: find_None_iff)
  have find_app: "find P (xs @ ys) = (case find P xs of None \<Rightarrow> find P ys | Some x \<Rightarrow> Some x)" for P and xs ys :: "(block_number \<times> felt \<times> felt) list"
    by (induction xs) auto
  have 1: "tx_class_commitment_leaf b casm (insert_class_leaves block cs db) = tx_class_commitment_leaf b casm db" for casm
    by (simp add: tx_class_commitment_leaf_def insert_class_leaves_def find_app none split: option.split)
  have 2: "tx_casm_hash_at (BlockNumber b) s (insert_class_leaves block cs db) = tx_casm_hash_at (BlockNumber b) s db" for s
    by (rule tx_values_cong(5)) (simp add: insert_class_leaves_def)
  show ?thesis by (simp only: class_storage_leaf_def 1 2 option.case)
qed

lemma class_storage_leaf_parent:
  "class_storage_leaf (insert_class_leaves block cs db) (block_parent block) = class_storage_leaf db (block_parent block)"
proof (cases "block = 0")
  case True
  then show ?thesis by (intro ext) (simp add: block_parent_def class_storage_leaf_def)
next
  case False
  then have "block - 1 < block" by (simp add: word_less_nat_alt unat_minus_one unat_gt_0)
  then show ?thesis using False class_storage_leaf_later by (intro ext) (simp add: block_parent_def)
qed

lemma update_class_trie_ok:
  assumes e: "engine_ok e" and ok: "trees_ok e poseidon_felt_hash low block M X (trie_class db) (class_roots db)" and "low \<le> block"
    and kept: "\<forall>b. low \<le> b \<longrightarrow> kept mode block b"
    and pend: "pending block (class_roots db) (M block) (class_storage_leaf db)"
    and keys: "\<forall>(k, v) \<in> set cs. length k = 32"
    and room: "card (dom (rows (trie_class db))) + length cs * 507 < 2 ^ 63"
  shows "\<exists>tbl' roots' Y. update_class_trie e mode v block cs db =
      Inr (commitment poseidon_felt_hash 251 (apply_updates (M block) (bit_updates (class_leaves cs))),
        (insert_class_leaves block cs db)\<lparr> trie_class := tbl', class_roots := roots' \<rparr>) \<and>
    trees_ok e poseidon_felt_hash low block (M(block := apply_updates (M block) (bit_updates (class_leaves cs)))) (X(block := Y)) tbl' roots'"
proof -
  let ?r = "root_index_at block (class_roots db)" and ?db = "insert_class_leaves block cs db"
  let ?b = "snd (loaded ?r block)"
  have db: "trie_class ?db = trie_class db" "class_roots ?db = class_roots db" by (simp_all add: insert_class_leaves_def)
  have leaf: "class_storage_leaf ?db ?b = class_storage_leaf db ?b"
  proof (cases ?r)
    case None
    then show ?thesis by (intro ext) (simp add: loaded_def class_storage_leaf_def)
  next
    case (Some i)
    then show ?thesis using class_storage_leaf_parent [of block cs db] by (simp add: loaded_def)
  qed
  have keys': "\<forall>(k, v) \<in> set (class_leaves cs). length k = 32" using keys by (auto simp: class_leaves_def)
  have room': "card (dom (rows (trie_class db))) + length (class_leaves cs) * 507 < 2 ^ 63"
    using room by (simp add: class_leaves_def)
  from poseidon.trees_write [OF e ok \<open>low \<le> block\<close> kept pending_restrict [OF pend] keys' room', of v] obtain t u upd tbl' Y where
    w: "tree_set_all 251 (table_storage e (trie_class db) (class_storage_leaf db ?b)) (bit_updates (class_leaves cs))
      (with_verify_hashes v (fst (loaded ?r block))) = Inr t"
    "commit poseidon_felt_hash (table_storage e (trie_class db) (class_storage_leaf db ?b)) t = Inr u"
    "root_commitment u = commitment poseidon_felt_hash 251 (apply_updates (M block) (bit_updates (class_leaves cs)))"
    "insert_trie e mode u block (trie_class db) = Inr (upd, tbl')"
    "trees_ok e poseidon_felt_hash low block (M(block := apply_updates (M block) (bit_updates (class_leaves cs)))) (X(block := Y)) tbl'
      (insert_root mode block upd (class_roots db))" by blast
  have load: "tree_in_verify v (case block_parent block of Some parent \<Rightarrow> class_tree_load db parent | None \<Rightarrow> tree_in_empty)
      = (with_verify_hashes v (fst (loaded ?r block)), ?b)"
    unfolding class_tree_load_def tx_class_root_index_def pending_load [OF pend] by (simp add: tree_in_verify_def loaded_def)
  have "commit poseidon_felt_hash (class_storage e ?db ?b) t = Inr u" using w(2) by (simp only: class_storage_table db leaf)
  then have "class_tree_commit e ?db (t, ?b) = Inr (root_commitment u, u)" by (simp add: class_tree_commit_def)
  then have "update_class_trie e mode v block cs db =
      Inr (root_commitment u, ?db\<lparr> trie_class := tbl', class_roots := insert_root mode block upd (class_roots db) \<rparr>)"
    unfolding update_class_trie_def load using update_classes_eq [OF refl w(1)] w(4) db
    by (simp add: tx_insert_class_trie_def tx_insert_class_root_def)
  then show ?thesis using w(3,5) by auto
qed

section \<open>A block\<close>

record state_maps =
  map_storage :: contract_maps
  map_hashes :: "block_number \<Rightarrow> trie_path \<rightharpoonup> felt"
  map_classes :: "block_number \<Rightarrow> trie_path \<rightharpoonup> felt"

definition contract_writes :: "state_update \<Rightarrow> (felt \<times> (felt \<times> felt) list) list" where
  "contract_writes u = map (\<lambda>(c, up). (c, upd_storage up)) (upd_contracts u)"

definition all_writes :: "state_update \<Rightarrow> (felt \<times> (felt \<times> felt) list) list" where
  "all_writes u = contract_writes u @ upd_system_contracts u"

definition class_writes :: "state_update \<Rightarrow> (felt \<times> felt) list" where
  "class_writes u = declared_sierra_classes u @ migrated_compiled_classes u"

definition contract_hash :: "felt_hash \<Rightarrow> state_db \<Rightarrow> block_number \<Rightarrow> contract_maps \<Rightarrow> felt \<times> contract_update \<Rightarrow> felt \<times> felt" where
  "contract_hash P db block Ms = (\<lambda>(c, up). (c, next_state_hash P db block c
     (apply_updates (Ms c block) (bit_updates (upd_storage up))) (upd_nonce up) (map_option update_class_hash (upd_class up))))"

definition system_hash :: "felt_hash \<Rightarrow> state_db \<Rightarrow> block_number \<Rightarrow> contract_maps \<Rightarrow> felt \<times> (felt \<times> felt) list \<Rightarrow> felt \<times> felt" where
  "system_hash P db block Ms = (\<lambda>(c, s). (c, next_state_hash P db block c (apply_updates (Ms c block) (bit_updates s)) None None))"

definition block_hashes :: "felt_hash \<Rightarrow> state_db \<Rightarrow> block_number \<Rightarrow> contract_maps \<Rightarrow> state_update \<Rightarrow> (felt \<times> felt) list" where
  "block_hashes P db block Ms u = map (contract_hash P db block Ms) (upd_contracts u) @ map (system_hash P db block Ms) (upd_system_contracts u)"

lemma block_hashes_addresses: "map fst (block_hashes P db block Ms u) = map fst (all_writes u)"
  by (auto simp: block_hashes_def all_writes_def contract_writes_def contract_hash_def system_hash_def split: prod.splits)

definition next_state :: "felt_hash \<Rightarrow> state_db \<Rightarrow> block_number \<Rightarrow> state_update \<Rightarrow> state_maps \<Rightarrow> state_maps" where
  "next_state P db block u G = \<lparr>
     map_storage = next_maps block (all_writes u) (map_storage G),
     map_hashes = (map_hashes G)(block := apply_updates (map_hashes G block) (bit_updates (block_hashes P db block (map_storage G) u))),
     map_classes = (map_classes G)(block := apply_updates (map_classes G block) (bit_updates (class_leaves (class_writes u)))) \<rparr>"

text \<open>The tries hold the maps \<open>G\<close> at the blocks from \<open>low\<close> to \<open>block\<close>.\<close>

definition state_ok :: "engine \<Rightarrow> felt_hash \<Rightarrow> block_number \<Rightarrow> block_number \<Rightarrow> state_maps \<Rightarrow> state_db \<Rightarrow> bool" where
  "state_ok e P low block G db \<longleftrightarrow> (\<exists>X. contracts_ok e P low block (map_storage G) X db) \<and>
     (\<exists>X. trees_ok e P low block (map_hashes G) X (trie_storage db) (storage_roots db)) \<and>
     (\<exists>X. trees_ok e poseidon_felt_hash low block (map_classes G) X (trie_class db) (class_roots db))"

text \<open>The block has not been written yet.\<close>

definition unwritten :: "block_number \<Rightarrow> state_maps \<Rightarrow> state_db \<Rightarrow> bool" where
  "unwritten block G db \<longleftrightarrow>
     (\<forall>c. pending block (contract_roots db c) (map_storage G c block) (contract_storage_leaf db c)) \<and>
     pending block (storage_roots db) (map_hashes G block) (storage_trie_leaf db) \<and>
     pending block (class_roots db) (map_classes G block) (class_storage_leaf db)"

text \<open>Hash maps have one entry for a key, keys have 32 bytes, and the class of every contract is known.\<close>

definition update_ok :: "state_db \<Rightarrow> block_number \<Rightarrow> state_update \<Rightarrow> bool" where
  "update_ok db block u \<longleftrightarrow> distinct (map fst (all_writes u)) \<and>
     (\<forall>(c, s) \<in> set (all_writes u). length c = 32 \<and> (\<forall>(k, v) \<in> set s. length k = 32)) \<and>
     (\<forall>(c, up) \<in> set (upd_contracts u). is_system_contract c \<or> upd_class up \<noteq> None \<or>
        tx_contract_class_hash (BlockNumber block) c db \<noteq> None) \<and>
     (\<forall>(c, s) \<in> set (upd_system_contracts u). is_system_contract c \<or> tx_contract_class_hash (BlockNumber block) c db \<noteq> None) \<and>
     (\<forall>(k, v) \<in> set (class_writes u). length k = 32)"

definition room_for :: "state_update \<Rightarrow> state_db \<Rightarrow> bool" where
  "room_for u db \<longleftrightarrow> card (dom (rows (trie_contracts db))) + update_count (all_writes u) * 507 < 2 ^ 63 \<and>
     card (dom (rows (trie_storage db))) + length (all_writes u) * 507 < 2 ^ 63 \<and>
     card (dom (rows (trie_class db))) + length (class_writes u) * 507 < 2 ^ 63"

lemma update_count_append: "update_count (xs @ ys) = update_count xs + update_count ys"
  by (simp add: update_count_def)

lemma update_okD:
  assumes "update_ok db block u"
  shows "distinct (map fst (all_writes u))" and "(c, s) \<in> set (all_writes u) \<Longrightarrow> length c = 32"
    and "(c, s) \<in> set (all_writes u) \<Longrightarrow> (k, v) \<in> set s \<Longrightarrow> length k = 32"
    and "(c, up) \<in> set (upd_contracts u) \<Longrightarrow> is_system_contract c \<or> upd_class up \<noteq> None \<or>
        tx_contract_class_hash (BlockNumber block) c db \<noteq> None"
    and "(c, s) \<in> set (upd_system_contracts u) \<Longrightarrow> is_system_contract c \<or> tx_contract_class_hash (BlockNumber block) c db \<noteq> None"
    and "(k, v) \<in> set (class_writes u) \<Longrightarrow> length k = 32"
  using assms unfolding update_ok_def by (blast, fastforce, fastforce, fastforce, fastforce, fastforce)

lemma unwrittenD:
  assumes "unwritten block G db"
  shows "pending block (contract_roots db c) (map_storage G c block) (contract_storage_leaf db c)"
    and "pending block (storage_roots db) (map_hashes G block) (storage_trie_leaf db)"
    and "pending block (class_roots db) (map_classes G block) (class_storage_leaf db)"
  using assms by (simp_all add: unwritten_def)

lemma unwritten_writable:
  assumes "unwritten block G db" and "update_ok db block u"
  shows "\<forall>(c, up) \<in> set (upd_contracts u). writable db block (map_storage G) (c, upd_storage up, map_option update_class_hash (upd_class up))"
    and "\<forall>(c, s) \<in> set (upd_system_contracts u). writable db block (map_storage G) (c, s, None)"
proof -
  show "\<forall>(c, up) \<in> set (upd_contracts u). writable db block (map_storage G) (c, upd_storage up, map_option update_class_hash (upd_class up))"
  proof clarify
    fix c up assume c: "(c, up) \<in> set (upd_contracts u)"
    then have "(c, upd_storage up) \<in> set (all_writes u)" by (force simp: all_writes_def contract_writes_def)
    then show "writable db block (map_storage G) (c, upd_storage up, map_option update_class_hash (upd_class up))"
      using unwrittenD(1) [OF assms(1)] update_okD(3) [OF assms(2)] update_okD(4) [OF assms(2) c] by (auto simp: writable_def)
  qed
  show "\<forall>(c, s) \<in> set (upd_system_contracts u). writable db block (map_storage G) (c, s, None)"
  proof clarify
    fix c s assume c: "(c, s) \<in> set (upd_system_contracts u)"
    then have "(c, s) \<in> set (all_writes u)" by (simp add: all_writes_def)
    then show "writable db block (map_storage G) (c, s, None)"
      using unwrittenD(1) [OF assms(1)] update_okD(3) [OF assms(2)] update_okD(5) [OF assms(2) c] by (auto simp: writable_def)
  qed
qed

context felt_valued_hash
begin

text \<open>The contracts of a block, in the order of the code.\<close>

lemma contracts_of_block:
  assumes e: "engine_ok e" and "low \<le> block" and kept: "\<forall>b. low \<le> b \<longrightarrow> kept mode block b"
    and ok: "contracts_ok e H low block (map_storage G) X db"
    and un: "unwritten block G db" and u: "update_ok db block u"
    and room: "card (dom (rows (trie_contracts db))) + update_count (all_writes u) * 507 < 2 ^ 63"
  shows "\<exists>rs db1 hs db2 X'. contract_results e H db v block (upd_contracts u) = Inr rs \<and>
    insert_results e mode block rs db = Inr db1 \<and> update_systems e H mode v block (upd_system_contracts u) db1 = Inr (hs, db2) \<and>
    result_hashes rs @ hs = block_hashes H db block (map_storage G) u \<and>
    contracts_changed mode block (block_hashes H db block (map_storage G) u) db db2 \<and>
    contracts_ok e H low block (next_maps block (all_writes u) (map_storage G)) X' db2"
proof -
  let ?Ms = "map_storage G"
  note w = unwritten_writable [OF un u]
  have d: "distinct (map fst (contract_writes u))" "distinct (map fst (upd_system_contracts u))"
    "fst ` set (contract_writes u) \<inter> fst ` set (upd_system_contracts u) = {}"
    using update_okD(1) [OF u] by (auto simp: all_writes_def)
  have forest: "forest_ok e H 251 low block ?Ms X (trie_contracts db) (roots_at (contract_roots db)) (mark_at e (trie_contracts db))"
    using ok by (simp add: contracts_ok_def)
  have "\<forall>(c, up) \<in> set (upd_contracts u). pending block (contract_roots db c) (?Ms c block) (contract_storage_leaf db c) \<and>
      (\<forall>(k, v) \<in> set (upd_storage up). length k = 32) \<and>
      (is_system_contract c \<or> upd_class up \<noteq> None \<or> tx_contract_class_hash (BlockNumber block) c db \<noteq> None)"
    using w(1) by (auto simp: writable_def)
  from contract_results_ok [OF e forest \<open>low \<le> block\<close> this] obtain rs where rs:
    "contract_results e H db v block (upd_contracts u) = Inr rs"
    "list_all2 (\<lambda>(c, up) r. res_contract_address r = c \<and>
      res_state_hash r = next_state_hash H db block c (apply_updates (?Ms c block) (bit_updates (upd_storage up)))
        (upd_nonce up) (map_option update_class_hash (upd_class up)) \<and>
      result_ok e H (trie_contracts db) (root_index_at block (contract_roots db c)) (?Ms c block) (X c block) (upd_storage up) r)
      (upd_contracts u) rs" by blast
  have hs1: "result_hashes rs = map (contract_hash H db block ?Ms) (upd_contracts u)"
    using rs(2) by (induction rule: list_all2_induct) (auto simp: result_hashes_def contract_hash_def)
  have "list_all2 (\<lambda>(c, us) r. res_contract_address r = c \<and>
      result_ok e H (trie_contracts db) (root_index_at block (contract_roots db c)) (?Ms c block) (X c block) us r) (contract_writes u) rs"
    unfolding contract_writes_def list_all2_map1 by (rule list.rel_mono_strong [OF rs(2)]) auto
  moreover have "card (dom (rows (trie_contracts db))) + update_count (contract_writes u) * 507 < 2 ^ 63"
    using room by (simp add: all_writes_def update_count_append)
  ultimately obtain db1 X1 where db1: "insert_results e mode block rs db = Inr db1"
    "contracts_changed mode block (result_hashes rs) db db1" "contracts_ok e H low block (next_maps block (contract_writes u) ?Ms) X1 db1"
    "card (dom (rows (trie_contracts db1))) \<le> card (dom (rows (trie_contracts db))) + update_count (contract_writes u) * 507"
    using insert_results_ok [OF e \<open>low \<le> block\<close> kept ok d(1), of "trie_contracts db" rs] by auto
  let ?Ms1 = "next_maps block (contract_writes u) ?Ms"
  have addr: "fst ` set (result_hashes rs) = fst ` set (contract_writes u)"
    by (force simp: hs1 contract_hash_def contract_writes_def image_image)
  have same: "?Ms1 c = ?Ms c" if "(c, s) \<in> set (upd_system_contracts u)" for c s
    by (rule next_maps_other) (use d(3) that in force)
  have "\<forall>(c, s) \<in> set (upd_system_contracts u). writable db1 block ?Ms1 (c, s, None)"
  proof clarify
    fix c s assume c: "(c, s) \<in> set (upd_system_contracts u)"
    have "c \<in> fst ` set (upd_system_contracts u)" using c by (metis fst_conv image_eqI)
    then have "c \<notin> fst ` set (result_hashes rs)" using addr d(3) by blast
    from writable_changed [OF db1(2) this, of ?Ms s None ?Ms1] show "writable db1 block ?Ms1 (c, s, None)"
      using w(2) c same [OF c] by auto
  qed
  moreover have "card (dom (rows (trie_contracts db1))) + update_count (upd_system_contracts u) * 507 < 2 ^ 63"
    using room db1(4) by (simp add: all_writes_def update_count_append)
  ultimately obtain hs db2 X2 where sys: "update_systems e H mode v block (upd_system_contracts u) db1 = Inr (hs, db2)"
    "contracts_changed mode block hs db1 db2" "contracts_ok e H low block (next_maps block (upd_system_contracts u) ?Ms1) X2 db2"
    "hs = map (\<lambda>(c, s). (c, next_state_hash H db1 block c (apply_updates (?Ms1 c block) (bit_updates s)) None None)) (upd_system_contracts u)"
    using update_systems_ok [OF e \<open>low \<le> block\<close> kept db1(3) d(2)] by blast
  have "hs = map (system_hash H db block ?Ms) (upd_system_contracts u)"
    unfolding sys(4) next_state_hash_changed [OF db1(2)] by (rule map_cong) (auto simp: system_hash_def same)
  then have hashes: "result_hashes rs @ hs = block_hashes H db block ?Ms u" using hs1 by (simp add: block_hashes_def)
  moreover have "contracts_changed mode block (block_hashes H db block ?Ms u) db db2"
    using contracts_changed_trans [OF db1(2) sys(2)] hashes by simp
  ultimately show ?thesis using rs(1) db1(1) sys(1,3) by (auto simp: all_writes_def next_maps_append)
qed

lemma update_starknet_state_ok:
  assumes e: "engine_ok e" and "low \<le> block" and kept: "\<forall>b. low \<le> b \<longrightarrow> kept mode block b"
    and ok: "state_ok e H low block G db" and un: "unwritten block G db" and u: "update_ok db block u" and room: "room_for u db"
  defines "G' \<equiv> next_state H db block u G"
  shows "\<exists>db' dbc tbl1 roots1 tbl2 roots2. update_starknet_state e H mode db v block u db =
      Inr ((commitment H 251 (map_hashes G' block), commitment poseidon_felt_hash 251 (map_classes G' block)), db') \<and>
    state_ok e H low block G' db' \<and>
    contracts_changed mode block (block_hashes H db block (map_storage G) u) db dbc \<and>
    db' = (insert_class_leaves block (class_writes u) dbc)
      \<lparr> trie_storage := tbl1, storage_roots := roots1, trie_class := tbl2, class_roots := roots2 \<rparr>"
proof -
  let ?Ms = "map_storage G" and ?hs = "block_hashes H db block (map_storage G) u"
  obtain XC XS XK where X: "contracts_ok e H low block ?Ms XC db"
    "trees_ok e H low block (map_hashes G) XS (trie_storage db) (storage_roots db)"
    "trees_ok e poseidon_felt_hash low block (map_classes G) XK (trie_class db) (class_roots db)"
    using ok unfolding state_ok_def by blast
  have "card (dom (rows (trie_contracts db))) + update_count (all_writes u) * 507 < 2 ^ 63" using room by (simp add: room_for_def)
  from contracts_of_block [OF e \<open>low \<le> block\<close> kept X(1) un u this, of v] obtain rs db1 hs db2 XC' where
    c: "contract_results e H db v block (upd_contracts u) = Inr rs" "insert_results e mode block rs db = Inr db1"
    "update_systems e H mode v block (upd_system_contracts u) db1 = Inr (hs, db2)" "result_hashes rs @ hs = ?hs"
    "contracts_changed mode block ?hs db db2" "contracts_ok e H low block (next_maps block (all_writes u) ?Ms) XC' db2" by blast
  note F = contracts_changed_fields [OF c(5)]
  let ?r = "root_index_at block (storage_roots db)"
  let ?b = "snd (loaded ?r block)"
  \<comment> \<open>the storage tree\<close>
  have pendS: "pending block (storage_roots db) (map_hashes G block |` (- fst ` set (bit_updates ?hs))) (storage_trie_leaf db2)"
    unfolding pending_def
  proof (intro conjI impI ballI)
    fix k assume r: "root_index_at block (storage_roots db) \<noteq> None"
      and k: "k \<in> dom (map_hashes G block |` (- fst ` set (bit_updates ?hs)))"
    then have k': "k \<in> dom (map_hashes G block)" "k \<notin> fst ` set (bit_updates ?hs)" by (simp_all add: dom_restrict)
    then show "storage_trie_leaf db2 (block_parent block) k = Inr ((map_hashes G block |` (- fst ` set (bit_updates ?hs))) k)"
      using storage_trie_leaf_changed [OF c(5) k'(2)] pendingD(2) [OF unwrittenD(2) [OF un] r k'(1)] by simp
  qed (rule pendingD(1) [OF unwrittenD(2) [OF un]])
  have keysS: "\<forall>(k, v) \<in> set ?hs. length k = 32"
  proof clarify
    fix k v assume "(k, v) \<in> set ?hs"
    then have "k \<in> fst ` set (all_writes u)" using block_hashes_addresses [of H db block ?Ms u] by (metis fst_conv image_eqI list.set_map)
    then show "length k = 32" using update_okD(2) [OF u] by fastforce
  qed
  have lenS: "length ?hs = length (all_writes u)" using arg_cong [OF block_hashes_addresses, of length] by simp
  then have roomS: "card (dom (rows (trie_storage db))) + length ?hs * 507 < 2 ^ 63" using room by (simp add: room_for_def)
  from trees_write [OF e X(2) \<open>low \<le> block\<close> kept pendS keysS roomS, of v] obtain t tu upd tbl1 Y where
    s: "tree_set_all 251 (table_storage e (trie_storage db) (storage_trie_leaf db2 ?b)) (bit_updates ?hs)
      (with_verify_hashes v (fst (loaded ?r block))) = Inr t"
    "commit H (table_storage e (trie_storage db) (storage_trie_leaf db2 ?b)) t = Inr tu"
    "root_commitment tu = commitment H 251 (apply_updates (map_hashes G block) (bit_updates ?hs))"
    "insert_trie e mode tu block (trie_storage db) = Inr (upd, tbl1)"
    "trees_ok e H low block ((map_hashes G)(block := apply_updates (map_hashes G block) (bit_updates ?hs))) (XS(block := Y)) tbl1
      (insert_root mode block upd (storage_roots db))" by blast
  obtain t1 where t1: "tree_set_all 251 (table_storage e (trie_storage db) (storage_trie_leaf db2 ?b)) (bit_updates (result_hashes rs))
      (with_verify_hashes v (fst (loaded ?r block))) = Inr t1"
    "tree_set_all 251 (table_storage e (trie_storage db) (storage_trie_leaf db2 ?b)) (bit_updates hs) t1 = Inr t"
    using s(1) unfolding c(4) [symmetric] by (auto simp: bit_updates_def tree_set_all_append)
  have load: "tree_in_verify v (case block_parent block of Some parent \<Rightarrow> storage_tree_load db parent | None \<Rightarrow> tree_in_empty)
      = (with_verify_hashes v (fst (loaded ?r block)), ?b)"
    unfolding storage_tree_load_def tx_storage_root_index_def
    pending_load [OF unwrittenD(2) [OF un]] by (simp add: tree_in_verify_def loaded_def)
  from insert_contract_results_eq [OF refl t1(1) c(2), of ?b] have
    i1: "insert_contract_results e mode block rs ((with_verify_hashes v (fst (loaded ?r block)), ?b), db) = Inr ((t1, ?b), db1)"
    and tb1: "trie_storage db1 = trie_storage db" by auto
  from update_system_contracts_eq [OF tb1 c(3) t1(2), of ?b] have
    i2: "update_system_contracts e H mode v block (upd_system_contracts u) ((t1, ?b), db1) = Inr ((t, ?b), db2)" by blast
  have "commit H (storage_trie_storage e db2 ?b) t = Inr tu" using s(2) by (simp only: storage_trie_storage_table F(4))
  then have com: "storage_tree_commit e H db2 (t, ?b) = Inr (root_commitment tu, tu)" by (simp add: storage_tree_commit_def)
  define db3 where "db3 = db2\<lparr> trie_storage := tbl1, storage_roots := insert_root mode block upd (storage_roots db) \<rparr>"
  have i3: "bind_outcome (tx_insert_storage_trie e mode tu block db2) (\<lambda>(root_idx, db). k (tx_insert_storage_root mode block root_idx db))
      = k db3" for k :: "state_db \<Rightarrow> ((felt \<times> felt) \<times> state_db) outcome"
    using s(4) F(4,5) by (simp add: tx_insert_storage_trie_def tx_insert_storage_root_def db3_def)
  \<comment> \<open>the class tree\<close>
  have db3: "trie_class db3 = trie_class db" "class_roots db3 = class_roots db" by (simp_all add: db3_def F)
  have leafK: "class_storage_leaf db3 = class_storage_leaf db"
  proof -
    have 1: "tx_casm_hash_at (BlockNumber b) s db3 = tx_casm_hash_at (BlockNumber b) s db" for b s
      by (rule tx_values_cong(5)) (simp add: db3_def F)
    have 2: "tx_class_commitment_leaf b s db3 = tx_class_commitment_leaf b s db" for b s
      by (simp add: tx_class_commitment_leaf_def db3_def F)
    show ?thesis by (intro ext) (simp only: class_storage_leaf_def 1 2)
  qed
  have okK: "trees_ok e poseidon_felt_hash low block (map_classes G) XK (trie_class db3) (class_roots db3)"
    and pendK: "pending block (class_roots db3) (map_classes G block) (class_storage_leaf db3)"
    and roomK: "card (dom (rows (trie_class db3))) + length (class_writes u) * 507 < 2 ^ 63"
    using X(3) unwrittenD(3) [OF un] room db3 leafK by (simp_all add: room_for_def)
  have keysK: "\<forall>(k, v) \<in> set (class_writes u). length k = 32" using update_okD(6) [OF u] by blast
  from update_class_trie_ok [OF e okK \<open>low \<le> block\<close> kept pendK keysK roomK, of v] obtain tbl2 roots2 Z where
    k: "update_class_trie e mode v block (class_writes u) db3 =
      Inr (commitment poseidon_felt_hash 251 (apply_updates (map_classes G block) (bit_updates (class_leaves (class_writes u)))),
        (insert_class_leaves block (class_writes u) db3)\<lparr> trie_class := tbl2, class_roots := roots2 \<rparr>)"
    "trees_ok e poseidon_felt_hash low block ((map_classes G)(block := apply_updates (map_classes G block) (bit_updates (class_leaves (class_writes u)))))
      (XK(block := Z)) tbl2 roots2" by blast
  define db4 where "db4 = (insert_class_leaves block (class_writes u) db2)
      \<lparr> trie_storage := tbl1, storage_roots := insert_root mode block upd (storage_roots db), trie_class := tbl2, class_roots := roots2 \<rparr>"
  have db4: "(insert_class_leaves block (class_writes u) db3)\<lparr> trie_class := tbl2, class_roots := roots2 \<rparr> = db4"
    by (simp add: db4_def db3_def insert_class_leaves_def)
  have "update_starknet_state e H mode db v block u db =
      Inr ((commitment H 251 (map_hashes G' block), commitment poseidon_felt_hash 251 (map_classes G' block)), db4)"
    unfolding update_starknet_state_def load Let_def c(1) class_writes_def [symmetric]
    using i1 i2 com s(3) k(1) db4 i3 [of "\<lambda>db. bind_outcome (update_class_trie e mode v block (class_writes u) db)
           (\<lambda>(class_commitment, db). Inr ((root_commitment tu, class_commitment), db))"]
    by (simp add: G'_def next_state_def)
  moreover have "state_ok e H low block G' db4"
    using c(6) s(5) k(2) unfolding state_ok_def
    by (auto simp: G'_def next_state_def db4_def contracts_ok_def insert_class_leaves_def)
  ultimately show ?thesis using c(5) db4_def by blast
qed

end

end
