(* ===== verification/StarknetState.thy ===== *)
theory StarknetState
  imports StateUpdate_Correct
begin

text \<open>
  The abstract state of the network, what a block does to it and the commitments it has. A block
  changes the maps of the tries as it changes the abstract state.
\<close>

section \<open>The Starknet state\<close>

text \<open>What the tables and tries stand for. Storage cells and nonces that were never written are zero.\<close>

record starknet_state =
  s_storage :: "felt \<Rightarrow> felt \<Rightarrow> felt"
  s_class :: "felt \<rightharpoonup> felt"
  s_nonce :: "felt \<Rightarrow> felt"
  s_contracts :: "felt set"
  s_casm :: "felt \<rightharpoonup> felt"

definition empty_state :: starknet_state where
  "empty_state = \<lparr> s_storage = (\<lambda>_ _. felt_ZERO), s_class = Map.empty, s_nonce = (\<lambda>_. felt_ZERO), s_contracts = {}, s_casm = Map.empty \<rparr>"

definition write_all :: "('k \<times> 'v) list \<Rightarrow> ('k \<Rightarrow> 'v) \<Rightarrow> 'k \<Rightarrow> 'v" where
  "write_all us f = fold (\<lambda>(k, v) f. f(k := v)) us f"

lemma write_all_simps [simp]:
  "write_all [] f = f" "write_all ((k, v) # us) f = write_all us (f(k := v))"
  "write_all (xs @ ys) f = write_all ys (write_all xs f)"
  by (simp_all add: write_all_def)

lemma write_all_other: "k \<notin> fst ` set us \<Longrightarrow> write_all us f k = f k"
  by (induction us arbitrary: f) auto

lemma write_all_in: "distinct (map fst us) \<Longrightarrow> (k, v) \<in> set us \<Longrightarrow> write_all us f k = v"
proof (induction us arbitrary: f)
  case (Cons x us)
  obtain k' v' where x: "x = (k', v')" by (cases x)
  show ?case
  proof (cases "k = k'")
    case True
    then have "k \<notin> fst ` set us" "v = v'" using Cons.prems x by force+
    then show ?thesis using True x by (simp add: write_all_other)
  next
    case False
    then show ?thesis using Cons x by auto
  qed
qed simp

definition opt_writes :: "('u \<Rightarrow> 'v option) \<Rightarrow> ('k \<times> 'u) list \<Rightarrow> ('k \<times> 'v) list" where
  "opt_writes f us = concat (map (\<lambda>(c, up). case f up of None \<Rightarrow> [] | Some x \<Rightarrow> [(c, x)]) us)"

lemma opt_writes_keys: "fst ` set (opt_writes f us) \<subseteq> fst ` set us"
  by (force simp: opt_writes_def split: option.splits)

lemma write_all_opt_other: "c \<notin> fst ` set us \<Longrightarrow> write_all (opt_writes f us) g c = g c"
  using opt_writes_keys [of f us] by (intro write_all_other) blast

lemma write_all_opt:
  "distinct (map fst us) \<Longrightarrow> (c, up) \<in> set us \<Longrightarrow> write_all (opt_writes f us) g c = (case f up of None \<Rightarrow> g c | Some x \<Rightarrow> x)"
proof (induction us arbitrary: g)
  case (Cons x us)
  obtain c' up' where x: "x = (c', up')" by (cases x)
  have step: "write_all (opt_writes f (x # us)) g = write_all (opt_writes f us) (case f up' of None \<Rightarrow> g | Some v \<Rightarrow> g(c' := v))"
    by (simp add: x opt_writes_def split: option.split)
  show ?case
  proof (cases "c = c'")
    case True
    have "c \<notin> fst ` set us" using Cons.prems(1) x True by simp
    moreover from this have "(c, up) \<notin> set us" by (metis fst_conv image_eqI)
    ultimately have "c \<notin> fst ` set us" "up = up'" using Cons.prems(2) x by simp_all
    then show ?thesis using True unfolding step by (simp add: write_all_opt_other split: option.split)
  next
    case False
    then have "(c, up) \<in> set us" using Cons.prems x by simp
    from Cons.IH [OF _ this] show ?thesis using Cons.prems(1) False x unfolding step by (simp split: option.split)
  qed
qed simp

definition apply_block :: "state_update \<Rightarrow> starknet_state \<Rightarrow> starknet_state" where
  "apply_block u A = \<lparr>
     s_storage = (\<lambda>c. write_all (concat (map snd (filter (\<lambda>(c', _). c' = c) (all_writes u)))) (s_storage A c)),
     s_class = write_all (opt_writes (\<lambda>up. map_option (Some \<circ> update_class_hash) (upd_class up)) (upd_contracts u)) (s_class A),
     s_nonce = write_all (opt_writes upd_nonce (upd_contracts u)) (s_nonce A),
     s_contracts = s_contracts A \<union> fst ` set (all_writes u),
     s_casm = write_all (map (\<lambda>(s, c). (s, Some c)) (class_writes u)) (s_casm A) \<rparr>"

text \<open>A map from field elements as a map from the paths of a tree.\<close>

definition path_felt :: "trie_path \<Rightarrow> felt" where
  "path_felt p = (case felt_from_bits p of Inr f \<Rightarrow> f | Inl _ \<Rightarrow> felt_ZERO)"

definition felt_map :: "(felt \<Rightarrow> felt) \<Rightarrow> trie_path \<rightharpoonup> felt" where
  "felt_map f p = (if length p = 251 \<and> f (path_felt p) \<noteq> felt_ZERO then Some (f (path_felt p)) else None)"

text \<open>A key of a tree is a field element of at most 251 bits.\<close>

definition key_felt :: "felt \<Rightarrow> bool" where
  "key_felt k \<longleftrightarrow> felt_wf k \<and> be_val k < 2 ^ 251"

definition contract_leaf :: "felt_hash \<Rightarrow> starknet_state \<Rightarrow> felt \<Rightarrow> felt" where
  "contract_leaf P A c = calculate_contract_state_hash P
     (if is_system_contract c then felt_ZERO else the (s_class A c)) (commitment P 251 (felt_map (s_storage A c))) (s_nonce A c)"

definition contract_leaves :: "felt_hash \<Rightarrow> starknet_state \<Rightarrow> felt \<Rightarrow> felt" where
  "contract_leaves P A c = (if c \<in> s_contracts A then contract_leaf P A c else felt_ZERO)"

definition casm_leaves :: "starknet_state \<Rightarrow> felt \<Rightarrow> felt" where
  "casm_leaves A s = (case s_casm A s of None \<Rightarrow> felt_ZERO | Some casm \<Rightarrow> calculate_class_commitment_leaf_hash casm)"

text \<open>The commitments of a state.\<close>

definition storage_commitment_of :: "felt_hash \<Rightarrow> starknet_state \<Rightarrow> felt" where
  "storage_commitment_of P A = commitment P 251 (felt_map (contract_leaves P A))"

definition class_commitment_of :: "starknet_state \<Rightarrow> felt" where
  "class_commitment_of A = commitment poseidon_felt_hash 251 (felt_map (casm_leaves A))"

definition maps_of :: "felt_hash \<Rightarrow> (block_number \<Rightarrow> starknet_state) \<Rightarrow> state_maps" where
  "maps_of P As = \<lparr> map_storage = (\<lambda>c b. felt_map (s_storage (As b) c)),
     map_hashes = (\<lambda>b. felt_map (contract_leaves P (As b))), map_classes = (\<lambda>b. felt_map (casm_leaves (As b))) \<rparr>"

section \<open>Maps of field elements\<close>

lemma path_felt_view_bits: "key_felt k \<Longrightarrow> path_felt (view_bits k) = k"
  using felt_bits_round_trip [of k] has_more_than_251_bits_iff [of k] by (simp add: key_felt_def path_felt_def felt_wf_def)

lemma view_bits_path_felt: "length p = 251 \<Longrightarrow> view_bits (path_felt p) = p"
  using felt_from_bits_eq [of p] by (auto simp: path_felt_def)

lemma felt_of_path_felt: "length p = 251 \<Longrightarrow> felt_of_path msg p = Inr (path_felt p)"
  using felt_from_bits_eq [of p] by (auto simp: path_felt_def felt_of_path_def)

lemma felt_map_update:
  assumes "key_felt k"
  shows "(felt_map f)(view_bits k := if v = felt_ZERO then None else Some v) = felt_map (f(k := v))"
proof
  fix p
  have "length (view_bits k) = 251" using assms by (simp add: key_felt_def felt_wf_def view_bits_length)
  then show "((felt_map f)(view_bits k := if v = felt_ZERO then None else Some v)) p = felt_map (f(k := v)) p"
    using path_felt_view_bits [OF assms] view_bits_path_felt [of p] by (auto simp: felt_map_def)
qed

lemma apply_updates_felt_map:
  "\<forall>(k, v) \<in> set us. key_felt k \<Longrightarrow> apply_updates (felt_map f) (bit_updates us) = felt_map (write_all us f)"
proof (induction us arbitrary: f)
  case (Cons x us)
  obtain k v where x: "x = (k, v)" by (cases x)
  then have "apply_updates (felt_map f) (bit_updates (x # us)) = apply_updates (felt_map (f(k := v))) (bit_updates us)"
    using felt_map_update [of k f v] Cons.prems by (simp add: bit_updates_def)
  also have "\<dots> = felt_map (write_all us (f(k := v)))" by (rule Cons.IH) (use Cons.prems in simp)
  finally show ?case by (simp only: x write_all_simps)
qed (simp add: bit_updates_def)

lemma felt_map_default: "(\<And>k. f k = felt_ZERO) \<Longrightarrow> felt_map f = Map.empty"
  by (simp add: felt_map_def fun_eq_iff)

section \<open>One block\<close>

text \<open>What the update of a block looks like beside the state: a hash map has one entry for a key.\<close>

definition block_ok :: "starknet_state \<Rightarrow> state_update \<Rightarrow> bool" where
  "block_ok A u \<longleftrightarrow> distinct (map fst (all_writes u)) \<and> distinct (map fst (class_writes u)) \<and>
     (\<forall>(c, s) \<in> set (all_writes u). key_felt c \<and> (\<forall>(k, v) \<in> set s. key_felt k)) \<and>
     (\<forall>(k, v) \<in> set (class_writes u). key_felt k) \<and>
     (\<forall>(c, up) \<in> set (upd_contracts u). is_system_contract c \<or> upd_class up \<noteq> None \<or> s_class A c \<noteq> None) \<and>
     (\<forall>(c, s) \<in> set (upd_system_contracts u). is_system_contract c \<or> s_class A c \<noteq> None)"

lemma block_okD:
  assumes "block_ok A u"
  shows "distinct (map fst (all_writes u))" and "distinct (map fst (class_writes u))"
    and "(c, s) \<in> set (all_writes u) \<Longrightarrow> key_felt c"
    and "(c, s) \<in> set (all_writes u) \<Longrightarrow> (k, v) \<in> set s \<Longrightarrow> key_felt k"
    and "(k, v) \<in> set (class_writes u) \<Longrightarrow> key_felt k"
    and "(c, up) \<in> set (upd_contracts u) \<Longrightarrow> is_system_contract c \<or> upd_class up \<noteq> None \<or> s_class A c \<noteq> None"
    and "(c, s) \<in> set (upd_system_contracts u) \<Longrightarrow> is_system_contract c \<or> s_class A c \<noteq> None"
  using assms unfolding block_ok_def by (blast, blast, fastforce, fastforce, fastforce, fastforce, fastforce)

lemma key_felt_length: "key_felt k \<Longrightarrow> length k = 32"
  by (simp add: key_felt_def felt_wf_def)

lemma filter_fst_distinct:
  "distinct (map fst xs) \<Longrightarrow> (c, s) \<in> set xs \<Longrightarrow> filter (\<lambda>(c', _). c' = c) xs = [(c, s)]"
proof (induction xs)
  case (Cons x xs)
  show ?case
  proof (cases "fst x = c")
    case True
    then have "c \<notin> fst ` set xs" using Cons.prems(1) by auto
    then have "filter (\<lambda>(c', _). c' = c) xs = []" by (force simp: filter_empty_conv)
    moreover have "x = (c, s)" using Cons.prems(2) True \<open>c \<notin> fst ` set xs\<close> by (cases x) force
    ultimately show ?thesis by simp
  next
    case False
    then show ?thesis using Cons by (auto split: prod.splits)
  qed
qed simp

lemma filter_fst_none: "c \<notin> fst ` set xs \<Longrightarrow> filter (\<lambda>(c', _). c' = c) xs = []"
  by (force simp: filter_empty_conv)

lemma apply_block_storage:
  assumes "block_ok A u"
  shows "(c, s) \<in> set (all_writes u) \<Longrightarrow> s_storage (apply_block u A) c = write_all s (s_storage A c)"
    and "c \<notin> fst ` set (all_writes u) \<Longrightarrow> s_storage (apply_block u A) c = s_storage A c"
  using filter_fst_distinct [OF block_okD(1) [OF assms]] filter_fst_none [of c "all_writes u"]
  by (simp_all add: apply_block_def)

lemma storage_step:
  assumes "block_ok A u" and that: "A = As n"
  shows "next_maps n (all_writes u) (\<lambda>c b. felt_map (s_storage (As b) c)) =
    (\<lambda>c b. felt_map (s_storage ((As(n := apply_block u (As n))) b) c))"
proof (intro ext)
  fix c b p
  show "next_maps n (all_writes u) (\<lambda>c b. felt_map (s_storage (As b) c)) c b p =
      felt_map (s_storage ((As(n := apply_block u (As n))) b) c) p"
  proof (cases "b = n")
    case True
    show ?thesis
    proof (cases "c \<in> fst ` set (all_writes u)")
      case c: True
      then obtain s where s: "(c, s) \<in> set (all_writes u)" by force
      have "\<forall>(k, v) \<in> set s. key_felt k" using block_okD(4) [OF assms(1) s] by blast
      then show ?thesis
        using next_maps_in [OF block_okD(1) [OF assms(1)] s] apply_block_storage(1) [OF assms(1) s] that True
        by (simp add: apply_updates_felt_map)
    next
      case False
      then show ?thesis using apply_block_storage(2) [OF assms(1) False] that True by (simp add: next_maps_other)
    qed
  qed (simp add: next_maps_block)
qed

lemma class_step:
  assumes "block_ok A u"
  shows "apply_updates (felt_map (casm_leaves A)) (bit_updates (class_leaves (class_writes u))) = felt_map (casm_leaves (apply_block u A))"
proof -
  have "\<forall>(k, v) \<in> set (class_leaves (class_writes u)). key_felt k"
    using block_okD(5) [OF assms] by (auto simp: class_leaves_def)
  from apply_updates_felt_map [OF this] have "apply_updates (felt_map (casm_leaves A)) (bit_updates (class_leaves (class_writes u)))
      = felt_map (write_all (class_leaves (class_writes u)) (casm_leaves A))" .
  moreover have "write_all (class_leaves ws) (\<lambda>s. case f s of None \<Rightarrow> felt_ZERO | Some casm \<Rightarrow> calculate_class_commitment_leaf_hash casm)
      = (\<lambda>s. case write_all (map (\<lambda>(s, c). (s, Some c)) ws) f s of None \<Rightarrow> felt_ZERO | Some casm \<Rightarrow> calculate_class_commitment_leaf_hash casm)" for ws f
  proof (induction ws arbitrary: f)
    case (Cons w ws)
    obtain s c where w: "w = (s, c)" by (cases w)
    have "(\<lambda>s. case f s of None \<Rightarrow> felt_ZERO | Some casm \<Rightarrow> calculate_class_commitment_leaf_hash casm)
        (s := calculate_class_commitment_leaf_hash c) =
        (\<lambda>t. case (f(s \<mapsto> c)) t of None \<Rightarrow> felt_ZERO | Some casm \<Rightarrow> calculate_class_commitment_leaf_hash casm)" by (auto simp: fun_eq_iff)
    with Cons.IH [of "f(s \<mapsto> c)"] show ?case by (simp add: class_leaves_def w del: fun_upd_apply)
  qed (simp add: class_leaves_def)
  ultimately show ?thesis by (simp add: casm_leaves_def [abs_def] apply_block_def)
qed

lemma contract_update_distinct:
  assumes "block_ok A u"
  shows "distinct (map fst (upd_contracts u))" and "fst ` set (upd_contracts u) \<inter> fst ` set (upd_system_contracts u) = {}"
proof -
  have "map fst (contract_writes u) = map fst (upd_contracts u)" by (auto simp: contract_writes_def)
  moreover from this have "fst ` set (contract_writes u) = fst ` set (upd_contracts u)" by (metis list.set_map)
  ultimately show "distinct (map fst (upd_contracts u))" "fst ` set (upd_contracts u) \<inter> fst ` set (upd_system_contracts u) = {}"
    using block_okD(1) [OF assms] by (auto simp: all_writes_def)
qed

lemma contract_writes_in: "(c, up) \<in> set (upd_contracts u) \<Longrightarrow> (c, upd_storage up) \<in> set (all_writes u)"
  by (force simp: all_writes_def contract_writes_def)

lemma all_writes_cases:
  assumes "c \<in> fst ` set (all_writes u)"
  obtains (contract) up where "(c, up) \<in> set (upd_contracts u)" | (system) s where "(c, s) \<in> set (upd_system_contracts u)"
  using assms by (auto simp: all_writes_def contract_writes_def)

lemma apply_block_contract:
  assumes "block_ok A u" and "(c, up) \<in> set (upd_contracts u)"
  shows "s_class (apply_block u A) c = (case upd_class up of None \<Rightarrow> s_class A c | Some x \<Rightarrow> Some (update_class_hash x))"
    and "s_nonce (apply_block u A) c = (case upd_nonce up of None \<Rightarrow> s_nonce A c | Some x \<Rightarrow> x)"
    and "s_storage (apply_block u A) c = write_all (upd_storage up) (s_storage A c)"
proof -
  note w = write_all_opt [OF contract_update_distinct(1) [OF assms(1)] assms(2)]
  show "s_class (apply_block u A) c = (case upd_class up of None \<Rightarrow> s_class A c | Some x \<Rightarrow> Some (update_class_hash x))"
    by (simp add: apply_block_def w split: option.split)
  show "s_nonce (apply_block u A) c = (case upd_nonce up of None \<Rightarrow> s_nonce A c | Some x \<Rightarrow> x)"
    by (simp add: apply_block_def w)
qed (rule apply_block_storage(1) [OF assms(1) contract_writes_in [OF assms(2)]])

lemma apply_block_not_contract:
  assumes "c \<notin> fst ` set (upd_contracts u)"
  shows "s_class (apply_block u A) c = s_class A c" and "s_nonce (apply_block u A) c = s_nonce A c"
  by (simp_all add: apply_block_def write_all_opt_other [OF assms])

lemma contract_leaf_cong:
  "s_class A' c = s_class A c \<Longrightarrow> s_storage A' c = s_storage A c \<Longrightarrow> s_nonce A' c = s_nonce A c \<Longrightarrow> contract_leaf P A' c = contract_leaf P A c"
  by (simp add: contract_leaf_def)

lemma next_state_hash_leaf:
  assumes "tx_contract_class_hash (BlockNumber n) c db = s_class A c"
    and "(case tx_contract_nonce c (BlockNumber n) db of None \<Rightarrow> felt_ZERO | Some x \<Rightarrow> x) = s_nonce A c"
    and "s_class A' c = (case cls of None \<Rightarrow> s_class A c | Some x \<Rightarrow> Some x)"
    and "s_nonce A' c = (case nonce of None \<Rightarrow> s_nonce A c | Some x \<Rightarrow> x)"
    and "felt_map (s_storage A' c) = M"
  shows "next_state_hash P db n c M nonce cls = contract_leaf P A' c"
  using assms by (simp add: next_state_hash_def contract_leaf_def next_class_hash_def next_nonce_def split: option.split)

lemma hash_step:
  assumes ok: "block_ok A u" and Ms: "\<And>c. Ms c n = felt_map (s_storage A c)"
    and cls: "\<And>c. tx_contract_class_hash (BlockNumber n) c db = s_class A c"
    and nonce: "\<And>c. (case tx_contract_nonce c (BlockNumber n) db of None \<Rightarrow> felt_ZERO | Some x \<Rightarrow> x) = s_nonce A c"
  shows "apply_updates (felt_map (contract_leaves P A)) (bit_updates (block_hashes P db n Ms u)) = felt_map (contract_leaves P (apply_block u A))"
    and "(c, h) \<in> set (block_hashes P db n Ms u) \<Longrightarrow> h = contract_leaf P (apply_block u A) c"
proof -
  let ?hs = "block_hashes P db n Ms u" and ?A = "apply_block u A"
  have keys: "\<forall>(k, v) \<in> set s. key_felt k" if "(c, s) \<in> set (all_writes u)" for c s using block_okD(4) [OF ok that] by blast
  have each: "h = contract_leaf P ?A c" if "(c, h) \<in> set ?hs" for c h
  proof -
    consider up where "(c, up) \<in> set (upd_contracts u)" "(c, h) = contract_hash P db n Ms (c, up)"
      | s where "(c, s) \<in> set (upd_system_contracts u)" "(c, h) = system_hash P db n Ms (c, s)"
      using \<open>(c, h) \<in> set ?hs\<close> by (auto simp: block_hashes_def contract_hash_def system_hash_def)
    then show ?thesis
    proof cases
      case 1
      note A = apply_block_contract [OF ok 1(1)]
      have "felt_map (s_storage ?A c) = apply_updates (Ms c n) (bit_updates (upd_storage up))"
        using apply_updates_felt_map [OF keys [OF contract_writes_in [OF 1(1)]]] by (simp add: A Ms)
      from next_state_hash_leaf [OF cls nonce _ A(2) this, of "map_option update_class_hash (upd_class up)"] A(1)
      show ?thesis using 1(2) by (auto simp: contract_hash_def split: option.splits)
    next
      case 2
      have "(c, s) \<in> set (all_writes u)" using 2(1) by (simp add: all_writes_def)
      then have "felt_map (s_storage ?A c) = apply_updates (Ms c n) (bit_updates s)"
        using apply_updates_felt_map [OF keys] apply_block_storage(1) [OF ok] by (simp add: Ms)
      moreover have "c \<notin> fst ` set (upd_contracts u)" using contract_update_distinct(2) [OF ok] 2(1) by force
      ultimately show ?thesis
        using next_state_hash_leaf [OF cls nonce, of ?A c None None] apply_block_not_contract [of c u A] 2(2) by (simp add: system_hash_def)
    qed
  qed
  then show "(c, h) \<in> set ?hs \<Longrightarrow> h = contract_leaf P ?A c" .
  have addr: "map fst ?hs = map fst (all_writes u)" by (rule block_hashes_addresses)
  then have addr': "fst ` set ?hs = fst ` set (all_writes u)" by (metis list.set_map)
  have "\<forall>(k, v) \<in> set ?hs. key_felt k"
  proof clarify
    fix k v assume "(k, v) \<in> set ?hs"
    then have "k \<in> fst ` set (all_writes u)" using addr' by (metis fst_conv image_eqI)
    then show "key_felt k" using block_okD(3) [OF ok] by force
  qed
  from apply_updates_felt_map [OF this] have
    1: "apply_updates (felt_map (contract_leaves P A)) (bit_updates ?hs) = felt_map (write_all ?hs (contract_leaves P A))" .
  have "write_all ?hs (contract_leaves P A) c = contract_leaves P ?A c" for c
  proof (cases "c \<in> fst ` set (all_writes u)")
    case True
    then obtain h where h: "(c, h) \<in> set ?hs" using addr' by force
    have "distinct (map fst ?hs)" using addr block_okD(1) [OF ok] by simp
    from write_all_in [OF this h] have "write_all ?hs (contract_leaves P A) c = contract_leaf P ?A c" using each [OF h] by simp
    then show ?thesis using True by (simp add: contract_leaves_def apply_block_def)
  next
    case False
    then have "c \<notin> fst ` set (upd_contracts u)" using contract_writes_in by force
    then have "contract_leaf P ?A c = contract_leaf P A c"
      using contract_leaf_cong [of ?A c A P] apply_block_not_contract [of c u A] apply_block_storage(2) [OF ok False] by simp
    moreover have "c \<in> s_contracts ?A \<longleftrightarrow> c \<in> s_contracts A" using False by (simp add: apply_block_def)
    ultimately show ?thesis using False addr' by (simp add: write_all_other contract_leaves_def)
  qed
  then have "write_all ?hs (contract_leaves P A) = contract_leaves P ?A" by (rule ext)
  with 1 show "apply_updates (felt_map (contract_leaves P A)) (bit_updates ?hs) = felt_map (contract_leaves P ?A)" by simp
qed

end
