(* ===== verification/StateRows.thy ===== *)
theory StateRows
  imports StarknetState
begin

text \<open>
  The tables by block: the value at a block, the rows that \<^verbatim>\<open>insert_state_update_data\<close>
  (storage/src/connection/state_update.rs) adds, and the step from a block to the next one.
\<close>

section \<open>Rows by block\<close>

definition before :: "block_number \<Rightarrow> 'v by_block \<Rightarrow> bool" where
  "before n rs \<longleftrightarrow> (\<forall>m \<in> fst ` set rs. m < n)"

definition value_at :: "block_number \<Rightarrow> 'v by_block \<Rightarrow> 'v option" where
  "value_at b rs = map_option snd (latest_at b rs)"

lemma tx_value_at:
  "tx_contract_class_hash (BlockNumber b) c db = value_at b (contract_updates db c)"
  "tx_contract_nonce c (BlockNumber b) db = value_at b (nonce_updates db c)"
  "tx_storage_value (BlockNumber b) c k db = value_at b (storage_updates db c k)"
  "tx_contract_state_hash b c db = value_at b (contract_state_hashes db c)"
  "tx_casm_hash_at (BlockNumber b) c db = value_at b (casm_class_hashes db c)"
  by (simp_all add: tx_contract_class_hash_def tx_contract_nonce_def tx_storage_value_def tx_storage_value_with_block_def
    tx_contract_state_hash_def tx_casm_hash_at_def latest_in_def in_block_def value_at_def latest_at_def option.map_comp comp_def case_prod_beta)

lemma before_append: "before n (rs @ ts) \<longleftrightarrow> before n rs \<and> before n ts"
  by (auto simp: before_def)

lemma latest_row_last: "vs \<noteq> [] \<Longrightarrow> \<forall>s \<in> set rs. fst s \<le> n \<Longrightarrow> latest_row (rs @ map (Pair n) vs) = Some (n, last vs)"
  using latest_row_snoc [of "rs @ map (Pair n) (butlast vs)" "(n, last vs)"] append_butlast_last_id [of vs]
  by (metis (no_types, lifting) Un_iff append.assoc fst_conv imageE list.set_map list.simps(8,9) map_append order.refl set_append)

lemma value_at_append:
  assumes "before n rs"
  shows "value_at b (rs @ map (Pair n) vs) = (if n \<le> b \<and> vs \<noteq> [] then Some (last vs) else value_at b rs)"
proof (cases "n \<le> b \<and> vs \<noteq> []")
  case True
  then have "filter (\<lambda>(m, _). m \<le> b) (map (Pair n) vs) = map (Pair n) vs" by (simp add: filter_id_conv)
  moreover have "\<forall>s \<in> set (filter (\<lambda>(m, _). m \<le> b) rs). fst s \<le> n" using assms by (force simp: before_def)
  ultimately show ?thesis using True latest_row_last [of vs] by (simp add: value_at_def latest_at_def)
next
  case False
  then have "filter (\<lambda>(m, _). m \<le> b) (map (Pair n) vs) = []" by (auto simp: filter_empty_conv)
  then show ?thesis unfolding if_not_P [OF False] by (simp add: value_at_def latest_at_def)
qed

lemma before_pairs: "n < n' \<Longrightarrow> before n rs \<Longrightarrow> before n' (rs @ map (Pair n) vs)"
  by (auto simp: before_def dest: less_trans)

section \<open>The rows of a state update\<close>

definition values_for :: "'k \<Rightarrow> ('k \<times> 'v) list \<Rightarrow> 'v list" where
  "values_for k us = map snd (filter (\<lambda>(k', _). k' = k) us)"

lemma values_for_simps [simp]:
  "values_for k [] = []" "values_for k ((k', v) # us) = (if k' = k then v # values_for k us else values_for k us)"
  "values_for k (xs @ ys) = values_for k xs @ values_for k ys"
  by (simp_all add: values_for_def)

lemma values_for_none: "k \<notin> fst ` set us \<Longrightarrow> values_for k us = []"
  by (force simp: values_for_def filter_empty_conv)

lemma write_all_values: "write_all us f k = (if values_for k us = [] then f k else last (values_for k us))"
  by (induction us arbitrary: f) auto

lemma fold_insert_storage_row:
  "fold (insert_storage_row n c) us db = db\<lparr> storage_updates := (\<lambda>c' k. storage_updates db c' k @
     (if c' = c then map (Pair n) (values_for k us) else [])) \<rparr>"
proof (induction us arbitrary: db)
  case (Cons x us)
  obtain k v where x: "x = (k, v)" by (cases x)
  show ?case by (simp only: fold_simps o_apply Cons) (simp add: x insert_storage_row_def fun_eq_iff cong: if_cong)
qed (simp cong: if_cong)

lemma insert_contract_update_rows_eq:
  "insert_contract_update_rows n (c, up) db = db\<lparr>
     contract_updates := (\<lambda>c'. contract_updates db c' @ map (Pair n) (values_for c' (opt_writes (\<lambda>up. map_option update_class_hash (upd_class up)) [(c, up)]))),
     nonce_updates := (\<lambda>c'. nonce_updates db c' @ map (Pair n) (values_for c' (opt_writes upd_nonce [(c, up)]))),
     storage_updates := (\<lambda>c' k. storage_updates db c' k @ map (Pair n) (values_for k (concat (values_for c' [(c, upd_storage up)])))) \<rparr>"
  by (auto simp: insert_contract_update_rows_def Let_def fold_insert_storage_row insert_contract_row_def insert_nonce_row_def
    opt_writes_def fun_eq_iff cong: if_cong split: option.split)

lemma opt_writes_Cons: "opt_writes f (x # us) = opt_writes f [x] @ opt_writes f us"
  by (simp add: opt_writes_def)

lemma fold_insert_contract_update_rows:
  "fold (insert_contract_update_rows n) us db = db\<lparr>
     contract_updates := (\<lambda>c. contract_updates db c @ map (Pair n) (values_for c (opt_writes (\<lambda>up. map_option update_class_hash (upd_class up)) us))),
     nonce_updates := (\<lambda>c. nonce_updates db c @ map (Pair n) (values_for c (opt_writes upd_nonce us))),
     storage_updates := (\<lambda>c k. storage_updates db c k @ map (Pair n)
       (values_for k (concat (values_for c (map (\<lambda>(c, up). (c, upd_storage up)) us))))) \<rparr>"
proof (induction us arbitrary: db)
  case (Cons x us)
  obtain c up where x: "x = (c, up)" by (cases x)
  show ?case
    by (simp only: fold_simps o_apply Cons x insert_contract_update_rows_eq opt_writes_Cons [of _ "(c, up)" us])
       (rule state_db.equality; simp add: fun_eq_iff)
qed (simp add: opt_writes_def)

lemma fold_insert_system_rows:
  "fold (\<lambda>(c, storage). fold (insert_storage_row n c) storage) us db = db\<lparr>
     storage_updates := (\<lambda>c k. storage_updates db c k @ map (Pair n) (values_for k (concat (values_for c us)))) \<rparr>"
proof (induction us arbitrary: db)
  case (Cons x us)
  obtain c s where x: "x = (c, s)" by (cases x)
  show ?case by (simp only: fold_simps o_apply x case_prod_conv Cons) (rule state_db.equality; simp add: fold_insert_storage_row fun_eq_iff)
qed simp

definition classes_changed :: "state_db \<Rightarrow> state_db \<Rightarrow> bool" where
  "classes_changed db db' \<longleftrightarrow> (\<exists>defs re. db' = db\<lparr> class_definitions := defs, redeclared_classes := re \<rparr>)"

lemma classes_changed_trans: "classes_changed db1 db2 \<Longrightarrow> classes_changed db2 db3 \<Longrightarrow> classes_changed db1 db3"
proof -
  assume "classes_changed db1 db2" "classes_changed db2 db3"
  then obtain d r d' r' where "db2 = db1\<lparr> class_definitions := d, redeclared_classes := r \<rparr>"
    "db3 = db2\<lparr> class_definitions := d', redeclared_classes := r' \<rparr>" unfolding classes_changed_def by blast
  then show ?thesis unfolding classes_changed_def by (intro exI [of _ d'] exI [of _ r']) simp
qed

lemma classes_changed_refl: "classes_changed db db"
  unfolding classes_changed_def by (intro exI [of _ "class_definitions db"] exI [of _ "redeclared_classes db"]) simp

lemma fold_classes_changed: "(\<And>x db. x \<in> set xs \<Longrightarrow> classes_changed db (f x db)) \<Longrightarrow> classes_changed db (fold f xs db)"
proof (induction xs arbitrary: db)
  case (Cons x xs)
  have "classes_changed db (f x db)" by (rule Cons.prems) simp
  moreover have "classes_changed (f x db) (fold f xs (f x db))" by (rule Cons.IH) (use Cons.prems in simp)
  ultimately show ?case using classes_changed_trans by simp
qed (simp add: classes_changed_refl)

lemma upsert_classes_changed: "classes_changed db (snd (upsert_declared_at n c db))"
  unfolding classes_changed_def
  by (rule exI [of _ "class_definitions (snd (upsert_declared_at n c db))"], rule exI [of _ "redeclared_classes db"])
     (simp add: upsert_declared_at_def split: option.split)

lemma insert_declared_class_changed: "classes_changed db (insert_declared_class n c db)"
proof -
  obtain d db1 where 1: "upsert_declared_at n c db = (d, db1)" by (cases "upsert_declared_at n c db")
  have "classes_changed db1 (db1\<lparr> redeclared_classes := r \<rparr>)" for r
    unfolding classes_changed_def by (intro exI [of _ "class_definitions db1"] exI [of _ r]) simp
  then show ?thesis using upsert_classes_changed [of db n c] 1 classes_changed_trans by (auto simp: insert_declared_class_def)
qed

lemma fold_insert_casm_hash:
  assumes "distinct (map fst cs)" and "\<forall>s \<in> fst ` set cs. \<forall>r \<in> set (casm_class_hashes db s). fst r \<noteq> n"
  shows "fold (insert_casm_hash n) cs db = db\<lparr> casm_class_hashes :=
    (\<lambda>s. casm_class_hashes db s @ map (Pair n) (values_for s cs)) \<rparr>"
  using assms
proof (induction cs arbitrary: db)
  case (Cons x cs)
  obtain s c where x: "x = (s, c)" by (cases x)
  let ?db = "db\<lparr> casm_class_hashes := (casm_class_hashes db)(s := casm_class_hashes db s @ [(n, c)]) \<rparr>"
  have "\<not> list_ex (\<lambda>(m, _). m = n) (casm_class_hashes db s)" using Cons.prems(2) x by (auto simp: list_ex_iff)
  then have 1: "insert_casm_hash n x db = ?db" by (simp add: x insert_casm_hash_def)
  have s: "s \<notin> fst ` set cs" using Cons.prems(1) x by simp
  have "\<forall>t \<in> fst ` set cs. \<forall>r \<in> set (casm_class_hashes ?db t). fst r \<noteq> n" using Cons.prems(2) s by auto
  then have "fold (insert_casm_hash n) cs ?db = ?db\<lparr> casm_class_hashes :=
      (\<lambda>t. casm_class_hashes ?db t @ map (Pair n) (values_for t cs)) \<rparr>" using Cons.prems(1) by (intro Cons.IH) simp_all
  then show ?case unfolding fold_simps o_apply 1
    using values_for_none [OF s] by (intro state_db.equality) (simp_all add: x fun_eq_iff)
qed simp

lemma insert_state_update_data0_eq:
  assumes "distinct (map fst (class_writes u))" and "\<And>s. before n (casm_class_hashes db s)"
  shows "\<exists>defs re. insert_state_update_data0 n u db = db\<lparr>
     contract_updates := (\<lambda>c. contract_updates db c @ map (Pair n) (values_for c (opt_writes (\<lambda>up. map_option update_class_hash (upd_class up)) (upd_contracts u)))),
     nonce_updates := (\<lambda>c. nonce_updates db c @ map (Pair n) (values_for c (opt_writes upd_nonce (upd_contracts u)))),
     storage_updates := (\<lambda>c k. storage_updates db c k @ map (Pair n) (values_for k (concat (values_for c (all_writes u))))),
     casm_class_hashes := (\<lambda>s. casm_class_hashes db s @ map (Pair n) (values_for s (class_writes u))),
     class_definitions := defs, redeclared_classes := re \<rparr>"
proof -
  define db1 where "db1 = db\<lparr>
     contract_updates := (\<lambda>c. contract_updates db c @ map (Pair n) (values_for c (opt_writes (\<lambda>up. map_option update_class_hash (upd_class up)) (upd_contracts u)))),
     nonce_updates := (\<lambda>c. nonce_updates db c @ map (Pair n) (values_for c (opt_writes upd_nonce (upd_contracts u)))),
     storage_updates := (\<lambda>c k. storage_updates db c k @ map (Pair n) (values_for k (concat (values_for c (all_writes u))))) \<rparr>"
  have 1: "fold (\<lambda>(contract, storage). fold (insert_storage_row n contract) storage) (upd_system_contracts u)
      (fold (insert_contract_update_rows n) (upd_contracts u) db) = db1"
    unfolding fold_insert_contract_update_rows fold_insert_system_rows
    by (simp add: db1_def all_writes_def contract_writes_def)
  define db2 where "db2 = fold (\<lambda>class db. snd (upsert_declared_at n class db))
      (List.map_filter (\<lambda>(_, update). deployed_class update) (upd_contracts u))
      (fold (insert_declared_class n) (map fst (declared_sierra_classes u) @ declared_cairo_classes u) db1)"
  have "classes_changed db1 db2"
    unfolding db2_def by (rule classes_changed_trans; rule fold_classes_changed; rule insert_declared_class_changed upsert_classes_changed)
  then obtain defs re where 2: "db2 = db1\<lparr> class_definitions := defs, redeclared_classes := re \<rparr>" unfolding classes_changed_def by blast
  have ne: "\<forall>s \<in> fst ` set (class_writes u). \<forall>r \<in> set (casm_class_hashes db2 s). fst r \<noteq> n"
    using assms(2) by (force simp: 2 db1_def before_def)
  have "insert_state_update_data0 n u db = fold (insert_casm_hash n) (class_writes u) db2"
    unfolding insert_state_update_data0_def Let_def 1 db2_def class_writes_def fold_append o_apply ..
  also have "\<dots> = db2\<lparr> casm_class_hashes := (\<lambda>s. casm_class_hashes db2 s @ map (Pair n) (values_for s (class_writes u))) \<rparr>"
    by (rule fold_insert_casm_hash [OF assms(1) ne])
  finally show ?thesis by (intro exI [of _ defs] exI [of _ re]) (simp add: 2 db1_def)
qed

section \<open>Opening the next block\<close>

lemma unat_next: "n + 1 \<noteq> 0 \<Longrightarrow> unat (n + 1) = Suc (unat n)" for n :: u64
  using unatSuc [of n] by (simp add: add.commute)

lemma le_next: "n + 1 \<noteq> 0 \<Longrightarrow> b \<le> n + 1 \<longleftrightarrow> b \<le> n \<or> b = n + 1" for n b :: u64
  using unat_next [of n] by (auto simp: word_le_nat_alt word_unat_eq_iff)

lemma less_next: "n + 1 \<noteq> 0 \<Longrightarrow> n < n + 1" for n :: u64
  using unat_next [of n] by (simp add: word_less_nat_alt)

lemma less_next_iff: "n + 1 \<noteq> 0 \<Longrightarrow> b < n + 1 \<longleftrightarrow> b \<le> n" for n b :: u64
  using unat_next [of n] by (auto simp: word_less_nat_alt word_le_nat_alt)

lemma forest_open:
  assumes ok: "forest_ok e H hgt low head Ms X tbl rt mk" and nx: "head + 1 \<noteq> 0" and "low \<le> head"
    and rt: "\<And>c. rt c (head + 1) = rt c head"
  shows "forest_ok e H hgt low (head + 1) (\<lambda>c. (Ms c)(head + 1 := Ms c head)) (\<lambda>c. (X c)(head + 1 := X c head)) tbl rt mk"
proof -
  let ?X = "\<lambda>c. (X c)(head + 1 := X c head)"
  note D = marks_okD [OF forest_okD(3) [OF ok]]
  define old where "old b = (if b = head + 1 then head else b)" for b
  have old: "low \<le> old b" "old b \<le> head" "?X c b = X c (old b)" if "low \<le> b" "b \<le> head + 1" for b c
    using that le_next [OF nx] \<open>low \<le> head\<close> by (auto simp: old_def)
  have "marks_ok low (head + 1) ?X (dom (rows tbl)) mk"
  proof (rule marks_okI)
    show "i \<in> dom (rows tbl)" "n \<le> head + 1" if "i \<in> mk n" for i n
      using D(1,2) [OF that] le_next [OF nx] by auto
    show "n = m" if "i \<in> mk n" "i \<in> mk m" for i n m using D(3) that by blast
    fix c b assume b: "low \<le> b" "b \<le> head + 1"
    note o = old [OF b]
    show "single (?X c b)" using D(4) [OF o(1,2)] o(3) by simp
    show "i \<in> dom (rows tbl)" if "i \<in># ?X c b" for i using D(5) [OF o(1,2)] o(3) that by simp
    show "i \<notin> mk n" if "n \<le> b" "i \<in># ?X c b" for i n
    proof
      assume "i \<in> mk n"
      then have "n \<le> head" using D(2) by blast
      then have "n \<le> old b" using that(1) by (simp add: old_def)
      then show False using D(6) [OF o(1,2)] o(3) that(2) \<open>i \<in> mk n\<close> by simp
    qed
    fix c' b' i assume b': "low \<le> b'" "b' \<le> head + 1" and i: "i \<in># ?X c b" "i \<in># ?X c' b'"
    note o' = old [OF b']
    show "c = c'" using D(7) [OF o(1,2) o'(1,2), of i c c'] o(3) o'(3) i by simp
  qed
  moreover have "tree_at e H hgt tbl (\<lambda>k. Inr (((Ms c)(head + 1 := Ms c head)) b k)) (rt c b) (((Ms c)(head + 1 := Ms c head)) b) (?X c b)"
    if b: "low \<le> b" "b \<le> head + 1" for c b
  proof -
    have "rt c b = rt c (old b)" "((Ms c)(head + 1 := Ms c head)) b = Ms c (old b)" using rt by (simp_all add: old_def)
    then show ?thesis using forest_okD(4) [OF ok old(1,2) [OF b], of c] old(3) [OF b] by simp
  qed
  ultimately show ?thesis using forest_okD(1,2) [OF ok] unfolding forest_ok_def by blast
qed

lemma latest_at_next:
  assumes "before (n + 1) rs" and "n + 1 \<noteq> 0"
  shows "latest_at (n + 1) rs = latest_at n rs"
proof -
  have "m \<le> n + 1 \<longleftrightarrow> m \<le> n" if "(m, x) \<in> set rs" for m x
    using assms(1) that less_next_iff [OF assms(2), of m] le_next [OF assms(2), of m] by (force simp: before_def)
  then have "filter (\<lambda>(m, _). m \<le> n + 1) rs = filter (\<lambda>(m, _). m \<le> n) rs" by (intro filter_cong) auto
  then show ?thesis by (simp add: latest_at_def)
qed

lemma before_next: "n + 1 \<noteq> 0 \<Longrightarrow> (\<forall>m \<in> fst ` set rs. m \<le> n) \<longleftrightarrow> before (n + 1) rs"
  using less_next_iff by (simp add: before_def)

lemma root_index_at_next:
  assumes "\<forall>m \<in> fst ` set roots. m \<le> n" and "n + 1 \<noteq> 0"
  shows "root_index_at (n + 1) roots = root_index_at n roots"
proof -
  have "before (n + 1) roots" using assms before_next [of n roots] by blast
  from latest_at_next [OF this assms(2)] show ?thesis by (simp add: root_index_at_def)
qed

definition open_maps :: "block_number \<Rightarrow> state_maps \<Rightarrow> state_maps" where
  "open_maps n G = \<lparr> map_storage = (\<lambda>c. (map_storage G c)(n + 1 := map_storage G c n)),
     map_hashes = (map_hashes G)(n + 1 := map_hashes G n), map_classes = (map_classes G)(n + 1 := map_classes G n) \<rparr>"

lemma trees_open:
  assumes "trees_ok e P low n M X tbl roots" and "n + 1 \<noteq> 0" and "low \<le> n"
  shows "trees_ok e P low (n + 1) (M(n + 1 := M n)) (X(n + 1 := X n)) tbl roots"
proof -
  have ok: "forest_ok e P 251 low n (\<lambda>_ :: unit. M) (\<lambda>_. X) tbl (\<lambda>_ b. root_index_at b roots) (mark_at e tbl)"
    and b: "\<forall>m \<in> fst ` set roots. m \<le> n" using assms(1) by (simp_all add: trees_ok_def)
  from forest_open [OF ok assms(2,3) root_index_at_next [OF b assms(2)]] show ?thesis
    using b le_next [OF assms(2)] by (simp add: trees_ok_def)
qed

lemma state_open:
  assumes "state_ok e P low n G db" and "n + 1 \<noteq> 0" and "low \<le> n"
  shows "state_ok e P low (n + 1) (open_maps n G) db"
proof -
  obtain X where X: "contracts_ok e P low n (map_storage G) X db" using assms(1) by (auto simp: state_ok_def)
  have ok: "forest_ok e P 251 low n (map_storage G) X (trie_contracts db) (roots_at (contract_roots db)) (mark_at e (trie_contracts db))"
    and b: "\<forall>c. \<forall>m \<in> fst ` set (contract_roots db c). m \<le> n" using X by (simp_all add: contracts_ok_def)
  from forest_open [OF ok assms(2,3) root_index_at_next [OF b [THEN spec] assms(2)]]
  have "contracts_ok e P low (n + 1) (\<lambda>c. (map_storage G c)(n + 1 := map_storage G c n)) (\<lambda>c. (X c)(n + 1 := X c n)) db"
    using b le_next [OF assms(2)] unfolding contracts_ok_def by blast
  moreover obtain XS XK where "trees_ok e P low n (map_hashes G) XS (trie_storage db) (storage_roots db)"
    "trees_ok e poseidon_felt_hash low n (map_classes G) XK (trie_class db) (class_roots db)"
    using assms(1) unfolding state_ok_def by blast
  note trees_open [OF this(1) assms(2,3)] trees_open [OF this(2) assms(2,3)]
  ultimately show ?thesis unfolding state_ok_def open_maps_def by auto
qed

text \<open>Fewer blocks.\<close>

lemma state_weaken:
  assumes "state_ok e P low n G db" and "low \<le> low'"
  shows "state_ok e P low' n G db"
proof -
  have "trees_ok e Q low' n M X tbl roots" if "trees_ok e Q low n M X tbl roots" for Q M X tbl roots
    using forest_cong [of e Q 251 low n "\<lambda>_ :: unit. M" "\<lambda>_. X" tbl "\<lambda>_ b. root_index_at b roots" "mark_at e tbl" low'] that assms(2)
    by (simp add: trees_ok_def)
  moreover have "contracts_ok e P low' n M X db" if "contracts_ok e P low n M X db" for M X
    using forest_cong [of e P 251 low n M X "trie_contracts db" "roots_at (contract_roots db)" "mark_at e (trie_contracts db)" low'] that assms(2)
    by (simp add: contracts_ok_def)
  ultimately show ?thesis using assms(1) unfolding state_ok_def by blast
qed

end
