(* ===== verification/StateChain.thy ===== *)
theory StateChain
  imports StateRows
begin

text \<open>
  The invariant of the database of a chain: the tables hold the abstract state of every block, the
  tries those of the kept blocks. Storing a block keeps it.
\<close>

section \<open>The database of a chain\<close>

definition zero_or :: "felt option \<Rightarrow> felt" where
  "zero_or x = (case x of None \<Rightarrow> felt_ZERO | Some v \<Rightarrow> v)"

text \<open>
  The tables hold the states \<open>As\<close> of the blocks before \<open>n\<close>; \<open>As n\<close> is the state before the block \<open>n\<close>.
  State hashes are kept from the block \<open>low\<close> on.
\<close>

definition rows_before :: "block_number \<Rightarrow> state_db \<Rightarrow> bool" where
  "rows_before n db \<longleftrightarrow>
     (\<forall>c. before n (contract_updates db c) \<and> before n (nonce_updates db c) \<and> before n (contract_state_hashes db c) \<and>
        before n (contract_roots db c) \<and> before n (casm_class_hashes db c) \<and> (\<forall>k. before n (storage_updates db c k))) \<and>
     before n (storage_roots db) \<and> before n (class_roots db)"

definition values_ok :: "block_number \<Rightarrow> (block_number \<Rightarrow> starknet_state) \<Rightarrow> state_db \<Rightarrow> bool" where
  "values_ok n As db \<longleftrightarrow> (\<forall>b c. b \<le> n \<longrightarrow>
     value_at b (contract_updates db c) = s_class (As b) c \<and> zero_or (value_at b (nonce_updates db c)) = s_nonce (As b) c \<and>
     value_at b (casm_class_hashes db c) = s_casm (As b) c \<and>
     (\<forall>k. zero_or (value_at b (storage_updates db c k)) = s_storage (As b) c k))"

definition casm_leaves_ok :: "block_number \<Rightarrow> (block_number \<Rightarrow> starknet_state) \<Rightarrow> state_db \<Rightarrow> bool" where
  "casm_leaves_ok n As db \<longleftrightarrow>
     (\<forall>m l casm. (m, l, casm) \<in> set (class_commitment_leaves db) \<longrightarrow> l = calculate_class_commitment_leaf_hash casm) \<and>
     (\<forall>b s casm. b \<le> n \<longrightarrow> s_casm (As b) s = Some casm \<longrightarrow>
        (\<exists>m l. m \<le> b \<and> (m, l, casm) \<in> set (class_commitment_leaves db)))"

definition state_hashes_ok :: "felt_hash \<Rightarrow> block_number \<Rightarrow> block_number \<Rightarrow> (block_number \<Rightarrow> starknet_state) \<Rightarrow> state_db \<Rightarrow> bool" where
  "state_hashes_ok P low n As db \<longleftrightarrow> (\<forall>b c. low \<le> b \<longrightarrow> b \<le> n \<longrightarrow> c \<in> s_contracts (As b) \<longrightarrow>
     value_at b (contract_state_hashes db c) = Some (contract_leaf P (As b) c))"

definition chain_ok ::
  "engine \<Rightarrow> felt_hash \<Rightarrow> block_number \<Rightarrow> block_number \<Rightarrow> (block_number \<Rightarrow> starknet_state) \<Rightarrow> state_db \<Rightarrow> bool" where
  "chain_ok e P low n As db \<longleftrightarrow> state_ok e P low n (maps_of P As) db \<and> rows_before n db \<and> values_ok n As db \<and>
     casm_leaves_ok n As db \<and> state_hashes_ok P low n As db \<and>
     (if n = 0 then As 0 = empty_state \<and> low = 0 else As n = As (n - 1) \<and> low < n)"

lemma chain_okD:
  assumes "chain_ok e P low n As db"
  shows "state_ok e P low n (maps_of P As) db" and "rows_before n db" and "values_ok n As db" and "casm_leaves_ok n As db"
    and "state_hashes_ok P low n As db" and "low \<le> n" and "n = 0 \<Longrightarrow> As n = empty_state"
    and "n \<noteq> 0 \<Longrightarrow> As n = As (n - 1)" and "n \<noteq> 0 \<Longrightarrow> low \<le> n - 1"
  using assms less_imp_less_eq_dec [of low n] by (auto simp: chain_ok_def split: if_splits)

lemma empty_state_maps:
  "felt_map (s_storage empty_state c) = Map.empty" "felt_map (contract_leaves P empty_state) = Map.empty"
  "felt_map (casm_leaves empty_state) = Map.empty"
  by (simp_all add: empty_state_def contract_leaves_def casm_leaves_def felt_map_def fun_eq_iff)

lemma find_leaf:
  assumes "casm_leaves_ok n As db" and "s_casm (As b) s = Some casm" and "b \<le> n"
  shows "tx_class_commitment_leaf b casm db = Some (calculate_class_commitment_leaf_hash casm)"
proof -
  obtain m l where ml: "m \<le> b" "(m, l, casm) \<in> set (class_commitment_leaves db)" using assms unfolding casm_leaves_ok_def by blast
  let ?P = "\<lambda>(n, _ :: felt, casm'). casm' = casm \<and> n \<le> b"
  have "find ?P (class_commitment_leaves db) \<noteq> None" using ml by (auto simp: find_None_iff)
  then obtain x where x: "find ?P (class_commitment_leaves db) = Some x" by blast
  have "x \<in> set (class_commitment_leaves db)" "?P x"
    using x unfolding find_Some_iff by (metis nth_mem)+
  then show ?thesis using x assms(1) by (cases x) (auto simp: tx_class_commitment_leaf_def casm_leaves_ok_def)
qed

lemma felt_map_dom: "k \<in> dom (felt_map f) \<longleftrightarrow> length k = 251 \<and> f (path_felt k) \<noteq> felt_ZERO"
  by (simp add: felt_map_def domIff)

lemma zero_orD: "zero_or x = v \<Longrightarrow> v \<noteq> felt_ZERO \<Longrightarrow> x = Some v"
  by (auto simp: zero_or_def split: option.splits)

lemma pendingI:
  assumes "before n roots" and "n \<noteq> 0 \<Longrightarrow> (\<And>k. k \<in> dom M \<Longrightarrow> leaf (Some (n - 1)) k = Inr (M k))" and "n = 0 \<Longrightarrow> M = Map.empty"
  shows "pending n roots M leaf"
  using assms by (cases "n = 0") (auto simp: pending_def before_def block_parent_def)

text \<open>The leaves of the trees can be read.\<close>

lemma chain_leaves:
  assumes "chain_ok e P low n As db" and "b \<le> n"
  shows "k \<in> dom (felt_map (s_storage (As b) c)) \<Longrightarrow> contract_storage_leaf db c (Some b) k = Inr (felt_map (s_storage (As b) c) k)"
    and "low \<le> b \<Longrightarrow> k \<in> dom (felt_map (contract_leaves P (As b))) \<Longrightarrow> storage_trie_leaf db (Some b) k = Inr (felt_map (contract_leaves P (As b)) k)"
    and "k \<in> dom (felt_map (casm_leaves (As b))) \<Longrightarrow> class_storage_leaf db (Some b) k = Inr (felt_map (casm_leaves (As b)) k)"
proof -
  note D = chain_okD [OF assms(1)]
  show "contract_storage_leaf db c (Some b) k = Inr (felt_map (s_storage (As b) c) k)" if k: "k \<in> dom (felt_map (s_storage (As b) c))"
  proof -
    have "zero_or (value_at b (storage_updates db c (path_felt k))) = s_storage (As b) c (path_felt k)"
      using D(3) assms(2) by (simp add: values_ok_def)
    from zero_orD [OF this] show ?thesis using k by (simp add: felt_map_dom contract_storage_leaf_def felt_of_path_felt tx_value_at felt_map_def)
  qed
  show "storage_trie_leaf db (Some b) k = Inr (felt_map (contract_leaves P (As b)) k)"
    if "low \<le> b" and k: "k \<in> dom (felt_map (contract_leaves P (As b)))"
  proof -
    have c: "path_felt k \<in> s_contracts (As b)" "length k = 251" using k by (simp_all add: felt_map_dom contract_leaves_def split: if_splits)
    then have "value_at b (contract_state_hashes db (path_felt k)) = Some (contract_leaf P (As b) (path_felt k))"
      using D(5) \<open>low \<le> b\<close> assms(2) by (simp add: state_hashes_ok_def)
    then show ?thesis using k c by (simp add: felt_map_dom storage_trie_leaf_def felt_of_path_felt tx_value_at felt_map_def contract_leaves_def)
  qed
  show "class_storage_leaf db (Some b) k = Inr (felt_map (casm_leaves (As b)) k)" if k: "k \<in> dom (felt_map (casm_leaves (As b)))"
  proof -
    obtain casm where c: "s_casm (As b) (path_felt k) = Some casm" "length k = 251"
      using k by (auto simp: felt_map_dom casm_leaves_def split: option.splits)
    then have "value_at b (casm_class_hashes db (path_felt k)) = Some casm" using D(3) assms(2) by (simp add: values_ok_def)
    then show ?thesis using k c find_leaf [OF D(4) c(1) assms(2)]
      by (simp add: felt_map_dom class_storage_leaf_def felt_of_path_felt tx_value_at felt_map_def casm_leaves_def)
  qed
qed

lemma chain_unwritten:
  assumes "chain_ok e P low n As db"
  shows "unwritten n (maps_of P As) db"
proof -
  note D = chain_okD [OF assms]
  have le: "n - 1 \<le> n" if "n \<noteq> 0" using that by (simp add: word_le_nat_alt unat_minus_one)
  have bef: "before n (contract_roots db c)" "before n (storage_roots db)" "before n (class_roots db)" for c
    using D(2) by (simp_all add: rows_before_def)
  note L = chain_leaves [OF assms le]
  have "pending n (contract_roots db c) (felt_map (s_storage (As n) c)) (contract_storage_leaf db c)" for c
    by (rule pendingI [OF bef(1)]) (use D(7,8) L(1) empty_state_maps in simp_all)
  moreover have "pending n (storage_roots db) (felt_map (contract_leaves P (As n))) (storage_trie_leaf db)"
    by (rule pendingI [OF bef(2)]) (use D(7,8,9) L(2) empty_state_maps in simp_all)
  moreover have "pending n (class_roots db) (felt_map (casm_leaves (As n))) (class_storage_leaf db)"
    by (rule pendingI [OF bef(3)]) (use D(7,8) L(3) empty_state_maps in simp_all)
  ultimately show ?thesis unfolding unwritten_def maps_of_def by simp
qed

lemma chain_update_ok:
  assumes "chain_ok e P low n As db" and "block_ok (As n) u"
  shows "update_ok db n u"
proof -
  have cls: "tx_contract_class_hash (BlockNumber n) c db = s_class (As n) c" for c
    using chain_okD(3) [OF assms(1)] by (simp add: tx_value_at values_ok_def)
  note B = block_okD [OF assms(2)]
  show ?thesis unfolding update_ok_def cls using B(1) B(3) [THEN key_felt_length] B(4) [THEN key_felt_length] B(5) [THEN key_felt_length] B(6,7)
    by blast
qed

lemma next_state_maps:
  assumes "chain_ok e P low n As db" and "block_ok (As n) u"
  shows "next_state P db n u (maps_of P As) = maps_of P (As(n := apply_block u (As n)))"
    and "(c, h) \<in> set (block_hashes P db n (map_storage (maps_of P As)) u) \<Longrightarrow> h = contract_leaf P (apply_block u (As n)) c"
proof -
  note V = chain_okD(3) [OF assms(1)]
  have cls: "tx_contract_class_hash (BlockNumber n) c db = s_class (As n) c" for c using V by (simp add: tx_value_at values_ok_def)
  have nonce: "(case tx_contract_nonce c (BlockNumber n) db of None \<Rightarrow> felt_ZERO | Some x \<Rightarrow> x) = s_nonce (As n) c" for c
    using V by (simp add: tx_value_at values_ok_def zero_or_def)
  have M: "map_storage (maps_of P As) c n = felt_map (s_storage (As n) c)" for c by (simp add: maps_of_def)
  have h: "apply_updates (felt_map (contract_leaves P (As n))) (bit_updates (block_hashes P db n (map_storage (maps_of P As)) u)) =
      felt_map (contract_leaves P (apply_block u (As n)))"
    by (rule hash_step(1) [where A = "As n"]) (fact assms(2) M cls nonce)+
  show "(c, h) \<in> set (block_hashes P db n (map_storage (maps_of P As)) u) \<Longrightarrow> h = contract_leaf P (apply_block u (As n)) c"
    by (rule hash_step(2) [where A = "As n" and Ms = "map_storage (maps_of P As)" and n = n and db = db])
       (simp_all only: assms(2) M cls nonce)
  have "map_storage (next_state P db n u (maps_of P As)) = map_storage (maps_of P (As(n := apply_block u (As n))))"
    using storage_step [OF assms(2), of As n] by (simp add: next_state_def maps_of_def)
  moreover have "map_hashes (next_state P db n u (maps_of P As)) = map_hashes (maps_of P (As(n := apply_block u (As n))))"
    using h by (simp add: next_state_def maps_of_def fun_eq_iff)
  moreover have "map_classes (next_state P db n u (maps_of P As)) = map_classes (maps_of P (As(n := apply_block u (As n))))"
    using class_step [OF assms(2)] by (simp add: next_state_def maps_of_def fun_eq_iff)
  ultimately show "next_state P db n u (maps_of P As) = maps_of P (As(n := apply_block u (As n)))" by (intro state_maps.equality) simp_all
qed

section \<open>The tables after a block\<close>

lemma value_step:
  assumes "before n rs" and "n + 1 \<noteq> 0" and "b \<le> n + 1"
  shows "value_at b (rs @ map (Pair n) vs) = (if b < n then value_at b rs else if vs = [] then value_at n rs else Some (last vs))"
proof -
  have "before (n + 1) rs" using before_pairs [of n "n + 1" rs "[]"] less_next [OF assms(2)] assms(1) by simp
  from latest_at_next [OF this assms(2)] have "value_at (n + 1) rs = value_at n rs" by (simp add: value_at_def)
  moreover have "b < n \<or> b = n \<or> b = n + 1" using le_next [OF assms(2), of b] assms(3) by auto
  ultimately show ?thesis using value_at_append [OF assms(1), of b vs] less_next [OF assms(2)] by auto
qed

lemma insert_contract_state_hash_value:
  assumes "kept mode n b"
  shows "value_at b (insert_contract_state_hash mode n h rs) = value_at b (rs @ [(n, h)])"
  using assms by (auto simp: insert_contract_state_hash_def kept_def block_checked_sub_def Let_def value_at_def latest_at_delete_roots
    split: trie_prune_mode.splits)

lemma insert_contract_state_hash_rows: "set (insert_contract_state_hash mode n h rs) \<subseteq> insert (n, h) (set rs)"
  by (auto simp: insert_contract_state_hash_def delete_roots_def Let_def split: trie_prune_mode.splits option.splits)

lemma record_hashes_value:
  assumes "distinct (map fst hs)" and "kept mode n b"
  shows "value_at b (record_hashes mode n hs f c) = value_at b (f c @ map (Pair n) (values_for c hs))"
  using assms(1)
proof (induction hs arbitrary: f)
  case (Cons x hs)
  obtain c' h where x: "x = (c', h)" by (cases x)
  have "c' \<notin> fst ` set hs" using Cons.prems x by simp
  then show ?case using Cons insert_contract_state_hash_value [OF assms(2)]
    by (cases "c = c'") (simp_all add: x values_for_none record_hashes_other)
qed simp

lemma record_hashes_before:
  assumes "before (n + 1) (f c)" and "n + 1 \<noteq> 0"
  shows "before (n + 1) (record_hashes mode n hs f c)"
  using assms(1)
proof (induction hs arbitrary: f)
  case (Cons x hs)
  obtain c' h where x: "x = (c', h)" by (cases x)
  have "before (n + 1) ((f(c' := insert_contract_state_hash mode n h (f c'))) c)"
    using Cons.prems insert_contract_state_hash_rows [of mode n h "f c'"] less_next [OF assms(2)] by (auto simp: before_def)
  from Cons.IH [of "f(c' := insert_contract_state_hash mode n h (f c'))", OF this] show ?case by (simp only: x record_hashes.simps)
qed simp

lemma values_for_opt_Some: "values_for c (opt_writes (\<lambda>up. map_option (Some \<circ> g) (f up)) us) =
  map Some (values_for c (opt_writes (\<lambda>up. map_option g (f up)) us))"
  by (induction us) (auto simp: opt_writes_Cons opt_writes_def split: option.splits)

lemma values_for_map_Some: "values_for s (map (\<lambda>(s, c). (s, Some c)) cs) = map Some (values_for s cs)"
  by (induction cs) auto

text \<open>The rows of the block \<open>n\<close>.\<close>

definition rows_added :: "block_number \<Rightarrow> state_update \<Rightarrow> state_db \<Rightarrow> state_db \<Rightarrow> bool" where
  "rows_added n u db db' \<longleftrightarrow>
     contract_updates db' = (\<lambda>c. contract_updates db c @ map (Pair n) (values_for c (opt_writes (\<lambda>up. map_option update_class_hash (upd_class up)) (upd_contracts u)))) \<and>
     nonce_updates db' = (\<lambda>c. nonce_updates db c @ map (Pair n) (values_for c (opt_writes upd_nonce (upd_contracts u)))) \<and>
     storage_updates db' = (\<lambda>c k. storage_updates db c k @ map (Pair n) (values_for k (concat (values_for c (all_writes u))))) \<and>
     casm_class_hashes db' = (\<lambda>s. casm_class_hashes db s @ map (Pair n) (values_for s (class_writes u)))"

lemma values_step:
  assumes ok: "values_ok n As db" and rb: "rows_before n db" and add: "rows_added n u db db'" and nx: "n + 1 \<noteq> 0"
  shows "values_ok (n + 1) (As(n := apply_block u (As n), n + 1 := apply_block u (As n))) db'"
  unfolding values_ok_def
proof (intro allI impI)
  fix b c assume b: "b \<le> n + 1"
  define A where "A = (if b < n then As b else apply_block u (As n))"
  have A: "(As(n := apply_block u (As n), n + 1 := apply_block u (As n))) b = A"
    using le_next [OF nx, of b] b less_next [OF nx] by (auto simp: A_def)
  have bef: "before n (contract_updates db c)" "before n (nonce_updates db c)" "before n (casm_class_hashes db c)"
    "before n (storage_updates db c k)" for k using rb by (simp_all add: rows_before_def)
  have old: "value_at m (contract_updates db c) = s_class (As m) c" "zero_or (value_at m (nonce_updates db c)) = s_nonce (As m) c"
    "value_at m (casm_class_hashes db c) = s_casm (As m) c" "zero_or (value_at m (storage_updates db c k)) = s_storage (As m) c k"
    if "m \<le> n" for m k using ok that by (simp_all add: values_ok_def)
  have "value_at b (contract_updates db' c) = s_class A c"
    using add value_step [OF bef(1) nx b] old(1) [of b] old(1) [of n]
    by (auto simp: A_def rows_added_def apply_block_def write_all_values values_for_opt_Some last_map)
  moreover have "zero_or (value_at b (nonce_updates db' c)) = s_nonce A c"
    using add value_step [OF bef(2) nx b] old(2) [of b] old(2) [of n]
    by (auto simp: A_def rows_added_def apply_block_def write_all_values zero_or_def)
  moreover have "value_at b (casm_class_hashes db' c) = s_casm A c"
    using add value_step [OF bef(3) nx b] old(3) [of b] old(3) [of n]
    by (auto simp: A_def rows_added_def apply_block_def write_all_values values_for_map_Some last_map)
  moreover have "zero_or (value_at b (storage_updates db' c k)) = s_storage A c k" for k
    using add value_step [OF bef(4) nx b] old(4) [of b] old(4) [of n]
    by (auto simp: A_def rows_added_def apply_block_def write_all_values zero_or_def values_for_def [of c])
  ultimately show "value_at b (contract_updates db' c) = s_class ((As(n := apply_block u (As n), n + 1 := apply_block u (As n))) b) c \<and>
      zero_or (value_at b (nonce_updates db' c)) = s_nonce ((As(n := apply_block u (As n), n + 1 := apply_block u (As n))) b) c \<and>
      value_at b (casm_class_hashes db' c) = s_casm ((As(n := apply_block u (As n), n + 1 := apply_block u (As n))) b) c \<and>
      (\<forall>k. zero_or (value_at b (storage_updates db' c k)) = s_storage ((As(n := apply_block u (As n), n + 1 := apply_block u (As n))) b) c k)"
    unfolding A by blast
qed

lemma casm_leaves_step:
  assumes ok: "casm_leaves_ok n As db" and nx: "n + 1 \<noteq> 0" and l: "class_commitment_leaves db' = class_commitment_leaves (insert_class_leaves n (class_writes u) db)"
  shows "casm_leaves_ok (n + 1) (As(n := apply_block u (As n), n + 1 := apply_block u (As n))) db'"
proof -
  let ?A = "apply_block u (As n)"
  have old: "\<exists>m l. m \<le> b \<and> (m, l, casm) \<in> set (class_commitment_leaves db')" if "b \<le> n" "s_casm (As b) s = Some casm" for b s casm
    using ok that l unfolding casm_leaves_ok_def insert_class_leaves_def by fastforce
  have new: "\<exists>m l. m \<le> n \<and> (m, l, casm) \<in> set (class_commitment_leaves db')" if "s_casm ?A s = Some casm" for s casm
  proof (cases "values_for s (class_writes u) = []")
    case True
    then show ?thesis using that old [of n s casm] by (simp add: apply_block_def write_all_values values_for_map_Some)
  next
    case False
    then have "casm = last (values_for s (class_writes u))" using that
      by (simp add: apply_block_def write_all_values values_for_map_Some last_map)
    then have "casm \<in> set (values_for s (class_writes u))" using False by simp
    then have "(s, casm) \<in> set (class_writes u)" by (auto simp: values_for_def)
    then show ?thesis by (intro exI [of _ n]) (force simp: l insert_class_leaves_def)
  qed
  have "\<exists>m l. m \<le> b \<and> (m, l, casm) \<in> set (class_commitment_leaves db')"
    if b: "b \<le> n + 1" and s: "s_casm ((As(n := ?A, n + 1 := ?A)) b) s = Some casm" for b s casm
  proof (cases "b < n")
    case True
    then have "b \<noteq> n" "b \<noteq> n + 1" "b \<le> n" using less_next [OF nx] by auto
    then show ?thesis using s old [of b s casm] by simp
  next
    case False
    then have "n \<le> b" "b = n \<or> b = n + 1" using b le_next [OF nx, of b] by auto
    then have "s_casm ?A s = Some casm" using s by auto
    from new [OF this] show ?thesis using \<open>n \<le> b\<close> order_trans by blast
  qed
  moreover have "l = calculate_class_commitment_leaf_hash casm" if "(m, l, casm) \<in> set (class_commitment_leaves db')" for m l casm
  proof -
    have "(m, l, casm) \<in> set (class_commitment_leaves db) \<or> l = calculate_class_commitment_leaf_hash casm"
      using that by (auto simp: assms(3) insert_class_leaves_def)
    then show ?thesis using ok unfolding casm_leaves_ok_def by blast
  qed
  ultimately show ?thesis unfolding casm_leaves_ok_def by blast
qed

lemma state_hashes_step:
  assumes ok: "state_hashes_ok P low n As db" and rb: "rows_before n db" and nx: "n + 1 \<noteq> 0" and low: "low \<le> low'" "low' \<le> n"
    and kept: "\<forall>b. low' \<le> b \<longrightarrow> kept mode n b" and hs: "distinct (map fst hs)" "fst ` set hs = fst ` set (all_writes u)"
    and leaf: "\<And>c h. (c, h) \<in> set hs \<Longrightarrow> h = contract_leaf P (apply_block u (As n)) c"
    and db': "contract_state_hashes db' = record_hashes mode n hs (contract_state_hashes db)"
  shows "state_hashes_ok P low' (n + 1) (As(n := apply_block u (As n), n + 1 := apply_block u (As n))) db'"
  unfolding state_hashes_ok_def
proof (intro allI impI)
  let ?A = "apply_block u (As n)"
  let ?As = "As(n := ?A, n + 1 := ?A)"
  fix b c assume b: "low' \<le> b" "b \<le> n + 1" and c: "c \<in> s_contracts (?As b)"
  have bef: "before n (contract_state_hashes db c)" using rb by (simp add: rows_before_def)
  have v: "value_at b (contract_state_hashes db' c) = (if b < n then value_at b (contract_state_hashes db c)
      else if values_for c hs = [] then value_at n (contract_state_hashes db c) else Some (last (values_for c hs)))"
    using record_hashes_value [OF hs(1), of mode n b] kept b(1) value_step [OF bef nx b(2)] by (simp add: db')
  have old: "value_at m (contract_state_hashes db c) = Some (contract_leaf P (As m) c)" if "low' \<le> m" "m \<le> n" "c \<in> s_contracts (As m)" for m
    using ok that low(1) unfolding state_hashes_ok_def by (meson order_trans)
  show "value_at b (contract_state_hashes db' c) = Some (contract_leaf P (?As b) c)"
  proof (cases "b < n")
    case True
    then have "?As b = As b" "b \<le> n" using less_next [OF nx] by auto
    then show ?thesis using v True old [of b] b(1) c by simp
  next
    case False
    then have A: "?As b = ?A" using b(2) le_next [OF nx, of b] by auto
    show ?thesis
    proof (cases "values_for c hs = []")
      case True
      then have no: "c \<notin> fst ` set (all_writes u)" unfolding hs(2) [symmetric] by (auto simp: values_for_def filter_empty_conv)
      then have "c \<notin> fst ` set (upd_contracts u)" by (force simp: all_writes_def contract_writes_def)
      moreover have "s_storage ?A c = s_storage (As n) c"
        using values_for_none [OF no] by (simp add: apply_block_def values_for_def)
      ultimately have "contract_leaf P ?A c = contract_leaf P (As n) c" by (intro contract_leaf_cong) (simp_all add: apply_block_not_contract)
      moreover have "c \<in> s_contracts (As n)" using c no unfolding A by (simp add: apply_block_def)
      ultimately show ?thesis using v True False old [of n] low(2) unfolding A by simp
    next
      case False
      then have "last (values_for c hs) \<in> set (values_for c hs)" by simp
      then have "(c, last (values_for c hs)) \<in> set hs" by (auto simp: values_for_def)
      from leaf [OF this] show ?thesis using v False \<open>\<not> b < n\<close> unfolding A by simp
    qed
  qed
qed

section \<open>A block of the chain\<close>

lemma insert_state_update_data0_rows:
  assumes "distinct (map fst (class_writes u))" and "\<And>s. before n (casm_class_hashes db s)"
  shows "rows_added n u db (insert_state_update_data0 n u db)"
    and "class_commitment_leaves (insert_state_update_data0 n u db) = class_commitment_leaves db"
    and "contract_state_hashes (insert_state_update_data0 n u db) = contract_state_hashes db"
    and "trie_contracts (insert_state_update_data0 n u db) = trie_contracts db" and "contract_roots (insert_state_update_data0 n u db) = contract_roots db"
    and "trie_storage (insert_state_update_data0 n u db) = trie_storage db" and "storage_roots (insert_state_update_data0 n u db) = storage_roots db"
    and "trie_class (insert_state_update_data0 n u db) = trie_class db" and "class_roots (insert_state_update_data0 n u db) = class_roots db"
    and "block_headers (insert_state_update_data0 n u db) = block_headers db"
proof -
  obtain defs re where 1: "insert_state_update_data0 n u db = db\<lparr>
     contract_updates := (\<lambda>c. contract_updates db c @ map (Pair n) (values_for c (opt_writes (\<lambda>up. map_option update_class_hash (upd_class up)) (upd_contracts u)))),
     nonce_updates := (\<lambda>c. nonce_updates db c @ map (Pair n) (values_for c (opt_writes upd_nonce (upd_contracts u)))),
     storage_updates := (\<lambda>c k. storage_updates db c k @ map (Pair n) (values_for k (concat (values_for c (all_writes u))))),
     casm_class_hashes := (\<lambda>s. casm_class_hashes db s @ map (Pair n) (values_for s (class_writes u))),
     class_definitions := defs, redeclared_classes := re \<rparr>" using insert_state_update_data0_eq [OF assms] by blast
  show "rows_added n u db (insert_state_update_data0 n u db)" by (simp add: 1 rows_added_def)
qed (use insert_state_update_data0_eq [OF assms] in \<open>auto\<close>)

lemma state_ok_cong:
  assumes "state_ok e P low n G db" and "trie_contracts db' = trie_contracts db" and "contract_roots db' = contract_roots db"
    and "trie_storage db' = trie_storage db" and "storage_roots db' = storage_roots db"
    and "trie_class db' = trie_class db" and "class_roots db' = class_roots db"
  shows "state_ok e P low n G db'"
  using assms by (simp add: state_ok_def contracts_ok_def)

lemma state_rows:
  assumes "state_ok e P low n G db" and "n + 1 \<noteq> 0"
  shows "before (n + 1) (contract_roots db c)" and "before (n + 1) (storage_roots db)" and "before (n + 1) (class_roots db)"
  using assms before_next [OF assms(2)] by (auto simp: state_ok_def contracts_ok_def trees_ok_def)

lemma open_maps_of:
  "n + 1 \<noteq> 0 \<Longrightarrow> open_maps n (maps_of P (As(n := A))) = maps_of P (As(n := A, n + 1 := A))"
  by (rule state_maps.equality) (auto simp: open_maps_def maps_of_def fun_eq_iff)

lemma rows_step:
  assumes rb: "rows_before n db" and nx: "n + 1 \<noteq> 0" and add: "rows_added n u db db'"
    and hs: "contract_state_hashes db' = record_hashes mode n hs (contract_state_hashes db)"
    and roots: "\<And>c. before (n + 1) (contract_roots db' c)" "before (n + 1) (storage_roots db')" "before (n + 1) (class_roots db')"
  shows "rows_before (n + 1) db'"
proof -
  note lt = less_next [OF nx]
  have later: "before (n + 1) rs" if "before n rs" for rs :: "felt by_block"
    using before_pairs [OF lt that, of "[]"] by simp
  have "before (n + 1) (contract_state_hashes db' c)" for c
    unfolding hs using rb by (intro record_hashes_before later nx) (simp add: rows_before_def)
  then show ?thesis using rb add roots unfolding rows_before_def rows_added_def by (simp add: before_pairs [OF lt])
qed

context felt_valued_hash
begin

lemma chain_step:
  assumes e: "engine_ok e" and ok: "chain_ok e H low n As db" and u: "block_ok (As n) u" and room: "room_for u db" and nx: "n + 1 \<noteq> 0"
    and low: "low \<le> low'" "low' \<le> n" and kept: "\<forall>b. low' \<le> b \<longrightarrow> kept mode n b"
  defines "A \<equiv> apply_block u (As n)"
  shows "\<exists>db'. update_starknet_state e H mode db v n u db = Inr ((storage_commitment_of H A, class_commitment_of A), db') \<and>
    block_headers db' = block_headers db \<and>
    (\<forall>hs. chain_ok e H low' (n + 1) (As(n := A, n + 1 := A)) (insert_state_update_data0 n u (db'\<lparr> block_headers := hs \<rparr>)) \<and>
      block_headers (insert_state_update_data0 n u (db'\<lparr> block_headers := hs \<rparr>)) = hs)"
proof -
  note D = chain_okD [OF ok]
  note N = next_state_maps [OF ok u]
  from update_starknet_state_ok [OF e low(2) kept state_weaken [OF D(1) low(1)] chain_unwritten [OF ok, of] chain_update_ok [OF ok u] room, of v]
  obtain db' dbc tbl1 roots1 tbl2 roots2 where
    upd: "update_starknet_state e H mode db v n u db = Inr ((commitment H 251 (map_hashes (maps_of H (As(n := A))) n),
        commitment poseidon_felt_hash 251 (map_classes (maps_of H (As(n := A))) n)), db')"
    and st: "state_ok e H low' n (maps_of H (As(n := A))) db'"
    and ch: "contracts_changed mode n (block_hashes H db n (map_storage (maps_of H As)) u) db dbc"
    and db': "db' = (insert_class_leaves n (class_writes u) dbc)
      \<lparr> trie_storage := tbl1, storage_roots := roots1, trie_class := tbl2, class_roots := roots2 \<rparr>"
    unfolding N(1) A_def [symmetric] by blast
  note F = contracts_changed_fields [OF ch]
  let ?As = "As(n := A, n + 1 := A)" and ?bh = "block_hashes H db n (map_storage (maps_of H As)) u"
  have bh: "distinct (map fst ?bh)" "fst ` set ?bh = fst ` set (all_writes u)"
    using block_okD(1) [OF u] block_hashes_addresses [of H db n "map_storage (maps_of H As)" u] by (simp, metis list.set_map)
  have "chain_ok e H low' (n + 1) ?As (insert_state_update_data0 n u (db'\<lparr> block_headers := hs \<rparr>)) \<and>
    block_headers (insert_state_update_data0 n u (db'\<lparr> block_headers := hs \<rparr>)) = hs" for hs
  proof -
    let ?db1 = "db'\<lparr> block_headers := hs \<rparr>"
    let ?db = "insert_state_update_data0 n u ?db1"
    have "before n (casm_class_hashes ?db1 s)" for s using D(2) F by (simp add: db' insert_class_leaves_def rows_before_def)
    note I = insert_state_update_data0_rows [OF block_okD(2) [OF u] this]
    have add: "rows_added n u db ?db" using I(1) F by (simp add: db' insert_class_leaves_def rows_added_def)
    have hs: "contract_state_hashes ?db = record_hashes mode n ?bh (contract_state_hashes db)"
      unfolding I(3) using F by (simp add: db' insert_class_leaves_def)
    have cl: "class_commitment_leaves ?db = class_commitment_leaves (insert_class_leaves n (class_writes u) db)"
      unfolding I(2) using F by (simp add: db' insert_class_leaves_def)
    have stn: "state_ok e H low' n (maps_of H (As(n := A))) ?db" by (rule state_ok_cong [OF st]) (simp_all add: I)
    have "state_ok e H low' (n + 1) (maps_of H ?As) ?db"
      using state_open [OF stn nx low(2)] unfolding open_maps_of [OF nx] .
    moreover have "rows_before (n + 1) ?db" by (rule rows_step [OF D(2) nx add hs]) (rule state_rows [OF stn nx])+
    moreover have "values_ok (n + 1) ?As ?db" unfolding A_def by (rule values_step [OF D(3) D(2) add nx])
    moreover have "casm_leaves_ok (n + 1) ?As ?db" unfolding A_def by (rule casm_leaves_step [OF D(4) nx cl])
    moreover have "state_hashes_ok H low' (n + 1) ?As ?db"
      unfolding A_def by (rule state_hashes_step [OF D(5) D(2) nx low kept bh N(2) hs])
    moreover have "low' < n + 1" using low(2) less_next_iff [OF nx] by simp
    ultimately show ?thesis unfolding chain_ok_def using nx I(10) by simp
  qed
  moreover have "block_headers db' = block_headers db" using F by (simp add: db' insert_class_leaves_def)
  moreover have "commitment H 251 (map_hashes (maps_of H (As(n := A))) n) = storage_commitment_of H A"
    "commitment poseidon_felt_hash 251 (map_classes (maps_of H (As(n := A))) n) = class_commitment_of A"
    by (simp_all add: maps_of_def storage_commitment_of_def class_commitment_of_def)
  ultimately show ?thesis using upd by auto
qed

end

end
