(* ===== verification/Trie_Properties.thy ===== *)
theory Trie_Properties
  imports Poseidon TriePersist
begin

text \<open>
  The properties of the Merkle-Patricia tree, \<^verbatim>\<open>crates/merkle-tree\<close>. \<open>tree_repr H hgt st t M\<close> says that
  the tree \<open>t\<close>, parts of which may still be in the storage \<open>st\<close>, holds the map \<open>M\<close> in canonical form.
\<close>

section \<open>A stored tree\<close>

text \<open>
  An example of a stored tree of height 2: the root node 0 is an edge to the branch node 1, whose
  children are the leaves of the keys 00 and 01.
\<close>

definition example_map :: "trie_path \<rightharpoonup> felt" where
  "example_map = [[False, False] \<mapsto> be_bytes 32 7, [False, True] \<mapsto> be_bytes 32 8]"

definition example_storage :: storage where
  "example_storage = \<lparr>
     st_get = (\<lambda>i. Inr (if i = 0 then Some (StoredEdge 1 [False]) else if i = 1 then Some StoredLeafBinary else None)),
     st_hash = (\<lambda>i. Inr (Some (subtree_hash poseidon_felt_hash 2 example_map (if i = 0 then [] else [False])))),
     st_leaf = (\<lambda>p. Inr (example_map p)) \<rparr>"

lemma example_dom: "dom example_map = {[False, False], [False, True]}"
  by (auto simp: example_map_def)

lemma example_repr: "tree_repr poseidon_felt_hash 2 example_storage (tree_new 0) example_map"
proof -
  let ?r = "repr poseidon_felt_hash 2 example_storage Map.empty example_map"
  let ?K = "{[False, False], [False, True]}"
  have leaf: "?r k Leaf {k}" if "k \<in> ?K" for k
    using that by (auto intro!: repr_Leaf simp: example_storage_def example_map_def)
  have restrict: "example_map |` ?K = example_map"
    by (auto simp: restrict_map_def fun_eq_iff example_map_def)
  have "?r [False] (Binary (Some 1) 1 Leaf Leaf) ({[False, False]} \<union> {[False, True]})"
    by (rule repr_Binary) (use leaf in auto)
  moreover have "resolve 2 example_storage 1 (length [False]) = Inr (Binary (Some 1) 1 Leaf Leaf)"
    by (simp add: resolve_def example_storage_def)
  ultimately have "?r [False] (Unresolved 1) ?K"
    by (auto intro!: repr_Unresolved simp: restrict example_storage_def insert_commute)
  then have "?r [] (Edge (Some 0) 0 [False] (Unresolved 1)) ?K"
    by (intro repr_Edge) (auto simp: branching_def)
  moreover have "resolve 2 example_storage 0 (length []) = Inr (Edge (Some 0) 0 [False] (Unresolved 1))"
    by (simp add: resolve_def example_storage_def)
  ultimately have "?r [] (Unresolved 0) ?K"
    by (auto intro!: repr_Unresolved simp: restrict example_storage_def)
  then show ?thesis by (simp add: tree_repr_def tree_new_def example_dom)
qed

lemma felt_nonzero:
  assumes "0 < n" and "n < 256 ^ 32"
  shows "be_bytes 32 n \<noteq> felt_ZERO"
proof
  assume "be_bytes 32 n = felt_ZERO"
  then have "be_val (be_bytes 32 n) = 0" by (simp add: be_val_zero_iff felt_ZERO_def)
  then show False using assms be_val_be_bytes_small [of n 32] by simp
qed

section \<open>Reading and writing\<close>

text \<open>
  C12: reading a key of a tree that holds the map \<open>M\<close> succeeds, within the traversal's bound, with the value
  \<open>M\<close> has for it; the nodes the traversal resolves in place do not change the map the tree holds.
\<close>

theorem merkle_get:
  assumes "tree_repr H hgt st t M" and "length key = hgt"
  shows "\<exists>t'. tree_get hgt st key t = Inr (M key, t') \<and> tree_repr H hgt st t' M"
  using assms by (rule tree_get_repr)

theorem merkle_get_witness:
  "\<exists>t'. tree_get 2 example_storage [False, True] (tree_new 0) = Inr (Some (be_bytes 32 8), t')"
proof -
  have "length [False, True] = 2" by simp
  from merkle_get [OF example_repr this] show ?thesis by (auto simp: example_map_def)
qed

text \<open>
  C10: setting a key to a nonzero value succeeds and gives a tree in canonical form that holds the updated
  map: edges stay maximal and every branch node has two non-empty subtrees.
\<close>

theorem merkle_set:
  assumes "tree_repr H hgt st t M" and "length key = hgt" and "0 < hgt" and "v \<noteq> felt_ZERO"
  shows "\<exists>t'. tree_set hgt st key v t = Inr t' \<and> tree_repr H hgt st t' (M(key \<mapsto> v))"
  using assms by (rule tree_set_repr)

theorem merkle_set_witness:
  "\<exists>t'. tree_set 2 example_storage [True, False] (be_bytes 32 9) (tree_new 0) = Inr t' \<and>
     tree_repr poseidon_felt_hash 2 example_storage t' (example_map([True, False] \<mapsto> be_bytes 32 9))"
proof -
  have len: "length [True, False] = 2" and pos: "0 < (2 :: nat)" by simp_all
  have "be_bytes 32 9 \<noteq> felt_ZERO"
    by (rule felt_nonzero) simp_all
  from merkle_set [OF example_repr len pos this] show ?thesis .
qed

text \<open>
  C11: setting a key to zero deletes it: the tree becomes the canonical tree of the map without the key, also
  when the branch above it collapses and its edges merge, and when the key was absent.
\<close>

theorem merkle_delete:
  assumes "tree_repr H hgt st t M" and "length key = hgt"
  shows "\<exists>t'. tree_set hgt st key felt_ZERO t = Inr t' \<and> tree_repr H hgt st t' (M(key := None))"
  using delete_leaf_repr [OF assms] by (simp add: tree_set_def)

theorem merkle_delete_witness:
  "\<exists>t'. tree_set 2 example_storage [False, True] felt_ZERO (tree_new 0) = Inr t' \<and>
     tree_repr poseidon_felt_hash 2 example_storage t' (example_map([False, True] := None))"
proof -
  have "length [False, True] = 2" by simp
  from merkle_delete [OF example_repr this] show ?thesis .
qed

section \<open>Committing\<close>

text \<open>
  C13: committing a tree succeeds and its root hash is the commitment the Starknet specification defines for
  the map the tree holds, by recursion on the height, for any hash function that returns 32 bytes. The root
  depends on the map only, and not on how the tree came to hold it or on what is still in storage.
\<close>

theorem merkle_commit:
  assumes "\<And>a b. length (H a b) = 32" and "tree_repr H hgt st t M" and "hgt \<le> 251"
  shows "\<exists>u. commit H st t = Inr u \<and> root_commitment u = commitment H hgt M"
proof -
  have "felt_hash_function H" using assms(1) by unfold_locales
  then show ?thesis using assms(2,3) by (rule felt_hash_function.commit_repr)
qed

theorem merkle_commit_witness:
  "\<exists>u. commit poseidon_felt_hash example_storage (tree_new 0) = Inr u \<and>
     root_commitment u = commitment poseidon_felt_hash 2 example_map"
  by (rule merkle_commit [OF poseidon.length_hash example_repr]) simp

end
