(* ===== verification/Storage_Properties.thy ===== *)
theory Storage_Properties
  imports Trie_Properties
begin

text \<open>
  The properties of the trie tables, \<^verbatim>\<open>crates/storage/src/connection/trie.rs\<close>, and of the trees that
  are stored in them.
\<close>

section \<open>An engine\<close>

text \<open>
  An instance of the engine: a tag byte and big-endian words for the serialisation, and the least
  unused key.
\<close>

fun example_decode_indices :: "u8 list \<Rightarrow> u64 list option" where
  "example_decode_indices [] = Some []"
| "example_decode_indices (a # b # c # d # e # f # g # h # bs) =
     map_option ((#) (u64_from_be_bytes [a, b, c, d, e, f, g, h])) (example_decode_indices bs)"
| "example_decode_indices bs = None"

definition example_encode_serde :: "stored_serde \<Rightarrow> u8 list" where
  "example_encode_serde x = (case x of
       SerdeBinary l r \<Rightarrow> 0 # u64_to_be_bytes l @ u64_to_be_bytes r
     | SerdeEdge c p \<Rightarrow> 1 # u64_to_be_bytes c @ p
     | SerdeLeafBinary \<Rightarrow> [2]
     | SerdeLeafEdge p \<Rightarrow> 3 # p)"

definition example_decode_serde :: "u8 list \<Rightarrow> stored_serde option" where
  "example_decode_serde bs = (case bs of
       [] \<Rightarrow> None
     | tag # bs \<Rightarrow>
         if tag = 0 then Some (SerdeBinary (u64_from_be_bytes (take 8 bs)) (u64_from_be_bytes (drop 8 bs)))
         else if tag = 1 then Some (SerdeEdge (u64_from_be_bytes (take 8 bs)) (drop 8 bs))
         else if tag = 2 then Some SerdeLeafBinary
         else Some (SerdeLeafEdge bs))"

definition example_engine :: engine where
  "example_engine = \<lparr> encode_serde = example_encode_serde, decode_serde = example_decode_serde,
     encode_indices = concat \<circ> map u64_to_be_bytes, decode_indices = example_decode_indices,
     dead_bits = (\<lambda>_. []),
     new_rowid = (\<lambda>rs. if \<exists>n. n < 2 ^ 63 \<and> rs (of_nat n) = None
       then Some (of_nat (LEAST n. rs (of_nat n) = None)) else None) \<rparr>"

lemma u64_be_bytes_round_trip: "u64_from_be_bytes (u64_to_be_bytes w) = w"
  by (simp add: u64_from_be_bytes_def)

lemma example_indices_round_trip: "example_decode_indices (concat (map u64_to_be_bytes ws)) = Some ws"
proof (induction ws)
  case (Cons w ws)
  obtain a b c d e f g h where "u64_to_be_bytes w = [a, b, c, d, e, f, g, h]"
    using u64_bytes(1) [of w] by (auto simp: eval_nat_numeral length_Suc_conv simp del: u64_bytes)
  then show ?case using Cons u64_be_bytes_round_trip [of w] by simp
qed simp

lemma least_unused:
  fixes rs :: "u64 \<rightharpoonup> trie_row"
  assumes "card (dom rs) < 2 ^ 63"
  shows "\<exists>n. n < 2 ^ 63 \<and> rs (of_nat n) = None"
proof (rule ccontr)
  assume "\<not> ?thesis"
  then have "of_nat ` {..<2 ^ 63} \<subseteq> dom rs" by auto
  moreover have "inj_on (of_nat :: nat \<Rightarrow> u64) {..<2 ^ 63}"
    by (rule inj_onI) (simp add: of_nat_eq_iff unat_of_nat word_unat_eq_iff take_bit_eq_mod)
  ultimately have "card {..<(2 :: nat) ^ 63} \<le> card (dom rs)"
    using card_inj_on_le [of "of_nat :: nat \<Rightarrow> u64" "{..<2 ^ 63}" "dom rs"] by simp
  then show False using assms by simp
qed

lemma example_engine_ok: "engine_ok example_engine"
proof -
  have "\<exists>i. new_rowid example_engine rs = Some i \<and> i \<le> i64_max \<and> rs i = None" if "card (dom rs) < 2 ^ 63" for rs
  proof -
    obtain n where n: "n < 2 ^ 63" "rs (of_nat n) = None" using least_unused [OF \<open>card (dom rs) < 2 ^ 63\<close>] by blast
    let ?m = "LEAST n. rs (of_nat n) = None"
    have "rs (of_nat ?m) = None" "?m \<le> n" using n(2) by (rule LeastI, rule Least_le)
    moreover have "(of_nat ?m :: u64) \<le> i64_max"
      using \<open>?m \<le> n\<close> n(1) by (simp add: i64_max_def word_le_nat_alt unat_of_nat take_bit_eq_mod)
    ultimately show ?thesis using n by (auto simp: example_engine_def)
  qed
  moreover have "decode_serde example_engine (encode_serde example_engine x) = Some x" for x
    by (cases x) (simp_all add: example_engine_def example_encode_serde_def example_decode_serde_def u64_be_bytes_round_trip)
  moreover have "length (encode_serde example_engine x) \<le> 256" if "length (serde_path x) \<le> 33" for x
    using that by (cases x) (simp_all add: example_engine_def example_encode_serde_def)
  moreover have "decode_indices example_engine (encode_indices example_engine is) = Some is" for "is"
    by (simp add: example_engine_def example_indices_round_trip)
  ultimately show ?thesis unfolding engine_ok_def by blast
qed

section \<open>Stored trees\<close>

text \<open>
  C14: the updates of a block, applied to the tree loaded from its stored root, committed and inserted into
  the database, give a stored tree: loading the root that is recorded gives a tree that holds the
  updated map, in canonical form and with the hashes of the specification, whatever engine encodes
  the nodes and assigns their keys. No step fails while the table has room, rows that were there
  stay, and an update that empties the tree or changes nothing is recorded as such.
\<close>

theorem trie_persist:
  assumes "\<And>a b. felt_wf (H a b)" and "engine_ok e" and "table_wf tbl"
    and "tree_repr H hgt (table_storage e tbl leaf) (load_root old) M"
    and "0 < hgt" and "hgt \<le> 251" and "\<forall>(key, value) \<in> set updates. length key = hgt"
  shows "\<exists>t u. tree_set_all hgt (table_storage e tbl leaf) updates (load_root old) = Inr t \<and>
    commit H (table_storage e tbl leaf) t = Inr u \<and>
    root_commitment u = commitment H hgt (apply_updates M updates) \<and>
    (card (dom (rows tbl)) + length (nodes_added u) < 2 ^ 63 \<longrightarrow>
      (\<exists>upd tbl'. insert_trie e Archive u block tbl = Inr (upd, tbl') \<and> rows tbl \<subseteq>\<^sub>m rows tbl' \<and> table_wf tbl' \<and>
        (\<forall>leaf'. (\<forall>k \<in> dom (apply_updates M updates). leaf' k = Inr (apply_updates M updates k)) \<longrightarrow>
          tree_repr H hgt (table_storage e tbl' leaf') (load_root (new_root old upd)) (apply_updates M updates))))"
proof -
  have H: "felt_valued_hash H" using assms(1) by unfold_locales
  obtain t where t: "tree_set_all hgt (table_storage e tbl leaf) updates (load_root old) = Inr t"
    "tree_repr H hgt (table_storage e tbl leaf) t (apply_updates M updates)" "origin old t"
    using tree_set_all_repr [OF assms(4,7,5) load_root_origin] by blast
  have "felt_hash_function H" using assms(1) by unfold_locales (simp add: felt_wf_def)
  from felt_hash_function.commit_repr [OF this t(2) assms(6)] obtain u where
    u: "commit H (table_storage e tbl leaf) t = Inr u" "root_commitment u = commitment H hgt (apply_updates M updates)" by blast
  show ?thesis
    using t(1) u felt_valued_hash.persist_commit [OF H assms(2,3) t(2) assms(6,5) t(3) u(1)] by blast
qed

definition empty_table :: trie_table where
  "empty_table = \<lparr> rows = Map.empty, removals = [] \<rparr>"

theorem trie_persist_witness:
  "\<exists>u upd tbl'. insert_trie example_engine Archive u 0 empty_table = Inr (upd, tbl') \<and>
     tree_repr poseidon_felt_hash 2 (table_storage example_engine tbl' (\<lambda>k. Inr ([[True, False] \<mapsto> be_bytes 32 7] k)))
       (load_root (new_root None upd)) [[True, False] \<mapsto> be_bytes 32 7]"
proof -
  let ?st = "table_storage example_engine empty_table (\<lambda>_. Inr None)"
  let ?ups = "[([True, False], be_bytes 32 7)]" and ?M = "[[True, False] \<mapsto> be_bytes 32 7]"
  have nz: "be_bytes 32 7 \<noteq> felt_ZERO" by (rule felt_nonzero) simp_all
  then have M: "apply_updates Map.empty ?ups = ?M" by simp
  have wf: "table_wf empty_table" by (simp add: table_wf_def empty_table_def)
  have loaded: "tree_repr poseidon_felt_hash 2 ?st (load_root None) Map.empty"
    by (simp add: load_root_def tree_empty_repr)
  have keys: "0 < (2 :: nat)" "(2 :: nat) \<le> 251" "\<forall>(key, value) \<in> set ?ups. length key = 2" by simp_all
  note persisted = trie_persist [OF poseidon_felt_hash_wf example_engine_ok wf loaded keys, of 0, unfolded M]
  then obtain t u where t: "tree_set_all 2 ?st ?ups (load_root None) = Inr t" "commit poseidon_felt_hash ?st t = Inr u"
    and ins: "card (dom (rows empty_table)) + length (nodes_added u) < 2 ^ 63 \<longrightarrow>
      (\<exists>upd tbl'. insert_trie example_engine Archive u 0 empty_table = Inr (upd, tbl') \<and>
        (\<forall>leaf'. (\<forall>k \<in> dom ?M. leaf' k = Inr (?M k)) \<longrightarrow>
          tree_repr poseidon_felt_hash 2 (table_storage example_engine tbl' leaf') (load_root (new_root None upd)) ?M))"
    by blast
  have "root t = Some (Edge None 0 [True, False] Leaf)"
    using t(1) nz by (auto simp: load_root_def tree_empty_def tree_set_def traverse_def)
  then have "length (nodes_added u) \<le> 1" using commit_length [OF t(2)] by fastforce
  then have "card (dom (rows empty_table)) + length (nodes_added u) < 2 ^ 63" by (simp add: empty_table_def)
  with ins obtain upd tbl' where "insert_trie example_engine Archive u 0 empty_table = Inr (upd, tbl')"
    "\<forall>leaf'. (\<forall>k \<in> dom ?M. leaf' k = Inr (?M k)) \<longrightarrow>
      tree_repr poseidon_felt_hash 2 (table_storage example_engine tbl' leaf') (load_root (new_root None upd)) ?M" by blast
  from this(1) this(2) [rule_format, of "\<lambda>k. Inr (?M k)"] show ?thesis by auto
qed

text \<open>
  C15: a trie node is read back as it was stored, for every node whose path has at most 251 bits and whose
  children have valid indices: its children, its path bit by bit, and no more.
\<close>

theorem stored_node_round_trip:
  assumes "engine_ok e" and "length (node_path n) \<le> 251" and "\<forall>i \<in> set (node_children n). i \<le> i64_max"
  shows "\<exists>data. stored_encode e n = Inr data \<and> stored_decode e data = Inr n"
  using assms by (rule stored_round_trip)

theorem stored_node_round_trip_witness:
  "\<exists>data. stored_encode example_engine (StoredEdge 5 [True, False, True]) = Inr data \<and>
     stored_decode example_engine data = Inr (StoredEdge 5 [True, False, True])"
  using stored_node_round_trip [OF example_engine_ok, of "StoredEdge 5 [True, False, True]"] by (simp add: i64_max_def)

end
