(* ===== verification/Chain.thy ===== *)
theory Chain
  imports StateChain Storage_Properties
begin

text \<open>
  The chains a node can store, from the empty database on, and what their invariant gives.
\<close>

section \<open>Chains\<close>

definition empty_db :: state_db where
  "empty_db = \<lparr> trie_class = empty_table, trie_storage = empty_table, trie_contracts = empty_table, class_roots = [], storage_roots = [],
     contract_roots = (\<lambda>_. []), contract_state_hashes = (\<lambda>_. []), storage_updates = (\<lambda>_ _. []), nonce_updates = (\<lambda>_. []),
     contract_updates = (\<lambda>_. []), casm_class_hashes = (\<lambda>_. []), class_commitment_leaves = [], class_definitions = Map.empty,
     redeclared_classes = [], block_headers = [] \<rparr>"

text \<open>
  A block is stored as \<^verbatim>\<open>l2_update\<close> does it: the tries, the header, then the rows of the state
  update. \<open>chain e P mode n As db\<close>: the database after the blocks before \<open>n\<close>, with \<open>As b\<close> the state after the block \<open>b\<close>, and \<open>As n\<close> the current state.
\<close>

inductive chain :: "engine \<Rightarrow> felt_hash \<Rightarrow> trie_prune_mode \<Rightarrow> block_number \<Rightarrow> (block_number \<Rightarrow> starknet_state) \<Rightarrow> state_db \<Rightarrow> bool"
  for e P mode where
  genesis: "chain e P mode 0 (\<lambda>_. empty_state) empty_db"
| block: "chain e P mode n As db \<Longrightarrow> block_ok (As n) u \<Longrightarrow> room_for u db \<Longrightarrow> n + 1 \<noteq> 0 \<Longrightarrow>
    update_starknet_state e P mode db v n u db = Inr (commitments, db') \<Longrightarrow>
    chain e P mode (n + 1) (As(n := apply_block u (As n), n + 1 := apply_block u (As n)))
      (insert_state_update_data0 n u (db'\<lparr> block_headers := headers \<rparr>))"

text \<open>The first block whose tries are kept.\<close>

definition first_kept :: "trie_prune_mode \<Rightarrow> block_number \<Rightarrow> block_number" where
  "first_kept mode n = (if n = 0 then 0 else case mode of Archive \<Rightarrow> 0 | Prune k \<Rightarrow> if k \<le> n - 1 then n - 1 - k else 0)"

lemma first_kept_step:
  assumes "n + 1 \<noteq> 0"
  shows "first_kept mode n \<le> first_kept mode (n + 1)" and "first_kept mode (n + 1) \<le> n"
    and "first_kept mode (n + 1) \<le> b \<Longrightarrow> kept mode n b"
proof -
  have "unat (n - 1) = unat n - 1" if "n \<noteq> 0" using that by (simp add: unat_minus_one)
  then show "first_kept mode n \<le> first_kept mode (n + 1)" using assms
    by (cases mode) (auto simp: first_kept_def word_le_nat_alt unat_sub_if')
  show "first_kept mode (n + 1) \<le> n" using assms by (cases mode) (auto simp: first_kept_def word_le_nat_alt unat_sub_if')
  show "first_kept mode (n + 1) \<le> b \<Longrightarrow> kept mode n b" using assms by (cases mode) (auto simp: first_kept_def kept_def)
qed

lemma kept_first: "n \<noteq> 0 \<Longrightarrow> kept mode (n - 1) b \<longleftrightarrow> first_kept mode n \<le> b"
  by (cases mode) (auto simp: first_kept_def kept_def)

lemma empty_chain_ok: "chain_ok e P 0 0 (\<lambda>_. empty_state) empty_db"
proof -
  have f: "forest_ok e Q 251 0 0 (\<lambda>_ _. Map.empty) (\<lambda>_ _. {#}) empty_table (\<lambda>_ _. None) (mark_at e empty_table)" for Q
    unfolding forest_ok_def marks_ok_def
    by (simp add: empty_table_def mark_at_def tree_at_empty marked_def blob_indices_def table_wf_def removals_ok_def single_def)
  have "contracts_ok e P 0 0 (map_storage (maps_of P (\<lambda>_. empty_state))) (\<lambda>_ _. {#}) empty_db"
    using f by (simp add: contracts_ok_def maps_of_def empty_state_maps empty_db_def root_index_at_def latest_at_def)
  moreover have "trees_ok e P 0 0 (map_hashes (maps_of P (\<lambda>_. empty_state))) (\<lambda>_. {#}) (trie_storage empty_db) (storage_roots empty_db)"
    "trees_ok e poseidon_felt_hash 0 0 (map_classes (maps_of P (\<lambda>_. empty_state))) (\<lambda>_. {#}) (trie_class empty_db) (class_roots empty_db)"
    using f by (simp_all add: trees_ok_def maps_of_def empty_state_maps empty_db_def root_index_at_def latest_at_def)
  ultimately have "state_ok e P 0 0 (maps_of P (\<lambda>_. empty_state)) empty_db" unfolding state_ok_def by blast
  moreover have "rows_before 0 empty_db" by (simp add: rows_before_def empty_db_def before_def)
  moreover have "values_ok 0 (\<lambda>_. empty_state) empty_db"
    by (simp add: values_ok_def empty_db_def value_at_def latest_at_def empty_state_def zero_or_def)
  moreover have "casm_leaves_ok 0 (\<lambda>_. empty_state) empty_db" "state_hashes_ok P 0 0 (\<lambda>_. empty_state) empty_db"
    by (simp_all add: casm_leaves_ok_def state_hashes_ok_def empty_db_def empty_state_def)
  ultimately show ?thesis by (simp add: chain_ok_def)
qed

context felt_valued_hash
begin

lemma chain_step_kept:
  assumes e: "engine_ok e" and ok: "chain_ok e H (first_kept mode n) n As db" and u: "block_ok (As n) u" and room: "room_for u db" and nx: "n + 1 \<noteq> 0"
  defines "A \<equiv> apply_block u (As n)"
  shows "\<exists>db'. update_starknet_state e H mode db v n u db = Inr ((storage_commitment_of H A, class_commitment_of A), db') \<and>
    (\<forall>hs. chain_ok e H (first_kept mode (n + 1)) (n + 1) (As(n := A, n + 1 := A)) (insert_state_update_data0 n u (db'\<lparr> block_headers := hs \<rparr>)))"
proof -
  note k = first_kept_step [OF nx, of mode]
  have kp: "\<forall>b. first_kept mode (n + 1) \<le> b \<longrightarrow> kept mode n b" using k(3) by blast
  from chain_step [OF e ok u room nx k(1,2) kp, of v] show ?thesis unfolding A_def by blast
qed

lemma chain_invariant:
  assumes "engine_ok e" and "chain e H mode n As db"
  shows "chain_ok e H (first_kept mode n) n As db"
  using assms(2)
proof induction
  case genesis
  show ?case using empty_chain_ok by (simp add: first_kept_def)
next
  case (block n As db u v commitments db' headers)
  from chain_step_kept [OF assms(1) block.IH block.hyps(2,3,4), of v] show ?case using block.hyps(5) by (auto simp del: fun_upd_apply)
qed

lemma chain_extend:
  assumes "engine_ok e" and "chain e H mode n As db" and u: "block_ok (As n) u" and room: "room_for u db" and nx: "n + 1 \<noteq> 0"
  defines "A \<equiv> apply_block u (As n)"
  shows "\<exists>db'. update_starknet_state e H mode db v n u db = Inr ((storage_commitment_of H A, class_commitment_of A), db') \<and>
    (\<forall>hs. chain e H mode (n + 1) (As(n := A, n + 1 := A)) (insert_state_update_data0 n u (db'\<lparr> block_headers := hs \<rparr>)))"
  using chain_step_kept [OF assms(1) chain_invariant [OF assms(1,2)] u room nx, of v] chain.block [OF assms(2) u room nx]
  unfolding A_def by blast

end

text \<open>What the invariant gives.\<close>

lemma chain_ok_values:
  assumes "chain_ok e P low n As db" and "b \<le> n"
  shows "tx_contract_class_hash (BlockNumber b) c db = s_class (As b) c" and "zero_or (tx_contract_nonce c (BlockNumber b) db) = s_nonce (As b) c"
    and "tx_casm_hash_at (BlockNumber b) s db = s_casm (As b) s" and "zero_or (tx_storage_value (BlockNumber b) c k db) = s_storage (As b) c k"
  using chain_okD(3) [OF assms(1)] assms(2) by (simp_all add: tx_value_at values_ok_def)

context felt_valued_hash
begin

lemma chain_ok_commitments:
  assumes "chain_ok e H low n As db" and "low \<le> b" and "b \<le> n"
  shows "\<exists>h. root_hash_at b (storage_roots db) (trie_storage db) = Inr h \<and> zero_or h = storage_commitment_of H (As b)"
    and "\<exists>h. tx_class_root b db = Inr h \<and> zero_or h = class_commitment_of (As b)"
    and "\<exists>h. tx_contract_root b c db = Inr h \<and> zero_or h = commitment H 251 (felt_map (s_storage (As b) c))"
proof -
  note S = chain_okD(1) [OF assms(1)]
  obtain X where X: "contracts_ok e H low n (map_storage (maps_of H As)) X db" using S unfolding state_ok_def by blast
  obtain Y where Y: "trees_ok e H low n (map_hashes (maps_of H As)) Y (trie_storage db) (storage_roots db)" using S unfolding state_ok_def by blast
  obtain Z where Z: "trees_ok e poseidon_felt_hash low n (map_classes (maps_of H As)) Z (trie_class db) (class_roots db)"
    using S unfolding state_ok_def by blast
  from root_hash_at_commitment [OF forest_okD(4) [OF Y [unfolded trees_ok_def, THEN conjunct1] assms(2,3)]]
  show "\<exists>h. root_hash_at b (storage_roots db) (trie_storage db) = Inr h \<and> zero_or h = storage_commitment_of H (As b)"
    by (simp add: maps_of_def storage_commitment_of_def zero_or_def)
  from poseidon.root_hash_at_commitment [OF forest_okD(4) [OF Z [unfolded trees_ok_def, THEN conjunct1] assms(2,3)]]
  show "\<exists>h. tx_class_root b db = Inr h \<and> zero_or h = class_commitment_of (As b)"
    by (simp add: maps_of_def class_commitment_of_def zero_or_def tx_class_root_def)
  from root_hash_at_commitment [OF forest_okD(4) [OF X [unfolded contracts_ok_def, THEN conjunct1] assms(2,3), of c]]
  show "\<exists>h. tx_contract_root b c db = Inr h \<and> zero_or h = commitment H 251 (felt_map (s_storage (As b) c))"
    by (simp add: maps_of_def zero_or_def tx_contract_root_def)
qed

lemma loaded_tree_get:
  assumes "tree_at e H 251 tbl leaf r M X" and "r \<noteq> None \<Longrightarrow> \<forall>k \<in> dom M. leaf' k = Inr (M k)" and "length key = 251"
  shows "\<exists>t'. tree_get 251 (table_storage e tbl leaf') key (load_root r) = Inr (M key, t')"
proof -
  have "tree_at e H 251 tbl leaf' r M X" using tree_at_leaf [OF assms(1), of leaf'] assms(2) by blast
  then show ?thesis using tree_get_repr [of H 251 "table_storage e tbl leaf'" "load_root r" M key] assms(3) by (auto simp: tree_at_def)
qed

lemma chain_ok_state_hash:
  assumes "chain_ok e H low n As db" and "low \<le> b" and "b \<le> n" and c: "key_felt c"
  shows "\<exists>h t. storage_tree_get e db c (storage_tree_load db b) = Inr (h, t) \<and> zero_or h = contract_leaves H (As b) c"
proof -
  obtain Y where Y: "trees_ok e H low n (map_hashes (maps_of H As)) Y (trie_storage db) (storage_roots db)"
    using chain_okD(1) [OF assms(1)] unfolding state_ok_def by blast
  let ?r = "root_index_at b (storage_roots db)" and ?M = "felt_map (contract_leaves H (As b))"
  have t: "tree_at e H 251 (trie_storage db) (\<lambda>k. Inr (?M k)) ?r ?M (Y b)"
    using forest_okD(4) [OF Y [unfolded trees_ok_def, THEN conjunct1] assms(2,3)] by (simp add: maps_of_def)
  have len: "length (view_bits c) = 251" using c view_bits_length key_felt_length by blast
  have l: "?r \<noteq> None \<Longrightarrow> \<forall>k \<in> dom ?M. storage_trie_leaf db (Some b) k = Inr (?M k)"
    using chain_leaves(2) [OF assms(1,3,2)] by blast
  have v: "zero_or (?M (view_bits c)) = contract_leaves H (As b) c"
    using path_felt_view_bits [OF c] len by (simp add: felt_map_def zero_or_def)
  show ?thesis
  proof (cases ?r)
    case None
    then show ?thesis using loaded_tree_get [OF t, of "storage_trie_leaf db None" "view_bits c"] len v
      by (auto simp: storage_tree_get_def storage_tree_load_def tree_in_load_def tx_storage_root_index_def tree_in_empty_def load_root_def
        storage_trie_storage_table)
  next
    case (Some i)
    then show ?thesis using loaded_tree_get [OF t l len] v
      by (auto simp: storage_tree_get_def storage_tree_load_def tree_in_load_def tx_storage_root_index_def load_root_def storage_trie_storage_table)
  qed
qed

end

end
