(* ===== verification/State_Properties.thy ===== *)
theory State_Properties
  imports Chain
begin

text \<open>
  The properties of the state of a node: \<^verbatim>\<open>update_starknet_state\<close> of
  \<^verbatim>\<open>crates/merkle-tree/src/starknet_state.rs\<close> on the tables of \<^verbatim>\<open>crates/storage\<close>, over the chains of blocks
  a node can store.
\<close>

section \<open>Commitments are field elements\<close>





section \<open>An example\<close>

text \<open>A block that deploys a contract, writes a storage cell and declares a class.\<close>

definition example_update :: state_update where
  "example_update = \<lparr>
     upd_contracts = [(be_bytes 32 5, \<lparr> upd_storage = [(be_bytes 32 3, be_bytes 32 4)], upd_class = Some (Deploy (be_bytes 32 6)),
       upd_nonce = None \<rparr>)],
     upd_system_contracts = [], declared_cairo_classes = [], declared_sierra_classes = [(be_bytes 32 7, be_bytes 32 8)],
     migrated_compiled_classes = [] \<rparr>"

lemma key_felt_small: "x < 2 ^ 251 \<Longrightarrow> key_felt (be_bytes 32 x)"
  by (simp add: key_felt_def felt_wf_def field_prime_def)

lemma example_update_ok: "block_ok empty_state example_update" "room_for example_update empty_db"
  by (simp_all add: block_ok_def room_for_def example_update_def all_writes_def contract_writes_def class_writes_def key_felt_small
    empty_db_def empty_table_def update_count_def)

definition example_states :: "block_number \<Rightarrow> starknet_state" where
  "example_states = (\<lambda>_. empty_state)(0 := apply_block example_update empty_state, 1 := apply_block example_update empty_state)"

lemma example_chain: "\<exists>db. chain example_engine poseidon_felt_hash (Prune 1) 1 example_states db"
  using poseidon.chain_extend [OF example_engine_ok chain.genesis example_update_ok, of "Prune 1" False] unfolding example_states_def by auto

section \<open>Properties\<close>

text \<open>
  C1: On every chain of blocks, \<^verbatim>\<open>update_starknet_state\<close> succeeds on a valid block for which the tries
  have room, and returns the storage and class commitments of the abstract state after the block:
  the reference commitments of the contracts' state hashes and of the class leaves.
\<close>

theorem update_starknet_state_refines:
  assumes "felt_valued_hash P" and "engine_ok e" and "chain e P mode n As db"
    and "block_ok (As n) u" and "room_for u db" and "n + 1 \<noteq> 0"
  shows "\<exists>db'. update_starknet_state e P mode db verify n u db =
    Inr ((storage_commitment_of P (apply_block u (As n)), class_commitment_of (apply_block u (As n))), db')"
  using felt_valued_hash.chain_extend [OF assms, of verify] by blast

theorem update_starknet_state_refines_witness:
  "\<exists>db'. update_starknet_state example_engine poseidon_felt_hash (Prune 1) empty_db True 0 example_update empty_db =
    Inr ((storage_commitment_of poseidon_felt_hash (apply_block example_update empty_state),
      class_commitment_of (apply_block example_update empty_state)), db')"
  by (rule update_starknet_state_refines [OF poseidon.felt_valued_hash_axioms example_engine_ok chain.genesis example_update_ok]) simp

text \<open>
  C2: Pruning is safe: at every block whose tries are to be kept, the roots of the storage trie, of the
  class trie and of the trie of every contract can be read, and are the commitments of the abstract
  state of that block.
\<close>

theorem kept_tries_readable:
  assumes "felt_valued_hash P" and "engine_ok e" and "chain e P mode n As db" and "b < n" and "kept mode (n - 1) b"
  shows "(\<exists>h. root_hash_at b (storage_roots db) (trie_storage db) = Inr h \<and> zero_or h = storage_commitment_of P (As b)) \<and>
    (\<exists>h. tx_class_root b db = Inr h \<and> zero_or h = class_commitment_of (As b)) \<and>
    (\<exists>h. tx_contract_root b c db = Inr h \<and> zero_or h = commitment P 251 (felt_map (s_storage (As b) c)))"
proof -
  have "n \<noteq> 0" "b \<le> n" using assms(4) by auto
  then have low: "first_kept mode n \<le> b" using kept_first assms(5) by blast
  note felt_valued_hash.chain_ok_commitments [OF assms(1) felt_valued_hash.chain_invariant [OF assms(1-3)] low \<open>b \<le> n\<close>]
  then show ?thesis by blast
qed

theorem kept_tries_readable_witness:
  "\<exists>db h. chain example_engine poseidon_felt_hash (Prune 1) 1 example_states db \<and>
    tx_class_root 0 db = Inr h \<and> zero_or h = class_commitment_of (example_states 0)"
proof -
  obtain db where db: "chain example_engine poseidon_felt_hash (Prune 1) 1 example_states db" using example_chain by blast
  have "kept (Prune 1) (1 - 1) 0" by (simp add: kept_def)
  from kept_tries_readable [OF poseidon.felt_valued_hash_axioms example_engine_ok db _ this] db show ?thesis by fastforce
qed

text \<open>
  C3: At every stored block, and at the block to come, the queries of the class of a contract, its
  nonce, its storage and the CASM hash of a class answer with the abstract state of that block,
  whether its tries were pruned or not.
\<close>

theorem historical_queries:
  assumes "felt_valued_hash P" and "engine_ok e" and "chain e P mode n As db" and "b \<le> n"
  shows "tx_contract_class_hash (BlockNumber b) c db = s_class (As b) c \<and>
    zero_or (tx_contract_nonce c (BlockNumber b) db) = s_nonce (As b) c \<and>
    zero_or (tx_storage_value (BlockNumber b) c k db) = s_storage (As b) c k \<and>
    tx_casm_hash_at (BlockNumber b) s db = s_casm (As b) s"
  using chain_ok_values [OF felt_valued_hash.chain_invariant [OF assms(1-3)] assms(4)] by simp_all

theorem historical_queries_witness:
  "\<exists>db. chain example_engine poseidon_felt_hash (Prune 1) 1 example_states db \<and>
    tx_contract_class_hash (BlockNumber 0) (be_bytes 32 5) db = Some (be_bytes 32 6)"
proof -
  obtain db where db: "chain example_engine poseidon_felt_hash (Prune 1) 1 example_states db" using example_chain by blast
  have "s_class (example_states 0) (be_bytes 32 5) = Some (be_bytes 32 6)"
    by (simp add: example_states_def apply_block_def example_update_def opt_writes_def write_all_def update_class_hash_def)
  then show ?thesis using historical_queries [OF poseidon.felt_valued_hash_axioms example_engine_ok db, of 0 "be_bytes 32 5"] db by auto
qed

text \<open>
  C4: At every block whose tries are kept, looking up a contract in the storage tree loaded at that
  block finds the state hash that the abstract state of the block has for it.
\<close>

theorem kept_state_hash:
  assumes "felt_valued_hash P" and "engine_ok e" and "chain e P mode n As db" and "b < n" and "kept mode (n - 1) b" and "key_felt c"
  shows "\<exists>h t. storage_tree_get e db c (storage_tree_load db b) = Inr (h, t) \<and> zero_or h = contract_leaves P (As b) c"
proof -
  have "n \<noteq> 0" "b \<le> n" using assms(4) by auto
  then have low: "first_kept mode n \<le> b" using kept_first assms(5) by blast
  from felt_valued_hash.chain_ok_state_hash [OF assms(1) felt_valued_hash.chain_invariant [OF assms(1-3)] low \<open>b \<le> n\<close> assms(6)]
  show ?thesis .
qed

theorem kept_state_hash_witness:
  "\<exists>db h t. chain example_engine poseidon_felt_hash (Prune 1) 1 example_states db \<and>
    storage_tree_get example_engine db (be_bytes 32 5) (storage_tree_load db 0) = Inr (h, t) \<and>
    zero_or h = contract_leaf poseidon_felt_hash (example_states 0) (be_bytes 32 5)"
proof -
  obtain db where db: "chain example_engine poseidon_felt_hash (Prune 1) 1 example_states db" using example_chain by blast
  have k: "kept (Prune 1) (1 - 1) 0" "key_felt (be_bytes 32 5)" by (simp_all add: kept_def key_felt_small)
  have "be_bytes 32 5 \<in> s_contracts (example_states 0)"
    by (simp add: example_states_def apply_block_def example_update_def all_writes_def contract_writes_def)
  then show ?thesis using kept_state_hash [OF poseidon.felt_valued_hash_axioms example_engine_ok db _ k] db by (auto simp: contract_leaves_def)
qed

text \<open>
  C5: The invariant of the database: on every chain of blocks the rows are those of the stored blocks,
  the tries of the kept blocks hold the maps of their states, no node of a kept tree is to be removed
  at that block or before, and the leaves of the trees can be read.
\<close>

theorem chain_database_invariant:
  assumes "felt_valued_hash P" and "engine_ok e" and "chain e P mode n As db"
  shows "chain_ok e P (first_kept mode n) n As db"
  using felt_valued_hash.chain_invariant [OF assms] .

theorem chain_database_invariant_witness:
  "\<exists>db. chain_ok example_engine poseidon_felt_hash 0 1 example_states db"
proof -
  obtain db where "chain example_engine poseidon_felt_hash (Prune 1) 1 example_states db" using example_chain by blast
  from chain_database_invariant [OF poseidon.felt_valued_hash_axioms example_engine_ok this] show ?thesis by (auto simp: first_kept_def)
qed




end
