(* ===== verification/Loops.thy ===== *)
theory Loops
  imports Prelude
begin

text \<open>
  Loops over a list whose body may fail: \<open>fold_outcome\<close> threads a state, \<open>map_outcome\<close> collects results. A
  failing step ends the loop.
\<close>

fun fold_outcome :: "('x \<Rightarrow> 's \<Rightarrow> 'e + 's) \<Rightarrow> 'x list \<Rightarrow> 's \<Rightarrow> 'e + 's" where
  "fold_outcome f [] s = Inr s"
| "fold_outcome f (x # xs) s = bind_outcome (f x s) (fold_outcome f xs)"

fun map_outcome :: "('x \<Rightarrow> 'e + 'y) \<Rightarrow> 'x list \<Rightarrow> 'e + 'y list" where
  "map_outcome f [] = Inr []"
| "map_outcome f (x # xs) = bind_outcome (f x) (\<lambda>y. bind_outcome (map_outcome f xs) (\<lambda>ys. Inr (y # ys)))"

text \<open>Writing an element: out of range is a panic.\<close>

definition set_panic :: "nat \<Rightarrow> 'a \<Rightarrow> 'a list \<Rightarrow> 'a list outcome" where
  "set_panic i v xs = (if i < length xs then Inr (xs[i := v]) else Inl (Panic ''index out of bounds''))"

lemma set_panic_ok [simp]: "i < length xs \<Longrightarrow> set_panic i v xs = Inr (xs[i := v])"
  by (simp add: set_panic_def)

lemma fold_outcome_append [simp]: "fold_outcome f (xs @ ys) s = bind_outcome (fold_outcome f xs s) (fold_outcome f ys)"
proof (induction xs arbitrary: s)
  case (Cons x xs)
  then show ?case by (cases "f x s") simp_all
qed simp

text \<open>A loop whose steps succeed on the states it reaches.\<close>

lemma fold_outcome_total:
  assumes "I s" and "\<And>x s. x \<in> set xs \<Longrightarrow> I s \<Longrightarrow> f x s = Inr (g x s) \<and> I (g x s)"
  shows "fold_outcome f xs s = Inr (fold g xs s) \<and> I (fold g xs s)"
  using assms
proof (induction xs arbitrary: s)
  case (Cons x xs)
  have "f x s = Inr (g x s)" "I (g x s)" using Cons.prems by simp_all
  with Cons.IH [of "g x s"] Cons.prems(2) show ?case by simp
qed simp

lemma map_outcome_total:
  "(\<And>x. x \<in> set xs \<Longrightarrow> f x = Inr (g x)) \<Longrightarrow> map_outcome f xs = Inr (map g xs)"
  by (induction xs) simp_all

end
