(* ===== verification/Bloom.thy ===== *)
theory Bloom
  imports Loops Felt_Correct Header
begin

text \<open>
  The Bloom filters of the events, \<^verbatim>\<open>crates/storage/src/bloom.rs\<close>: the filter of a block, the aggregate of
  the filters of a range of blocks, stored as a transposed bit matrix, and the cache of aggregates.
  SipHash, zstd and the sized cache are not code of the repository: they are arguments, in the record
  \<open>bloom_lib\<close>.
\<close>

unbundle bit_operations_syntax

section \<open>The libraries\<close>

definition AGGREGATE_BLOOM_BLOCK_RANGE_LEN :: u64 where
  "AGGREGATE_BLOOM_BLOCK_RANGE_LEN = 8192"

definition BLOCK_RANGE_BYTES :: nat where
  "BLOCK_RANGE_BYTES = unat AGGREGATE_BLOOM_BLOCK_RANGE_LEN div 8"

definition BITVEC_BITS :: nat where
  "BITVEC_BITS = 16384"

definition BITVEC_BYTES :: nat where
  "BITVEC_BYTES = BITVEC_BITS div 8"

definition K_NUM :: nat where
  "K_NUM = 12"

record aggregate_bloom =
  agg_bitmap :: "u8 list"
  agg_from_block :: block_number
  agg_to_block :: block_number

text \<open>The key of a cached filter, and the cache as its entries in an order of its own.\<close>

type_synonym cache_key = "block_number \<times> block_number"
type_synonym bloom_cache = "(cache_key \<times> aggregate_bloom) list"

text \<open>
  \<open>sip13 k0 k1 item\<close> is the SipHash-1-3 of an item with the two keys; zstd compresses with a level and
  decompresses to at most a number of bytes; reading an entry of a sized cache may reorder it, and
  writing one may evict others.
\<close>

record bloom_lib =
  sip13 :: "u64 \<Rightarrow> u64 \<Rightarrow> felt \<Rightarrow> u64"
  zstd_compress :: "nat \<Rightarrow> u8 list \<Rightarrow> u8 list option"
  zstd_decompress :: "u8 list \<Rightarrow> nat \<Rightarrow> u8 list option"
  cache_touch :: "cache_key \<Rightarrow> bloom_cache \<Rightarrow> bloom_cache"
  cache_set :: "cache_key \<Rightarrow> aggregate_bloom \<Rightarrow> bloom_cache \<Rightarrow> bloom_cache"

section \<open>The filter of a block\<close>

definition SEED :: "u8 list" where
  "SEED = [
    0xef, 0x51, 0x88, 0x74, 0xef, 0x08, 0x3d, 0xf6, 0x7d, 0x7a, 0x93, 0xb7, 0xb3, 0x13, 0x1f, 0x87,
    0xd3, 0x26, 0xbd, 0x49, 0xc7, 0x18, 0xcc, 0xe5, 0xd7, 0xe8, 0xa0, 0xdb, 0xea, 0x80, 0x67, 0x52]"

definition u64_from_le_bytes :: "u8 list \<Rightarrow> u64" where
  "u64_from_le_bytes bs = u64_from_be_bytes (rev bs)"

definition SIPS :: "bloom_lib \<Rightarrow> nat \<Rightarrow> felt \<Rightarrow> u64" where
  "SIPS lib i =
     (let k1 = u64_from_le_bytes (take 8 SEED);
          k2 = u64_from_le_bytes (take 8 (drop 8 SEED));
          k3 = u64_from_le_bytes (take 8 (drop 16 SEED));
          k4 = u64_from_le_bytes (take 8 (drop 24 SEED))
      in if i = 0 then sip13 lib k1 k2 else sip13 lib k3 k4)"

text \<open>The pair of hashes is the mutable array \<^verbatim>\<open>hashes\<close>.\<close>

definition bloom_hash :: "bloom_lib \<Rightarrow> u64 \<times> u64 \<Rightarrow> felt \<Rightarrow> nat \<Rightarrow> u64 \<times> u64 \<times> u64" where
  "bloom_hash lib hashes item k_i =
     (if k_i < 2 then
        let hash = SIPS lib k_i item
        in (hash, if k_i = 0 then (hash, snd hashes) else (fst hashes, hash))
      else ((fst hashes + of_nat k_i * snd hashes) mod 0xFFFFFFFFFFFFFFC5, hashes))"

type_synonym bloom_filter = "bool list"

definition bloom_new :: bloom_filter where
  "bloom_new = replicate BITVEC_BITS False"

definition bloom_into_bytes :: "bloom_filter \<Rightarrow> u8 list" where
  "bloom_into_bytes bits = bytes_of_bits (length bits div 8) bits"

definition bloom_from_compressed_bytes :: "bloom_lib \<Rightarrow> u8 list \<Rightarrow> bloom_filter outcome" where
  "bloom_from_compressed_bytes lib bytes =
     bind_outcome (expect_some ''Decompressing Bloom filter'' (zstd_decompress lib bytes (BITVEC_BYTES * 2)))
       (\<lambda>bytes. Inr (msb0_bits bytes))"

definition bloom_into_compressed_bytes :: "bloom_lib \<Rightarrow> bloom_filter \<Rightarrow> u8 list outcome" where
  "bloom_into_compressed_bytes lib bits =
     expect_some ''Compressing Bloom filter'' (zstd_compress lib 0 (bloom_into_bytes bits))"

definition bloom_set_bit :: "bloom_lib \<Rightarrow> felt \<Rightarrow> nat \<Rightarrow> (u64 \<times> u64) \<times> bloom_filter \<Rightarrow> ((u64 \<times> u64) \<times> bloom_filter) outcome" where
  "bloom_set_bit lib item k_i = (\<lambda>(hashes, bits).
     case bloom_hash lib hashes item k_i of (hash, hashes) \<Rightarrow>
       let bit_offset = unat hash mod BITVEC_BITS
       in bind_outcome (set_panic bit_offset True bits) (\<lambda>bits. Inr (hashes, bits)))"

definition bloom_set :: "bloom_lib \<Rightarrow> felt \<Rightarrow> bloom_filter \<Rightarrow> bloom_filter outcome" where
  "bloom_set lib item bits =
     bind_outcome (fold_outcome (bloom_set_bit lib item) [0..<K_NUM] ((0, 0), bits)) (\<lambda>(_, bits). Inr bits)"

definition index_for_key :: "bloom_lib \<Rightarrow> felt \<Rightarrow> nat \<Rightarrow> (u64 \<times> u64) \<times> nat list \<Rightarrow> (u64 \<times> u64) \<times> nat list" where
  "index_for_key lib key k_i = (\<lambda>(hashes, indices).
     case bloom_hash lib hashes key k_i of (hash, hashes) \<Rightarrow> (hashes, indices @ [unat hash mod BITVEC_BITS]))"

definition indices_for_key :: "bloom_lib \<Rightarrow> felt \<Rightarrow> nat list" where
  "indices_for_key lib key = snd (fold (index_for_key lib key) [0..<K_NUM] ((0, 0), []))"

section \<open>Ranges of blocks\<close>

text \<open>\<^verbatim>\<open>BlockRange\<close>: a byte array of \<open>BLOCK_RANGE_BYTES\<close> bytes.\<close>

type_synonym block_range = "u8 list"

definition range_EMPTY :: block_range where
  "range_EMPTY = replicate BLOCK_RANGE_BYTES 0"

definition range_FULL :: block_range where
  "range_FULL = replicate BLOCK_RANGE_BYTES 0xFF"

definition range_copy_from_slice :: "u8 list \<Rightarrow> block_range outcome" where
  "range_copy_from_slice s = (if length s = BLOCK_RANGE_BYTES then Inr s else Inl (Panic ''assertion failed''))"

definition range_set :: "nat \<Rightarrow> bool \<Rightarrow> block_range \<Rightarrow> block_range outcome" where
  "range_set idx value r =
     (if idx < unat AGGREGATE_BLOOM_BLOCK_RANGE_LEN then
        let byte_idx = idx div 8; bit_idx = idx mod 8
        in if value then set_panic byte_idx (r ! byte_idx OR push_bit (7 - bit_idx) 1) r
           else set_panic byte_idx (r ! byte_idx AND NOT (push_bit (7 - bit_idx) 1)) r
      else Inl (Panic ''assertion failed''))"

definition range_iter_val :: "bool \<Rightarrow> block_range \<Rightarrow> nat list" where
  "range_iter_val val r = concat (map (\<lambda>(byte_idx, byte).
     List.map_filter (\<lambda>bit_idx. if drop_bit (7 - bit_idx) byte AND 1 = (if val then 1 else 0)
       then Some (byte_idx * 8 + bit_idx) else None) [0..<8]) (List.enumerate 0 r))"

definition range_iter_ones :: "block_range \<Rightarrow> nat list" where
  "range_iter_ones r = range_iter_val True r"

definition range_iter_zeros :: "block_range \<Rightarrow> nat list" where
  "range_iter_zeros r = range_iter_val False r"

definition range_and :: "block_range \<Rightarrow> block_range \<Rightarrow> block_range" where
  "range_and a b = map2 (AND) a b"

definition range_or :: "block_range \<Rightarrow> block_range \<Rightarrow> block_range" where
  "range_or a b = map2 (OR) a b"

section \<open>The aggregate\<close>

definition agg_from_parts :: "block_number \<Rightarrow> block_number \<Rightarrow> u8 list \<Rightarrow> aggregate_bloom outcome" where
  "agg_from_parts from_block to_block bitmap =
     bind_outcome (bind_outcome (block_add from_block AGGREGATE_BLOOM_BLOCK_RANGE_LEN) (\<lambda>b. block_sub b 1)) (\<lambda>last.
       if last \<noteq> to_block \<or> length bitmap \<noteq> BLOCK_RANGE_BYTES * BITVEC_BITS then Inl (Panic ''assertion failed'')
       else Inr \<lparr> agg_bitmap = bitmap, agg_from_block = from_block, agg_to_block = to_block \<rparr>)"

definition agg_new :: "block_number \<Rightarrow> aggregate_bloom outcome" where
  "agg_new from_block =
     bind_outcome (bind_outcome (block_add from_block AGGREGATE_BLOOM_BLOCK_RANGE_LEN) (\<lambda>b. block_sub b 1)) (\<lambda>to_block.
       agg_from_parts from_block to_block (replicate (BLOCK_RANGE_BYTES * BITVEC_BITS) 0))"

definition agg_from_existing_compressed :: "bloom_lib \<Rightarrow> block_number \<Rightarrow> block_number \<Rightarrow> u8 list \<Rightarrow> aggregate_bloom outcome" where
  "agg_from_existing_compressed lib from_block to_block compressed_bitmap =
     bind_outcome (expect_some ''Decompressing aggregate Bloom filter''
       (zstd_decompress lib compressed_bitmap (BLOCK_RANGE_BYTES * BITVEC_BITS)))
       (agg_from_parts from_block to_block)"

definition agg_compress_bitmap :: "bloom_lib \<Rightarrow> aggregate_bloom \<Rightarrow> u8 list outcome" where
  "agg_compress_bitmap lib a = expect_some ''Compressing aggregate Bloom filter'' (zstd_compress lib 10 (agg_bitmap a))"

definition agg_insert_bit :: "nat \<Rightarrow> nat \<Rightarrow> nat \<Rightarrow> u8 \<Rightarrow> nat \<Rightarrow> u8 list \<Rightarrow> u8 list outcome" where
  "agg_insert_bit byte_idx bit_idx row_idx_base bloom_byte offset bitmap =
     (let row_idx = (row_idx_base + offset) * BLOCK_RANGE_BYTES;
          bitmap_idx = row_idx + byte_idx;
          b = drop_bit (7 - offset) bloom_byte AND 1
      in set_panic bitmap_idx (bitmap ! bitmap_idx OR push_bit (7 - bit_idx) b) bitmap)"

definition agg_insert :: "bloom_filter \<Rightarrow> block_number \<Rightarrow> aggregate_bloom \<Rightarrow> aggregate_bloom outcome" where
  "agg_insert bloom block a =
     (if agg_from_block a \<le> block \<and> block \<le> agg_to_block a then
        let bloom_bytes = bloom_into_bytes bloom;
            relative_block_number = unat (block - agg_from_block a);
            byte_idx = relative_block_number div 8;
            bit_idx = relative_block_number mod 8
        in bind_outcome (fold_outcome (\<lambda>(i, bloom_byte).
               fold_outcome (agg_insert_bit byte_idx bit_idx (8 * i) bloom_byte) [0..<8])
             (filter (\<lambda>(_, b). b \<noteq> 0) (List.enumerate 0 bloom_bytes)) (agg_bitmap a))
           (\<lambda>bitmap. Inr (a\<lparr> agg_bitmap := bitmap \<rparr>))
      else Inl (Panic ''Block number is not in the range''))"

definition agg_matches_for_key :: "bloom_lib \<Rightarrow> aggregate_bloom \<Rightarrow> felt \<Rightarrow> block_range outcome" where
  "agg_matches_for_key lib a k = fold_outcome (\<lambda>row_idx matches_for_key.
     bind_outcome (slice_range (agg_bitmap a) (row_idx * BLOCK_RANGE_BYTES) BLOCK_RANGE_BYTES) (\<lambda>row.
     bind_outcome (range_copy_from_slice row) (\<lambda>block_range.
       Inr (range_and matches_for_key block_range)))) (indices_for_key lib k) range_FULL"

definition blocks_for_keys :: "bloom_lib \<Rightarrow> aggregate_bloom \<Rightarrow> felt list \<Rightarrow> block_range outcome" where
  "blocks_for_keys lib a keys =
     (if keys = [] then Inr range_FULL
      else fold_outcome (\<lambda>k block_matches. bind_outcome (agg_matches_for_key lib a k)
        (\<lambda>matches_for_key. Inr (range_or block_matches matches_for_key))) keys range_EMPTY)"

section \<open>The cache\<close>

definition cache_reset :: bloom_cache where
  "cache_reset = []"

text \<open>
  The ranges of \<^verbatim>\<open>get_many\<close>: the words of the sums are checked, and a block number above the maximum
  panics.
\<close>

definition cache_ranges :: "block_number \<Rightarrow> block_number \<Rightarrow> cache_key list outcome" where
  "cache_ranges from_block to_block =
     (let len = unat AGGREGATE_BLOOM_BLOCK_RANGE_LEN;
          from_block_aligned = unat from_block - unat from_block mod len;
          to_block_aligned = unat to_block + len - unat to_block mod len - 1
      in if 2 ^ 64 \<le> unat to_block + len then Inl (Panic ''attempt to add with overflow'')
         else map_outcome (\<lambda>i.
           let start = from_block_aligned + i * len; stop = start + len - 1
           in if 2 ^ 64 \<le> start + len then Inl (Panic ''attempt to add with overflow'')
              else if unat i64_max < stop then Inl (Panic ''Invalid constant'')
              else Inr (of_nat start, of_nat stop))
           [0..<(if from_block_aligned \<le> to_block_aligned then (to_block_aligned - from_block_aligned) div len + 1 else 0)])"

definition cache_get_many :: "bloom_lib \<Rightarrow> block_number \<Rightarrow> block_number \<Rightarrow> bloom_cache \<Rightarrow> (aggregate_bloom list \<times> bloom_cache) outcome" where
  "cache_get_many lib from_block to_block cache =
     bind_outcome (cache_ranges from_block to_block) (\<lambda>ranges.
       Inr (fold (\<lambda>k (found, cache). (found @ (case map_of cache k of None \<Rightarrow> [] | Some f \<Rightarrow> [f]), cache_touch lib k cache))
         ranges ([], cache)))"

definition cache_set_many :: "bloom_lib \<Rightarrow> aggregate_bloom list \<Rightarrow> bloom_cache \<Rightarrow> bloom_cache" where
  "cache_set_many lib filters cache =
     fold (\<lambda>f. cache_set lib (agg_from_block f, agg_to_block f) f) filters cache"

end
