(* ===== verification/TransactionTables.thy ===== *)
theory TransactionTables
  imports Bloom
begin

text \<open>
  Transactions, receipts and events of the stored blocks: the tables \<^verbatim>\<open>transactions\<close>,
  \<^verbatim>\<open>transaction_hashes\<close> and \<^verbatim>\<open>event_filters\<close>, the running event filter and the methods of \<^verbatim>\<open>Transaction\<close> in
  \<^verbatim>\<open>crates/storage/src/connection/transaction.rs\<close> and the writers of \<^verbatim>\<open>event.rs\<close>. The storage never looks into
  a transaction beyond its hash: a transaction with its receipt is a hash and a payload. The blobs are
  made with bincode and zstd, which are arguments.
\<close>

section \<open>Data\<close>

record event =
  ev_data :: "felt list"
  ev_from_address :: felt
  ev_keys :: "felt list"

type_synonym transaction = "felt \<times> u8 list"

record block_lib =
  bl_bloom :: bloom_lib
  encode_events :: "event list list \<Rightarrow> u8 list option"
  decode_events :: "u8 list \<Rightarrow> event list list option"
  encode_transactions :: "transaction list \<Rightarrow> u8 list option"
  decode_transactions :: "u8 list \<Rightarrow> transaction list option"

record running_event_filter =
  rf_filter :: aggregate_bloom
  rf_next_block :: block_number

record block_db =
  bd_transactions :: "(block_number \<times> u8 list \<times> u8 list option) list"
  bd_transaction_hashes :: "(felt \<times> block_number \<times> u64) list"
  bd_event_filters :: "(cache_key \<times> u8 list) list"
  bd_running_row :: "block_number \<times> block_number \<times> u8 list \<times> block_number"
  running_filter :: running_event_filter
  filter_cache :: bloom_cache

section \<open>The filter of a block\<close>

definition EVENT_KEY_FILTER_LIMIT :: nat where
  "EVENT_KEY_FILTER_LIMIT = 16"

text \<open>\<^verbatim>\<open>key.as_mut_be_bytes()[0] |= (i as u8) << 4\<close>\<close>

definition key_with_idx :: "nat \<Rightarrow> felt \<Rightarrow> felt" where
  "key_with_idx i key = key[0 := key ! 0 OR push_bit 4 (of_nat i)]"

definition bloom_set_address :: "bloom_lib \<Rightarrow> felt \<Rightarrow> bloom_filter \<Rightarrow> bloom_filter outcome" where
  "bloom_set_address lib address bits = bloom_set lib address bits"

definition bloom_set_keys :: "bloom_lib \<Rightarrow> felt list \<Rightarrow> bloom_filter \<Rightarrow> bloom_filter outcome" where
  "bloom_set_keys lib keys bits =
     fold_outcome (\<lambda>(i, key). bloom_set lib (key_with_idx i key)) (List.enumerate 0 (take EVENT_KEY_FILTER_LIMIT keys)) bits"

definition bloom_of_events :: "bloom_lib \<Rightarrow> event list \<Rightarrow> bloom_filter outcome" where
  "bloom_of_events lib events = fold_outcome (\<lambda>event bloom.
     bind_outcome (bloom_set_keys lib (ev_keys event) bloom) (bloom_set_address lib (ev_from_address event))) events bloom_new"

section \<open>The running filter\<close>

text \<open>\<^verbatim>\<open>ON CONFLICT DO UPDATE\<close> on the unique pair of blocks.\<close>

definition upsert_filter_row :: "cache_key \<Rightarrow> u8 list \<Rightarrow> (cache_key \<times> u8 list) list \<Rightarrow> (cache_key \<times> u8 list) list" where
  "upsert_filter_row k bitmap tbl =
     (if k \<in> set (map fst tbl) then map (\<lambda>(k', b). (k', if k' = k then bitmap else b)) tbl else tbl @ [(k, bitmap)])"

definition upsert_block_event_filters :: "bloom_lib \<Rightarrow> block_number \<Rightarrow> event list \<Rightarrow> block_db \<Rightarrow> block_db outcome" where
  "upsert_block_event_filters lib block events db =
     bind_outcome (bloom_of_events lib events) (\<lambda>bloom.
     bind_outcome (agg_insert bloom block (rf_filter (running_filter db))) (\<lambda>filter.
     bind_outcome (block_add block 1) (\<lambda>next_block.
       if block = agg_to_block filter then
         bind_outcome (agg_compress_bitmap lib filter) (\<lambda>bitmap.
         bind_outcome (agg_new next_block) (\<lambda>new_filter.
           Inr (db\<lparr> bd_event_filters := upsert_filter_row (agg_from_block filter, agg_to_block filter) bitmap (bd_event_filters db),
                    running_filter := \<lparr> rf_filter = new_filter, rf_next_block = next_block \<rparr> \<rparr>)))
       else Inr (db\<lparr> running_filter := \<lparr> rf_filter = filter, rf_next_block = next_block \<rparr> \<rparr>))))"

definition store_running_event_filter :: "bloom_lib \<Rightarrow> block_db \<Rightarrow> block_db outcome" where
  "store_running_event_filter lib db =
     (let running = running_filter db; f = rf_filter running
      in bind_outcome (agg_compress_bitmap lib f) (\<lambda>bitmap.
           Inr (db\<lparr> bd_running_row := (agg_from_block f, agg_to_block f, bitmap, rf_next_block running) \<rparr>)))"

text \<open>
  \<^verbatim>\<open>RunningEventFilter::rebuild\<close>. The rows of \<^verbatim>\<open>transactions\<close> come in the order of their key. The loop stops at
  the first block without events.
\<close>

fun rebuild_insert :: "(block_number \<times> bloom_filter) option list \<Rightarrow> aggregate_bloom \<Rightarrow> aggregate_bloom outcome" where
  "rebuild_insert [] a = Inr a"
| "rebuild_insert (None # rest) a = Inr a"
| "rebuild_insert (Some (block, bloom) # rest) a = bind_outcome (agg_insert bloom block a) (rebuild_insert rest)"

definition rebuild_filters :: "block_lib \<Rightarrow> block_number \<Rightarrow> block_db \<Rightarrow> (block_number \<times> bloom_filter) option list outcome" where
  "rebuild_filters lib first db = map_outcome (\<lambda>(block, _, events_blob).
       case events_blob of
         None \<Rightarrow> Inr None
       | Some blob \<Rightarrow>
           bind_outcome (context_some ''Deserializing events'' (decode_events lib blob)) (\<lambda>events.
           bind_outcome (bloom_of_events (bl_bloom lib) (concat events)) (\<lambda>bloom. Inr (Some (block, bloom)))))
     (sort_key fst (filter (\<lambda>(block, _). first \<le> block) (bd_transactions db)))"

definition last_filter_to_block :: "block_db \<Rightarrow> block_number option" where
  "last_filter_to_block db = map_option snd (latest_row (map fst (bd_event_filters db)))"

definition running_filter_rebuild_from :: "block_lib \<Rightarrow> block_number \<Rightarrow> block_number \<Rightarrow> block_db \<Rightarrow> running_event_filter outcome" where
  "running_filter_rebuild_from lib first latest db =
     (if \<not> first \<le> latest then Inl (Panic ''attempt to subtract with overflow'')
      else
        bind_outcome (rebuild_filters lib first db) (\<lambda>rebuilt.
        bind_outcome (agg_new first) (\<lambda>empty.
        bind_outcome (rebuild_insert rebuilt empty) (\<lambda>f.
        bind_outcome (block_add latest 1) (\<lambda>next_block.
          Inr \<lparr> rf_filter = f, rf_next_block = next_block \<rparr>)))))"

definition running_filter_rebuild :: "block_lib \<Rightarrow> block_number \<Rightarrow> block_db \<Rightarrow> running_event_filter outcome" where
  "running_filter_rebuild lib latest db = (case last_filter_to_block db of
       Some last_to_block \<Rightarrow>
         if last_to_block = latest then
           bind_outcome (block_add latest 1) (\<lambda>next_block.
           bind_outcome (agg_new next_block) (\<lambda>f. Inr \<lparr> rf_filter = f, rf_next_block = next_block \<rparr>))
         else
           bind_outcome (block_add last_to_block 1) (\<lambda>first. running_filter_rebuild_from lib first latest db)
     | None \<Rightarrow> running_filter_rebuild_from lib (latest - latest mod AGGREGATE_BLOOM_BLOCK_RANGE_LEN) latest db)"

definition running_filter_load :: "block_lib \<Rightarrow> header_table \<Rightarrow> block_db \<Rightarrow> running_event_filter outcome" where
  "running_filter_load lib hs db = (case header_block_number hs BlockLatest of
       None \<Rightarrow> bind_outcome (agg_new 0) (\<lambda>f. Inr \<lparr> rf_filter = f, rf_next_block = 0 \<rparr>)
     | Some latest \<Rightarrow> (case bd_running_row db of (from_block, to_block, bitmap, next_block) \<Rightarrow>
         bind_outcome (agg_from_existing_compressed (bl_bloom lib) from_block to_block bitmap) (\<lambda>f.
         bind_outcome (block_add latest 1) (\<lambda>expected_next.
           if next_block = expected_next then Inr \<lparr> rf_filter = f, rf_next_block = next_block \<rparr>
           else running_filter_rebuild lib latest db))))"

definition reset_in_memory_state :: "block_lib \<Rightarrow> block_number \<Rightarrow> block_db \<Rightarrow> block_db outcome" where
  "reset_in_memory_state lib head db =
     (let db = db\<lparr> filter_cache := cache_reset \<rparr>
      in bind_outcome (running_filter_rebuild lib head db) (\<lambda>rebuilt. Inr (db\<lparr> running_filter := rebuilt \<rparr>)))"

section \<open>Transactions\<close>

definition insert_transaction_hash :: "block_number \<Rightarrow> nat \<times> transaction \<Rightarrow> block_db \<Rightarrow> block_db outcome" where
  "insert_transaction_hash block = (\<lambda>(idx, hash, _) db.
     if 2 ^ 63 \<le> idx then Inl (Err ''out of range integral type conversion attempted'')
     else if hash \<in> set (map fst (bd_transaction_hashes db)) then Inl (Err ''UNIQUE constraint failed'')
     else Inr (db\<lparr> bd_transaction_hashes := bd_transaction_hashes db @ [(hash, block, of_nat idx)] \<rparr>))"

text \<open>Both tables refer to the header of the block, and a block has one row of transactions.\<close>

definition insert_transaction_data ::
  "block_lib \<Rightarrow> header_table \<Rightarrow> block_number \<Rightarrow> transaction list \<Rightarrow> event list list option \<Rightarrow> block_db \<Rightarrow> block_db outcome" where
  "insert_transaction_data lib hs block txs events db =
     bind_outcome (case events of
         Some events \<Rightarrow> upsert_block_event_filters (bl_bloom lib) block (concat events) db
       | None \<Rightarrow> Inr db) (\<lambda>db.
     if txs = [] \<and> (case events of None \<Rightarrow> True | Some events \<Rightarrow> events = []) then Inr db
     else if txs \<noteq> [] \<and> \<not> header_block_exists hs (BlockNumber block) then Inl (Err ''FOREIGN KEY constraint failed'')
     else
       bind_outcome (fold_outcome (insert_transaction_hash block) (List.enumerate 0 txs) db) (\<lambda>db.
       bind_outcome (context_some ''Serializing transaction'' (encode_transactions lib txs)) (\<lambda>transactions.
       bind_outcome (case events of
           None \<Rightarrow> Inr None
         | Some events \<Rightarrow> bind_outcome (context_some ''Serializing events'' (encode_events lib events)) (\<lambda>blob. Inr (Some blob)))
         (\<lambda>encoded_events.
       if \<not> header_block_exists hs (BlockNumber block) then Inl (Err ''FOREIGN KEY constraint failed'')
       else if block \<in> set (map fst (bd_transactions db)) then Inl (Err ''UNIQUE constraint failed'')
       else Inr (db\<lparr> bd_transactions := bd_transactions db @ [(block, transactions, encoded_events)] \<rparr>)))))"

definition update_events :: "block_lib \<Rightarrow> block_number \<Rightarrow> event list list \<Rightarrow> block_db \<Rightarrow> block_db outcome" where
  "update_events lib block events db =
     bind_outcome (context_some ''Serializing events'' (encode_events lib events)) (\<lambda>blob.
       upsert_block_event_filters (bl_bloom lib) block (concat events)
         (db\<lparr> bd_transactions := map (\<lambda>(b, txs, evs). (b, txs, if b = block then Some blob else evs)) (bd_transactions db) \<rparr>))"

definition query_transactions_by_block :: "block_lib \<Rightarrow> block_number \<Rightarrow> block_db \<Rightarrow> transaction list outcome" where
  "query_transactions_by_block lib block db = (case map_of (bd_transactions db) block of
       None \<Rightarrow> Inr []
     | Some (blob, _) \<Rightarrow> context_some ''Deserializing transactions'' (decode_transactions lib blob))"

definition query_transaction_infos_by_block :: "block_number \<Rightarrow> block_db \<Rightarrow> (felt \<times> u64) list" where
  "query_transaction_infos_by_block block db =
     sort_key snd (List.map_filter (\<lambda>(hash, b, idx). if b = block then Some (hash, idx) else None) (bd_transaction_hashes db))"

definition query_events_by_block :: "block_lib \<Rightarrow> block_number \<Rightarrow> block_db \<Rightarrow> event list list option outcome" where
  "query_events_by_block lib block db = (case map_of (bd_transactions db) block of
       None \<Rightarrow> Inr None
     | Some (_, None) \<Rightarrow> Inr None
     | Some (_, Some blob) \<Rightarrow>
         bind_outcome (context_some ''Deserializing events'' (decode_events lib blob)) (\<lambda>events. Inr (Some events)))"

definition query_transactions_and_events_by_block ::
  "block_lib \<Rightarrow> block_number \<Rightarrow> block_db \<Rightarrow> (transaction list \<times> event list list) outcome" where
  "query_transactions_and_events_by_block lib block db = (case map_of (bd_transactions db) block of
       None \<Rightarrow> Inr ([], [])
     | Some (txs, events) \<Rightarrow>
         bind_outcome (context_some ''Deserializing transactions'' (decode_transactions lib txs)) (\<lambda>txs.
         bind_outcome (case events of
             None \<Rightarrow> Inr []
           | Some blob \<Rightarrow> context_some ''Deserializing events'' (decode_events lib blob)) (\<lambda>events.
           Inr (txs, events))))"

text \<open>The join of \<^verbatim>\<open>transactions\<close> and \<^verbatim>\<open>transaction_hashes\<close> on the block, for a hash.\<close>

definition query_transaction_by_hash :: "block_lib \<Rightarrow> felt \<Rightarrow> block_db \<Rightarrow> (block_number \<times> transaction) option outcome" where
  "query_transaction_by_hash lib hash db = (case map_of (bd_transaction_hashes db) hash of
       None \<Rightarrow> Inr None
     | Some (block, idx) \<Rightarrow> (case map_of (bd_transactions db) block of
           None \<Rightarrow> Inr None
         | Some (blob, _) \<Rightarrow>
             bind_outcome (context_some ''Deserializing transactions'' (decode_transactions lib blob)) (\<lambda>txs.
               if unat idx < length txs then Inr (Some (block, txs ! unat idx)) else Inl (Err ''Transaction not found''))))"

definition query_transaction_and_events_by_hash ::
  "block_lib \<Rightarrow> felt \<Rightarrow> block_db \<Rightarrow> (block_number \<times> transaction \<times> event list option) option outcome" where
  "query_transaction_and_events_by_hash lib hash db = (case map_of (bd_transaction_hashes db) hash of
       None \<Rightarrow> Inr None
     | Some (block, idx) \<Rightarrow> (case map_of (bd_transactions db) block of
           None \<Rightarrow> Inr None
         | Some (blob, events_blob) \<Rightarrow>
             bind_outcome (context_some ''Deserializing transactions'' (decode_transactions lib blob)) (\<lambda>txs.
             bind_outcome (case events_blob of
                 None \<Rightarrow> Inr None
               | Some blob \<Rightarrow> bind_outcome (context_some ''Deserializing events'' (decode_events lib blob)) (\<lambda>events. Inr (Some events)))
               (\<lambda>events.
             if \<not> unat idx < length txs then Inl (Err ''Transaction not found'')
             else (case events of
                 None \<Rightarrow> Inr (Some (block, txs ! unat idx, None))
               | Some events \<Rightarrow>
                   if unat idx < length events then Inr (Some (block, txs ! unat idx, Some (events ! unat idx)))
                   else Inl (Err ''Events missing''))))))"

definition tx_transaction :: "block_lib \<Rightarrow> felt \<Rightarrow> block_db \<Rightarrow> transaction option outcome" where
  "tx_transaction lib hash db =
     bind_outcome (query_transaction_by_hash lib hash db) (\<lambda>found. Inr (map_option snd found))"

definition transaction_with_receipt :: "block_lib \<Rightarrow> felt \<Rightarrow> block_db \<Rightarrow> (transaction \<times> event list \<times> block_number) option outcome" where
  "transaction_with_receipt lib hash db =
     bind_outcome (query_transaction_and_events_by_hash lib hash db) (\<lambda>found. case found of
         None \<Rightarrow> Inr None
       | Some (block, tx, events) \<Rightarrow>
           bind_outcome (context_some ''Events missing'' events) (\<lambda>events. Inr (Some (tx, events, block))))"

definition transaction_at_block :: "block_lib \<Rightarrow> header_table \<Rightarrow> block_id \<Rightarrow> nat \<Rightarrow> block_db \<Rightarrow> transaction option outcome" where
  "transaction_at_block lib hs block index db = (case header_block_number hs block of
       None \<Rightarrow> Inr None
     | Some number \<Rightarrow> bind_outcome (query_transactions_by_block lib number db) (\<lambda>txs.
         Inr (if index < length txs then Some (txs ! index) else None)))"

definition transaction_count :: "block_lib \<Rightarrow> header_table \<Rightarrow> block_id \<Rightarrow> block_db \<Rightarrow> nat outcome" where
  "transaction_count lib hs block db = (case header_block_number hs block of
       None \<Rightarrow> Inr 0
     | Some number \<Rightarrow> bind_outcome (query_transactions_by_block lib number db) (\<lambda>txs. Inr (length txs)))"

definition transaction_data_for_block ::
  "block_lib \<Rightarrow> header_table \<Rightarrow> block_id \<Rightarrow> block_db \<Rightarrow> (transaction \<times> event list) list option outcome" where
  "transaction_data_for_block lib hs block db = (case header_block_number hs block of
       None \<Rightarrow> Inr None
     | Some number \<Rightarrow> bind_outcome (query_transactions_and_events_by_block lib number db) (\<lambda>(txs, events). Inr (Some (zip txs events))))"

definition transactions_for_block :: "block_lib \<Rightarrow> header_table \<Rightarrow> block_id \<Rightarrow> block_db \<Rightarrow> transaction list option outcome" where
  "transactions_for_block lib hs block db = (case header_block_number hs block of
       None \<Rightarrow> Inr None
     | Some number \<Rightarrow> bind_outcome (query_transactions_by_block lib number db) (\<lambda>txs. Inr (Some txs)))"

definition transaction_hashes_for_block :: "header_table \<Rightarrow> block_id \<Rightarrow> block_db \<Rightarrow> felt list option" where
  "transaction_hashes_for_block hs block db = (case header_block_number hs block of
       None \<Rightarrow> None
     | Some number \<Rightarrow> Some (map fst (query_transaction_infos_by_block number db)))"

definition transaction_block_hash :: "header_table \<Rightarrow> felt \<Rightarrow> block_db \<Rightarrow> felt option" where
  "transaction_block_hash hs hash db = (case map_of (bd_transaction_hashes db) hash of
       None \<Rightarrow> None
     | Some (block, _) \<Rightarrow> map_option hd_hash (find (\<lambda>h. hd_number h = block) hs))"

definition delete_transactions_before :: "block_number \<Rightarrow> block_db \<Rightarrow> block_db" where
  "delete_transactions_before block db = db\<lparr> bd_transactions := filter (\<lambda>(b, _). \<not> b < block) (bd_transactions db) \<rparr>"

definition delete_transaction_hashes_before :: "block_number \<Rightarrow> block_db \<Rightarrow> block_db" where
  "delete_transaction_hashes_before block db =
     db\<lparr> bd_transaction_hashes := filter (\<lambda>(_, b, _). \<not> b < block) (bd_transaction_hashes db) \<rparr>"

definition first_block_without_transactions :: "header_table \<Rightarrow> block_db \<Rightarrow> block_number option" where
  "first_block_without_transactions hs db =
     earliest_block_number (filter (\<lambda>h. hd_number h \<notin> set (map fst (bd_transactions db))) hs)"

text \<open>
  An empty list of events stands for missing events: a block with transactions and without events is an
  error.
\<close>

definition events_for_block ::
  "block_lib \<Rightarrow> header_table \<Rightarrow> block_id \<Rightarrow> block_db \<Rightarrow> ((felt \<times> u64) \<times> event list) list option outcome" where
  "events_for_block lib hs block db = (case header_block_number hs block of
       None \<Rightarrow> Inr None
     | Some number \<Rightarrow>
         bind_outcome (query_events_by_block lib number db) (\<lambda>found.
         let events = (case found of None \<Rightarrow> [] | Some events \<Rightarrow> events);
             infos = query_transaction_infos_by_block number db
         in if length events \<noteq> length infos then Inl (Err ''Event list and transaction list mismatch'')
            else Inr (Some (zip infos events))))"

end
