(* ===== verification/EventStore.thy ===== *)
theory EventStore
  imports TransactionTables
begin

text \<open>
  The queries for events, \<^verbatim>\<open>crates/storage/src/connection/event.rs\<close>: the blocks an aggregate filter reports for
  the constraints of a query, the filters of a range of blocks, and the two queries, one for all events
  of a range and one for a page of them with a token to continue.
\<close>

section \<open>Constraints\<close>

record event_constraints =
  ec_from_block :: "block_number option"
  ec_to_block :: "block_number option"
  ec_contract_addresses :: "felt list"
  ec_keys :: "felt list list"
  ec_page_size :: nat
  ec_offset :: nat

record emitted_event =
  em_from_address :: felt
  em_data :: "felt list"
  em_keys :: "felt list"
  em_block_hash :: felt
  em_block_number :: block_number
  em_transaction_hash :: felt
  em_transaction_index :: u64
  em_event_index :: u64

record continuation_token =
  ct_block_number :: block_number
  ct_offset :: nat

record page_of_events =
  pe_events :: "emitted_event list"
  pe_token :: "continuation_token option"

datatype event_filter_error = Internal fault | PageSizeTooSmall

text \<open>\<^verbatim>\<open>usize::MAX\<close>\<close>

definition usize_max :: nat where
  "usize_max = 2 ^ 64 - 1"

section \<open>Blocks that may match\<close>

definition check_addresses :: "bloom_lib \<Rightarrow> felt list \<Rightarrow> aggregate_bloom \<Rightarrow> block_range outcome" where
  "check_addresses lib addresses a = (if addresses = [] then Inr range_FULL else blocks_for_keys lib a addresses)"

fun check_keys_loop :: "bloom_lib \<Rightarrow> aggregate_bloom \<Rightarrow> (nat \<times> felt list) list \<Rightarrow> block_range \<Rightarrow> block_range outcome" where
  "check_keys_loop lib a [] result = Inr result"
| "check_keys_loop lib a ((idx, key_group) # rest) result =
     bind_outcome (blocks_for_keys lib a (map (key_with_idx idx) key_group)) (\<lambda>blocks_for_key.
       if blocks_for_key = range_EMPTY then Inr range_EMPTY
       else check_keys_loop lib a rest (range_and result blocks_for_key))"

definition check_keys :: "bloom_lib \<Rightarrow> felt list list \<Rightarrow> aggregate_bloom \<Rightarrow> block_range outcome" where
  "check_keys lib keys a =
     (if keys = [] \<or> list_ex (\<lambda>k. k = []) keys then Inr range_FULL
      else check_keys_loop lib a (List.enumerate 0 keys) range_FULL)"

definition agg_check :: "bloom_lib \<Rightarrow> felt list \<Rightarrow> felt list list \<Rightarrow> aggregate_bloom \<Rightarrow> block_number list outcome" where
  "agg_check lib addresses keys a =
     bind_outcome (check_addresses lib addresses a) (\<lambda>addr_blocks.
     bind_outcome (check_keys lib keys a) (\<lambda>keys_blocks.
       map_outcome (\<lambda>offset. block_add (agg_from_block a) (of_nat offset)) (range_iter_ones (range_and addr_blocks keys_blocks))))"

section \<open>The filters of a range\<close>

definition should_include_running :: "aggregate_bloom list \<Rightarrow> block_number \<Rightarrow> aggregate_bloom \<Rightarrow> bool outcome" where
  "should_include_running filters end_block running =
     (if filters = [] then Inr True
      else bind_outcome (block_add (agg_to_block (last filters)) 1) (\<lambda>next.
        Inr (next = agg_from_block running \<and> agg_to_block (last filters) < end_block)))"

definition load_event_filter_range ::
  "bloom_lib \<Rightarrow> block_number \<Rightarrow> block_number \<Rightarrow> block_db \<Rightarrow> (aggregate_bloom list \<times> block_db) outcome" where
  "load_event_filter_range lib start_block end_block db =
     bind_outcome (cache_get_many lib start_block end_block (filter_cache db)) (\<lambda>(cached_filters, cache).
     if list_ex (\<lambda>f. i64_max < agg_from_block f) cached_filters then Inl (Panic ''BlockNumber is always <= i64::MAX'')
     else
       bind_outcome (map_outcome (\<lambda>((from_block, to_block), bitmap). agg_from_existing_compressed lib from_block to_block bitmap)
         (sort_key (fst \<circ> fst) (filter (\<lambda>((from_block, to_block), _).
            from_block \<le> end_block \<and> start_block \<le> to_block \<and> from_block \<notin> set (map agg_from_block cached_filters))
            (bd_event_filters db)))) (\<lambda>loaded.
       let cache = cache_set_many lib loaded cache;
           event_filters = sort_key agg_from_block (loaded @ cached_filters);
           running = rf_filter (running_filter db)
       in bind_outcome (should_include_running event_filters end_block running) (\<lambda>include.
            Inr (if include then event_filters @ [running] else event_filters, db\<lparr> filter_cache := cache \<rparr>))))"

definition next_block_without_events :: "block_db \<Rightarrow> block_number" where
  "next_block_without_events db = rf_next_block (running_filter db)"

section \<open>Events of a block\<close>

text \<open>The events of a block with their index in the transaction and the hash and index of the transaction.\<close>

definition numbered_events :: "((felt \<times> u64) \<times> event list) list \<Rightarrow> (event \<times> nat \<times> felt \<times> u64) list" where
  "numbered_events events = concat (map (\<lambda>(tx_info, events). map (\<lambda>(idx, event). (event, idx, tx_info)) (List.enumerate 0 events)) events)"

definition address_matches :: "felt list \<Rightarrow> event \<Rightarrow> bool" where
  "address_matches addresses event \<longleftrightarrow> addresses = [] \<or> ev_from_address event \<in> set addresses"

definition keys_match :: "felt list list \<Rightarrow> event \<Rightarrow> bool" where
  "keys_match keys event \<longleftrightarrow>
     length (concat keys) = 0 \<or>
     \<not> length (ev_keys event) < length keys \<and> (\<forall>(key, filter_keys) \<in> set (zip (ev_keys event) keys). filter_keys = [] \<or> key \<in> set filter_keys)"

definition emit :: "block_header \<Rightarrow> event \<times> nat \<times> felt \<times> u64 \<Rightarrow> emitted_event" where
  "emit header = (\<lambda>(event, idx, tx_hash, tx_index). \<lparr>
     em_from_address = ev_from_address event, em_data = ev_data event, em_keys = ev_keys event, em_block_hash = hd_hash header,
     em_block_number = hd_number header, em_transaction_hash = tx_hash, em_transaction_index = tx_index, em_event_index = of_nat idx \<rparr>)"

definition matching_events :: "felt list \<Rightarrow> felt list list \<Rightarrow> block_header \<Rightarrow> ((felt \<times> u64) \<times> event list) list \<Rightarrow> emitted_event list" where
  "matching_events addresses keys header events =
     map (emit header) (filter (\<lambda>(event, _). keys_match keys event) (filter (\<lambda>(event, _). address_matches addresses event) (numbered_events events)))"

section \<open>All events of a range\<close>

definition truncate_keys :: "felt list list \<Rightarrow> felt list list" where
  "truncate_keys keys = (if list_ex (\<lambda>k. k \<noteq> []) keys then rev (dropWhile (\<lambda>k. k = []) (rev keys)) else keys)"

fun scan_blocks ::
  "block_lib \<Rightarrow> header_table \<Rightarrow> felt list \<Rightarrow> felt list list \<Rightarrow> block_db \<Rightarrow> block_number list \<Rightarrow> emitted_event list \<Rightarrow> emitted_event list outcome" where
  "scan_blocks lib hs addresses keys db [] emitted = Inr emitted"
| "scan_blocks lib hs addresses keys db (block # blocks) emitted =
     (case header_at hs (BlockNumber block) of
        None \<Rightarrow> Inr emitted
      | Some header \<Rightarrow>
          bind_outcome (events_for_block lib hs (BlockNumber block) db) (\<lambda>found. case found of
              None \<Rightarrow> Inr emitted
            | Some events \<Rightarrow> scan_blocks lib hs addresses keys db blocks (emitted @ matching_events addresses keys header events)))"

definition events_in_range ::
  "block_lib \<Rightarrow> header_table \<Rightarrow> block_number \<Rightarrow> block_number \<Rightarrow> felt list \<Rightarrow> felt list list \<Rightarrow> block_db
     \<Rightarrow> ((emitted_event list \<times> block_number option) \<times> block_db) outcome" where
  "events_in_range lib hs from_block to_block addresses keys db = (case header_block_number hs BlockLatest of
       None \<Rightarrow> Inr (([], None), db)
     | Some latest_block \<Rightarrow>
         if latest_block < from_block then Inr (([], None), db)
         else
           let to_block = min to_block latest_block; keys = truncate_keys keys
           in bind_outcome (load_event_filter_range (bl_bloom lib) from_block to_block db) (\<lambda>(event_filters, db).
              bind_outcome (map_outcome (agg_check (bl_bloom lib) addresses keys) event_filters) (\<lambda>checked.
              let blocks_to_scan = filter (\<lambda>block. from_block \<le> block \<and> block \<le> to_block) (concat checked)
              in bind_outcome (scan_blocks lib hs addresses keys db blocks_to_scan []) (\<lambda>emitted.
                   Inr ((emitted, Some to_block), db)))))"

section \<open>A page of events\<close>

definition continuation_token_of :: "emitted_event list \<Rightarrow> continuation_token \<Rightarrow> continuation_token option" where
  "continuation_token_of events previous_token =
     (if events = [] then None
      else
        let last_block_number = em_block_number (last events);
            number_of_events_in_last_block = length (takeWhile (\<lambda>event. em_block_number event = last_block_number) (rev events))
        in Some (if number_of_events_in_last_block < length events
             then \<lparr> ct_block_number = last_block_number, ct_offset = number_of_events_in_last_block \<rparr>
             else \<lparr> ct_block_number = ct_block_number previous_token, ct_offset = ct_offset previous_token + length events \<rparr>))"

text \<open>
  The loop over the blocks: it ends with a full page (\<open>Inl\<close>) or with the events of all blocks (\<open>Inr\<close>). The
  second argument counts the events that are still to be skipped.
\<close>

fun page_loop ::
  "block_lib \<Rightarrow> header_table \<Rightarrow> event_constraints \<Rightarrow> block_number \<Rightarrow> block_db \<Rightarrow> block_number list \<Rightarrow> nat \<Rightarrow> emitted_event list
     \<Rightarrow> (page_of_events + emitted_event list) outcome" where
  "page_loop lib hs constraints from_block db [] offset emitted = Inr (Inr emitted)"
| "page_loop lib hs constraints from_block db (block # blocks) offset emitted =
     (if ec_page_size constraints = usize_max then Inl (Panic ''attempt to add with overflow'')
      else let events_required = ec_page_size constraints + 1 - length emitted
      in bind_outcome (expect_some ''Only existing blocks should be scanned'' (header_at hs (BlockNumber block))) (\<lambda>header.
         bind_outcome (events_for_block lib hs (BlockNumber block) db) (\<lambda>found. case found of
             None \<Rightarrow> Inr (Inl \<lparr> pe_events = emitted, pe_token = None \<rparr>)
           | Some events \<Rightarrow>
               let matching = matching_events (ec_contract_addresses constraints) (ec_keys constraints) header events;
                   emitted = emitted @ take events_required (drop offset matching)
               in if ec_page_size constraints < length emitted then
                    bind_outcome (expect_some ''unwrap on None'' (continuation_token_of emitted
                        \<lparr> ct_block_number = from_block, ct_offset = ec_offset constraints \<rparr>)) (\<lambda>token.
                      Inr (Inl \<lparr> pe_events = take (ec_page_size constraints) emitted,
                        pe_token = Some (token\<lparr> ct_offset := ct_offset token - 1 \<rparr>) \<rparr>))
                  else page_loop lib hs constraints from_block db blocks (offset - length matching) emitted)))"

definition events_page ::
  "block_lib \<Rightarrow> header_table \<Rightarrow> event_constraints \<Rightarrow> block_number \<Rightarrow> block_number \<Rightarrow> block_number \<Rightarrow> block_db
     \<Rightarrow> (page_of_events \<times> block_db) outcome" where
  "events_page lib hs constraints from_block to_block to_block_limited db =
     bind_outcome (load_event_filter_range (bl_bloom lib) from_block to_block_limited db) (\<lambda>(event_filters, db).
     bind_outcome (if event_filters = [] then Inl (Panic ''At least one filter is present'') else Inr (agg_to_block (last event_filters)))
       (\<lambda>last_to_block.
     let last_covered_block = min to_block_limited last_to_block
     in bind_outcome (map_outcome (agg_check (bl_bloom lib) (ec_contract_addresses constraints) (ec_keys constraints)) event_filters) (\<lambda>checked.
        let blocks_to_scan = filter (\<lambda>block. from_block \<le> block \<and> block \<le> last_covered_block) (concat checked)
        in bind_outcome (page_loop lib hs constraints from_block db blocks_to_scan (ec_offset constraints) []) (\<lambda>outcome. case outcome of
             Inl page \<Rightarrow> Inr (page, db)
           | Inr emitted \<Rightarrow>
               if last_covered_block < to_block then
                 bind_outcome (block_add last_covered_block 1) (\<lambda>next.
                   Inr (\<lparr> pe_events = emitted, pe_token = Some \<lparr> ct_block_number = next, ct_offset = 0 \<rparr> \<rparr>, db))
               else Inr (\<lparr> pe_events = emitted, pe_token = None \<rparr>, db)))))"

text \<open>
  \<^verbatim>\<open>events\<close>. With blockchain pruning, the first block of the constraints is replaced by the earliest block of
  the database. The block range limit is not zero.
\<close>

definition events_from_block :: "bool \<Rightarrow> header_table \<Rightarrow> event_constraints \<Rightarrow> block_number outcome" where
  "events_from_block pruning hs constraints = (case ec_from_block constraints of
       None \<Rightarrow> Inr 0
     | Some from_block \<Rightarrow>
         if pruning then expect_some ''There should be blocks in the database'' (earliest_block_number hs)
         else Inr from_block)"

definition tx_events ::
  "block_lib \<Rightarrow> bool \<Rightarrow> header_table \<Rightarrow> event_constraints \<Rightarrow> u64 \<Rightarrow> block_db \<Rightarrow> event_filter_error + (page_of_events \<times> block_db)" where
  "tx_events lib pruning hs constraints block_range_limit db =
     (if ec_page_size constraints < 1 then Inl PageSizeTooSmall
      else case header_block_number hs BlockLatest of
          None \<Rightarrow> Inr (\<lparr> pe_events = [], pe_token = None \<rparr>, db)
        | Some latest_block \<Rightarrow> map_sum Internal id
            (bind_outcome (events_from_block pruning hs constraints) (\<lambda>from_block.
             bind_outcome (bind_outcome (block_add from_block block_range_limit) (\<lambda>b. block_sub b 1)) (\<lambda>max_to_block.
               let to_block = (case ec_to_block constraints of Some to_block \<Rightarrow> min to_block latest_block | None \<Rightarrow> latest_block)
               in events_page lib hs constraints from_block to_block (min to_block max_to_block) db))))"

end
