(* ===== verification/Bloom_Correct.thy ===== *)
theory Bloom_Correct
  imports Bloom
begin

text \<open>
  Bloom filters have no false negatives: a key that was set is found at its block. The bit matrix of an
  aggregate, addressed by filter index and block, is the transposition of the filters of its blocks.
\<close>

section \<open>The filter of a block\<close>

definition set_bits :: "nat list \<Rightarrow> bloom_filter \<Rightarrow> bloom_filter" where
  "set_bits is bits = fold (\<lambda>i bits. bits[i := True]) is bits"

lemma length_set_bits [simp]: "length (set_bits is bits) = length bits"
  unfolding set_bits_def by (induction "is" arbitrary: bits) simp_all

lemma nth_set_bits: "j < length bits \<Longrightarrow> set_bits is bits ! j \<longleftrightarrow> bits ! j \<or> j \<in> set is"
proof (induction "is" arbitrary: bits)
  case (Cons a "is")
  then show ?case using Cons.IH [of "bits[a := True]"] by (cases "a = j") (simp_all add: set_bits_def)
qed (simp add: set_bits_def)

lemma bloom_loops:
  "\<exists>h' is. fold (index_for_key lib item) xs (h, sofar) = (h', sofar @ is) \<and> (\<forall>i \<in> set is. i < BITVEC_BITS) \<and>
     (length bits = BITVEC_BITS \<longrightarrow> fold_outcome (bloom_set_bit lib item) xs (h, bits) = Inr (h', set_bits is bits))"
proof (induction xs arbitrary: h sofar bits)
  case Nil
  show ?case by (rule exI [of _ h], rule exI [of _ "[]"]) (simp add: set_bits_def)
next
  case (Cons x xs)
  obtain hash h1 where h: "bloom_hash lib h item x = (hash, h1)" by (cases "bloom_hash lib h item x")
  let ?i = "unat hash mod BITVEC_BITS"
  have i: "?i < BITVEC_BITS" by (simp add: BITVEC_BITS_def)
  from Cons.IH [of h1 "sofar @ [?i]" "bits[?i := True]"] obtain h' "is" where
    "fold (index_for_key lib item) xs (h1, sofar @ [?i]) = (h', (sofar @ [?i]) @ is)" "\<forall>i \<in> set is. i < BITVEC_BITS"
    "length bits = BITVEC_BITS \<longrightarrow> fold_outcome (bloom_set_bit lib item) xs (h1, bits[?i := True]) = Inr (h', set_bits is (bits[?i := True]))"
    by auto
  moreover have "index_for_key lib item x (h, sofar) = (h1, sofar @ [?i])" by (simp add: index_for_key_def h)
  moreover have "length bits = BITVEC_BITS \<Longrightarrow> bloom_set_bit lib item x (h, bits) = Inr (h1, bits[?i := True])"
    using i by (simp add: bloom_set_bit_def h)
  ultimately show ?case using i by (intro exI [of _ h'] exI [of _ "?i # is"]) (simp add: set_bits_def)
qed

lemma indices_for_key_bound: "i \<in> set (indices_for_key lib key) \<Longrightarrow> i < BITVEC_BITS"
  using bloom_loops [of lib key "[0..<K_NUM]" "(0, 0)" "[]" "[]"] by (auto simp: indices_for_key_def)

lemma bloom_set_eq: "length bits = BITVEC_BITS \<Longrightarrow> bloom_set lib item bits = Inr (set_bits (indices_for_key lib item) bits)"
  using bloom_loops [of lib item "[0..<K_NUM]" "(0, 0)" "[]" bits] by (auto simp: bloom_set_def indices_for_key_def)

text \<open>The keys that a filter contains, false positives included.\<close>

definition bloom_has :: "bloom_lib \<Rightarrow> bloom_filter \<Rightarrow> felt \<Rightarrow> bool" where
  "bloom_has lib bits key \<longleftrightarrow> (\<forall>i \<in> set (indices_for_key lib key). bits ! i)"

lemma bloom_has_set:
  assumes "length bits = BITVEC_BITS" and "bloom_set lib item bits = Inr bits'"
  shows "length bits' = BITVEC_BITS" and "bloom_has lib bits' item" and "bloom_has lib bits key \<Longrightarrow> bloom_has lib bits' key"
  using assms bloom_set_eq [OF assms(1), of lib item] indices_for_key_bound
  by (auto simp: bloom_has_def nth_set_bits)

section \<open>Bits of bytes\<close>

lemma nth_msb0_bits: "i < length bs \<Longrightarrow> j < 8 \<Longrightarrow> msb0_bits bs ! (8 * i + j) \<longleftrightarrow> bit (bs ! i) (7 - j)"
proof (induction bs arbitrary: i)
  case (Cons b bs)
  show ?case
  proof (cases i)
    case 0
    then show ?thesis using Cons.prems by (simp add: nth_append) (simp add: byte_bits_def)
  next
    case (Suc k)
    then show ?thesis using Cons by (simp add: nth_append)
  qed
qed simp

lemma nth_bloom_bytes:
  assumes "length bits = BITVEC_BITS" and "i < BITVEC_BYTES" and "j < 8"
  shows "bit (bloom_into_bytes bits ! i) (7 - j) \<longleftrightarrow> bits ! (8 * i + j)"
proof -
  have "msb0_bits (bloom_into_bytes bits) = bits"
    using assms(1) by (simp add: bloom_into_bytes_def BITVEC_BITS_def msb0_bytes_of_bits)
  moreover have "i < length (bloom_into_bytes bits)" using assms(1,2) by (simp add: bloom_into_bytes_def BITVEC_BYTES_def)
  ultimately show ?thesis using nth_msb0_bits [of i "bloom_into_bytes bits" j] assms(3) by simp
qed

lemma drop_bit_one: "drop_bit n w AND 1 = of_bool (bit w n)" for w :: u8
  by (simp add: and_one_eq bit_iff_odd_drop_bit mod_2_eq_odd)

lemma bit_or_push: "m < 8 \<Longrightarrow> bit (w OR push_bit m (of_bool v)) j \<longleftrightarrow> bit w j \<or> v \<and> j = m" for w :: u8
  by (auto simp add: bit_or_iff bit_push_bit_iff bit_of_bool_iff)

section \<open>Ranges of blocks\<close>

abbreviation range_len :: nat where
  "range_len \<equiv> unat AGGREGATE_BLOOM_BLOCK_RANGE_LEN"

lemma bloom_sizes [simp]: "range_len = 8192" "BLOCK_RANGE_BYTES = 1024"
  by (simp_all add: AGGREGATE_BLOOM_BLOCK_RANGE_LEN_def BLOCK_RANGE_BYTES_def)

definition range_bit :: "block_range \<Rightarrow> nat \<Rightarrow> bool" where
  "range_bit r c \<longleftrightarrow> bit (r ! (c div 8)) (7 - c mod 8)"

lemma range_bit_consts: "c < 8192 \<Longrightarrow> range_bit range_FULL c" "c < 8192 \<Longrightarrow> \<not> range_bit range_EMPTY c"
proof -
  assume "c < 8192"
  then have c: "c div 8 < 1024" by simp
  have "(0xFF :: u8) = mask 8" by (simp add: mask_eq_exp_minus_1)
  then have "bit (0xFF :: u8) (7 - c mod 8)" by (simp only: bit_mask_iff) simp
  then show "range_bit range_FULL c" "\<not> range_bit range_EMPTY c"
    using c by (simp_all add: range_bit_def range_FULL_def range_EMPTY_def)
qed

lemma range_ops:
  assumes "length a = 1024" and "length b = 1024"
  shows "length (range_and a b) = 1024" and "length (range_or a b) = 1024"
    and "c < 8192 \<Longrightarrow> range_bit (range_and a b) c \<longleftrightarrow> range_bit a c \<and> range_bit b c"
    and "c < 8192 \<Longrightarrow> range_bit (range_or a b) c \<longleftrightarrow> range_bit a c \<or> range_bit b c"
  using assms by (simp_all add: range_and_def range_or_def range_bit_def bit_simps div_less_iff_less_mult)

lemma range_lengths [simp]: "length range_FULL = 1024" "length range_EMPTY = 1024"
  by (simp_all add: range_FULL_def range_EMPTY_def)

lemma map_filter_if: "List.map_filter (\<lambda>x. if P x then Some (f x) else None) xs = map f (filter P xs)"
  by (induction xs) (simp_all add: List.map_filter_simps)

lemma range_iter_ones_eq: "range_iter_ones r = filter (range_bit r) [0..<8 * length r]"
proof (induction r rule: rev_induct)
  case (snoc b r)
  have one: "drop_bit (7 - j) x AND 1 = 1 \<longleftrightarrow> bit x (7 - j)" for x :: u8 and j
    by (simp add: drop_bit_one)
  have old: "filter (range_bit (r @ [b])) [0..<8 * length r] = filter (range_bit r) [0..<8 * length r]"
    by (intro filter_cong) (auto simp: range_bit_def nth_append)
  have "filter (range_bit (r @ [b])) [8 * length r..<8 * length r + 8] = map (\<lambda>j. length r * 8 + j) (filter (\<lambda>j. bit b (7 - j)) [0..<8])"
  proof -
    have "[8 * length r..<8 * length r + 8] = map (\<lambda>j. length r * 8 + j) [0..<8]"
      using map_add_upt [of "8 * length r" 8] by (simp add: add.commute mult.commute)
    moreover have "filter (\<lambda>j. range_bit (r @ [b]) (length r * 8 + j)) [0..<8] = filter (\<lambda>j. bit b (7 - j)) [0..<8]"
      by (intro filter_cong) (auto simp: range_bit_def nth_append)
    ultimately show ?thesis by (simp only: filter_map comp_def)
  qed
  moreover have "[0..<8 * length (r @ [b])] = [0..<8 * length r] @ [8 * length r..<8 * length r + 8]"
    using upt_add_eq_append [of 0 "8 * length r" 8] by (simp add: add.commute)
  ultimately show ?case using snoc old
    by (simp add: range_iter_ones_def range_iter_val_def enumerate_append_eq map_filter_if one del: upt_Suc)
qed (simp add: range_iter_ones_def range_iter_val_def)

section \<open>The aggregate\<close>

text \<open>The bit of the filter index \<open>r\<close> for the block at the offset \<open>c\<close>.\<close>

definition matrix_bit :: "u8 list \<Rightarrow> nat \<Rightarrow> nat \<Rightarrow> bool" where
  "matrix_bit bitmap r c \<longleftrightarrow> bit (bitmap ! (r * 1024 + c div 8)) (7 - c mod 8)"

definition agg_wf :: "aggregate_bloom \<Rightarrow> bool" where
  "agg_wf a \<longleftrightarrow> length (agg_bitmap a) = 1024 * BITVEC_BITS \<and> unat (agg_from_block a) + 8192 < 2 ^ 64 \<and>
     agg_to_block a = agg_from_block a + 8191"

definition or_at :: "nat \<Rightarrow> nat \<Rightarrow> bool \<Rightarrow> u8 list \<Rightarrow> u8 list" where
  "or_at c r v bitmap = (let i = r * 1024 + c div 8 in bitmap[i := bitmap ! i OR push_bit (7 - c mod 8) (of_bool v)])"

lemma length_or_at [simp]: "length (or_at c r v bitmap) = length bitmap"
  by (simp add: or_at_def Let_def)

lemma or_at_bit:
  assumes "length bitmap = 1024 * BITVEC_BITS" and "r < BITVEC_BITS" and "c < 8192" and "r' < BITVEC_BITS" and "c' < 8192"
  shows "matrix_bit (or_at c r v bitmap) r' c' \<longleftrightarrow> matrix_bit bitmap r' c' \<or> v \<and> r' = r \<and> c' = c"
proof -
  let ?i = "r * 1024 + c div 8" and ?i' = "r' * 1024 + c' div 8"
  have d: "c div 8 < 1024" "c' div 8 < 1024" using assms(3,5) by simp_all
  have i: "?i' < length bitmap" using assms(1,4) d by (simp add: BITVEC_BITS_def)
  have eq: "?i = ?i' \<longleftrightarrow> r = r' \<and> c div 8 = c' div 8"
  proof -
    have "?i div 1024 = r" "?i mod 1024 = c div 8" "?i' div 1024 = r'" "?i' mod 1024 = c' div 8" using d by simp_all
    then show ?thesis by metis
  qed
  have c: "c = c' \<longleftrightarrow> c div 8 = c' div 8 \<and> c mod 8 = c' mod 8" by (metis div_mult_mod_eq)
  have "x < 8 \<Longrightarrow> y < 8 \<Longrightarrow> 7 - y = 7 - x \<longleftrightarrow> x = y" for x y :: nat by arith
  then have m: "7 - c' mod 8 = 7 - c mod 8 \<longleftrightarrow> c mod 8 = c' mod 8" by simp
  show ?thesis
  proof (cases "?i = ?i'")
    case True
    then show ?thesis using i eq c m bit_or_push [of "7 - c mod 8" "bitmap ! ?i'" v "7 - c' mod 8"]
      by (auto simp: matrix_bit_def or_at_def Let_def)
  next
    case False
    then show ?thesis using eq c by (auto simp: matrix_bit_def or_at_def Let_def)
  qed
qed

lemma fold_or_at:
  assumes "length bitmap = 1024 * BITVEC_BITS" and "\<forall>(r, v) \<in> set ps. r < BITVEC_BITS" and "c < 8192" and "r' < BITVEC_BITS" and "c' < 8192"
  shows "matrix_bit (fold (\<lambda>(r, v). or_at c r v) ps bitmap) r' c' \<longleftrightarrow> matrix_bit bitmap r' c' \<or> c' = c \<and> (r', True) \<in> set ps"
  using assms(1,2)
proof (induction ps arbitrary: bitmap)
  case (Cons p ps)
  obtain r v where p: "p = (r, v)" by (cases p)
  have "r < BITVEC_BITS" using Cons.prems p by simp
  from or_at_bit [OF Cons.prems(1) this assms(3-5), of v] Cons.IH [of "or_at c r v bitmap"] Cons.prems p show ?case by auto
qed simp

lemma length_fold_or_at [simp]: "length (fold (\<lambda>(r, v). or_at c r v) ps bitmap) = length bitmap"
  by (induction ps arbitrary: bitmap) auto

definition filter_pairs :: "bloom_filter \<Rightarrow> (nat \<times> bool) list" where
  "filter_pairs bloom = concat (map (\<lambda>(i, b). map (\<lambda>offset. (8 * i + offset, bit b (7 - offset))) [0..<8])
     (filter (\<lambda>(_, b). b \<noteq> 0) (List.enumerate 0 (bloom_into_bytes bloom))))"

lemma filter_pairs_iff:
  assumes "length bloom = BITVEC_BITS"
  shows "(r, True) \<in> set (filter_pairs bloom) \<longleftrightarrow> r < BITVEC_BITS \<and> bloom ! r"
proof -
  let ?bs = "bloom_into_bytes bloom"
  have len: "length ?bs = BITVEC_BYTES" using assms by (simp add: bloom_into_bytes_def BITVEC_BYTES_def)
  have in_pairs: "(r, True) \<in> set (filter_pairs bloom) \<longleftrightarrow>
      (\<exists>i j. i < BITVEC_BYTES \<and> j < 8 \<and> r = 8 * i + j \<and> ?bs ! i \<noteq> 0 \<and> bit (?bs ! i) (7 - j))"
    unfolding filter_pairs_def using len by (auto simp: in_set_enumerate_eq Bex_def)
  show ?thesis
  proof
    assume "(r, True) \<in> set (filter_pairs bloom)"
    then obtain i j where "i < BITVEC_BYTES" "j < 8" "r = 8 * i + j" "bit (?bs ! i) (7 - j)" using in_pairs by blast
    then show "r < BITVEC_BITS \<and> bloom ! r" using nth_bloom_bytes [OF assms, of i j] by (simp add: BITVEC_BYTES_def BITVEC_BITS_def)
  next
    assume r: "r < BITVEC_BITS \<and> bloom ! r"
    then have "r div 8 < BITVEC_BYTES" "r = 8 * (r div 8) + r mod 8" by (simp_all add: BITVEC_BYTES_def BITVEC_BITS_def less_mult_imp_div_less)
    moreover from this have b: "bit (?bs ! (r div 8)) (7 - r mod 8)" using nth_bloom_bytes [OF assms, of "r div 8" "r mod 8"] r by simp
    moreover from b have "?bs ! (r div 8) \<noteq> 0" by auto
    ultimately show "(r, True) \<in> set (filter_pairs bloom)" using in_pairs by (metis mod_less_divisor zero_less_numeral)
  qed
qed

lemma filter_pairs_bound:
  assumes "length bloom = BITVEC_BITS"
  shows "\<forall>(r, v) \<in> set (filter_pairs bloom). r < BITVEC_BITS"
  using assms by (auto simp: filter_pairs_def in_set_enumerate_eq bloom_into_bytes_def BITVEC_BITS_def)

lemma fold_concat: "fold f (concat xss) s = fold (fold f) xss s"
  by (induction xss arbitrary: s) simp_all

lemma agg_last: "agg_wf a \<Longrightarrow> unat (agg_to_block a) = unat (agg_from_block a) + 8191"
  by (simp add: agg_wf_def unat_word_ariths)

lemma agg_insert_eq:
  assumes a: "agg_wf a" and bloom: "length bloom = BITVEC_BITS" and b: "agg_from_block a \<le> block" "block \<le> agg_to_block a"
  defines "c \<equiv> unat (block - agg_from_block a)"
  shows "c < 8192" and "agg_insert bloom block a = Inr (a\<lparr> agg_bitmap := fold (\<lambda>(r, v). or_at c r v) (filter_pairs bloom) (agg_bitmap a) \<rparr>)"
proof -
  let ?I = "\<lambda>bitmap :: u8 list. length bitmap = 1024 * BITVEC_BITS"
  show c: "c < 8192" using b agg_last [OF a] by (simp add: c_def unat_sub word_le_nat_alt)
  have step: "agg_insert_bit (c div 8) (c mod 8) (8 * i) byte offset bitmap = Inr (or_at c (8 * i + offset) (bit byte (7 - offset)) bitmap)"
    if "?I bitmap" "i < BITVEC_BYTES" "offset < 8" for i byte offset bitmap
  proof -
    have "(8 * i + offset) * 1024 + c div 8 < length bitmap" using that c by (simp add: BITVEC_BYTES_def BITVEC_BITS_def)
    then show ?thesis by (simp add: agg_insert_bit_def or_at_def Let_def drop_bit_one)
  qed
  have inner: "fold_outcome (agg_insert_bit (c div 8) (c mod 8) (8 * i) byte) [0..<8] bitmap =
      Inr (fold (\<lambda>(r, v). or_at c r v) (map (\<lambda>offset. (8 * i + offset, bit byte (7 - offset))) [0..<8]) bitmap) \<and>
      ?I (fold (\<lambda>(r, v). or_at c r v) (map (\<lambda>offset. (8 * i + offset, bit byte (7 - offset))) [0..<8]) bitmap)"
    if "?I bitmap" "i < BITVEC_BYTES" for i byte bitmap
    using fold_outcome_total [of ?I bitmap "[0..<8]" "agg_insert_bit (c div 8) (c mod 8) (8 * i) byte"
        "\<lambda>offset. or_at c (8 * i + offset) (bit byte (7 - offset))"] step [OF _ that(2)] that
    by (simp add: fold_map comp_def del: upt_Suc)
  have len: "length (bloom_into_bytes bloom) = BITVEC_BYTES" using bloom by (simp add: bloom_into_bytes_def BITVEC_BYTES_def)
  let ?xs = "filter (\<lambda>(_, b). b \<noteq> 0) (List.enumerate 0 (bloom_into_bytes bloom))"
  have "fold_outcome (\<lambda>(i, byte). fold_outcome (agg_insert_bit (c div 8) (c mod 8) (8 * i) byte) [0..<8]) ?xs (agg_bitmap a) =
      Inr (fold (\<lambda>(i, byte). fold (\<lambda>(r, v). or_at c r v) (map (\<lambda>offset. (8 * i + offset, bit byte (7 - offset))) [0..<8])) ?xs (agg_bitmap a))"
    by (rule fold_outcome_total [of ?I, THEN conjunct1])
       (use a len inner in \<open>auto simp: agg_wf_def in_set_enumerate_eq simp del: upt_Suc\<close>)
  also have "fold (\<lambda>(i, byte). fold (\<lambda>(r, v). or_at c r v) (map (\<lambda>offset. (8 * i + offset, bit byte (7 - offset))) [0..<8])) ?xs (agg_bitmap a)
      = fold (\<lambda>(r, v). or_at c r v) (filter_pairs bloom) (agg_bitmap a)"
    by (simp add: filter_pairs_def fold_concat fold_map comp_def case_prod_unfold del: upt_Suc)
  finally show "agg_insert bloom block a = Inr (a\<lparr> agg_bitmap := fold (\<lambda>(r, v). or_at c r v) (filter_pairs bloom) (agg_bitmap a) \<rparr>)"
    using b by (simp add: agg_insert_def Let_def c_def del: upt_Suc)
qed

lemma agg_insert_ok:
  assumes a: "agg_wf a" and bloom: "length bloom = BITVEC_BITS" and b: "agg_from_block a \<le> block" "block \<le> agg_to_block a"
  shows "\<exists>a'. agg_insert bloom block a = Inr a' \<and> agg_wf a' \<and> agg_from_block a' = agg_from_block a \<and> agg_to_block a' = agg_to_block a \<and>
    (\<forall>r < BITVEC_BITS. \<forall>c < 8192. matrix_bit (agg_bitmap a') r c \<longleftrightarrow>
      matrix_bit (agg_bitmap a) r c \<or> c = unat (block - agg_from_block a) \<and> bloom ! r)"
  using agg_insert_eq [OF assms] a fold_or_at [OF _ filter_pairs_bound [OF bloom], of "agg_bitmap a"] filter_pairs_iff [OF bloom]
  by (simp add: agg_wf_def)

lemma agg_new_ok:
  assumes "unat b + 8192 < 2 ^ 64"
  shows "\<exists>a. agg_new b = Inr a \<and> agg_wf a \<and> agg_from_block a = b \<and> (\<forall>r < BITVEC_BITS. \<forall>c < 8192. \<not> matrix_bit (agg_bitmap a) r c)"
proof -
  have "unat (b + 8192) = unat b + 8192" using assms by (simp add: unat_word_ariths)
  then have l: "bind_outcome (block_add b AGGREGATE_BLOOM_BLOCK_RANGE_LEN) (\<lambda>b. block_sub b 1) = Inr (b + 8191)"
    using assms by (simp add: block_add_def block_sub_def AGGREGATE_BLOOM_BLOCK_RANGE_LEN_def word_le_nat_alt)
  have "r * 1024 + c div 8 < 1024 * BITVEC_BITS" if "r < BITVEC_BITS" "c < 8192" for r c
    using that by (simp add: BITVEC_BITS_def less_mult_imp_div_less)
  then show ?thesis using assms by (simp add: agg_new_def agg_from_parts_def l agg_wf_def matrix_bit_def)
qed

lemma agg_from_parts_ok:
  assumes "agg_wf a"
  shows "agg_from_parts (agg_from_block a) (agg_to_block a) (agg_bitmap a) = Inr a"
proof -
  have "unat (agg_from_block a + 8192) = unat (agg_from_block a) + 8192" using assms by (simp add: agg_wf_def unat_word_ariths)
  then have "bind_outcome (block_add (agg_from_block a) AGGREGATE_BLOOM_BLOCK_RANGE_LEN) (\<lambda>b. block_sub b 1) = Inr (agg_from_block a + 8191)"
    using assms by (simp add: agg_wf_def block_add_def block_sub_def AGGREGATE_BLOOM_BLOCK_RANGE_LEN_def word_le_nat_alt)
  then show ?thesis using assms by (simp add: agg_from_parts_def agg_wf_def)
qed

section \<open>Looking keys up\<close>

lemma row_bits:
  assumes "length bitmap = 1024 * BITVEC_BITS" and "i < BITVEC_BITS"
  shows "\<exists>row. slice_range bitmap (i * BLOCK_RANGE_BYTES) BLOCK_RANGE_BYTES = Inr row \<and> length row = 1024 \<and>
    (\<forall>c < 8192. range_bit row c \<longleftrightarrow> matrix_bit bitmap i c)"
proof -
  have "i * 1024 + 1024 \<le> length bitmap" using assms by simp
  moreover have "c div 8 < 1024" if "c < 8192" for c :: nat using that by simp
  ultimately show ?thesis by (simp add: range_bit_def matrix_bit_def)
qed

lemma agg_matches_for_key_ok:
  assumes "agg_wf a"
  shows "\<exists>r. agg_matches_for_key lib a k = Inr r \<and> length r = 1024 \<and>
    (\<forall>c < 8192. range_bit r c \<longleftrightarrow> (\<forall>i \<in> set (indices_for_key lib k). matrix_bit (agg_bitmap a) i c))"
proof -
  let ?f = "\<lambda>row_idx matches_for_key. bind_outcome (slice_range (agg_bitmap a) (row_idx * BLOCK_RANGE_BYTES) BLOCK_RANGE_BYTES) (\<lambda>row.
     bind_outcome (range_copy_from_slice row) (\<lambda>block_range. Inr (range_and matches_for_key block_range)))"
  have "\<exists>r. fold_outcome ?f is m = Inr r \<and> length r = 1024 \<and>
      (\<forall>c < 8192. range_bit r c \<longleftrightarrow> range_bit m c \<and> (\<forall>i \<in> set is. matrix_bit (agg_bitmap a) i c))"
    if "length m = 1024" "\<forall>i \<in> set is. i < BITVEC_BITS" for m "is"
    using that
  proof (induction "is" arbitrary: m)
    case (Cons i "is")
    obtain row where row: "slice_range (agg_bitmap a) (i * BLOCK_RANGE_BYTES) BLOCK_RANGE_BYTES = Inr row" "length row = 1024"
      "\<forall>c < 8192. range_bit row c \<longleftrightarrow> matrix_bit (agg_bitmap a) i c"
      using row_bits [of "agg_bitmap a" i] assms Cons.prems(2) by (auto simp: agg_wf_def)
    note o = range_ops [OF Cons.prems(1) row(2)]
    from Cons.IH [OF o(1)] Cons.prems(2) obtain r where r: "fold_outcome ?f is (range_and m row) = Inr r" "length r = 1024"
      "\<forall>c < 8192. range_bit r c \<longleftrightarrow> range_bit (range_and m row) c \<and> (\<forall>i \<in> set is. matrix_bit (agg_bitmap a) i c)" by auto
    have "?f i m = Inr (range_and m row)" using row by (simp add: range_copy_from_slice_def)
    then show ?case using r o(3) row(3) by (intro exI [of _ r]) auto
  qed simp
  from this [of range_FULL "indices_for_key lib k"] show ?thesis
    using indices_for_key_bound range_bit_consts(1) by (auto simp: agg_matches_for_key_def)
qed

text \<open>The blocks that an aggregate reports for a list of keys.\<close>

lemma blocks_for_keys_ok:
  assumes "agg_wf a"
  shows "\<exists>r. blocks_for_keys lib a keys = Inr r \<and> length r = 1024 \<and>
    (\<forall>c < 8192. range_bit r c \<longleftrightarrow> keys = [] \<or> (\<exists>k \<in> set keys. \<forall>i \<in> set (indices_for_key lib k). matrix_bit (agg_bitmap a) i c))"
proof (cases "keys = []")
  case False
  let ?f = "\<lambda>k block_matches. bind_outcome (agg_matches_for_key lib a k) (\<lambda>matches_for_key. Inr (range_or block_matches matches_for_key))"
  have "\<exists>r. fold_outcome ?f ks m = Inr r \<and> length r = 1024 \<and>
      (\<forall>c < 8192. range_bit r c \<longleftrightarrow> range_bit m c \<or> (\<exists>k \<in> set ks. \<forall>i \<in> set (indices_for_key lib k). matrix_bit (agg_bitmap a) i c))"
    if "length m = 1024" for m ks
    using that
  proof (induction ks arbitrary: m)
    case (Cons k ks)
    obtain row where row: "agg_matches_for_key lib a k = Inr row" "length row = 1024"
      "\<forall>c < 8192. range_bit row c \<longleftrightarrow> (\<forall>i \<in> set (indices_for_key lib k). matrix_bit (agg_bitmap a) i c)"
      using agg_matches_for_key_ok [OF assms] by blast
    note o = range_ops [OF Cons.prems row(2)]
    from Cons.IH [OF o(2)] obtain r where r: "fold_outcome ?f ks (range_or m row) = Inr r" "length r = 1024"
      "\<forall>c < 8192. range_bit r c \<longleftrightarrow> range_bit (range_or m row) c \<or> (\<exists>k \<in> set ks. \<forall>i \<in> set (indices_for_key lib k). matrix_bit (agg_bitmap a) i c)"
      by blast
    then show ?case using o(4) row(1,3) by (intro exI [of _ r]) auto
  qed simp
  from this [of range_EMPTY keys] show ?thesis using False range_bit_consts(2) by (auto simp: blocks_for_keys_def)
qed (simp add: blocks_for_keys_def range_bit_consts)

end
