(* ===== verification/EventFilter_Correct.thy ===== *)
theory EventFilter_Correct
  imports EventStore Bloom_Correct
begin

text \<open>
  The blocks that an aggregate filter reports for a query contain every block with a matching event, and
  come in ascending order.
\<close>

section \<open>The filter of a block contains its events\<close>

definition event_items :: "event \<Rightarrow> felt list" where
  "event_items ev = ev_from_address ev # map (\<lambda>(i, key). key_with_idx i key) (List.enumerate 0 (take EVENT_KEY_FILTER_LIMIT (ev_keys ev)))"

lemma fold_bloom_set:
  assumes "length bits = BITVEC_BITS"
  shows "\<exists>bits'. fold_outcome (\<lambda>x. bloom_set lib (f x)) xs bits = Inr bits' \<and> length bits' = BITVEC_BITS \<and>
    (\<forall>k. bloom_has lib bits k \<or> k \<in> f ` set xs \<longrightarrow> bloom_has lib bits' k)"
  using assms
proof (induction xs arbitrary: bits)
  case (Cons x xs)
  obtain bits1 where 1: "bloom_set lib (f x) bits = Inr bits1" using bloom_set_eq [OF Cons.prems] by blast
  note s = bloom_has_set [OF Cons.prems 1]
  from Cons.IH [OF s(1)] obtain bits' where "fold_outcome (\<lambda>x. bloom_set lib (f x)) xs bits1 = Inr bits'" "length bits' = BITVEC_BITS"
    "\<forall>k. bloom_has lib bits1 k \<or> k \<in> f ` set xs \<longrightarrow> bloom_has lib bits' k" by blast
  then show ?case using 1 s(2,3) by (intro exI [of _ bits']) auto
qed simp

lemma bloom_add_event:
  assumes "length bits = BITVEC_BITS"
  shows "\<exists>bits'. bind_outcome (bloom_set_keys lib (ev_keys ev) bits) (bloom_set_address lib (ev_from_address ev)) = Inr bits' \<and>
    length bits' = BITVEC_BITS \<and> (\<forall>k. bloom_has lib bits k \<or> k \<in> set (event_items ev) \<longrightarrow> bloom_has lib bits' k)"
proof -
  let ?xs = "List.enumerate 0 (take EVENT_KEY_FILTER_LIMIT (ev_keys ev))"
  obtain bits1 where 1: "bloom_set_keys lib (ev_keys ev) bits = Inr bits1" "length bits1 = BITVEC_BITS"
    "\<forall>k. bloom_has lib bits k \<or> k \<in> (\<lambda>(i, key). key_with_idx i key) ` set ?xs \<longrightarrow> bloom_has lib bits1 k"
    using fold_bloom_set [OF assms, of lib "\<lambda>(i, key). key_with_idx i key" ?xs] by (auto simp: bloom_set_keys_def case_prod_unfold)
  obtain bits' where 2: "bloom_set lib (ev_from_address ev) bits1 = Inr bits'" using bloom_set_eq [OF 1(2)] by blast
  show ?thesis using 1 2 bloom_has_set [OF 1(2) 2] by (intro exI [of _ bits']) (auto simp: bloom_set_address_def event_items_def)
qed

lemma bloom_of_events_ok:
  "\<exists>bloom. bloom_of_events lib evs = Inr bloom \<and> length bloom = BITVEC_BITS \<and>
     (\<forall>ev \<in> set evs. \<forall>k \<in> set (event_items ev). bloom_has lib bloom k)"
proof -
  let ?f = "\<lambda>event bloom. bind_outcome (bloom_set_keys lib (ev_keys event) bloom) (bloom_set_address lib (ev_from_address event))"
  have "\<exists>bloom. fold_outcome ?f evs bits = Inr bloom \<and> length bloom = BITVEC_BITS \<and>
      (\<forall>k. bloom_has lib bits k \<or> (\<exists>ev \<in> set evs. k \<in> set (event_items ev)) \<longrightarrow> bloom_has lib bloom k)"
    if "length bits = BITVEC_BITS" for bits
    using that
  proof (induction evs arbitrary: bits)
    case (Cons ev evs)
    from bloom_add_event [OF Cons.prems, of lib ev] obtain bits1 where 1: "?f ev bits = Inr bits1" "length bits1 = BITVEC_BITS"
      "\<forall>k. bloom_has lib bits k \<or> k \<in> set (event_items ev) \<longrightarrow> bloom_has lib bits1 k" by auto
    from Cons.IH [OF 1(2)] obtain bloom where "fold_outcome ?f evs bits1 = Inr bloom" "length bloom = BITVEC_BITS"
      "\<forall>k. bloom_has lib bits1 k \<or> (\<exists>ev \<in> set evs. k \<in> set (event_items ev)) \<longrightarrow> bloom_has lib bloom k" by blast
    then show ?case using 1 by (intro exI [of _ bloom]) auto
  qed simp
  from this [of bloom_new] show ?thesis by (auto simp: bloom_of_events_def bloom_new_def)
qed

section \<open>Aggregates\<close>

definition agg_covers :: "bloom_lib \<Rightarrow> aggregate_bloom \<Rightarrow> block_number \<Rightarrow> event list \<Rightarrow> bool" where
  "agg_covers lib a b evs \<longleftrightarrow> (\<forall>ev \<in> set evs. \<forall>k \<in> set (event_items ev). \<forall>i \<in> set (indices_for_key lib k).
     matrix_bit (agg_bitmap a) i (unat (b - agg_from_block a)))"

lemma agg_covers_insert:
  assumes a: "agg_wf a" and b: "agg_from_block a \<le> block" "block \<le> agg_to_block a" and bloom: "bloom_of_events lib evs = Inr bloom"
  shows "\<exists>a'. agg_insert bloom block a = Inr a' \<and> agg_wf a' \<and> agg_from_block a' = agg_from_block a \<and> agg_to_block a' = agg_to_block a \<and>
    agg_covers lib a' block evs \<and>
    (\<forall>b evs. agg_from_block a \<le> b \<and> b \<le> agg_to_block a \<longrightarrow> agg_covers lib a b evs \<longrightarrow> agg_covers lib a' b evs)"
proof -
  have l: "length bloom = BITVEC_BITS" and h: "\<forall>ev \<in> set evs. \<forall>k \<in> set (event_items ev). bloom_has lib bloom k"
    using bloom_of_events_ok [of lib evs] bloom by auto
  from agg_insert_ok [OF a l b] obtain a' where a': "agg_insert bloom block a = Inr a'" "agg_wf a'"
    "agg_from_block a' = agg_from_block a" "agg_to_block a' = agg_to_block a"
    "\<forall>r < BITVEC_BITS. \<forall>c < 8192. matrix_bit (agg_bitmap a') r c \<longleftrightarrow> matrix_bit (agg_bitmap a) r c \<or> c = unat (block - agg_from_block a) \<and> bloom ! r"
    by blast
  have c: "unat (b - agg_from_block a) < 8192" if "agg_from_block a \<le> b" "b \<le> agg_to_block a" for b
    using that agg_last [OF a] by (simp add: unat_sub word_le_nat_alt)
  have "agg_covers lib a' block evs" unfolding agg_covers_def a'(3)
  proof (intro ballI)
    fix ev k i assume "ev \<in> set evs" "k \<in> set (event_items ev)" and i: "i \<in> set (indices_for_key lib k)"
    then have "bloom ! i" using h unfolding bloom_has_def by blast
    then show "matrix_bit (agg_bitmap a') i (unat (block - agg_from_block a))"
      using a'(5) c [OF b] indices_for_key_bound [OF i] by blast
  qed
  moreover have "agg_covers lib a' b evs" if "agg_from_block a \<le> b \<and> b \<le> agg_to_block a" "agg_covers lib a b evs" for b evs
    using that a'(5) c [of b] indices_for_key_bound unfolding agg_covers_def a'(3) by blast
  ultimately show ?thesis using a' by blast
qed

section \<open>The blocks of a query\<close>

definition event_matches :: "felt list \<Rightarrow> felt list list \<Rightarrow> event \<Rightarrow> bool" where
  "event_matches addresses keys ev \<longleftrightarrow> address_matches addresses ev \<and> keys_match keys ev"

lemma event_items_keys:
  assumes "i < length (ev_keys ev)" and "i < 16"
  shows "key_with_idx i (ev_keys ev ! i) \<in> set (event_items ev)"
  using assms by (force simp: event_items_def EVENT_KEY_FILTER_LIMIT_def in_set_enumerate_eq)

text \<open>A range that has the bit of every block with a matching event.\<close>

definition reports :: "block_range \<Rightarrow> (nat \<Rightarrow> bool) \<Rightarrow> bool" where
  "reports r P \<longleftrightarrow> length r = 1024 \<and> (\<forall>c < 8192. P c \<longrightarrow> range_bit r c)"

lemma check_addresses_reports:
  assumes "agg_wf a"
  shows "\<exists>r. check_addresses lib addresses a = Inr r \<and>
    reports r (\<lambda>c. \<exists>ev \<in> set evs. address_matches addresses ev \<and> agg_covers lib a (agg_from_block a + of_nat c) evs)"
proof (cases "addresses = []")
  case True
  then show ?thesis by (simp add: check_addresses_def reports_def range_bit_consts)
next
  case False
  from blocks_for_keys_ok [OF assms, of lib addresses] obtain r where r: "blocks_for_keys lib a addresses = Inr r" "length r = 1024"
    "\<forall>c < 8192. range_bit r c \<longleftrightarrow> addresses = [] \<or> (\<exists>k \<in> set addresses. \<forall>i \<in> set (indices_for_key lib k). matrix_bit (agg_bitmap a) i c)"
    by blast
  have "range_bit r c" if c: "c < 8192" and ev: "ev \<in> set evs" "address_matches addresses ev"
    and cov: "agg_covers lib a (agg_from_block a + of_nat c) evs" for c ev
  proof -
    have "ev_from_address ev \<in> set addresses" "ev_from_address ev \<in> set (event_items ev)"
      using ev(2) False by (simp_all add: address_matches_def event_items_def)
    moreover have "unat (of_nat c :: u64) = c" using c by (simp add: unat_of_nat)
    ultimately show ?thesis using r(3) c ev(1) cov unfolding agg_covers_def by (metis add_diff_cancel_left')
  qed
  then show ?thesis using r False by (auto simp: check_addresses_def reports_def)
qed

lemma check_keys_loop_reports:
  assumes a: "agg_wf a" and "length result = 1024"
    and "\<forall>(idx, group) \<in> set ks. group \<noteq> []"
  shows "\<exists>r. check_keys_loop lib a ks result = Inr r \<and> length r = 1024 \<and>
    (\<forall>c < 8192. range_bit result c \<longrightarrow>
      (\<forall>(idx, group) \<in> set ks. \<exists>key \<in> set group. \<forall>i \<in> set (indices_for_key lib (key_with_idx idx key)). matrix_bit (agg_bitmap a) i c) \<longrightarrow>
      range_bit r c)"
  using assms(2,3)
proof (induction ks arbitrary: result)
  case (Cons k ks)
  obtain idx group where k: "k = (idx, group)" by (cases k)
  let ?keys = "map (key_with_idx idx) group"
  from blocks_for_keys_ok [OF a, of lib ?keys] obtain row where row: "blocks_for_keys lib a ?keys = Inr row" "length row = 1024"
    "\<forall>c < 8192. range_bit row c \<longleftrightarrow> ?keys = [] \<or> (\<exists>k \<in> set ?keys. \<forall>i \<in> set (indices_for_key lib k). matrix_bit (agg_bitmap a) i c)"
    by blast
  have hit: "range_bit row c" if "c < 8192" "\<exists>key \<in> set group. \<forall>i \<in> set (indices_for_key lib (key_with_idx idx key)). matrix_bit (agg_bitmap a) i c" for c
    using row(3) that by auto
  show ?case
  proof (cases "row = range_EMPTY")
    case True
    show ?thesis
    proof (intro exI [of _ range_EMPTY] conjI allI impI)
      show "check_keys_loop lib a (k # ks) result = Inr range_EMPTY" using True row(1) by (simp add: k)
      fix c assume "c < 8192"
        "\<forall>(idx, group) \<in> set (k # ks). \<exists>key \<in> set group. \<forall>i \<in> set (indices_for_key lib (key_with_idx idx key)). matrix_bit (agg_bitmap a) i c"
      then show "range_bit range_EMPTY c" using hit [of c] True unfolding k by simp
    qed simp
  next
    case False
    note o = range_ops [OF Cons.prems(1) row(2)]
    from Cons.IH [OF o(1)] Cons.prems(2) obtain r where r: "check_keys_loop lib a ks (range_and result row) = Inr r" "length r = 1024"
      "\<forall>c < 8192. range_bit (range_and result row) c \<longrightarrow>
        (\<forall>(idx, group) \<in> set ks. \<exists>key \<in> set group. \<forall>i \<in> set (indices_for_key lib (key_with_idx idx key)). matrix_bit (agg_bitmap a) i c) \<longrightarrow>
        range_bit r c" by auto
    show ?thesis
    proof (intro exI [of _ r] conjI allI impI)
      show "check_keys_loop lib a (k # ks) result = Inr r" using False row(1) r(1) by (simp add: k)
      fix c assume "c < 8192" "range_bit result c"
        "\<forall>(idx, group) \<in> set (k # ks). \<exists>key \<in> set group. \<forall>i \<in> set (indices_for_key lib (key_with_idx idx key)). matrix_bit (agg_bitmap a) i c"
      then show "range_bit r c" using r(3) o(3) hit [of c] unfolding k by simp
    qed (rule r(2))
  qed
qed auto

lemma check_keys_reports:
  assumes a: "agg_wf a" and keys: "length keys \<le> 16"
  shows "\<exists>r. check_keys lib keys a = Inr r \<and>
    reports r (\<lambda>c. \<exists>ev \<in> set evs. keys_match keys ev \<and> agg_covers lib a (agg_from_block a + of_nat c) evs)"
proof (cases "keys = [] \<or> list_ex (\<lambda>k. k = []) keys")
  case True
  then show ?thesis by (simp add: check_keys_def reports_def range_bit_consts)
next
  case False
  have group: "keys ! i \<noteq> []" if "i < length keys" for i
  proof
    assume "keys ! i = []"
    then have "[] \<in> set keys" using nth_mem [OF that] by simp
    then show False using False by (auto simp: list_ex_iff)
  qed
  then have "\<forall>(idx, group) \<in> set (List.enumerate 0 keys). group \<noteq> []" by (auto simp: in_set_enumerate_eq)
  from check_keys_loop_reports [OF a range_lengths(1) this, of lib] obtain r where
    r: "check_keys_loop lib a (List.enumerate 0 keys) range_FULL = Inr r" "length r = 1024"
    "\<forall>c < 8192. range_bit range_FULL c \<longrightarrow>
      (\<forall>(idx, group) \<in> set (List.enumerate 0 keys). \<exists>key \<in> set group. \<forall>i \<in> set (indices_for_key lib (key_with_idx idx key)). matrix_bit (agg_bitmap a) i c) \<longrightarrow>
      range_bit r c" by blast
  have "range_bit r c" if c: "c < 8192" and ev: "ev \<in> set evs" "keys_match keys ev"
    and cov: "agg_covers lib a (agg_from_block a + of_nat c) evs" for c ev
  proof -
    have u: "unat (of_nat c :: u64) = c" using c by (simp add: unat_of_nat)
    have ne: "concat keys \<noteq> []" using False by (cases keys) auto
    then have len: "length keys \<le> length (ev_keys ev)"
      and m: "\<forall>(key, group) \<in> set (zip (ev_keys ev) keys). group = [] \<or> key \<in> set group"
      using ev(2) by (auto simp: keys_match_def)
    have "\<exists>key \<in> set group. \<forall>i \<in> set (indices_for_key lib (key_with_idx idx key)). matrix_bit (agg_bitmap a) i c"
      if "(idx, group) \<in> set (List.enumerate 0 keys)" for idx group
    proof -
      have idx: "idx < length keys" "group = keys ! idx" using that by (simp_all add: in_set_enumerate_eq)
      then have "group \<noteq> []" using group by simp
      moreover have "(ev_keys ev ! idx, group) \<in> set (zip (ev_keys ev) keys)" using idx len by (auto simp: set_zip)
      ultimately have "ev_keys ev ! idx \<in> set group" using m by blast
      moreover have "key_with_idx idx (ev_keys ev ! idx) \<in> set (event_items ev)" using event_items_keys idx(1) len keys by simp
      ultimately show ?thesis using cov ev(1) u unfolding agg_covers_def by (metis add_diff_cancel_left')
    qed
    then show ?thesis using r(3) c range_bit_consts(1) [OF c] by blast
  qed
  then show ?thesis using r False by (auto simp: check_keys_def reports_def)
qed

text \<open>The blocks of an aggregate in ascending order.\<close>

definition agg_blocks :: "aggregate_bloom \<Rightarrow> block_number list" where
  "agg_blocks a = map (\<lambda>c. agg_from_block a + of_nat c) [0..<8192]"

lemma agg_check_ok:
  assumes a: "agg_wf a" and keys: "length keys \<le> 16"
  shows "\<exists>cand. agg_check lib addresses keys a = Inr (filter cand (agg_blocks a)) \<and>
    (\<forall>b \<in> set (agg_blocks a). \<forall>evs. agg_covers lib a b evs \<longrightarrow> (\<exists>ev \<in> set evs. event_matches addresses keys ev) \<longrightarrow> cand b)"
proof -
  obtain ra where ra: "check_addresses lib addresses a = Inr ra" using check_addresses_reports [OF a] by blast
  obtain rk where rk: "check_keys lib keys a = Inr rk" using check_keys_reports [OF a keys] by blast
  have A: "reports ra (\<lambda>c. \<exists>ev \<in> set evs. address_matches addresses ev \<and> agg_covers lib a (agg_from_block a + of_nat c) evs)" for evs
    using check_addresses_reports [OF a, of lib addresses evs] ra by auto
  have K: "reports rk (\<lambda>c. \<exists>ev \<in> set evs. keys_match keys ev \<and> agg_covers lib a (agg_from_block a + of_nat c) evs)" for evs
    using check_keys_reports [OF a keys, of lib evs] rk by auto
  have len: "length ra = 1024" "length rk = 1024" using A K by (simp_all add: reports_def)
  let ?r = "range_and ra rk"
  note o = range_ops [OF len]
  have add: "block_add (agg_from_block a) (of_nat c) = Inr (agg_from_block a + of_nat c)" if "c < 8192" for c
    using that a by (simp add: block_add_def agg_wf_def unat_of_nat)
  have u: "unat (of_nat c :: u64) = c" if "c < 8192" for c using that by (simp add: unat_of_nat)
  let ?cand = "\<lambda>b. range_bit ?r (unat (b - agg_from_block a))"
  have "map_outcome (\<lambda>c. block_add (agg_from_block a) (of_nat c)) (range_iter_ones ?r) =
      Inr (map (\<lambda>c. agg_from_block a + of_nat c) (range_iter_ones ?r))"
    by (rule map_outcome_total) (simp add: range_iter_ones_eq o(1) add)
  moreover have "map (\<lambda>c. agg_from_block a + of_nat c) (range_iter_ones ?r) = filter ?cand (agg_blocks a)"
  proof -
    have "filter (range_bit ?r) [0..<8192] = filter (\<lambda>c. ?cand (agg_from_block a + of_nat c)) [0..<8192]"
      by (intro filter_cong) (simp_all add: u)
    then show ?thesis by (simp only: range_iter_ones_eq o(1) agg_blocks_def filter_map comp_def) simp
  qed
  moreover have "?cand b" if b: "b \<in> set (agg_blocks a)" and cov: "agg_covers lib a b evs"
    and ev: "ev \<in> set evs" "event_matches addresses keys ev" for b evs ev
  proof -
    obtain c where c: "c < 8192" "b = agg_from_block a + of_nat c" using b by (auto simp: agg_blocks_def)
    have "range_bit ra c" "range_bit rk c" using A [of evs] K [of evs] ev cov c unfolding reports_def event_matches_def by blast+
    then show ?thesis using o(3) c u by simp
  qed
  ultimately show ?thesis using ra rk by (intro exI [of _ ?cand]) (auto simp: agg_check_def)
qed

end
