(* ===== verification/EventRange_Correct.thy ===== *)
theory EventRange_Correct
  imports EventFilter_Correct
begin

text \<open>
  The filters of the stored blocks: a row for every full range of blocks, the running filter for the
  rest, and a cache of some rows. Loading the filters of a range of blocks gives the aggregate of every
  range it meets, in order.
\<close>

section \<open>Ranges\<close>

definition range_start :: "nat \<Rightarrow> block_number" where
  "range_start k = of_nat (k * 8192)"

definition range_key :: "nat \<Rightarrow> cache_key" where
  "range_key k = (range_start k, range_start k + 8191)"

lemma unat_range_start: "k * 8192 < 2 ^ 63 \<Longrightarrow> unat (range_start k) = k * 8192"
  by (simp only: range_start_def unat_of_nat) simp

lemma unat_range_end: "k * 8192 < 2 ^ 63 \<Longrightarrow> unat (range_start k + 8191) = k * 8192 + 8191"
  using unat_range_start [of k] by (simp add: unat_word_ariths)

lemma range_start_less:
  "k * 8192 < 2 ^ 63 \<Longrightarrow> k' * 8192 < 2 ^ 63 \<Longrightarrow> range_start k < range_start k' \<longleftrightarrow> k < k'"
  "k * 8192 < 2 ^ 63 \<Longrightarrow> k' * 8192 < 2 ^ 63 \<Longrightarrow> range_start k = range_start k' \<longleftrightarrow> k = k'"
  by (simp_all add: word_less_nat_alt word_unat_eq_iff unat_range_start)

lemma sorted_range_starts:
  assumes "m * 8192 < 2 ^ 63"
  shows "sorted (map range_start [k..<m])" and "distinct (map range_start [k..<m])"
proof -
  have "range_start x < range_start y" if "x \<in> set [k..<m]" "y \<in> set [k..<m]" "x < y" for x y
    using that assms by (subst range_start_less) auto
  then have "sorted_wrt (\<lambda>x y. range_start x < range_start y) [k..<m]"
    using sorted_wrt_mono_rel [of "[k..<m]" "(<)" "\<lambda>x y. range_start x < range_start y"] by simp
  then have "sorted_wrt (<) (map range_start [k..<m])" by (simp add: sorted_wrt_map)
  then show "sorted (map range_start [k..<m])" "distinct (map range_start [k..<m])" by (simp_all add: strict_sorted_iff)
qed

section \<open>The invariant of the filters\<close>

text \<open>The documented behaviour of the libraries: zstd is lossless and the cache returns what was stored.\<close>

definition bloom_lib_ok :: "bloom_lib \<Rightarrow> bool" where
  "bloom_lib_ok lib \<longleftrightarrow>
     (\<forall>x. length x = 1024 * BITVEC_BITS \<longrightarrow> (\<exists>y. zstd_compress lib 10 x = Some y \<and> zstd_decompress lib y (1024 * BITVEC_BITS) = Some x)) \<and>
     (\<forall>k c. map_of (cache_touch lib k c) = map_of c) \<and>
     (\<forall>k v c k'. map_of (cache_set lib k v c) k' = None \<or> map_of (cache_set lib k v c) k' = ((map_of c)(k \<mapsto> v)) k')"

definition agg_for :: "bloom_lib \<Rightarrow> block_number \<Rightarrow> (block_number \<Rightarrow> event list) \<Rightarrow> nat \<Rightarrow> aggregate_bloom \<Rightarrow> bool" where
  "agg_for lib n evs k a \<longleftrightarrow> agg_wf a \<and> agg_from_block a = range_start k \<and>
     (\<forall>b < n. agg_from_block a \<le> b \<longrightarrow> b \<le> agg_to_block a \<longrightarrow> agg_covers lib a b (evs b))"

definition row_ok :: "bloom_lib \<Rightarrow> block_number \<Rightarrow> (block_number \<Rightarrow> event list) \<Rightarrow> nat \<Rightarrow> cache_key \<times> u8 list \<Rightarrow> bool" where
  "row_ok lib n evs k row \<longleftrightarrow> fst row = range_key k \<and>
     (\<exists>a. zstd_decompress lib (snd row) (1024 * BITVEC_BITS) = Some (agg_bitmap a) \<and> agg_for lib n evs k a)"

definition filters_ok :: "bloom_lib \<Rightarrow> block_number \<Rightarrow> (block_number \<Rightarrow> event list) \<Rightarrow> block_db \<Rightarrow> bool" where
  "filters_ok lib n evs db \<longleftrightarrow> unat n + 16384 < 2 ^ 63 \<and> rf_next_block (running_filter db) = n \<and>
     agg_for lib n evs (unat n div 8192) (rf_filter (running_filter db)) \<and>
     list_all2 (row_ok lib n evs) [0..<unat n div 8192] (bd_event_filters db) \<and>
     (\<forall>key a. map_of (filter_cache db) key = Some a \<longrightarrow> (\<exists>k < unat n div 8192. key = range_key k \<and> agg_for lib n evs k a))"

lemma agg_for_to: "agg_for lib n evs k a \<Longrightarrow> agg_to_block a = range_start k + 8191"
  by (simp add: agg_for_def agg_wf_def)

section \<open>Loading\<close>

lemma cache_ranges_eq:
  assumes "s \<le> e" and "unat e + 16384 < 2 ^ 63"
  shows "cache_ranges s e = Inr (map range_key [unat s div 8192..<Suc (unat e div 8192)])"
proof -
  let ?k0 = "unat s div 8192" and ?k1 = "unat e div 8192"
  have le: "unat s \<le> unat e" using assms(1) by (simp add: word_le_nat_alt)
  then have k: "?k0 \<le> ?k1" by (simp add: div_le_mono)
  have al: "unat s - unat s mod 8192 = ?k0 * 8192" by (simp add: minus_mod_eq_div_mult)
  have ale: "unat e + 8192 - unat e mod 8192 - 1 = ?k1 * 8192 + 8191" using minus_mod_eq_div_mult [of "unat e" 8192] by linarith
  have cnt: "(?k1 * 8192 + 8191 - ?k0 * 8192) div 8192 + 1 = Suc ?k1 - ?k0"
  proof -
    have "?k1 * 8192 + 8191 - ?k0 * 8192 = (?k1 - ?k0) * 8192 + 8191" using k by (simp add: diff_mult_distrib)
    then show ?thesis using k by (simp add: Suc_diff_le)
  qed
  have e: "?k1 * 8192 \<le> unat e" by simp
  have "map_outcome (\<lambda>i. let start = ?k0 * 8192 + i * 8192; stop = start + 8192 - 1
         in if 2 ^ 64 \<le> start + 8192 then Inl (Panic ''attempt to add with overflow'')
            else if unat i64_max < stop then Inl (Panic ''Invalid constant'') else Inr (of_nat start, of_nat stop)) [0..<Suc ?k1 - ?k0]
      = Inr (map (\<lambda>i. range_key (?k0 + i)) [0..<Suc ?k1 - ?k0])"
  proof (rule map_outcome_total)
    fix i assume "i \<in> set [0..<Suc ?k1 - ?k0]"
    then have "?k0 + i \<le> ?k1" using k by auto
    then have b: "(?k0 + i) * 8192 \<le> unat e" using e by (meson mult_le_mono1 order_trans)
    then have "?k0 * 8192 + i * 8192 + 16384 < 2 ^ 63" using assms(2) by (simp add: add_mult_distrib)
    then show "(let start = ?k0 * 8192 + i * 8192; stop = start + 8192 - 1
         in if 2 ^ 64 \<le> start + 8192 then Inl (Panic ''attempt to add with overflow'')
            else if unat i64_max < stop then Inl (Panic ''Invalid constant'') else Inr (of_nat start, of_nat stop)) = Inr (range_key (?k0 + i))"
      by (simp add: Let_def i64_max_def range_key_def range_start_def add_mult_distrib)
  qed
  moreover have "map (\<lambda>i. range_key (?k0 + i)) [0..<Suc ?k1 - ?k0] = map range_key [?k0..<Suc ?k1]"
    using k by (intro nth_equalityI) (simp_all del: upt_Suc)
  moreover have "?k0 * 8192 \<le> ?k1 * 8192 + 8191" using k by (meson mult_le_mono1 trans_le_add1)
  moreover have "\<not> 2 ^ 64 \<le> unat e + 8192" using assms(2) by simp
  ultimately show ?thesis unfolding cache_ranges_def Let_def bloom_sizes al ale 
    by (simp add: cnt [simplified] Let_def del: upt_Suc)
qed

lemma cache_get_many_eq:
  assumes "bloom_lib_ok lib" and "s \<le> e" and "unat e + 16384 < 2 ^ 63"
  shows "\<exists>cache'. cache_get_many lib s e cache =
      Inr (concat (map (\<lambda>k. case map_of cache (range_key k) of None \<Rightarrow> [] | Some f \<Rightarrow> [f]) [unat s div 8192..<Suc (unat e div 8192)]), cache') \<and>
    map_of cache' = map_of cache"
proof -
  let ?f = "\<lambda>k (found, cache). (found @ (case map_of cache k of None \<Rightarrow> [] | Some f \<Rightarrow> [f]), cache_touch lib k cache)"
  have "\<exists>c'. fold ?f ks (found, c) = (found @ concat (map (\<lambda>k. case map_of c k of None \<Rightarrow> [] | Some f \<Rightarrow> [f]) ks), c') \<and> map_of c' = map_of c" for ks found c
  proof (induction ks arbitrary: found c)
    case (Cons k ks)
    have t: "map_of (cache_touch lib k c) = map_of c" using assms(1) unfolding bloom_lib_ok_def by blast
    from Cons.IH [of "found @ (case map_of c k of None \<Rightarrow> [] | Some f \<Rightarrow> [f])" "cache_touch lib k c"] show ?case by (auto simp: t)
  qed simp
  from this [of "map range_key [unat s div 8192..<Suc (unat e div 8192)]" "[]" cache] show ?thesis
    using cache_ranges_eq [OF assms(2,3)] by (auto simp: cache_get_many_def comp_def simp del: upt_Suc)
qed

text \<open>The rows that the query selects, and the filters they hold.\<close>

lemma row_filter:
  assumes "row_ok lib n evs k row"
  shows "\<exists>a. (case row of ((from_block, to_block), bitmap) \<Rightarrow> agg_from_existing_compressed lib from_block to_block bitmap) = Inr a \<and> agg_for lib n evs k a"
proof -
  obtain a where a: "zstd_decompress lib (snd row) (1024 * BITVEC_BITS) = Some (agg_bitmap a)" "agg_for lib n evs k a" and k: "fst row = range_key k"
    using assms by (auto simp: row_ok_def)
  have "agg_from_parts (range_start k) (range_start k + 8191) (agg_bitmap a) = Inr a"
    using agg_from_parts_ok [of a] a(2) agg_for_to [OF a(2)] unfolding agg_for_def by metis
  then show ?thesis using a k by (cases row) (auto simp: agg_from_existing_compressed_def range_key_def)
qed

lemma list_all2_upt_sorted:
  assumes "list_all2 (\<lambda>k x. f x = range_start k) [0..<m] xs" and "m * 8192 < 2 ^ 63"
  shows "sorted (map f xs)" and "distinct (map f xs)" and "set (map f xs) = range_start ` {..<m}"
proof -
  have "map f xs = map range_start [0..<m]"
    using assms(1) by (intro nth_equalityI) (auto simp: list_all2_conv_all_nth)
  then show "sorted (map f xs)" "distinct (map f xs)" "set (map f xs) = range_start ` {..<m}"
    using sorted_range_starts [OF assms(2), of 0] by (simp_all add: atLeast0LessThan)
qed

definition cached_at :: "bloom_cache \<Rightarrow> nat \<Rightarrow> bool" where
  "cached_at cache k \<longleftrightarrow> map_of cache (range_key k) \<noteq> None"

lemma cached_filters:
  assumes "\<And>k a. k \<in> set ks \<Longrightarrow> map_of cache (range_key k) = Some a \<Longrightarrow> agg_for lib n evs k a"
  defines "found \<equiv> concat (map (\<lambda>k. case map_of cache (range_key k) of None \<Rightarrow> [] | Some f \<Rightarrow> [f]) ks)"
  shows "map agg_from_block found = map range_start (filter (cached_at cache) ks)" and "\<forall>f \<in> set found. \<exists>k \<in> set ks. cached_at cache k \<and> agg_for lib n evs k f"
proof -
  show "map agg_from_block found = map range_start (filter (cached_at cache) ks)" unfolding found_def using assms(1)
  proof (induction ks)
    case (Cons k ks)
    then have "map_of cache (range_key k) = Some a \<Longrightarrow> agg_from_block a = range_start k" for a by (simp add: agg_for_def)
    moreover have "map agg_from_block (concat (map (\<lambda>k. case map_of cache (range_key k) of None \<Rightarrow> [] | Some f \<Rightarrow> [f]) ks)) =
      map range_start (filter (cached_at cache) ks)" by (rule Cons.IH) (use Cons.prems in auto)
    ultimately show ?case by (cases "map_of cache (range_key k)") (simp_all add: cached_at_def [of cache k])
  qed simp
  show "\<forall>f \<in> set found. \<exists>k \<in> set ks. cached_at cache k \<and> agg_for lib n evs k f"
  proof
    fix f assume "f \<in> set found"
    then obtain k where k: "k \<in> set ks" "f \<in> set (case map_of cache (range_key k) of None \<Rightarrow> [] | Some f \<Rightarrow> [f])"
      by (auto simp: found_def)
    then have "map_of cache (range_key k) = Some f" by (auto split: option.splits)
    then show "\<exists>k \<in> set ks. cached_at cache k \<and> agg_for lib n evs k f" using assms(1) [OF k(1)] k(1) by (auto simp: cached_at_def)
  qed
qed

lemma list_all2_by_start:
  assumes "map agg_from_block fs = map range_start [k0..<m]" and "m * 8192 < 2 ^ 63"
    and "\<forall>f \<in> set fs. \<exists>k < m. agg_for lib n evs k f"
  shows "list_all2 (agg_for lib n evs) [k0..<m] fs"
proof -
  have len: "length fs = m - k0" using arg_cong [OF assms(1), of length] by simp
  have "agg_for lib n evs (k0 + i) (fs ! i)" if i: "i < m - k0" for i
  proof -
    obtain k where k: "k < m" "agg_for lib n evs k (fs ! i)" using assms(3) i len nth_mem by metis
    have "agg_from_block (fs ! i) = range_start (k0 + i)" using arg_cong [OF assms(1), of "\<lambda>xs. xs ! i"] i len by simp
    then have "range_start k = range_start (k0 + i)" using k(2) by (simp add: agg_for_def)
    then have "k = k0 + i" using range_start_less(2) [of k "k0 + i"] k(1) i assms(2) by simp
    then show ?thesis using k(2) by simp
  qed
  then show ?thesis using len by (simp add: list_all2_conv_all_nth)
qed

lemma loaded_rows:
  assumes rows: "list_all2 (row_ok lib n evs) [0..<K] tbl" and K: "K * 8192 < 2 ^ 63"
  shows "\<exists>fs. map_outcome (\<lambda>((from_block, to_block), bitmap). agg_from_existing_compressed lib from_block to_block bitmap)
      (sort_key (fst \<circ> fst) (filter (\<lambda>((from_block, to_block), _). P from_block to_block) tbl)) = Inr fs \<and>
    set (map agg_from_block fs) = range_start ` {k. k < K \<and> P (range_start k) (range_start k + 8191)} \<and> distinct (map agg_from_block fs) \<and>
    (\<forall>f \<in> set fs. \<exists>k < K. agg_for lib n evs k f)"
proof -
  let ?dec = "\<lambda>((from_block, to_block), bitmap). agg_from_existing_compressed lib from_block to_block bitmap"
  let ?sel = "filter (\<lambda>((from_block, to_block), _). P from_block to_block) tbl"
  have starts: "list_all2 (\<lambda>k x. (fst \<circ> fst) x = range_start k) [0..<K] tbl"
    using rows by (rule list_all2_mono) (simp add: row_ok_def range_key_def)
  note s = list_all2_upt_sorted [OF starts K]
  have sel: "sort_key (fst \<circ> fst) ?sel = ?sel" by (rule sort_key_id_if_sorted) (rule sorted_filter [OF s(1)])
  have each: "\<exists>k < K. \<exists>a. fst row = range_key k \<and> ?dec row = Inr a \<and> agg_for lib n evs k a" if "row \<in> set tbl" for row
  proof -
    obtain i where "i < length tbl" "row = tbl ! i" using \<open>row \<in> set tbl\<close> by (auto simp: in_set_conv_nth)
    then have "row_ok lib n evs i row" "i < K" using rows by (auto simp: list_all2_conv_all_nth)
    moreover from \<open>row_ok lib n evs i row\<close> have "fst row = range_key i" by (simp add: row_ok_def)
    ultimately show ?thesis using row_filter [of lib n evs i row] by (intro exI [of _ i]) (auto simp: case_prod_unfold)
  qed
  have out: "map_outcome ?dec ?sel = Inr (map (projr \<circ> ?dec) ?sel)"
    by (rule map_outcome_total) (use each in force)
  have start: "agg_from_block (projr (?dec row)) = fst (fst row)" if "row \<in> set tbl" for row
    using each [OF that] by (auto simp: agg_for_def range_key_def)
  have froms: "map agg_from_block (map (projr \<circ> ?dec) ?sel) = map (fst \<circ> fst) ?sel"
    unfolding map_map comp_assoc by (rule map_cong) (use start in auto)
  have "set (map (fst \<circ> fst) ?sel) = range_start ` {k. k < K \<and> P (range_start k) (range_start k + 8191)}"
  proof
    show "set (map (fst \<circ> fst) ?sel) \<subseteq> range_start ` {k. k < K \<and> P (range_start k) (range_start k + 8191)}"
      using each by (force simp: range_key_def)
    show "range_start ` {k. k < K \<and> P (range_start k) (range_start k + 8191)} \<subseteq> set (map (fst \<circ> fst) ?sel)"
    proof
      fix x assume "x \<in> range_start ` {k. k < K \<and> P (range_start k) (range_start k + 8191)}"
      then obtain k where k: "k < K" "P (range_start k) (range_start k + 8191)" "x = range_start k" by blast
      then have "tbl ! k \<in> set tbl" "fst (tbl ! k) = range_key k" using rows by (auto simp: list_all2_conv_all_nth row_ok_def)
      then show "x \<in> set (map (fst \<circ> fst) ?sel)" using k by (force simp: range_key_def)
    qed
  qed
  moreover have "distinct (map (fst \<circ> fst) ?sel)" using s(2) by (rule distinct_map_filter)
  moreover have "\<forall>f \<in> set (map (projr \<circ> ?dec) ?sel). \<exists>k < K. agg_for lib n evs k f" using each by force
  ultimately show ?thesis using out unfolding sel froms [symmetric] by blast
qed

lemma agg_for_keys:
  assumes "filters_ok lib n evs db"
  shows "unat n div 8192 * 8192 + 8192 < 2 ^ 63"
    and "map_of (filter_cache db) (range_key k) = Some a \<Longrightarrow> k * 8192 < 2 ^ 63 \<Longrightarrow> k < unat n div 8192 \<and> agg_for lib n evs k a"
proof -
  have n: "unat n + 16384 < 2 ^ 63" using assms by (simp add: filters_ok_def)
  moreover have "unat n div 8192 * 8192 \<le> unat n" by simp
  ultimately show K: "unat n div 8192 * 8192 + 8192 < 2 ^ 63" by linarith
  assume a: "map_of (filter_cache db) (range_key k) = Some a" and k: "k * 8192 < 2 ^ 63"
  from assms a obtain k' where k': "k' < unat n div 8192" "range_key k = range_key k'" "agg_for lib n evs k' a"
    unfolding filters_ok_def by blast
  then have "k' * 8192 < 2 ^ 63" using K by (meson add_lessD1 less_imp_le_nat mult_le_mono1 order_le_less_trans)
  then have "k = k'" using range_start_less(2) [OF k, of k'] k'(2) by (simp add: range_key_def)
  then show "k < unat n div 8192 \<and> agg_for lib n evs k a" using k' by simp
qed

lemma cache_set_many_ok:
  assumes "bloom_lib_ok lib"
    and "\<forall>key a. map_of cache key = Some a \<longrightarrow> (\<exists>k < K. key = range_key k \<and> agg_for lib n evs k a)"
    and "\<forall>f \<in> set fs. \<exists>k < K. agg_for lib n evs k f"
  shows "map_of (cache_set_many lib fs cache) key = Some a \<Longrightarrow> \<exists>k < K. key = range_key k \<and> agg_for lib n evs k a"
  using assms(2,3)
proof (induction fs arbitrary: cache)
  case (Cons f fs)
  obtain k where k: "k < K" "agg_for lib n evs k f" using Cons.prems(3) by auto
  have key: "(agg_from_block f, agg_to_block f) = range_key k" using k(2) agg_for_to [OF k(2)] by (simp add: range_key_def agg_for_def)
  have "\<forall>key a. map_of (cache_set lib (range_key k) f cache) key = Some a \<longrightarrow> (\<exists>k < K. key = range_key k \<and> agg_for lib n evs k a)"
  proof (intro allI impI)
    fix key' a' assume "map_of (cache_set lib (range_key k) f cache) key' = Some a'"
    then have "((map_of cache)(range_key k \<mapsto> f)) key' = Some a'" using assms(1) unfolding bloom_lib_ok_def by (metis option.distinct(1))
    then show "\<exists>k < K. key' = range_key k \<and> agg_for lib n evs k a'"
      using k Cons.prems(2) by (cases "key' = range_key k") (simp, blast, metis fun_upd_other)
  qed
  from Cons.IH [OF _ this] Cons.prems(1,3) show ?case unfolding cache_set_many_def fold_simps comp_apply key by (meson list.set_intros(2))
next
  case Nil
  from Nil(1) have "map_of cache key = Some a" by (simp add: cache_set_many_def)
  with Nil(2) show ?case by blast
qed

lemma sort_by_start:
  assumes "set (map agg_from_block fs) = range_start ` {k0..<m}" and "distinct (map agg_from_block fs)" and "m * 8192 < 2 ^ 63"
    and "\<forall>f \<in> set fs. \<exists>k < m. agg_for lib n evs k f"
  shows "list_all2 (agg_for lib n evs) [k0..<m] (sort_key agg_from_block fs)"
proof (rule list_all2_by_start)
  show "map agg_from_block (sort_key agg_from_block fs) = map range_start [k0..<m]"
  proof (rule sorted_distinct_set_unique)
    show "sorted (map agg_from_block (sort_key agg_from_block fs))" by (rule sorted_sort_key)
    show "distinct (map agg_from_block (sort_key agg_from_block fs))" using assms(2) by (simp add: distinct_map)
    show "set (map agg_from_block (sort_key agg_from_block fs)) = set (map range_start [k0..<m])" using assms(1) by simp
  qed (rule sorted_range_starts [OF assms(3)])+
qed (use assms in simp_all)

lemma in_range_iff:
  assumes "k * 8192 + 8192 < 2 ^ 63"
  shows "range_start k \<le> b \<longleftrightarrow> k \<le> unat b div 8192" and "b \<le> range_start k + 8191 \<longleftrightarrow> unat b div 8192 \<le> k"
proof -
  have k: "k * 8192 < 2 ^ 63" using assms by linarith
  show "range_start k \<le> b \<longleftrightarrow> k \<le> unat b div 8192"
    unfolding word_le_nat_alt unat_range_start [OF k] by (simp add: less_eq_div_iff_mult_less_eq)
  have "unat b \<le> k * 8192 + 8191 \<longleftrightarrow> unat b div 8192 < Suc k" by (subst div_less_iff_less_mult) auto
  then show "b \<le> range_start k + 8191 \<longleftrightarrow> unat b div 8192 \<le> k"
    unfolding word_le_nat_alt unat_range_end [OF k] by linarith
qed

lemma include_running_ok:
  assumes fs: "list_all2 (agg_for lib n evs) [k0..<min (Suc k1) K] fs" and running: "agg_for lib n evs K running"
    and "k0 \<le> k1" "k1 \<le> K" "k1 = unat e div 8192" "K * 8192 + 8192 < 2 ^ 63"
  shows "\<exists>include. should_include_running fs e running = Inr include \<and>
    list_all2 (agg_for lib n evs) [k0..<Suc k1] (if include then fs @ [running] else fs)"
proof (cases "fs = []")
  case True
  then have "min (Suc k1) K \<le> k0" using fs by auto
  then have "k0 = K" "k1 = K" using assms(3,4) by (auto simp: min_def split: if_splits)
  then show ?thesis using True running by (intro exI [of _ True]) (simp add: should_include_running_def)
next
  case False
  define m where "m = min (Suc k1) K"
  have len: "length fs = m - k0" using list_all2_lengthD [OF fs] by (simp add: m_def)
  moreover have "length fs \<noteq> 0" using False by simp
  ultimately have m: "k0 < m" "m \<le> K" using m_def by linarith+
  have "agg_for lib n evs (m - 1) (last fs)"
  proof -
    have "agg_for lib n evs (k0 + (length fs - 1)) (fs ! (length fs - 1))"
      using list_all2_nthD2 [OF fs, of "length fs - 1"] len m by (simp add: m_def [symmetric])
    moreover have "k0 + (length fs - 1) = m - 1" using len m by simp
    ultimately show ?thesis using False by (simp add: last_conv_nth)
  qed
  from agg_for_to [OF this] have to: "agg_to_block (last fs) = range_start (m - 1) + 8191" .
  have m1: "(m - 1) * 8192 + 8192 < 2 ^ 63" using m assms(6) by (simp add: diff_mult_distrib)
  then have m2: "(m - 1) * 8192 < 2 ^ 63" by linarith
  have "block_add (agg_to_block (last fs)) 1 = Inr (range_start m)"
  proof -
    have "range_start m = of_nat ((m - 1) * 8192 + 8192)" using m unfolding range_start_def by (simp add: diff_mult_distrib)
    then have "range_start (m - 1) + 8191 + 1 = range_start m" unfolding range_start_def of_nat_add by simp
    then show ?thesis using unat_range_end [OF m2] m1 to by (simp add: block_add_def)
  qed
  moreover have "range_start m = agg_from_block running \<longleftrightarrow> m = K"
    using range_start_less(2) [of m K] running m assms(6) by (auto simp: agg_for_def)
  moreover have "agg_to_block (last fs) < e \<longleftrightarrow> m \<le> k1"
    using in_range_iff(2) [OF m1, of e] m assms(5) unfolding to by (auto simp: not_le [symmetric])
  ultimately have "should_include_running fs e running = Inr (m = K \<and> m \<le> k1)" using False by (simp add: should_include_running_def)
  moreover have "m = K \<and> m \<le> k1 \<Longrightarrow> [k0..<Suc k1] = [k0..<m] @ [K]" using assms(3,4) m by auto
  moreover have "\<not> (m = K \<and> m \<le> k1) \<Longrightarrow> m = Suc k1" using assms(4) by (auto simp: m_def)
  ultimately show ?thesis using fs running by (auto simp: m_def [symmetric] list_all2_appendI simp del: upt_Suc)
qed

lemma selected_rows:
  assumes "filters_ok lib n evs db" and "s \<le> e" and "e < n"
    and found: "map agg_from_block found = map range_start (filter (cached_at cache) [unat s div 8192..<Suc (unat e div 8192)])"
  shows "{k. k < unat n div 8192 \<and> range_start k \<le> e \<and> s \<le> range_start k + 8191 \<and> range_start k \<notin> set (map agg_from_block found)} =
    {k. unat s div 8192 \<le> k \<and> k \<le> unat e div 8192 \<and> k < unat n div 8192 \<and> \<not> cached_at cache k}"
proof -
  note K = agg_for_keys(1) [OF assms(1)]
  have small: "k * 8192 + 8192 < 2 ^ 63" if "k \<le> unat n div 8192" for k
    using K mult_le_mono1 [OF that, of 8192] by linarith
  have e: "unat e div 8192 \<le> unat n div 8192" using assms(3) by (simp add: word_less_nat_alt div_le_mono)
  have "range_start k \<in> set (map agg_from_block found) \<longleftrightarrow> unat s div 8192 \<le> k \<and> k \<le> unat e div 8192 \<and> cached_at cache k"
    if "k < unat n div 8192" for k
  proof -
    have "range_start k = range_start k' \<longleftrightarrow> k = k'" if "k' \<le> unat e div 8192" for k'
      using range_start_less(2) [of k k'] small [of k] small [of k'] \<open>k < unat n div 8192\<close> that e by linarith
    then show ?thesis unfolding found set_map set_filter set_upt image_iff by (auto simp: less_Suc_eq_le)
  qed
  then show ?thesis using in_range_iff(1) [OF small, of _ e] in_range_iff(2) [OF small, of _ s] less_imp_le by auto
qed

lemma cached_part:
  assumes lib: "bloom_lib_ok lib" and ok: "filters_ok lib n evs db" and "s \<le> e" and "e < n"
  shows "\<exists>found cache. cache_get_many lib s e (filter_cache db) = Inr (found, cache) \<and> map_of cache = map_of (filter_cache db) \<and>
    map agg_from_block found = map range_start (filter (cached_at (filter_cache db)) [unat s div 8192..<Suc (unat e div 8192)]) \<and>
    (\<forall>f \<in> set found. \<exists>k < unat n div 8192. k \<le> unat e div 8192 \<and> agg_for lib n evs k f) \<and>
    (\<forall>k. k \<le> unat e div 8192 \<and> cached_at (filter_cache db) k \<longrightarrow> k < unat n div 8192)"
proof -
  define k0 k1 K where "k0 = unat s div 8192" and "k1 = unat e div 8192" and "K = unat n div 8192"
  note K = agg_for_keys(1) [OF ok, folded K_def]
  have k1: "k1 \<le> K" using assms(4) by (simp add: k1_def K_def word_less_nat_alt div_le_mono)
  have "unat e + 16384 < 2 ^ 63" using ok assms(4) by (simp add: filters_ok_def word_less_nat_alt)
  from cache_get_many_eq [OF lib assms(3) this, of "filter_cache db"] obtain cache where
    get: "cache_get_many lib s e (filter_cache db) = Inr (concat (map (\<lambda>k. case map_of (filter_cache db) (range_key k) of None \<Rightarrow> [] | Some f \<Rightarrow> [f]) [k0..<Suc k1]), cache)"
    and cache: "map_of cache = map_of (filter_cache db)" unfolding k0_def k1_def by blast
  define found where "found = concat (map (\<lambda>k. case map_of (filter_cache db) (range_key k) of None \<Rightarrow> [] | Some f \<Rightarrow> [f]) [k0..<Suc k1])"
  have hit: "k < K \<and> agg_for lib n evs k a" if "k \<le> k1" "map_of (filter_cache db) (range_key k) = Some a" for k a
  proof -
    have "k * 8192 < 2 ^ 63" using K mult_le_mono1 [of k K 8192] that(1) k1 by linarith
    then show ?thesis using agg_for_keys(2) [OF ok that(2)] by (simp add: K_def)
  qed
  then have hit': "k \<in> set [k0..<Suc k1] \<Longrightarrow> map_of (filter_cache db) (range_key k) = Some a \<Longrightarrow> agg_for lib n evs k a" for k a
    by (simp del: upt_Suc)
  have cached: "map agg_from_block found = map range_start (filter (cached_at (filter_cache db)) [k0..<Suc k1])"
      "\<forall>f \<in> set found. \<exists>k \<in> set [k0..<Suc k1]. cached_at (filter_cache db) k \<and> agg_for lib n evs k f"
    unfolding found_def by (rule cached_filters, erule (1) hit')+
  have kK: "\<forall>k. k \<le> k1 \<and> cached_at (filter_cache db) k \<longrightarrow> k < K" using hit by (auto simp: cached_at_def)
  have each: "\<exists>k < K. k \<le> k1 \<and> agg_for lib n evs k f" if "f \<in> set found" for f
  proof -
    from bspec [OF cached(2) that] obtain k where "k \<in> set [k0..<Suc k1]" "cached_at (filter_cache db) k" "agg_for lib n evs k f" by (elim bexE conjE)
    then show ?thesis using kK by (intro exI [of _ k]) (simp del: upt_Suc)
  qed
  show ?thesis unfolding k0_def [symmetric] k1_def [symmetric] K_def [symmetric]
  proof (rule exI, rule exI, intro conjI)
    show "cache_get_many lib s e (filter_cache db) = Inr (found, cache)" using get by (simp only: found_def)
    show "map_of cache = map_of (filter_cache db)" by (rule cache)
    show "map agg_from_block found = map range_start (filter (cached_at (filter_cache db)) [k0..<Suc k1])" by (rule cached(1))
    show "\<forall>f \<in> set found. \<exists>k < K. k \<le> k1 \<and> agg_for lib n evs k f" by (intro ballI each)
    show "\<forall>k. k \<le> k1 \<and> cached_at (filter_cache db) k \<longrightarrow> k < K" by (rule kK)
  qed
qed

lemma merge_filters:
  assumes K: "K * 8192 < 2 ^ 63"
    and found: "map agg_from_block found = map range_start (filter C [k0..<Suc k1])"
      "\<And>f. f \<in> set found \<Longrightarrow> \<exists>k < K. k \<le> k1 \<and> agg_for lib n evs k f" "\<And>k. k \<le> k1 \<Longrightarrow> C k \<Longrightarrow> k < K"
    and starts: "set (map agg_from_block fs) = range_start ` {k. k0 \<le> k \<and> k \<le> k1 \<and> k < K \<and> \<not> C k}"
    and dist: "distinct (map agg_from_block fs)" and each: "\<forall>f \<in> set fs. \<exists>k < K. agg_for lib n evs k f"
  shows "list_all2 (agg_for lib n evs) [k0..<min (Suc k1) K] (sort_key agg_from_block (fs @ found))"
proof (rule sort_by_start)
  have small: "k < K \<Longrightarrow> k * 8192 < 2 ^ 63" for k using K mult_le_mono1 [of k K 8192] by linarith
  then have inj: "inj_on range_start {..<K}" using range_start_less(2) by (auto simp: inj_on_def)
  have fset: "set (map agg_from_block found) = range_start ` {k. k0 \<le> k \<and> k \<le> k1 \<and> k < K \<and> C k}"
    unfolding found(1) set_map set_filter set_upt using found(3) by (auto simp: less_Suc_eq_le)
  have "{k0..<min (Suc k1) K} = {k. k0 \<le> k \<and> k \<le> k1 \<and> k < K \<and> \<not> C k} \<union> {k. k0 \<le> k \<and> k \<le> k1 \<and> k < K \<and> C k}"
    by auto
  then show "set (map agg_from_block (fs @ found)) = range_start ` {k0..<min (Suc k1) K}"
    by (simp only: map_append set_append starts fset image_Un)
  have "inj_on range_start (set (filter C [k0..<Suc k1]))" by (rule inj_on_subset [OF inj]) (use found(3) in auto)
  then have "distinct (map agg_from_block found)" unfolding found(1) distinct_map by simp
  moreover have "set (map agg_from_block fs) \<inter> set (map agg_from_block found) = {}"
    unfolding starts fset using inj_onD [OF inj] by auto
  ultimately show "distinct (map agg_from_block (fs @ found))" using dist by simp
  show "min (Suc k1) K * 8192 < 2 ^ 63" using K mult_le_mono1 [of "min (Suc k1) K" K 8192] by simp
  have "\<exists>k < min (Suc k1) K. agg_for lib n evs k f" if "f \<in> set fs" for f
  proof -
    from bspec [OF each that] obtain k where k: "k < K" "agg_for lib n evs k f" by (elim exE conjE)
    moreover have "agg_from_block f \<in> set (map agg_from_block fs)" using that by simp
    ultimately have "range_start k \<in> range_start ` {k. k0 \<le> k \<and> k \<le> k1 \<and> k < K \<and> \<not> C k}" unfolding starts by (simp add: agg_for_def)
    then have "k \<le> k1" using inj_onD [OF inj] k(1) by auto
    then show ?thesis using k by (intro exI [of _ k]) simp
  qed
  moreover have "\<exists>k < min (Suc k1) K. agg_for lib n evs k f" if f: "f \<in> set found" for f
    using found(2) [OF f] by (auto simp: less_Suc_eq_le)
  ultimately show "\<forall>f \<in> set (fs @ found). \<exists>k < min (Suc k1) K. agg_for lib n evs k f" by auto
qed

lemma filters_ok_cache:
  assumes "filters_ok lib n evs db"
    and "\<And>key a. map_of c key = Some a \<Longrightarrow> \<exists>k < unat n div 8192. key = range_key k \<and> agg_for lib n evs k a"
  shows "filters_ok lib n evs (db\<lparr> filter_cache := c \<rparr>)"
proof -
  have "running_filter (db\<lparr> filter_cache := c \<rparr>) = running_filter db" "bd_event_filters (db\<lparr> filter_cache := c \<rparr>) = bd_event_filters db"
    "filter_cache (db\<lparr> filter_cache := c \<rparr>) = c" by simp_all
  then show ?thesis using assms unfolding filters_ok_def by presburger
qed

lemma load_range_ok:
  assumes lib: "bloom_lib_ok lib" and ok: "filters_ok lib n evs db" and "s \<le> e" and "e < n"
  shows "\<exists>fs c. load_event_filter_range lib s e db = Inr (fs, db\<lparr> filter_cache := c \<rparr>) \<and>
    filters_ok lib n evs (db\<lparr> filter_cache := c \<rparr>) \<and>
    list_all2 (agg_for lib n evs) [unat s div 8192..<Suc (unat e div 8192)] fs"
proof -
  define k0 k1 K where "k0 = unat s div 8192" and "k1 = unat e div 8192" and "K = unat n div 8192"
  note K = agg_for_keys(1) [OF ok, folded K_def]
  have K': "K * 8192 < 2 ^ 63" using K by simp
  have k: "k0 \<le> k1" "k1 \<le> K" using assms(3,4) by (simp_all add: k0_def k1_def K_def word_le_nat_alt word_less_nat_alt div_le_mono)
  from cached_part [OF assms] obtain found cache where
    get: "cache_get_many lib s e (filter_cache db) = Inr (found, cache)" and cache: "map_of cache = map_of (filter_cache db)"
    and found: "map agg_from_block found = map range_start (filter (cached_at (filter_cache db)) [k0..<Suc k1])"
      "\<And>f. f \<in> set found \<Longrightarrow> \<exists>k < K. k \<le> k1 \<and> agg_for lib n evs k f" "\<And>k. k \<le> k1 \<Longrightarrow> cached_at (filter_cache db) k \<Longrightarrow> k < K"
    unfolding k0_def k1_def K_def by blast
  have "\<not> i64_max < agg_from_block f" if "f \<in> set found" for f
  proof -
    obtain k where "k < K" "agg_for lib n evs k f" using found(2) [OF \<open>f \<in> set found\<close>] by blast
    moreover from this(1) have "k * 8192 < 2 ^ 63" using K' mult_le_mono1 [of k K 8192] by linarith
    ultimately show ?thesis by (simp add: agg_for_def i64_max_def word_less_nat_alt unat_range_start)
  qed
  then have no_panic: "\<not> list_ex (\<lambda>f. i64_max < agg_from_block f) found" by (auto simp: list_ex_iff)
  have rows: "list_all2 (row_ok lib n evs) [0..<K] (bd_event_filters db)" using ok by (simp add: filters_ok_def K_def)
  from loaded_rows [OF rows K', of "\<lambda>f t. f \<le> e \<and> s \<le> t \<and> f \<notin> set (map agg_from_block found)"] obtain fs where
    load: "map_outcome (\<lambda>((from_block, to_block), bitmap). agg_from_existing_compressed lib from_block to_block bitmap)
      (sort_key (fst \<circ> fst) (filter (\<lambda>((from_block, to_block), _). from_block \<le> e \<and> s \<le> to_block \<and> from_block \<notin> set (map agg_from_block found))
        (bd_event_filters db))) = Inr fs"
    and sel: "set (map agg_from_block fs) = range_start ` {k. k < K \<and> range_start k \<le> e \<and> s \<le> range_start k + 8191 \<and> range_start k \<notin> set (map agg_from_block found)}"
    and dist: "distinct (map agg_from_block fs)" and each: "\<forall>f \<in> set fs. \<exists>k < K. agg_for lib n evs k f" by blast
  have starts: "set (map agg_from_block fs) = range_start ` {k. k0 \<le> k \<and> k \<le> k1 \<and> k < K \<and> \<not> cached_at (filter_cache db) k}"
    unfolding sel k0_def k1_def K_def by (rule arg_cong, rule selected_rows [OF ok assms(3,4)], rule found(1) [unfolded k0_def k1_def])
  have running: "agg_for lib n evs K (rf_filter (running_filter db))" using ok by (simp add: filters_ok_def K_def)
  have "list_all2 (agg_for lib n evs) [k0..<min (Suc k1) K] (sort_key agg_from_block (fs @ found))"
    by (rule merge_filters [where C = "cached_at (filter_cache db)", OF K' found(1)])
      (erule found(2), erule (1) found(3), rule starts, rule dist, rule each)
  from include_running_ok [OF this running k k1_def K] obtain inc where
    inc: "should_include_running (sort_key agg_from_block (fs @ found)) e (rf_filter (running_filter db)) = Inr inc"
      "list_all2 (agg_for lib n evs) [k0..<Suc k1] (if inc then sort_key agg_from_block (fs @ found) @ [rf_filter (running_filter db)] else sort_key agg_from_block (fs @ found))"
    by blast
  have "\<forall>key a. map_of cache key = Some a \<longrightarrow> (\<exists>k < K. key = range_key k \<and> agg_for lib n evs k a)"
    using ok unfolding cache filters_ok_def K_def by blast
  note cache_set_many_ok [OF lib this each]
  then have "filters_ok lib n evs (db\<lparr> filter_cache := cache_set_many lib fs cache \<rparr>)"
    by (intro filters_ok_cache [OF ok]) (simp only: K_def)
  moreover have "load_event_filter_range lib s e db = Inr (if inc then sort_key agg_from_block (fs @ found) @ [rf_filter (running_filter db)]
      else sort_key agg_from_block (fs @ found), db\<lparr> filter_cache := cache_set_many lib fs cache \<rparr>)"
    unfolding load_event_filter_range_def get using no_panic load inc(1) by (simp add: Let_def)
  ultimately show ?thesis using inc(2) unfolding k0_def k1_def by blast
qed

end
