(* ===== verification/EventScan_Correct.thy ===== *)
theory EventScan_Correct
  imports EventRange_Correct
begin

text \<open>
  The blocks that the filters of a range report: they are blocks of the range in ascending order, and every
  block of the range that has a matching event is among them.
\<close>

section \<open>Lists of blocks\<close>

lemma concat_ranges:
  assumes "k0 \<le> m"
  shows "concat (map (\<lambda>k. [k * 8192..<Suc k * 8192]) [k0..<m]) = [k0 * 8192..<m * 8192]"
  using assms
proof (induction m rule: dec_induct)
  case (step m)
  have "[k0 * 8192..<Suc m * 8192] = [k0 * 8192..<m * 8192] @ [m * 8192..<Suc m * 8192]"
    using step.hyps upt_add_eq_append [of "k0 * 8192" "m * 8192" 8192] by (simp add: add.commute)
  then show ?case using step by simp
qed simp

lemma filter_interval_upt:
  fixes a b lo hi :: nat
  assumes "lo \<le> a" "a \<le> Suc b" "b < hi"
  shows "filter (\<lambda>i. a \<le> i \<and> i \<le> b) [lo..<hi] = [a..<Suc b]"
proof -
  have "[lo..<hi] = [lo..<a] @ [a..<Suc b] @ [Suc b..<hi]"
    using assms upt_add_eq_append [of lo a "Suc b - a"] upt_add_eq_append [of lo "Suc b" "hi - Suc b"] by simp
  moreover have "filter (\<lambda>i. a \<le> i \<and> i \<le> b) [lo..<a] = []" "filter (\<lambda>i. a \<le> i \<and> i \<le> b) [Suc b..<hi] = []"
    by (auto simp: filter_empty_conv)
  moreover have "filter (\<lambda>i. a \<le> i \<and> i \<le> b) [a..<Suc b] = [a..<Suc b]" by (auto intro!: filter_True simp del: upt_Suc)
  ultimately show ?thesis by (simp only: filter_append) simp
qed

definition blocks_between :: "block_number \<Rightarrow> block_number \<Rightarrow> block_number list" where
  "blocks_between s e = map of_nat [unat s..<Suc (unat e)]"

lemma set_blocks_between: "set (blocks_between s e) = {s..e}"
proof
  show "set (blocks_between s e) \<subseteq> {s..e}"
  proof
    fix b assume "b \<in> set (blocks_between s e)"
    then obtain i where i: "unat s \<le> i" "i \<le> unat e" "b = of_nat i" by (auto simp: blocks_between_def)
    moreover have "unat e < 2 ^ LENGTH(64)" by (rule unsigned_less)
    ultimately have "i < 2 ^ 64" by simp
    then have "unat b = i" by (simp add: i(3) unat_of_nat take_bit_nat_eq_self)
    then show "b \<in> {s..e}" using i by (simp add: word_le_nat_alt)
  qed
  show "{s..e} \<subseteq> set (blocks_between s e)"
  proof
    fix b assume "b \<in> {s..e}"
    then have "unat b \<in> set [unat s..<Suc (unat e)]" by (simp add: word_le_nat_alt del: upt_Suc)
    then show "b \<in> set (blocks_between s e)" unfolding blocks_between_def set_map by (rule rev_image_eqI) simp
  qed
qed

lemma blocks_between_split:
  assumes "s \<le> m" "m \<le> e"
  shows "blocks_between s e = blocks_between s m @ map of_nat [Suc (unat m)..<Suc (unat e)]"
proof -
  have "[unat s..<Suc (unat e)] = [unat s..<Suc (unat m)] @ [Suc (unat m)..<Suc (unat e)]"
    using assms upt_add_eq_append [of "unat s" "Suc (unat m)" "unat e - unat m"] by (simp add: word_le_nat_alt)
  then show ?thesis by (simp add: blocks_between_def del: upt_Suc)
qed

lemma filter_blocks:
  fixes s e :: block_number
  assumes "lo \<le> unat s" "s \<le> e" "unat e < hi" "hi < 2 ^ 63"
  shows "filter (\<lambda>b. s \<le> b \<and> b \<le> e) (map of_nat [lo..<hi]) = blocks_between s e"
proof -
  have "unat (of_nat i :: block_number) = i" if "i < hi" for i
  proof -
    have "i < 2 ^ 64" using that assms(4) by simp
    then show ?thesis by (simp add: unat_of_nat take_bit_nat_eq_self)
  qed
  then have "filter ((\<lambda>b. s \<le> b \<and> b \<le> e) \<circ> of_nat) [lo..<hi] = filter (\<lambda>i. unat s \<le> i \<and> i \<le> unat e) [lo..<hi]"
    by (intro filter_cong) (simp_all add: word_le_nat_alt)
  moreover have "unat s \<le> Suc (unat e)" using assms(2) by (simp add: word_le_nat_alt)
  ultimately show ?thesis using filter_interval_upt [of lo "unat s" "unat e" hi] assms
    by (simp add: filter_map blocks_between_def del: upt_Suc)
qed

section \<open>The blocks to scan\<close>

lemma agg_blocks_range:
  assumes "agg_for lib n evs k a"
  shows "agg_blocks a = map of_nat [k * 8192..<Suc k * 8192]"
proof -
  have "[k * 8192..<Suc k * 8192] = map (\<lambda>c. k * 8192 + c) [0..<8192]"
    using map_add_upt [of "k * 8192" 8192] by (simp add: add.commute)
  then show ?thesis using assms by (simp add: agg_blocks_def agg_for_def range_start_def del: upt_Suc)
qed

lemma block_range_index:
  fixes b :: block_number
  assumes "b \<in> set (map of_nat [k * 8192..<Suc k * 8192])" and "Suc k * 8192 \<le> 2 ^ 63"
  shows "unat b div 8192 = k"
proof -
  from assms(1) obtain i where i: "k * 8192 \<le> i" "i < Suc k * 8192" "b = of_nat i" by (auto simp del: upt_Suc)
  then have "i < 2 ^ 64" using assms(2) by simp
  then have "unat b = i" by (simp add: i(3) unat_of_nat take_bit_nat_eq_self)
  then show ?thesis using i by (simp add: div_nat_eqI)
qed

lemma checked_filters:
  assumes "list_all2 (agg_for lib n evs) [k0..<m] fs" and "k0 \<le> m" and "m * 8192 < 2 ^ 63" and keys: "length keys \<le> 16"
  shows "\<exists>checked cand. map_outcome (agg_check lib addresses keys) fs = Inr checked \<and>
    concat checked = filter cand (map of_nat [k0 * 8192..<m * 8192]) \<and>
    (\<forall>b < n. unat b div 8192 \<in> {k0..<m} \<longrightarrow> (\<exists>ev \<in> set (evs b). event_matches addresses keys ev) \<longrightarrow> cand b)"
proof -
  have len: "length fs = m - k0" using list_all2_lengthD [OF assms(1)] by simp
  have for_k: "agg_for lib n evs k (fs ! (k - k0))" if "k0 \<le> k" "k < m" for k
    using list_all2_nthD [OF assms(1), of "k - k0"] that by simp
  have "\<forall>k. \<exists>cand. k0 \<le> k \<and> k < m \<longrightarrow> agg_check lib addresses keys (fs ! (k - k0)) = Inr (filter cand (agg_blocks (fs ! (k - k0)))) \<and>
    (\<forall>b \<in> set (agg_blocks (fs ! (k - k0))). \<forall>evs. agg_covers lib (fs ! (k - k0)) b evs \<longrightarrow> (\<exists>ev \<in> set evs. event_matches addresses keys ev) \<longrightarrow> cand b)"
    using agg_check_ok [OF _ keys] for_k unfolding agg_for_def by meson
  then obtain cand where cand: "\<And>k. k0 \<le> k \<Longrightarrow> k < m \<Longrightarrow> agg_check lib addresses keys (fs ! (k - k0)) = Inr (filter (cand k) (agg_blocks (fs ! (k - k0))))"
    "\<And>k b evs. k0 \<le> k \<Longrightarrow> k < m \<Longrightarrow> b \<in> set (agg_blocks (fs ! (k - k0))) \<Longrightarrow> agg_covers lib (fs ! (k - k0)) b evs \<Longrightarrow>
      \<exists>ev \<in> set evs. event_matches addresses keys ev \<Longrightarrow> cand k b" by metis
  let ?cand = "\<lambda>b. cand (unat b div 8192) b"
  have blocks: "agg_blocks (fs ! (k - k0)) = map of_nat [k * 8192..<Suc k * 8192]" if "k0 \<le> k" "k < m" for k
    by (rule agg_blocks_range [OF for_k [OF that]])
  have out: "map_outcome (agg_check lib addresses keys) fs = Inr (map (\<lambda>a. projr (agg_check lib addresses keys a)) fs)"
  proof (rule map_outcome_total)
    fix a assume "a \<in> set fs"
    then obtain i where "i < m - k0" "a = fs ! i" using len by (auto simp: in_set_conv_nth)
    then show "agg_check lib addresses keys a = Inr (projr (agg_check lib addresses keys a))" using cand(1) [of "k0 + i"] by simp
  qed
  have eq: "map (\<lambda>a. projr (agg_check lib addresses keys a)) fs = map (\<lambda>k. filter (cand k) (map of_nat [k * 8192..<Suc k * 8192])) [k0..<m]"
  proof (rule nth_equalityI)
    fix i assume "i < length (map (\<lambda>a. projr (agg_check lib addresses keys a)) fs)"
    then show "map (\<lambda>a. projr (agg_check lib addresses keys a)) fs ! i = map (\<lambda>k. filter (cand k) (map of_nat [k * 8192..<Suc k * 8192])) [k0..<m] ! i"
      using cand(1) [of "k0 + i"] blocks [of "k0 + i"] len by simp
  qed (simp add: len)
  have idx: "map (\<lambda>k. filter (cand k) (map of_nat [k * 8192..<Suc k * 8192])) [k0..<m] = map (\<lambda>k. filter ?cand (map of_nat [k * 8192..<Suc k * 8192])) [k0..<m]"
  proof (intro map_cong refl filter_cong)
    fix k and b :: block_number assume k: "k \<in> set [k0..<m]" and b: "b \<in> set (map of_nat [k * 8192..<Suc k * 8192])"
    show "cand k b = ?cand b" using block_range_index [OF b] k assms(3) by simp
  qed
  have cc: "concat (map (\<lambda>k. filter ?cand (map of_nat [k * 8192..<Suc k * 8192])) [k0..<m]) = filter ?cand (map of_nat (concat (map (\<lambda>k. [k * 8192..<Suc k * 8192]) [k0..<m])))"
    by (simp only: filter_concat map_concat map_map comp_def)
  have rep: "?cand b" if "b < n" "unat b div 8192 \<in> {k0..<m}" "\<exists>ev \<in> set (evs b). event_matches addresses keys ev" for b
  proof -
    let ?k = "unat b div 8192"
    have k: "k0 \<le> ?k" "?k < m" using that(2) by auto
    have "unat b \<in> set [?k * 8192..<Suc ?k * 8192]" using div_mult_mod_eq [of "unat b" 8192] mod_less_divisor [of 8192 "unat b"] by (simp del: upt_Suc div_mult_mod_eq)
    then have b: "b \<in> set (agg_blocks (fs ! (?k - k0)))" unfolding blocks [OF k] set_map by (rule rev_image_eqI) simp
    have "Suc ?k * 8192 < 2 ^ 63" using mult_le_mono1 [of "Suc ?k" m 8192] k(2) assms(3) by linarith
    then have "?k * 8192 + 8192 < 2 ^ 63" by simp
    from in_range_iff [OF this, of b] have "agg_covers lib (fs ! (?k - k0)) b (evs b)"
      using for_k [OF k] agg_for_to [OF for_k [OF k]] that(1) by (simp add: agg_for_def)
    then show ?thesis by (rule cand(2) [OF k b _ that(3)])
  qed
  show ?thesis
  proof (rule exI, rule exI, intro conjI)
    show "map_outcome (agg_check lib addresses keys) fs = Inr (map (\<lambda>a. projr (agg_check lib addresses keys a)) fs)" by (rule out)
    show "concat (map (\<lambda>a. projr (agg_check lib addresses keys a)) fs) = filter ?cand (map of_nat [k0 * 8192..<m * 8192])"
      by (simp only: eq idx cc concat_ranges [OF assms(2)])
    show "\<forall>b < n. unat b div 8192 \<in> {k0..<m} \<longrightarrow> (\<exists>ev \<in> set (evs b). event_matches addresses keys ev) \<longrightarrow> ?cand b" using rep by blast
  qed
qed

text \<open>The blocks that the two queries scan.\<close>

lemma blocks_to_scan_ok:
  assumes lib: "bloom_lib_ok lib" and ok: "filters_ok lib n evs db" and "s \<le> e" and "e < n" and keys: "length keys \<le> 16"
  shows "\<exists>fs c checked cand. load_event_filter_range lib s e db = Inr (fs, db\<lparr> filter_cache := c \<rparr>) \<and>
    filters_ok lib n evs (db\<lparr> filter_cache := c \<rparr>) \<and> fs \<noteq> [] \<and> e \<le> agg_to_block (last fs) \<and>
    map_outcome (agg_check lib addresses keys) fs = Inr checked \<and>
    filter (\<lambda>b. s \<le> b \<and> b \<le> e) (concat checked) = filter cand (blocks_between s e) \<and>
    (\<forall>b \<in> set (blocks_between s e). (\<exists>ev \<in> set (evs b). event_matches addresses keys ev) \<longrightarrow> cand b)"
proof -
  define k0 k1 where "k0 = unat s div 8192" and "k1 = unat e div 8192"
  obtain fs c where load: "load_event_filter_range lib s e db = Inr (fs, db\<lparr> filter_cache := c \<rparr>)" "filters_ok lib n evs (db\<lparr> filter_cache := c \<rparr>)"
    and fs: "list_all2 (agg_for lib n evs) [k0..<Suc k1] fs" using load_range_ok [OF assms(1-4)] unfolding k0_def k1_def by blast
  have k: "k0 \<le> k1" using assms(3) by (simp add: k0_def k1_def word_le_nat_alt div_le_mono)
  have "unat e + 16384 < 2 ^ 63" using ok assms(4) by (simp add: filters_ok_def word_less_nat_alt)
  moreover have k1: "k1 * 8192 \<le> unat e" by (simp add: k1_def)
  ultimately have small: "Suc k1 * 8192 < 2 ^ 63" by simp
  from checked_filters [OF fs _ small keys, of addresses] k obtain checked cand where
    checked: "map_outcome (agg_check lib addresses keys) fs = Inr checked" "concat checked = filter cand (map of_nat [k0 * 8192..<Suc k1 * 8192])"
    and cand: "\<And>b. b < n \<Longrightarrow> unat b div 8192 \<in> {k0..<Suc k1} \<Longrightarrow> \<exists>ev \<in> set (evs b). event_matches addresses keys ev \<Longrightarrow> cand b" by auto
  have len: "length fs = Suc k1 - k0" using list_all2_lengthD [OF fs] by (simp del: upt_Suc)
  then have ne: "fs \<noteq> []" using k by auto
  have "agg_for lib n evs k1 (last fs)"
    using list_all2_nthD2 [OF fs, of "length fs - 1"] len k ne by (simp add: last_conv_nth del: upt_Suc)
  moreover have "k1 * 8192 + 8192 < 2 ^ 63" using small by simp
  ultimately have last: "e \<le> agg_to_block (last fs)" using in_range_iff(2) [of k1 e] by (simp add: agg_for_to k1_def)
  have scan: "filter (\<lambda>b. s \<le> b \<and> b \<le> e) (map of_nat [k0 * 8192..<Suc k1 * 8192]) = blocks_between s e"
  proof (rule filter_blocks)
    show "k0 * 8192 \<le> unat s" by (simp add: k0_def)
    show "unat e < Suc k1 * 8192" using dividend_less_div_times [of 8192 "unat e"] by (simp add: k1_def)
    show "Suc k1 * 8192 < 2 ^ 63" by (rule small)
  qed (rule assms(3))
  have "filter (\<lambda>b. s \<le> b \<and> b \<le> e) (concat checked) = filter cand (filter (\<lambda>b. s \<le> b \<and> b \<le> e) (map of_nat [k0 * 8192..<Suc k1 * 8192]))"
    unfolding checked(2) filter_filter by (rule filter_cong) auto
  then have "filter (\<lambda>b. s \<le> b \<and> b \<le> e) (concat checked) = filter cand (blocks_between s e)" unfolding scan .
  moreover have "\<forall>b \<in> set (blocks_between s e). (\<exists>ev \<in> set (evs b). event_matches addresses keys ev) \<longrightarrow> cand b"
  proof (intro ballI impI)
    fix b assume "b \<in> set (blocks_between s e)"
    then have "b < n" "unat b div 8192 \<in> {k0..<Suc k1}" using assms(4)
      by (auto simp: set_blocks_between k0_def k1_def word_le_nat_alt word_less_nat_alt div_le_mono less_Suc_eq_le)
    then show "\<exists>ev \<in> set (evs b). event_matches addresses keys ev \<Longrightarrow> cand b" by (rule cand)
  qed
  ultimately show ?thesis using load checked(1) ne last by blast
qed

end
