(* ===== verification/EventStore_Correct.thy ===== *)
theory EventStore_Correct
  imports EventScan_Correct
begin

text \<open>
  The two queries for events return the matching events of their blocks, and following the continuation
  tokens of the paged query returns all of them.
\<close>

section \<open>Stored events\<close>

text \<open>
  The blocks \<open>0\<close> to \<open>n - 1\<close> are stored: \<open>hdr\<close> has their headers and \<open>E\<close> their events, with the hash and the index
  of the transaction of each list.
\<close>

definition events_stored ::
  "block_lib \<Rightarrow> header_table \<Rightarrow> block_number \<Rightarrow> (block_number \<Rightarrow> block_header) \<Rightarrow> (block_number \<Rightarrow> ((felt \<times> u64) \<times> event list) list) \<Rightarrow> block_db \<Rightarrow> bool" where
  "events_stored lib hs n hdr E db \<longleftrightarrow> 0 < n \<and> header_block_number hs BlockLatest = Some (n - 1) \<and>
     (\<forall>b < n. header_at hs (BlockNumber b) = Some (hdr b) \<and> hd_number (hdr b) = b \<and> events_for_block lib hs (BlockNumber b) db = Inr (Some (E b))) \<and>
     filters_ok (bl_bloom lib) n (\<lambda>b. concat (map snd (E b))) db"

text \<open>The events of a query, block by block.\<close>

definition block_matching ::
  "(block_number \<Rightarrow> block_header) \<Rightarrow> (block_number \<Rightarrow> ((felt \<times> u64) \<times> event list) list) \<Rightarrow> felt list \<Rightarrow> felt list list \<Rightarrow> block_number \<Rightarrow> emitted_event list" where
  "block_matching hdr E addresses keys b = matching_events addresses keys (hdr b) (E b)"

lemma events_for_block_cache [simp]: "events_for_block lib hs block (db\<lparr> filter_cache := c \<rparr>) = events_for_block lib hs block db"
proof -
  have "query_events_by_block lib number (db\<lparr> filter_cache := c \<rparr>) = query_events_by_block lib number db" for number
    by (simp add: query_events_by_block_def)
  moreover have "query_transaction_infos_by_block number (db\<lparr> filter_cache := c \<rparr>) = query_transaction_infos_by_block number db" for number
    by (simp add: query_transaction_infos_by_block_def)
  ultimately show ?thesis by (simp only: events_for_block_def)
qed

lemma events_stored_cache:
  assumes "events_stored lib hs n hdr E db" and "filters_ok (bl_bloom lib) n (\<lambda>b. concat (map snd (E b))) (db\<lparr> filter_cache := c \<rparr>)"
  shows "events_stored lib hs n hdr E (db\<lparr> filter_cache := c \<rparr>)"
  using assms by (simp add: events_stored_def)

lemma numbered_events_set: "fst ` set (numbered_events events) = set (concat (map snd events))"
proof -
  have "map fst (numbered_events events) = concat (map snd events)"
    unfolding numbered_events_def map_concat map_map
    by (intro arg_cong [where f = concat] map_cong refl) (auto simp: comp_def case_prod_unfold map_snd_enumerate [unfolded comp_def])
  then show ?thesis by (metis set_map)
qed

lemma block_matching_empty:
  assumes "\<not> (\<exists>ev \<in> set (concat (map snd (E b))). event_matches addresses keys ev)"
  shows "block_matching hdr E addresses keys b = []"
proof -
  have "\<not> (address_matches addresses ev \<and> keys_match keys ev)" if "(ev, x) \<in> set (numbered_events (E b))" for ev x
    using assms that unfolding numbered_events_set [symmetric] event_matches_def by force
  then show ?thesis by (auto simp: block_matching_def matching_events_def filter_empty_conv)
qed

lemma block_matching_number:
  "\<forall>e \<in> set (block_matching hdr E addresses keys b). em_block_number e = hd_number (hdr b)"
  by (auto simp: block_matching_def matching_events_def emit_def)

lemma concat_skip: "(\<And>b. b \<in> set bs \<Longrightarrow> \<not> P b \<Longrightarrow> f b = []) \<Longrightarrow> concat (map f (filter P bs)) = concat (map f bs)"
  by (induction bs) auto

section \<open>All events of a range\<close>

lemma scan_blocks_eq:
  assumes "\<And>b. b \<in> set bs \<Longrightarrow> header_at hs (BlockNumber b) = Some (hdr b) \<and> events_for_block lib hs (BlockNumber b) db = Inr (Some (E b))"
  shows "scan_blocks lib hs addresses keys db bs emitted = Inr (emitted @ concat (map (block_matching hdr E addresses keys) bs))"
  using assms by (induction bs arbitrary: emitted) (simp_all add: block_matching_def)

section \<open>A page\<close>

lemma page_loop_eq:
  fixes constraints :: event_constraints and hdr :: "block_number \<Rightarrow> block_header" and E :: "block_number \<Rightarrow> ((felt \<times> u64) \<times> event list) list"
  defines "p \<equiv> ec_page_size constraints" and "M \<equiv> block_matching hdr E (ec_contract_addresses constraints) (ec_keys constraints)"
  assumes blocks: "\<And>b. b \<in> set bs \<Longrightarrow> header_at hs (BlockNumber b) = Some (hdr b) \<and> events_for_block lib hs (BlockNumber b) db = Inr (Some (E b))"
    and p: "p < usize_max" and "length emitted \<le> p"
  shows "page_loop lib hs constraints from_block db bs offset emitted =
    (let total = emitted @ drop offset (concat (map M bs))
     in if p < length total then
          bind_outcome (expect_some ''unwrap on None'' (continuation_token_of (take (Suc p) total) \<lparr> ct_block_number = from_block, ct_offset = ec_offset constraints \<rparr>))
            (\<lambda>token. Inr (Inl \<lparr> pe_events = take p total, pe_token = Some (token\<lparr> ct_offset := ct_offset token - 1 \<rparr>) \<rparr>))
        else Inr (Inr total))"
  using blocks assms(5)
proof (induction bs arbitrary: offset emitted)
  case (Cons b bs)
  define new where "new = emitted @ take (p + 1 - length emitted) (drop offset (M b))"
  have b: "header_at hs (BlockNumber b) = Some (hdr b)" "events_for_block lib hs (BlockNumber b) db = Inr (Some (E b))"
    using Cons.prems(1) [of b] by simp_all
  have np: "ec_page_size constraints \<noteq> usize_max" using p by (simp add: p_def)
  have split: "drop offset (concat (map M (b # bs))) = drop offset (M b) @ drop (offset - length (M b)) (concat (map M bs))" by simp
  have step: "page_loop lib hs constraints from_block db (b # bs) offset emitted =
      (if p < length new then
         bind_outcome (expect_some ''unwrap on None'' (continuation_token_of new \<lparr> ct_block_number = from_block, ct_offset = ec_offset constraints \<rparr>))
           (\<lambda>token. Inr (Inl \<lparr> pe_events = take p new, pe_token = Some (token\<lparr> ct_offset := ct_offset token - 1 \<rparr>) \<rparr>))
       else page_loop lib hs constraints from_block db bs (offset - length (M b)) new)"
    unfolding page_loop.simps Let_def b expect_some_simps bind_outcome_simps option.case new_def M_def p_def block_matching_def if_not_P [OF np] ..
  show ?case
  proof (cases "p < length new")
    case True
    then have "length (drop offset (M b)) \<ge> p + 1 - length emitted" by (simp add: new_def)
    then have "take (Suc p) (emitted @ drop offset (concat (map M (b # bs)))) = new" "p < length (emitted @ drop offset (concat (map M (b # bs))))"
      unfolding split using Cons.prems(2) True by (simp_all add: new_def Suc_diff_le)
    moreover from this(1) have "take p (emitted @ drop offset (concat (map M (b # bs)))) = take p new"
      by (metis le_add2 min.absorb1 plus_1_eq_Suc take_take)
    ultimately show ?thesis unfolding step Let_def using True by simp
  next
    case False
    then have "new = emitted @ drop offset (M b)" using Cons.prems(2) by (auto simp: new_def min_def split: if_splits)
    moreover have "length new \<le> p" using False by simp
    ultimately show ?thesis unfolding step using False Cons.IH [of "new" "offset - length (M b)"] Cons.prems(1) split by simp
  qed
qed (use assms(5) in simp)

section \<open>Continuation tokens\<close>

text \<open>Elements grouped by \<open>f\<close>: the elements of the group of \<open>B\<close> are those of \<open>D\<close>.\<close>

lemma group_at_end:
  fixes R :: "'a list"
  assumes "\<forall>x \<in> set A. f x \<noteq> B" "\<forall>x \<in> set D. f x = B"
    and i: "length A \<le> off + p" "off + p < length A + length D"
  defines "emitted \<equiv> take (Suc p) (drop off (A @ D @ R))"
  shows "length emitted = Suc p" and "f (last emitted) = B"
    and "length (takeWhile (\<lambda>x. f x = B) (rev emitted)) = (if off < length A then Suc (off + p) - length A else Suc p)"
proof -
  show len: "length emitted = Suc p" using i by (simp add: emitted_def)
  have "emitted \<noteq> []" using len by auto
  then have "last emitted = emitted ! p" using len by (simp add: last_conv_nth)
  also have "\<dots> = (A @ D @ R) ! (off + p)" unfolding emitted_def using i by (subst nth_take) (simp_all del: drop_append)
  also have "\<dots> = D ! (off + p - length A)"
  proof -
    have "off + p - length A < length D" using i by linarith
    then show ?thesis using i(1) by (simp add: nth_append)
  qed
  finally show "f (last emitted) = B" using assms(2) i by simp
  show "length (takeWhile (\<lambda>x. f x = B) (rev emitted)) = (if off < length A then Suc (off + p) - length A else Suc p)"
  proof (cases "off < length A")
    case True
    have "emitted = drop off A @ take (Suc p - (length A - off)) D"
      using True i by (simp add: emitted_def)
    then have rev: "rev emitted = rev (take (Suc p - (length A - off)) D) @ rev (drop off A)" by simp
    have "last (drop off A) \<in> set A" using True by (metis drop_eq_Nil in_set_dropD last_in_set not_le)
    then have none: "takeWhile (\<lambda>x. f x = B) (rev (drop off A)) = []"
      using assms(1) True by (simp add: takeWhile_eq_Nil_iff hd_rev)
    have "takeWhile (\<lambda>x. f x = B) (rev emitted) = rev (take (Suc p - (length A - off)) D)"
      unfolding rev by (subst takeWhile_append2) (use assms(2) none in \<open>auto dest: in_set_takeD\<close>)
    then show ?thesis using True i by simp
  next
    case False
    then have "emitted = take (Suc p) (drop (off - length A) D)" using i by (simp add: emitted_def)
    then have "\<forall>x \<in> set (rev emitted). f x = B" using assms(2) by (auto dest: in_set_takeD in_set_dropD)
    then show ?thesis using False len by (simp add: takeWhile_eq_all_conv [THEN iffD2])
  qed
qed

lemma unat_block_of_nat: "m < 2 ^ 64 \<Longrightarrow> unat (of_nat m :: block_number) = m"
  by (simp add: unat_of_nat take_bit_nat_eq_self)

definition events_between :: "(block_number \<Rightarrow> emitted_event list) \<Rightarrow> block_number \<Rightarrow> block_number \<Rightarrow> emitted_event list" where
  "events_between M s e = concat (map M (blocks_between s e))"

lemma blocks_between_suffix:
  assumes "blocks_between s e = pre @ b # post"
  shows "b # post = blocks_between b e"
proof -
  have "b # post = drop (length pre) (blocks_between s e)" using assms by simp
  then have tail: "b # post = map of_nat [unat s + length pre..<Suc (unat e)]" by (simp add: blocks_between_def drop_map del: upt_Suc)
  then have lt: "unat s + length pre < Suc (unat e)" by (metis list.distinct(1) list.map_disc_iff upt_eq_Nil_conv not_le)
  then have "b = of_nat (unat s + length pre)" using tail by (simp add: upt_conv_Cons del: upt_Suc)
  moreover have "unat e < 2 ^ LENGTH(64)" by (rule unsigned_less)
  ultimately have "unat b = unat s + length pre" using lt unat_block_of_nat [of "unat s + length pre"] by simp
  then show ?thesis using tail by (simp add: blocks_between_def)
qed

lemma distinct_blocks_between: "distinct (blocks_between s e)"
proof -
  have "inj_on (of_nat :: nat \<Rightarrow> block_number) {unat s..<Suc (unat e)}"
  proof (rule inj_onI)
    fix x y assume "x \<in> {unat s..<Suc (unat e)}" "y \<in> {unat s..<Suc (unat e)}" and eq: "(of_nat x :: block_number) = of_nat y"
    moreover have "unat e < 2 ^ LENGTH(64)" by (rule unsigned_less)
    ultimately have "x < 2 ^ 64" "y < 2 ^ 64" by auto
    then show "x = y" using arg_cong [OF eq, of unat] by (simp only: unat_block_of_nat)
  qed
  then show ?thesis by (simp add: blocks_between_def distinct_map del: upt_Suc)
qed

lemma token_resumes:
  assumes M: "\<And>b x. b \<in> set (blocks_between s e) \<Longrightarrow> x \<in> set (M b) \<Longrightarrow> em_block_number x = b"
    and i: "off + p < length (events_between M s e)"
  shows "\<exists>b o'. continuation_token_of (take (Suc p) (drop off (events_between M s e))) \<lparr> ct_block_number = s, ct_offset = off \<rparr>
      = Some \<lparr> ct_block_number = b, ct_offset = Suc o' \<rparr> \<and>
    s \<le> b \<and> b \<le> e \<and> o' < length (events_between M b e) \<and> drop o' (events_between M b e) = drop (off + p) (events_between M s e)"
proof -
  define all x where "all = events_between M s e" and "x = all ! (off + p)"
  have "x \<in> set all" using i by (simp add: all_def x_def)
  then obtain b where b: "b \<in> set (blocks_between s e)" "x \<in> set (M b)" by (auto simp: all_def events_between_def)
  obtain pre post where split: "blocks_between s e = pre @ b # post" using b(1) by (auto dest: split_list)
  let ?A = "concat (map M pre)" and ?R = "concat (map M post)"
  have all: "all = ?A @ M b @ ?R" by (simp add: all_def events_between_def split)
  have in_M: "em_block_number y = c" if "c \<in> set (pre @ b # post)" "y \<in> set (M c)" for c y using M that split by simp
  have other: "\<forall>y \<in> set (concat (map M cs)). em_block_number y \<noteq> b" if "set cs \<subseteq> set (pre @ b # post)" "b \<notin> set cs" for cs
  proof
    fix y assume "y \<in> set (concat (map M cs))"
    then obtain c where "c \<in> set cs" "y \<in> set (M c)" by auto
    with that show "em_block_number y \<noteq> b" using in_M [of c y] by auto
  qed
  have "distinct (pre @ b # post)" using distinct_blocks_between [of s e] split by simp
  then have A: "\<forall>y \<in> set ?A. em_block_number y \<noteq> b" and R: "\<forall>y \<in> set ?R. em_block_number y \<noteq> b"
    using other [of pre] other [of post] by auto
  have D: "\<forall>y \<in> set (M b). em_block_number y = b" using in_M by simp
  then have x: "em_block_number (all ! (off + p)) = b" using b(2) by (simp add: x_def)
  have lo: "length ?A \<le> off + p"
  proof (rule ccontr)
    assume "\<not> ?thesis"
    then have "all ! (off + p) = ?A ! (off + p)" "off + p < length ?A" by (simp_all add: all nth_append)
    then show False using x A by (metis nth_mem)
  qed
  have hi: "off + p < length ?A + length (M b)"
  proof (rule ccontr)
    assume "\<not> ?thesis"
    then have "all ! (off + p) = ?R ! (off + p - length ?A - length (M b))" "off + p - length ?A - length (M b) < length ?R"
      using i by (auto simp: all nth_append all_def [symmetric])
    then show False using x R by (metis nth_mem)
  qed
  note group = group_at_end [of ?A em_block_number b "M b" off p ?R, OF A D lo hi, folded all]
  have tail: "events_between M b e = M b @ ?R" unfolding events_between_def blocks_between_suffix [OF split, symmetric] by simp
  have se: "s \<le> b" "b \<le> e" "s \<le> e" using b(1) unfolding set_blocks_between by auto
  have ne: "take (Suc p) (drop off all) \<noteq> []" using group(1) by auto
  show ?thesis
  proof (cases "off < length ?A")
    case True
    then have "continuation_token_of (take (Suc p) (drop off all)) \<lparr> ct_block_number = s, ct_offset = off \<rparr> = Some \<lparr> ct_block_number = b, ct_offset = Suc (off + p - length ?A) \<rparr>"
      unfolding continuation_token_of_def Let_def group using ne lo by (simp add: Suc_diff_le)
    moreover have "drop (off + p - length ?A) (events_between M b e) = drop (off + p) all" using lo by (simp add: tail all)
    moreover have "off + p - length ?A < length (events_between M b e)" using hi lo by (simp add: tail)
    ultimately show ?thesis unfolding all_def using se by blast
  next
    case False
    then have "continuation_token_of (take (Suc p) (drop off all)) \<lparr> ct_block_number = s, ct_offset = off \<rparr> = Some \<lparr> ct_block_number = s, ct_offset = Suc (off + p) \<rparr>"
      unfolding continuation_token_of_def Let_def group using ne by simp
    then show ?thesis using se i unfolding all_def by blast
  qed
qed

end
