(* ===== verification/EventPaging.thy ===== *)
theory EventPaging
  imports EventStore_Correct
begin

text \<open>
  The paged query: a page is the next part of the matching events, its token continues after it, and the
  pages of a chain of tokens together are all matching events.
\<close>

section \<open>One page\<close>

definition matching_in :: "(block_number \<Rightarrow> block_header) \<Rightarrow> (block_number \<Rightarrow> ((felt \<times> u64) \<times> event list) list) \<Rightarrow> event_constraints \<Rightarrow> block_number \<Rightarrow> block_number \<Rightarrow> emitted_event list" where
  "matching_in hdr E constraints = events_between (block_matching hdr E (ec_contract_addresses constraints) (ec_keys constraints))"

definition page_ok :: "nat \<Rightarrow> (block_number \<Rightarrow> block_number \<Rightarrow> emitted_event list) \<Rightarrow> block_number \<Rightarrow> nat \<Rightarrow> block_number \<Rightarrow> block_number \<Rightarrow> page_of_events \<Rightarrow> bool" where
  "page_ok p evs s off hi to page \<longleftrightarrow> pe_events page = take p (drop off (evs s hi)) \<and>
     (if off + p < length (evs s hi) then
        \<exists>b o'. pe_token page = Some \<lparr> ct_block_number = b, ct_offset = o' \<rparr> \<and> s \<le> b \<and> b \<le> hi \<and>
          o' < length (evs b hi) \<and> drop o' (evs b hi) = drop (off + p) (evs s hi)
      else pe_token page = (if hi < to then Some \<lparr> ct_block_number = hi + 1, ct_offset = 0 \<rparr> else None))"

lemma stored_blocks:
  assumes "events_stored lib hs n hdr E db" and "b < n"
  shows "header_at hs (BlockNumber b) = Some (hdr b) \<and> events_for_block lib hs (BlockNumber b) db = Inr (Some (E b))" and "hd_number (hdr b) = b"
  using assms by (simp_all add: events_stored_def)

lemma blocks_below: "hi < n \<Longrightarrow> b \<in> set (blocks_between s hi) \<Longrightarrow> b < n"
  unfolding set_blocks_between by auto

lemma page_loop_stored:
  assumes st: "events_stored lib hs n hdr E db" and hi: "hi < n" and p: "ec_page_size constraints < usize_max"
    and cand: "\<forall>b \<in> set (blocks_between s hi).
      (\<exists>ev \<in> set (concat (map snd (E b))). event_matches (ec_contract_addresses constraints) (ec_keys constraints) ev) \<longrightarrow> cand b"
  shows "page_loop lib hs constraints s db (filter cand (blocks_between s hi)) offset [] =
    (let total = drop offset (matching_in hdr E constraints s hi)
     in if ec_page_size constraints < length total then
          bind_outcome (expect_some ''unwrap on None''
              (continuation_token_of (take (Suc (ec_page_size constraints)) total) \<lparr> ct_block_number = s, ct_offset = ec_offset constraints \<rparr>))
            (\<lambda>token. Inr (Inl \<lparr> pe_events = take (ec_page_size constraints) total, pe_token = Some (token\<lparr> ct_offset := ct_offset token - 1 \<rparr>) \<rparr>))
        else Inr (Inr total))"
proof -
  let ?M = "block_matching hdr E (ec_contract_addresses constraints) (ec_keys constraints)"
  have skip: "concat (map ?M (filter cand (blocks_between s hi))) = matching_in hdr E constraints s hi"
    unfolding matching_in_def events_between_def using cand block_matching_empty by (intro concat_skip) blast
  have "page_loop lib hs constraints s db (filter cand (blocks_between s hi)) offset [] =
    (let total = [] @ drop offset (concat (map ?M (filter cand (blocks_between s hi))))
     in if ec_page_size constraints < length total then
          bind_outcome (expect_some ''unwrap on None''
              (continuation_token_of (take (Suc (ec_page_size constraints)) total) \<lparr> ct_block_number = s, ct_offset = ec_offset constraints \<rparr>))
            (\<lambda>token. Inr (Inl \<lparr> pe_events = take (ec_page_size constraints) total, pe_token = Some (token\<lparr> ct_offset := ct_offset token - 1 \<rparr>) \<rparr>))
        else Inr (Inr total))"
    by (rule page_loop_eq) (use stored_blocks(1) [OF st blocks_below [OF hi]] p in auto)
  then show ?thesis by (simp only: skip append_Nil)
qed

lemma events_page_ok:
  assumes lib: "bloom_lib_ok (bl_bloom lib)" and st: "events_stored lib hs n hdr E db" and "s \<le> hi" "hi \<le> to" "to < n"
    and keys: "length (ec_keys constraints) \<le> 16" and p: "ec_page_size constraints < usize_max"
  shows "\<exists>page c. events_page lib hs constraints s to hi db = Inr (page, db\<lparr> filter_cache := c \<rparr>) \<and>
    events_stored lib hs n hdr E (db\<lparr> filter_cache := c \<rparr>) \<and>
    page_ok (ec_page_size constraints) (matching_in hdr E constraints) s (ec_offset constraints) hi to page"
proof -
  let ?p = "ec_page_size constraints" and ?off = "ec_offset constraints" and ?a = "ec_contract_addresses constraints" and ?k = "ec_keys constraints"
  define M where "M = block_matching hdr E ?a ?k"
  have hi: "hi < n" using assms(4,5) by simp
  have "filters_ok (bl_bloom lib) n (\<lambda>b. concat (map snd (E b))) db" using st by (simp add: events_stored_def)
  from blocks_to_scan_ok [OF lib this assms(3) hi keys, of ?a] obtain fs c checked cand where
    load: "load_event_filter_range (bl_bloom lib) s hi db = Inr (fs, db\<lparr> filter_cache := c \<rparr>)"
    and ok: "filters_ok (bl_bloom lib) n (\<lambda>b. concat (map snd (E b))) (db\<lparr> filter_cache := c \<rparr>)" and ne: "fs \<noteq> []" "hi \<le> agg_to_block (last fs)"
    and checked: "map_outcome (agg_check (bl_bloom lib) ?a ?k) fs = Inr checked"
    and scan: "filter (\<lambda>b. s \<le> b \<and> b \<le> hi) (concat checked) = filter cand (blocks_between s hi)"
    and cand: "\<forall>b \<in> set (blocks_between s hi). (\<exists>ev \<in> set (concat (map snd (E b))). event_matches ?a ?k ev) \<longrightarrow> cand b" by blast
  note st' = events_stored_cache [OF st ok]
  have last: "min hi (agg_to_block (last fs)) = hi" using ne(2) by simp
  have number: "em_block_number x = b" if "b \<in> set (blocks_between s hi)" "x \<in> set (M b)" for b x
    using that block_matching_number [of hdr E ?a ?k b] stored_blocks(2) [OF st blocks_below [OF hi]] unfolding M_def by simp
  note loop = page_loop_stored [OF st' hi p cand]
  have page: "events_page lib hs constraints s to hi db =
      bind_outcome (page_loop lib hs constraints s (db\<lparr> filter_cache := c \<rparr>) (filter cand (blocks_between s hi)) ?off []) (\<lambda>outcome. case outcome of
          Inl page \<Rightarrow> Inr (page, db\<lparr> filter_cache := c \<rparr>)
        | Inr emitted \<Rightarrow>
            if hi < to then bind_outcome (block_add hi 1) (\<lambda>next. Inr (\<lparr> pe_events = emitted, pe_token = Some \<lparr> ct_block_number = next, ct_offset = 0 \<rparr> \<rparr>, db\<lparr> filter_cache := c \<rparr>))
            else Inr (\<lparr> pe_events = emitted, pe_token = None \<rparr>, db\<lparr> filter_cache := c \<rparr>))"
    unfolding events_page_def load bind_outcome_simps prod.case if_not_P [OF ne(1)] Let_def checked last scan ..
  show ?thesis
  proof (cases "?off + ?p < length (matching_in hdr E constraints s hi)")
    case True
    from token_resumes [of s hi M ?off ?p] number True obtain b o' where
      token: "continuation_token_of (take (Suc ?p) (drop ?off (matching_in hdr E constraints s hi))) \<lparr> ct_block_number = s, ct_offset = ?off \<rparr> = Some \<lparr> ct_block_number = b, ct_offset = Suc o' \<rparr>"
      and resume: "s \<le> b" "b \<le> hi" "o' < length (matching_in hdr E constraints b hi)" "drop o' (matching_in hdr E constraints b hi) = drop (?off + ?p) (matching_in hdr E constraints s hi)"
      unfolding M_def matching_in_def by blast
    show ?thesis unfolding page loop Let_def token using True resume st' by (auto simp: page_ok_def)
  next
    case False
    then have few: "\<not> ?p < length (drop ?off (matching_in hdr E constraints s hi))" by simp
    have unat_to: "unat to < 2 ^ LENGTH(64)" by (rule unsigned_less)
    have add: "hi < to \<Longrightarrow> block_add hi 1 = Inr (hi + 1)" using unat_to by (simp add: block_add_def word_less_nat_alt)
    show ?thesis unfolding page loop Let_def if_not_P [OF few] using False st' add by (auto simp: page_ok_def)
  qed
qed

section \<open>The query\<close>

definition range_end :: "u64 \<Rightarrow> block_number \<Rightarrow> block_number \<Rightarrow> block_number" where
  "range_end limit to s = min to (s + limit - 1)"

lemma range_end_bounds:
  assumes "0 < limit" "s \<le> to" "unat to + unat limit < 2 ^ 64"
  shows "s \<le> range_end limit to s" "range_end limit to s \<le> to"
    "bind_outcome (block_add s limit) (\<lambda>b. block_sub b 1) = Inr (s + limit - 1)"
    "range_end limit to s \<noteq> to \<Longrightarrow> range_end limit to s = s + limit - 1"
proof -
  have sum: "unat s + unat limit < 2 ^ 64" using assms(2,3) by (simp add: word_le_nat_alt)
  then have u: "unat (s + limit) = unat s + unat limit" by (simp add: unat_word_ariths)
  have l: "1 \<le> unat limit" using assms(1) by (simp add: word_less_nat_alt)
  then have one: "1 \<le> s + limit" using u by (simp add: word_le_nat_alt)
  have "unat (s + limit - 1) = unat s + unat limit - 1" using u unat_sub [OF one] by simp
  then have "s \<le> s + limit - 1" using l by (simp add: word_le_nat_alt)
  then show "s \<le> range_end limit to s" using assms(2) by (simp add: range_end_def)
  show "range_end limit to s \<le> to" by (simp add: range_end_def)
  show "bind_outcome (block_add s limit) (\<lambda>b. block_sub b 1) = Inr (s + limit - 1)" using sum one by (simp add: block_add_def block_sub_def)
  show "range_end limit to s \<noteq> to \<Longrightarrow> range_end limit to s = s + limit - 1" by (simp add: range_end_def min_def split: if_splits)
qed

text \<open>The last block of a query.\<close>

definition query_end :: "event_constraints \<Rightarrow> block_number \<Rightarrow> block_number" where
  "query_end constraints latest = (case ec_to_block constraints of Some to \<Rightarrow> min to latest | None \<Rightarrow> latest)"

lemma tx_events_ok:
  assumes lib: "bloom_lib_ok (bl_bloom lib)" and st: "events_stored lib hs n hdr E db"
    and s: "s = (case ec_from_block constraints of None \<Rightarrow> 0 | Some s \<Rightarrow> s)" and "s \<le> query_end constraints (n - 1)"
    and keys: "length (ec_keys constraints) \<le> 16" and p: "1 \<le> ec_page_size constraints" "ec_page_size constraints < usize_max"
    and limit: "0 < limit" "unat n + unat limit < 2 ^ 64"
  shows "\<exists>page c. tx_events lib False hs constraints limit db = Inr (page, db\<lparr> filter_cache := c \<rparr>) \<and>
    events_stored lib hs n hdr E (db\<lparr> filter_cache := c \<rparr>) \<and>
    page_ok (ec_page_size constraints) (matching_in hdr E constraints) s (ec_offset constraints)
      (range_end limit (query_end constraints (n - 1)) s) (query_end constraints (n - 1)) page"
proof -
  define to where "to = query_end constraints (n - 1)"
  have n: "0 < n" and latest: "header_block_number hs BlockLatest = Some (n - 1)" using st by (simp_all add: events_stored_def)
  have "to \<le> n - 1" unfolding to_def query_end_def by (cases "ec_to_block constraints") auto
  moreover have "n - 1 < n"
  proof -
    have "1 \<le> n" using n by (simp add: word_less_nat_alt word_le_nat_alt)
    from unat_sub [OF this] n show ?thesis by (simp add: word_less_nat_alt)
  qed
  ultimately have to: "to < n" by (rule order_le_less_trans)
  then have "unat to + unat limit < 2 ^ 64" using limit(2) by (simp add: word_less_nat_alt)
  note b = range_end_bounds [OF limit(1) assms(4) [folded to_def] this]
  from events_page_ok [OF lib st b(1,2) to keys p(2)] obtain page c where
    page: "events_page lib hs constraints s to (range_end limit to s) db = Inr (page, db\<lparr> filter_cache := c \<rparr>)"
      "events_stored lib hs n hdr E (db\<lparr> filter_cache := c \<rparr>)"
      "page_ok (ec_page_size constraints) (matching_in hdr E constraints) s (ec_offset constraints) (range_end limit to s) to page" by blast
  have "events_from_block False hs constraints = Inr s" unfolding events_from_block_def s by (simp split: option.split)
  moreover have "(case ec_to_block constraints of None \<Rightarrow> n - 1 | Some t \<Rightarrow> min t (n - 1)) = to" by (simp add: to_def query_end_def)
  ultimately have "tx_events lib False hs constraints limit db = Inr (page, db\<lparr> filter_cache := c \<rparr>)"
    unfolding tx_events_def latest option.case using p(1) b(3) page(1) by (simp add: Let_def range_end_def)
  then show ?thesis using page(2,3) unfolding to_def by blast
qed

end
