(* ===== verification/EventInsert_Correct.thy ===== *)
theory EventInsert_Correct
  imports EventPaging
begin

text \<open>
  Storing the events of the next block keeps the invariant of the filters: the running filter covers the
  block, and when its range is full it becomes a row and a new filter starts.
\<close>

section \<open>The filters of the next block\<close>

lemma unat_block_next: "unat n + 1 < 2 ^ 64 \<Longrightarrow> unat (n + 1) = unat n + 1" for n :: block_number
  by (simp add: unat_word_ariths)

lemma agg_for_next:
  assumes "agg_for lib n evs k a" and "k < unat n div 8192" and "unat n + 16384 < 2 ^ 63"
  shows "agg_for lib (n + 1) (evs(n := es)) k a"
proof -
  have "k * 8192 + 8192 < 2 ^ 63" using assms(2,3) mult_le_mono1 [of k "unat n div 8192" 8192] by linarith
  then have "\<not> n \<le> agg_to_block a" using in_range_iff(2) [of k n] assms(2) agg_for_to [OF assms(1)] by simp
  moreover have "b < n" if "b < n + 1" "b \<noteq> n" for b
    using that unat_block_next [of n] assms(3) by (simp add: word_less_nat_alt) (metis le_neq_implies_less less_Suc_eq_le word_unat_eq_iff)
  ultimately show ?thesis using assms(1) unfolding agg_for_def by (metis fun_upd_other)
qed

lemma row_ok_next:
  assumes "list_all2 (row_ok lib n evs) [0..<unat n div 8192] tbl" and "unat n + 16384 < 2 ^ 63"
  shows "list_all2 (row_ok lib (n + 1) (evs(n := es))) [0..<unat n div 8192] tbl"
  using assms(1) agg_for_next [OF _ _ assms(2)] by (fastforce simp: list_all2_conv_all_nth row_ok_def)

lemma agg_for_insert:
  assumes a: "agg_for lib n evs (unat n div 8192) a" and bloom: "bloom_of_events lib es = Inr bloom" and n: "unat n + 16384 < 2 ^ 63"
  shows "\<exists>a'. agg_insert bloom n a = Inr a' \<and> agg_for lib (n + 1) (evs(n := es)) (unat n div 8192) a'"
proof -
  let ?k = "unat n div 8192"
  have "?k * 8192 \<le> unat n" by simp
  then have k: "?k * 8192 + 8192 < 2 ^ 63" using n by linarith
  have wf: "agg_wf a" and "agg_from_block a = range_start ?k" using a by (simp_all add: agg_for_def)
  then have "agg_from_block a \<le> n" "n \<le> agg_to_block a" using in_range_iff [OF k, of n] agg_for_to [OF a] by simp_all
  from agg_covers_insert [OF wf this bloom] obtain a' where
    a': "agg_insert bloom n a = Inr a'" "agg_wf a'" "agg_from_block a' = agg_from_block a" "agg_to_block a' = agg_to_block a" "agg_covers lib a' n es"
    "\<forall>b evs. agg_from_block a \<le> b \<and> b \<le> agg_to_block a \<longrightarrow> agg_covers lib a b evs \<longrightarrow> agg_covers lib a' b evs" by blast
  have "agg_covers lib a' b ((evs(n := es)) b)" if b: "b < n + 1" "agg_from_block a' \<le> b" "b \<le> agg_to_block a'" for b
  proof (cases "b = n")
    case False
    then have "b < n" using b(1) unat_block_next [of n] n by (simp add: word_less_nat_alt word_unat_eq_iff)
    then have "agg_covers lib a b (evs b)" using a b a'(3,4) by (simp add: agg_for_def)
    then show ?thesis using a'(3,4,6) b False by simp
  qed (simp add: a'(5))
  then show ?thesis using a' \<open>agg_from_block a = range_start ?k\<close> unfolding agg_for_def by auto
qed

lemma agg_new_for:
  assumes "unat n + 16384 < 2 ^ 63" and "unat n = k * 8192"
  shows "\<exists>a. agg_new n = Inr a \<and> agg_for lib n evs k a"
proof -
  have "n = range_start k" using assms unat_range_start [of k] by (simp add: word_unat_eq_iff)
  moreover have "unat n + 8192 < 2 ^ 64" using assms(1) by simp
  ultimately show ?thesis using agg_new_ok [of n] unfolding agg_for_def by fastforce
qed

lemma filters_okI:
  assumes "unat n + 16384 < 2 ^ 63" and "agg_for lib n evs (unat n div 8192) a" and "list_all2 (row_ok lib n evs) [0..<unat n div 8192] tbl"
    and "\<And>key a. map_of (filter_cache db) key = Some a \<Longrightarrow> \<exists>k < unat n div 8192. key = range_key k \<and> agg_for lib n evs k a"
  shows "filters_ok lib n evs (db\<lparr> bd_event_filters := tbl, running_filter := \<lparr> rf_filter = a, rf_next_block = n \<rparr> \<rparr>)"
proof -
  let ?db = "db\<lparr> bd_event_filters := tbl, running_filter := \<lparr> rf_filter = a, rf_next_block = n \<rparr> \<rparr>"
  have "rf_filter (running_filter ?db) = a" "rf_next_block (running_filter ?db) = n" "bd_event_filters ?db = tbl" "filter_cache ?db = filter_cache db" by simp_all
  then show ?thesis using assms unfolding filters_ok_def by presburger
qed

lemma new_range_key:
  assumes "list_all2 (row_ok lib n evs) [0..<k] tbl" and "k * 8192 < 2 ^ 63"
  shows "range_key k \<notin> set (map fst tbl)"
proof
  assume "range_key k \<in> set (map fst tbl)"
  then obtain i where "i < length tbl" "fst (tbl ! i) = range_key k" by (auto simp: in_set_conv_nth)
  then have "i < k" "range_start i = range_start k" using assms(1) by (auto simp: list_all2_conv_all_nth row_ok_def range_key_def)
  then show False using range_start_less(2) [of i k] assms(2) by simp
qed

lemma upsert_filters_ok:
  assumes lib: "bloom_lib_ok lib" and ok: "filters_ok lib n evs db" and n: "unat n + 16385 < 2 ^ 63"
  shows "\<exists>rf tbl. upsert_block_event_filters lib n es db = Inr (db\<lparr> bd_event_filters := tbl, running_filter := rf \<rparr>) \<and>
    filters_ok lib (n + 1) (evs(n := es)) (db\<lparr> bd_event_filters := tbl, running_filter := rf \<rparr>)"
proof -
  let ?k = "unat n div 8192" and ?evs = "evs(n := es)"
  have n1: "unat (n + 1) = unat n + 1" "unat n + 16384 < 2 ^ 63" "unat (n + 1) + 16384 < 2 ^ 63" using n unat_block_next [of n] by simp_all
  obtain bloom where bloom: "bloom_of_events lib es = Inr bloom" using bloom_of_events_ok by blast
  have old: "agg_for lib n evs ?k (rf_filter (running_filter db))" "list_all2 (row_ok lib n evs) [0..<?k] (bd_event_filters db)"
    "\<And>key a. map_of (filter_cache db) key = Some a \<Longrightarrow> \<exists>k < ?k. key = range_key k \<and> agg_for lib n evs k a" using ok unfolding filters_ok_def by blast+
  from agg_for_insert [OF old(1) bloom n1(2)] obtain a where
    a: "agg_insert bloom n (rf_filter (running_filter db)) = Inr a" "agg_for lib (n + 1) ?evs ?k a" by blast
  have rows: "list_all2 (row_ok lib (n + 1) ?evs) [0..<?k] (bd_event_filters db)" by (rule row_ok_next [OF old(2) n1(2)])
  have cache: "\<exists>k < ?k. key = range_key k \<and> agg_for lib (n + 1) ?evs k c" if "map_of (filter_cache db) key = Some c" for key c
    using old(3) [OF that] agg_for_next [OF _ _ n1(2)] by blast
  have add: "block_add n 1 = Inr (n + 1)" using n by (simp add: block_add_def)
  have "?k * 8192 \<le> unat n" by simp
  then have k63: "?k * 8192 < 2 ^ 63" "?k * 8192 + 8192 < 2 ^ 63" using n by linarith+
  have full: "n = agg_to_block a \<longleftrightarrow> unat n = ?k * 8192 + 8191"
    using agg_for_to [OF a(2)] unat_range_end [OF k63(1)] by (simp add: word_unat_eq_iff)
  show ?thesis
  proof (cases "n = agg_to_block a")
    case False
    then have k: "unat (n + 1) div 8192 = ?k" using full n1(1) div_mult_mod_eq [of "unat n" 8192] by (intro div_nat_eqI) auto
    have "upsert_block_event_filters lib n es db =
        Inr (db\<lparr> bd_event_filters := bd_event_filters db, running_filter := \<lparr> rf_filter = a, rf_next_block = n + 1 \<rparr> \<rparr>)"
      using False by (simp add: upsert_block_event_filters_def bloom a add)
    moreover have "filters_ok lib (n + 1) ?evs (db\<lparr> bd_event_filters := bd_event_filters db, running_filter := \<lparr> rf_filter = a, rf_next_block = n + 1 \<rparr> \<rparr>)"
      by (rule filters_okI) (use n1(3) a(2) rows cache k in simp_all)
    ultimately show ?thesis by blast
  next
    case True
    have k: "unat (n + 1) = Suc ?k * 8192" using True full n1(1) by simp
    then have k': "unat (n + 1) div 8192 = Suc ?k" by simp
    obtain new where new: "agg_new (n + 1) = Inr new" "agg_for lib (n + 1) ?evs (Suc ?k) new" using agg_new_for [OF n1(3) k] by blast
    have "length (agg_bitmap a) = 1024 * BITVEC_BITS" using a(2) by (simp add: agg_for_def agg_wf_def)
    then obtain y where y: "zstd_compress lib 10 (agg_bitmap a) = Some y" "zstd_decompress lib y (1024 * BITVEC_BITS) = Some (agg_bitmap a)"
      using lib unfolding bloom_lib_ok_def by blast
    have key: "(agg_from_block a, agg_to_block a) = range_key ?k" using a(2) agg_for_to [OF a(2)] by (simp add: range_key_def agg_for_def)
    let ?tbl = "bd_event_filters db @ [(range_key ?k, y)]"
    have "range_key ?k \<notin> set (map fst (bd_event_filters db))" by (rule new_range_key [OF old(2) k63(1)])
    then have "upsert_block_event_filters lib n es db =
        Inr (db\<lparr> bd_event_filters := ?tbl, running_filter := \<lparr> rf_filter = new, rf_next_block = n + 1 \<rparr> \<rparr>)"
      unfolding upsert_block_event_filters_def bloom bind_outcome_simps a(1) add if_P [OF True] agg_compress_bitmap_def y(1) expect_some_simps new(1) key
        upsert_filter_row_def by simp
    moreover have "row_ok lib (n + 1) ?evs ?k (range_key ?k, y)" using a(2) y(2) unfolding row_ok_def by auto
    then have "list_all2 (row_ok lib (n + 1) ?evs) [0..<Suc ?k] ?tbl" using rows by (simp add: list_all2_appendI)
    then have "filters_ok lib (n + 1) ?evs (db\<lparr> bd_event_filters := ?tbl, running_filter := \<lparr> rf_filter = new, rf_next_block = n + 1 \<rparr> \<rparr>)"
    proof (intro filters_okI)
      show "\<exists>j < unat (n + 1) div 8192. key = range_key j \<and> agg_for lib (n + 1) ?evs j c" if "map_of (filter_cache db) key = Some c" for key c
        using cache [OF that] unfolding k' using less_SucI by blast
    qed (use n1(3) new(2) in \<open>simp_all only: k'\<close>)
    ultimately show ?thesis by blast
  qed
qed

end
