(* ===== verification/EventChain.thy ===== *)
theory EventChain
  imports EventInsert_Correct TrieRoots
begin

text \<open>
  The life of the event tables: blocks are stored, queries fill the cache, the running filter is saved at a
  shutdown and loaded or rebuilt at a restart. The events of all stored blocks can be queried throughout.
\<close>

section \<open>Steps\<close>

definition transaction_infos :: "transaction list \<Rightarrow> (felt \<times> u64) list" where
  "transaction_infos txs = map (\<lambda>(i, hash, _). (hash, of_nat i)) (List.enumerate 0 txs)"

definition empty_block_db :: "aggregate_bloom \<Rightarrow> u8 list \<Rightarrow> block_db" where
  "empty_block_db f bitmap = \<lparr> bd_transactions = [], bd_transaction_hashes = [], bd_event_filters = [],
     bd_running_row = (agg_from_block f, agg_to_block f, bitmap, 0), running_filter = \<lparr> rf_filter = f, rf_next_block = 0 \<rparr>, filter_cache = cache_reset \<rparr>"

inductive event_chain ::
  "block_lib \<Rightarrow> block_number \<Rightarrow> header_table \<Rightarrow> (block_number \<Rightarrow> block_header) \<Rightarrow> (block_number \<Rightarrow> ((felt \<times> u64) \<times> event list) list) \<Rightarrow> block_db \<Rightarrow> bool"
  for lib :: block_lib where
  start: "agg_new 0 = Inr f \<Longrightarrow> agg_compress_bitmap (bl_bloom lib) f = Inr bitmap \<Longrightarrow> event_chain lib 0 [] hdr E (empty_block_db f bitmap)"
| block: "event_chain lib n hs hdr E db \<Longrightarrow> unat n + 16385 < 2 ^ 63 \<Longrightarrow> hd_number h = n \<Longrightarrow> insert_header h hs = Inr hs' \<Longrightarrow>
     length events = length txs \<Longrightarrow> insert_transaction_data lib hs' n txs (Some events) db = Inr db' \<Longrightarrow>
     event_chain lib (n + 1) hs' (hdr(n := h)) (E(n := zip (transaction_infos txs) events)) db'"
| query: "event_chain lib n hs hdr E db \<Longrightarrow> load_event_filter_range (bl_bloom lib) s e db = Inr (fs, db') \<Longrightarrow> event_chain lib n hs hdr E db'"
| shutdown: "event_chain lib n hs hdr E db \<Longrightarrow> store_running_event_filter (bl_bloom lib) db = Inr db' \<Longrightarrow> event_chain lib n hs hdr E db'"
| restart: "event_chain lib n hs hdr E db \<Longrightarrow> running_filter_load lib hs db = Inr rf \<Longrightarrow>
     event_chain lib n hs hdr E (db\<lparr> running_filter := rf, filter_cache := cache_reset \<rparr>)"

section \<open>The invariant\<close>

text \<open>bincode and zstd give back what they were given.\<close>

definition block_lib_ok :: "block_lib \<Rightarrow> bool" where
  "block_lib_ok lib \<longleftrightarrow> bloom_lib_ok (bl_bloom lib) \<and>
     (\<forall>events blob. encode_events lib events = Some blob \<longrightarrow> decode_events lib blob = Some events)"

definition headers_upto :: "block_number \<Rightarrow> header_table \<Rightarrow> (block_number \<Rightarrow> block_header) \<Rightarrow> bool" where
  "headers_upto n hs hdr \<longleftrightarrow> map hd_number hs = map of_nat [0..<unat n] \<and> (\<forall>h \<in> set hs. hdr (hd_number h) = h)"

definition rows_upto :: "block_number \<Rightarrow> block_db \<Rightarrow> bool" where
  "rows_upto n db \<longleftrightarrow> sorted (map fst (bd_transactions db)) \<and> distinct (map fst (bd_transactions db)) \<and>
     (\<forall>(b, txs, events) \<in> set (bd_transactions db). b < n \<and> events \<noteq> None) \<and>
     (\<forall>(hash, b, idx) \<in> set (bd_transaction_hashes db). b < n)"

definition running_row_ok :: "bloom_lib \<Rightarrow> block_number \<Rightarrow> (block_number \<Rightarrow> event list) \<Rightarrow> block_db \<Rightarrow> bool" where
  "running_row_ok lib n evs db \<longleftrightarrow> (case bd_running_row db of (from_block, to_block, bitmap, next_block) \<Rightarrow>
     next_block \<le> n \<and> (\<exists>a. zstd_decompress lib bitmap (1024 * BITVEC_BITS) = Some (agg_bitmap a) \<and> agg_wf a \<and>
       agg_from_block a = from_block \<and> agg_to_block a = to_block \<and> (next_block = n \<longrightarrow> agg_for lib n evs (unat n div 8192) a)))"

definition event_inv ::
  "block_lib \<Rightarrow> block_number \<Rightarrow> header_table \<Rightarrow> (block_number \<Rightarrow> block_header) \<Rightarrow> (block_number \<Rightarrow> ((felt \<times> u64) \<times> event list) list) \<Rightarrow> block_db \<Rightarrow> bool" where
  "event_inv lib n hs hdr E db \<longleftrightarrow> headers_upto n hs hdr \<and> rows_upto n db \<and>
     (\<forall>b < n. events_for_block lib hs (BlockNumber b) db = Inr (Some (E b))) \<and>
     filters_ok (bl_bloom lib) n (\<lambda>b. concat (map snd (E b))) db \<and> running_row_ok (bl_bloom lib) n (\<lambda>b. concat (map snd (E b))) db"

lemma set_blocks_below: "set (map of_nat [0..<unat n]) = {b. b < n}" for n :: block_number
proof
  have "unat (of_nat i :: block_number) < unat n" if "i < unat n" for i
  proof -
    have "unat n < 2 ^ LENGTH(64)" by (rule unsigned_less)
    then show ?thesis using that unat_block_of_nat [of i] by simp
  qed
  then show "set (map of_nat [0..<unat n]) \<subseteq> {b. b < n}" by (auto simp: word_less_nat_alt)
  show "{b. b < n} \<subseteq> set (map of_nat [0..<unat n])"
  proof
    fix b assume "b \<in> {b. b < n}"
    then have "unat b \<in> {0..<unat n}" by (simp add: word_less_nat_alt)
    then show "b \<in> set (map of_nat [0..<unat n])" unfolding set_map set_upt by (rule rev_image_eqI) simp
  qed
qed

lemma headers_upto_at:
  assumes "headers_upto n hs hdr"
  shows "b < n \<Longrightarrow> header_at hs (BlockNumber b) = Some (hdr b) \<and> hd_number (hdr b) = b"
    and "\<not> b < n \<Longrightarrow> header_at hs (BlockNumber b) = None"
proof -
  have nums: "set (map hd_number hs) = {b. b < n}"
    using assms set_blocks_below [of n] by (simp add: headers_upto_def)
  show "header_at hs (BlockNumber b) = Some (hdr b) \<and> hd_number (hdr b) = b" if b: "b < n"
  proof -
    have "b \<in> set (map hd_number hs)" using nums b by simp
    then have "\<exists>h \<in> set hs. hd_number h = b" by auto
    then obtain h where h: "find (\<lambda>h. hd_number h = b) hs = Some h" by (metis (mono_tags, lifting) find_None_iff not_None_eq)
    then have "h \<in> set hs" "hd_number h = b" by (auto simp: find_Some_iff)
    then show ?thesis using assms h by (auto simp: headers_upto_def header_at_def)
  qed
  show "header_at hs (BlockNumber b) = None" if "\<not> b < n"
    using nums that by (auto simp: header_at_def find_None_iff)
qed

lemma headers_upto_latest:
  assumes "headers_upto n hs hdr"
  shows "header_block_number hs BlockLatest = (if n = 0 then None else Some (n - 1))"
proof (cases "n = 0")
  case True
  then show ?thesis using assms by (simp add: headers_upto_def header_block_number_def header_at_def header_latest_def)
next
  case False
  have nums: "set (map hd_number hs) = {b. b < n}" using assms set_blocks_below [of n] by (simp add: headers_upto_def)
  have below: "n - 1 < n" "\<And>b. b < n \<Longrightarrow> b \<le> n - 1"
  proof -
    have "1 \<le> n" using False by (simp add: word_le_nat_alt unat_gt_0 Suc_le_eq)
    note u = unat_sub [OF this]
    show "n - 1 < n" using u False by (simp add: word_less_nat_alt unat_gt_0)
    show "b \<le> n - 1" if "b < n" for b using u that by (simp add: word_less_nat_alt word_le_nat_alt)
  qed
  then have "hs \<noteq> []" using nums by fastforce
  then have "latest_row (map (\<lambda>h. (hd_number h, h)) hs) \<noteq> None" by simp
  then obtain r where r: "latest_row (map (\<lambda>h. (hd_number h, h)) hs) = Some r" by blast
  note r' = latest_row_Some [OF r]
  from r' have "fst r \<in> set (map hd_number hs)" "hd_number (snd r) = fst r" by auto
  moreover have "n - 1 \<in> set (map hd_number hs)" using nums below by simp
  then have "n - 1 \<le> fst r" using r' by auto
  ultimately have "fst r = n - 1" using nums below by (simp add: order_antisym)
  then show ?thesis using False r \<open>hd_number (snd r) = fst r\<close> by (simp add: header_block_number_def header_at_def header_latest_def)
qed

lemma event_inv_stored:
  assumes "event_inv lib n hs hdr E db" and "0 < n"
  shows "events_stored lib hs n hdr E db"
proof -
  have "headers_upto n hs hdr" using assms(1) by (simp add: event_inv_def)
  note this headers_upto_at(1) [OF this] headers_upto_latest [OF this]
  then show ?thesis using assms by (auto simp: event_inv_def events_stored_def)
qed

lemma headers_upto_insert:
  assumes "headers_upto n hs hdr" and "insert_header h hs = Inr hs'" and "hd_number h = n" and "unat n + 1 < 2 ^ 64"
  shows "headers_upto (n + 1) hs' (hdr(n := h))"
proof -
  have hs': "hs' = hs @ [h]" using assms(2) by (auto simp: insert_header_def split: if_splits)
  have "set (map hd_number hs) = {b. b < n}" using assms(1) set_blocks_below [of n] unfolding headers_upto_def by simp
  then have nums: "hd_number ` set hs = {b. b < n}" by simp
  have "map hd_number hs' = map of_nat [0..<unat (n + 1)]" using assms unat_block_next [of n] by (simp add: hs' headers_upto_def)
  moreover have "(hdr(n := h)) (hd_number g) = g" if "g \<in> set hs'" for g
  proof (cases "g = h")
    case False
    then have "g \<in> set hs" using that by (simp add: hs')
    moreover from this have "hd_number g < n" using nums by auto
    ultimately show ?thesis using assms(1) by (auto simp: headers_upto_def)
  qed (simp add: assms(3))
  ultimately show ?thesis by (simp add: headers_upto_def)
qed

section \<open>Storing a block\<close>

lemma insert_hashes:
  assumes "fold_outcome (insert_transaction_hash n) (List.enumerate k txs) db = Inr db'"
  shows "db' = db\<lparr> bd_transaction_hashes := bd_transaction_hashes db @ map (\<lambda>(i, hash, _). (hash, n, of_nat i)) (List.enumerate k txs) \<rparr> \<and>
    (txs \<noteq> [] \<longrightarrow> k + length txs \<le> 2 ^ 63)"
  using assms
proof (induction txs arbitrary: k db)
  case (Cons tx txs)
  obtain hash rest where tx: "tx = (hash, rest)" by (cases tx)
  from Cons.prems obtain db1 where 1: "insert_transaction_hash n (k, tx) db = Inr db1"
    "fold_outcome (insert_transaction_hash n) (List.enumerate (Suc k) txs) db1 = Inr db'" by auto
  from 1(1) have "db1 = db\<lparr> bd_transaction_hashes := bd_transaction_hashes db @ [(hash, n, of_nat k)] \<rparr>" "k < 2 ^ 63"
    by (auto simp: insert_transaction_hash_def tx split: if_splits)
  then show ?case using Cons.IH [OF 1(2)] by (cases "txs = []") (auto simp: tx)
qed simp

lemma map_filter_append [simp]: "List.map_filter f (xs @ ys) = List.map_filter f xs @ List.map_filter f ys"
  by (induction xs) (auto simp: map_filter_simps split: option.split)

lemma sorted_infos: "length txs \<le> 2 ^ 63 \<Longrightarrow> sorted (map snd (transaction_infos txs))"
proof -
  assume len: "length txs \<le> 2 ^ 63"
  have "map snd (transaction_infos txs) = map of_nat (map fst (List.enumerate 0 txs))"
    unfolding transaction_infos_def map_map by (rule map_cong) auto
  also have "\<dots> = map of_nat [0..<length txs]" by simp
  finally have eq: "map snd (transaction_infos txs) = map of_nat [0..<length txs]" .
  have "(of_nat i :: u64) \<le> of_nat j" if "i \<le> j" "j < length txs" for i j
    using that len unat_block_of_nat [of i] unat_block_of_nat [of j] by (simp add: word_le_nat_alt)
  then show ?thesis unfolding eq by (simp add: sorted_iff_nth_mono)
qed

lemma infos_of_block:
  fixes n :: block_number
  assumes "\<forall>(hash, b, idx) \<in> set hashes. b < n" and "length txs \<le> 2 ^ 63"
  shows "sort_key snd (List.map_filter (\<lambda>(hash, b, idx). if b = n then Some (hash, idx) else None)
      (hashes @ map (\<lambda>(i, hash, _). (hash, n, of_nat i :: u64)) (List.enumerate 0 txs))) = transaction_infos txs"
    and "b < n \<Longrightarrow> List.map_filter (\<lambda>(hash, b', idx). if b' = b then Some (hash, idx) else None)
      (hashes @ map (\<lambda>(i, hash, _). (hash, n, of_nat i :: u64)) (List.enumerate 0 txs)) =
      List.map_filter (\<lambda>(hash, b', idx). if b' = b then Some (hash, idx) else None) hashes"
proof -
  have "List.map_filter (\<lambda>(hash, b, idx). if b = n then Some (hash, idx) else None) hashes = []"
    using assms(1) by (induction hashes) (auto simp: map_filter_simps)
  moreover have "List.map_filter (\<lambda>(hash, b, idx). if b = n then Some (hash, idx) else None)
      (map (\<lambda>(i, hash, _). (hash, n, of_nat i :: u64)) (List.enumerate k txs)) = map (\<lambda>(i, hash, _). (hash, of_nat i :: u64)) (List.enumerate k txs)" for k
    by (induction txs arbitrary: k) (auto simp: map_filter_simps)
  moreover have "sorted (map snd (transaction_infos txs))" by (rule sorted_infos [OF assms(2)])
  ultimately show "sort_key snd (List.map_filter (\<lambda>(hash, b, idx). if b = n then Some (hash, idx) else None)
      (hashes @ map (\<lambda>(i, hash, _). (hash, n, of_nat i :: u64)) (List.enumerate 0 txs))) = transaction_infos txs"
    by (simp add: sort_key_id_if_sorted transaction_infos_def)
  assume b: "b < n"
  have "List.map_filter (\<lambda>(hash, b', idx). if b' = b then Some (hash, idx) else None)
      (map (\<lambda>(i, hash, _). (hash, n, of_nat i :: u64)) (List.enumerate k txs)) = []" for k
    using b by (induction txs arbitrary: k) (auto simp: map_filter_simps)
  then show "List.map_filter (\<lambda>(hash, b', idx). if b' = b then Some (hash, idx) else None)
      (hashes @ map (\<lambda>(i, hash, _). (hash, n, of_nat i :: u64)) (List.enumerate 0 txs)) =
      List.map_filter (\<lambda>(hash, b', idx). if b' = b then Some (hash, idx) else None) hashes" by simp
qed

lemma insert_data_cases:
  assumes "insert_transaction_data lib hs n txs (Some events) db = Inr db'" and "length events = length txs"
  obtains db1 where "upsert_block_event_filters (bl_bloom lib) n (concat events) db = Inr db1" "txs = []" "events = []" "db' = db1"
  | db1 blob eblob where "upsert_block_event_filters (bl_bloom lib) n (concat events) db = Inr db1" "txs \<noteq> []" "length txs \<le> 2 ^ 63"
    "encode_events lib events = Some eblob" "n \<notin> fst ` set (bd_transactions db1)"
    "db' = db1\<lparr> bd_transaction_hashes := bd_transaction_hashes db1 @ map (\<lambda>(i, hash, _). (hash, n, of_nat i)) (List.enumerate 0 txs),
       bd_transactions := bd_transactions db1 @ [(n, blob, Some eblob)] \<rparr>"
proof -
  from assms(1) obtain db1 where 1: "upsert_block_event_filters (bl_bloom lib) n (concat events) db = Inr db1"
    by (auto simp: insert_transaction_data_def)
  show thesis
  proof (cases "txs = []")
    case True
    then show thesis using assms 1 by (intro that(1)) (auto simp: insert_transaction_data_def)
  next
    case False
    with assms 1 obtain db2 blob eblob where
      2: "fold_outcome (insert_transaction_hash n) (List.enumerate 0 txs) db1 = Inr db2" "encode_events lib events = Some eblob"
        "n \<notin> set (map fst (bd_transactions db2))" "db' = db2\<lparr> bd_transactions := bd_transactions db2 @ [(n, blob, Some eblob)] \<rparr>"
      by (auto simp: insert_transaction_data_def context_some_def split: if_splits option.splits)
    from insert_hashes [OF 2(1)] have db2: "db2 = db1\<lparr> bd_transaction_hashes := bd_transaction_hashes db1 @ map (\<lambda>(i, hash, _). (hash, n, of_nat i)) (List.enumerate 0 txs) \<rparr>"
      and len: "length txs \<le> 2 ^ 63" using False by simp_all
    show thesis by (rule that(2) [OF 1 False len 2(2)]) (use 2(3,4) db2 in simp_all)
  qed
qed

lemma header_number_block: "header_block_number hs (BlockNumber b) = Some c \<Longrightarrow> b = c"
  by (auto simp: header_block_number_def header_at_def find_Some_iff)

text \<open>The events of a block depend on its row and its hashes only.\<close>

lemma events_for_block_cong:
  assumes "header_block_number hs (BlockNumber b) = Some b" and "header_block_number hs' (BlockNumber b) = Some b"
    and "map_of (bd_transactions db) b = map_of (bd_transactions db') b"
    and "List.map_filter (\<lambda>(hash, b', idx). if b' = b then Some (hash, idx) else None) (bd_transaction_hashes db) =
      List.map_filter (\<lambda>(hash, b', idx). if b' = b then Some (hash, idx) else None) (bd_transaction_hashes db')"
  shows "events_for_block lib hs (BlockNumber b) db = events_for_block lib hs' (BlockNumber b) db'"
  unfolding events_for_block_def query_events_by_block_def query_transaction_infos_by_block_def assms option.case ..

lemma events_of_new_block:
  assumes rows: "rows_upto n db" and "block_lib_ok lib" and "header_block_number hs (BlockNumber n) = Some n" and "length events = length txs"
    and "n \<notin> fst ` set (bd_transactions db)" and "length txs \<le> 2 ^ 63" and "encode_events lib events = Some eblob"
    and "bd_transactions db' = bd_transactions db @ [(n, blob, Some eblob)]"
    and "bd_transaction_hashes db' = bd_transaction_hashes db @ map (\<lambda>(i, hash, _). (hash, n, of_nat i)) (List.enumerate 0 txs)"
  shows "events_for_block lib hs (BlockNumber n) db' = Inr (Some (zip (transaction_infos txs) events))"
proof -
  have "map_of (bd_transactions db) n = None" using assms(5) by (simp add: map_of_eq_None_iff)
  then have "query_events_by_block lib n db' = Inr (Some events)"
    using assms(2,7,8) by (simp add: query_events_by_block_def block_lib_ok_def map_add_def)
  moreover have "query_transaction_infos_by_block n db' = transaction_infos txs"
    unfolding query_transaction_infos_by_block_def assms(9) by (rule infos_of_block(1)) (use rows assms(6) in \<open>simp_all add: rows_upto_def\<close>)
  moreover have "length (transaction_infos txs) = length txs" by (simp add: transaction_infos_def)
  ultimately show ?thesis using assms(3,4) by (simp add: events_for_block_def)
qed

lemma events_of_empty_block:
  assumes "rows_upto n db" and "header_block_number hs (BlockNumber n) = Some n"
  shows "events_for_block lib hs (BlockNumber n) db = Inr (Some [])"
proof -
  have "n \<notin> fst ` set (bd_transactions db)"
  proof
    assume "n \<in> fst ` set (bd_transactions db)"
    then obtain x where "x \<in> set (bd_transactions db)" "fst x = n" by auto
    then show False using bspec [of "set (bd_transactions db)" _ x] assms(1) by (cases x) (auto simp: rows_upto_def)
  qed
  then have "map_of (bd_transactions db) n = None" by (simp add: map_of_eq_None_iff)
  moreover have "List.map_filter (\<lambda>(hash, b, idx). if b = n then Some (hash, idx) else None) (bd_transaction_hashes db) = []"
  proof -
    have "sort_key snd (List.map_filter (\<lambda>(hash, b, idx). if b = n then Some (hash, idx) else None) (bd_transaction_hashes db)) = []"
      using infos_of_block(1) [of "bd_transaction_hashes db" n "[]"] assms(1) by (simp add: rows_upto_def transaction_infos_def)
    then have "length (sort_key snd (List.map_filter (\<lambda>(hash, b, idx). if b = n then Some (hash, idx) else None) (bd_transaction_hashes db))) = 0" by simp
    then show ?thesis by (simp only: length_sort length_0_conv)
  qed
  ultimately show ?thesis using assms(2) by (simp add: events_for_block_def query_events_by_block_def query_transaction_infos_by_block_def)
qed

lemma headers_upto_number:
  assumes "headers_upto n hs hdr" and "b < n"
  shows "header_block_number hs (BlockNumber b) = Some b"
  using headers_upto_at(1) [OF assms] by (simp add: header_block_number_def)

lemma rows_upto_next:
  assumes "rows_upto n db" and "unat n + 1 < 2 ^ 64"
  shows "rows_upto (n + 1) db" and "rows_upto n (db\<lparr> bd_event_filters := tbl, running_filter := rf \<rparr>)"
    and "rows_upto (n + 1) (db\<lparr> bd_transaction_hashes := bd_transaction_hashes db @ map (\<lambda>(i, hash, _). (hash, n, of_nat i)) (List.enumerate 0 txs),
      bd_transactions := bd_transactions db @ [(n, blob, Some eblob)] \<rparr>)"
proof -
  have lt: "b < n + 1" if "b < n \<or> b = n" for b using that unat_block_next [of n] assms(2) by (auto simp: word_less_nat_alt)
  show 1: "rows_upto (n + 1) db" using assms(1) lt by (fastforce simp: rows_upto_def)
  show "rows_upto n (db\<lparr> bd_event_filters := tbl, running_filter := rf \<rparr>)" using assms(1) by (simp add: rows_upto_def)
  have new: "\<forall>(hash, b, idx) \<in> set (map (\<lambda>(i, hash, _). (hash, n, of_nat i)) (List.enumerate 0 txs)). b < n + 1" using lt by auto
  have "\<forall>b \<in> fst ` set (bd_transactions db). b < n" using assms(1) by (auto simp: rows_upto_def)
  then have "sorted (map fst (bd_transactions db @ [(n, blob, Some eblob)]))" "distinct (map fst (bd_transactions db @ [(n, blob, Some eblob)]))"
    using assms(1) by (auto simp: rows_upto_def sorted_append)
  then show "rows_upto (n + 1) (db\<lparr> bd_transaction_hashes := bd_transaction_hashes db @ map (\<lambda>(i, hash, _). (hash, n, of_nat i)) (List.enumerate 0 txs),
      bd_transactions := bd_transactions db @ [(n, blob, Some eblob)] \<rparr>)"
    using 1 new lt [of n] unfolding rows_upto_def by (auto simp del: set_map)
qed

lemma running_row_next:
  assumes "running_row_ok lib n evs db" and "unat n + 1 < 2 ^ 64" and "bd_running_row db' = bd_running_row db"
  shows "running_row_ok lib (n + 1) evs' db'"
proof -
  have "m \<le> n + 1 \<and> m \<noteq> n + 1" if "m \<le> n" for m
    using that unat_block_next [of n] assms(2) by (auto simp: word_le_nat_alt word_unat_eq_iff)
  then show ?thesis using assms(1) unfolding running_row_ok_def assms(3) by (auto split: prod.splits)
qed

lemma event_inv_block:
  assumes inv: "event_inv lib n hs hdr E db" and lib: "block_lib_ok lib" and n: "unat n + 16385 < 2 ^ 63"
    and h: "hd_number h = n" "insert_header h hs = Inr hs'" and len: "length events = length txs"
    and ins: "insert_transaction_data lib hs' n txs (Some events) db = Inr db'"
  shows "event_inv lib (n + 1) hs' (hdr(n := h)) (E(n := zip (transaction_infos txs) events)) db'"
proof -
  let ?E = "E(n := zip (transaction_infos txs) events)"
  have n1: "unat n + 1 < 2 ^ 64" using n by simp
  have hs: "headers_upto n hs hdr" and rows: "rows_upto n db" and E: "\<And>b. b < n \<Longrightarrow> events_for_block lib hs (BlockNumber b) db = Inr (Some (E b))"
    and ok: "filters_ok (bl_bloom lib) n (\<lambda>b. concat (map snd (E b))) db" and row: "running_row_ok (bl_bloom lib) n (\<lambda>b. concat (map snd (E b))) db"
    using inv by (simp_all add: event_inv_def)
  note hs' = headers_upto_insert [OF hs h(2,1) n1]
  have lt: "b < n + 1 \<longleftrightarrow> b < n \<or> b = n" for b using unat_block_next [OF n1] by (auto simp: word_less_nat_alt word_unat_eq_iff)
  have num: "header_block_number hs' (BlockNumber b) = Some b" if "b < n + 1" for b by (rule headers_upto_number [OF hs' that])
  have "bloom_lib_ok (bl_bloom lib)" using lib by (simp add: block_lib_ok_def)
  from upsert_filters_ok [OF this ok n, of "concat events"] obtain rf tbl where
    up: "upsert_block_event_filters (bl_bloom lib) n (concat events) db = Inr (db\<lparr> bd_event_filters := tbl, running_filter := rf \<rparr>)"
    and ok': "filters_ok (bl_bloom lib) (n + 1) ((\<lambda>b. concat (map snd (E b)))(n := concat events)) (db\<lparr> bd_event_filters := tbl, running_filter := rf \<rparr>)" by blast
  have "length (transaction_infos txs) = length events" using len by (simp add: transaction_infos_def)
  then have evs: "(\<lambda>b. concat (map snd (E b)))(n := concat events) = (\<lambda>b. concat (map snd (?E b)))" by auto
  let ?db1 = "db\<lparr> bd_event_filters := tbl, running_filter := rf \<rparr>"
  have rows1: "rows_upto n ?db1" by (rule rows_upto_next(2) [OF rows n1])
  from ins len show ?thesis
  proof (cases rule: insert_data_cases)
    case (1 db1)
    then have db': "db' = ?db1" using up by simp
    have "events_for_block lib hs' (BlockNumber b) ?db1 = Inr (Some (?E b))" if "b < n + 1" for b
    proof (cases "b = n")
      case True
      then show ?thesis using events_of_empty_block [OF rows1 num, of lib] lt 1 by (simp add: transaction_infos_def)
    next
      case False
      then show ?thesis using E [of b] that lt events_for_block_cong [OF headers_upto_number [OF hs] num, of b db ?db1 lib] by simp
    qed
    then show ?thesis using hs' rows_upto_next(1) [OF rows1 n1] ok' running_row_next [OF row n1, of ?db1] unfolding event_inv_def db' evs by simp
  next
    case (2 db1 blob eblob)
    then have db1: "db1 = ?db1" using up by simp
    note db' = 2(6) [unfolded db1]
    have "events_for_block lib hs' (BlockNumber b) db' = Inr (Some (?E b))" if "b < n + 1" for b
    proof (cases "b = n")
      case True
      then show ?thesis using events_of_new_block [OF rows1 lib num len, of eblob db' blob] 2 db1 that by simp
    next
      case False
      then have b: "b < n" using that lt by simp
      have "map_of (bd_transactions db) b = map_of (bd_transactions db') b" using False by (simp add: db' map_add_def split: option.split)
      moreover have "List.map_filter (\<lambda>(hash, b', idx). if b' = b then Some (hash, idx) else None) (bd_transaction_hashes db) =
          List.map_filter (\<lambda>(hash, b', idx). if b' = b then Some (hash, idx) else None) (bd_transaction_hashes db')"
        using infos_of_block(2) [of "bd_transaction_hashes db" n txs b] rows 2(3) b by (simp add: db' rows_upto_def)
      ultimately show ?thesis using E [OF b] events_for_block_cong [OF headers_upto_number [OF hs b] num [OF that], of db db' lib] False by simp
    qed
    moreover have "rows_upto (n + 1) db'" unfolding db' by (rule rows_upto_next(3) [OF rows1 n1])
    moreover have "filters_ok (bl_bloom lib) (n + 1) (\<lambda>b. concat (map snd (?E b))) db'" using ok' unfolding evs db' filters_ok_def by simp
    ultimately show ?thesis using hs' running_row_next [OF row n1, of db'] unfolding event_inv_def by (simp add: db')
  qed
qed

section \<open>Queries and shutdown\<close>

lemma events_for_block_tables:
  assumes "bd_transactions db' = bd_transactions db" and "bd_transaction_hashes db' = bd_transaction_hashes db"
  shows "events_for_block lib hs block db' = events_for_block lib hs block db"
  unfolding events_for_block_def query_events_by_block_def query_transaction_infos_by_block_def assms ..

lemma cache_get_many_keeps:
  assumes "bloom_lib_ok lib" and "cache_get_many lib s e cache = Inr (found, cache')"
  shows "map_of cache' = map_of cache"
proof -
  let ?f = "\<lambda>k (found, cache). (found @ (case map_of cache k of None \<Rightarrow> [] | Some f \<Rightarrow> [f]), cache_touch lib k cache)"
  have "map_of (snd (fold ?f ks (found, c))) = map_of c" for ks found c
  proof (induction ks arbitrary: found c)
    case (Cons k ks)
    have "map_of (cache_touch lib k c) = map_of c" using assms(1) unfolding bloom_lib_ok_def by blast
    then show ?case using Cons.IH by simp
  qed simp
  note keeps = this
  from assms(2) obtain ranges where ranges: "fold ?f ranges ([], cache) = (found, cache')"
    unfolding cache_get_many_def bind_outcome_Inr_iff by blast
  show ?thesis using keeps [of ranges "[]" cache] unfolding ranges by (simp only: snd_conv)
qed

lemma event_inv_cache:
  assumes "event_inv lib n hs hdr E db" and "filters_ok (bl_bloom lib) n (\<lambda>b. concat (map snd (E b))) (db\<lparr> filter_cache := c \<rparr>)"
  shows "event_inv lib n hs hdr E (db\<lparr> filter_cache := c \<rparr>)"
  using assms by (simp add: event_inv_def rows_upto_def running_row_ok_def)

lemma event_inv_query:
  assumes inv: "event_inv lib n hs hdr E db" and lib: "block_lib_ok lib" and load: "load_event_filter_range (bl_bloom lib) s e db = Inr (fs, db')"
  shows "event_inv lib n hs hdr E db'"
proof -
  let ?evs = "\<lambda>b. concat (map snd (E b))" and ?K = "unat n div 8192"
  have blib: "bloom_lib_ok (bl_bloom lib)" using lib by (simp add: block_lib_ok_def)
  have ok: "filters_ok (bl_bloom lib) n ?evs db" using inv by (simp add: event_inv_def)
  from load obtain found cache new where
    get: "cache_get_many (bl_bloom lib) s e (filter_cache db) = Inr (found, cache)"
    and new: "map_outcome (\<lambda>((from_block, to_block), bitmap). agg_from_existing_compressed (bl_bloom lib) from_block to_block bitmap)
      (sort_key (fst \<circ> fst) (filter (\<lambda>((from_block, to_block), _). from_block \<le> e \<and> s \<le> to_block \<and> from_block \<notin> set (map agg_from_block found))
        (bd_event_filters db))) = Inr new"
    and db': "db' = db\<lparr> filter_cache := cache_set_many (bl_bloom lib) new cache \<rparr>"
    by (auto simp: load_event_filter_range_def Let_def split: if_splits)
  have rows: "list_all2 (row_ok (bl_bloom lib) n ?evs) [0..<?K] (bd_event_filters db)" using ok by (simp add: filters_ok_def)
  have "?K * 8192 < 2 ^ 63" using agg_for_keys(1) [OF ok] by simp
  from loaded_rows [OF rows this, of "\<lambda>f t. f \<le> e \<and> s \<le> t \<and> f \<notin> set (map agg_from_block found)"] obtain new' where
    new': "map_outcome (\<lambda>((from_block, to_block), bitmap). agg_from_existing_compressed (bl_bloom lib) from_block to_block bitmap)
      (sort_key (fst \<circ> fst) (filter (\<lambda>((from_block, to_block), _). from_block \<le> e \<and> s \<le> to_block \<and> from_block \<notin> set (map agg_from_block found))
        (bd_event_filters db))) = Inr new'" and each': "\<forall>f \<in> set new'. \<exists>k < ?K. agg_for (bl_bloom lib) n ?evs k f" by blast
  have "new' = new" using new' new by simp
  note each = each' [unfolded this]
  have old: "\<forall>key a. map_of cache key = Some a \<longrightarrow> (\<exists>k < ?K. key = range_key k \<and> agg_for (bl_bloom lib) n ?evs k a)"
    using ok unfolding cache_get_many_keeps [OF blib get] filters_ok_def by blast
  show ?thesis unfolding db' by (intro event_inv_cache [OF inv] filters_ok_cache [OF ok]) (rule cache_set_many_ok [OF blib old each])
qed

lemma event_inv_shutdown:
  assumes inv: "event_inv lib n hs hdr E db" and lib: "block_lib_ok lib" and store: "store_running_event_filter (bl_bloom lib) db = Inr db'"
  shows "event_inv lib n hs hdr E db'"
proof -
  let ?f = "rf_filter (running_filter db)" and ?evs = "\<lambda>b. concat (map snd (E b))"
  have f: "agg_for (bl_bloom lib) n ?evs (unat n div 8192) ?f" "rf_next_block (running_filter db) = n" using inv by (simp_all add: event_inv_def filters_ok_def)
  then have wf: "agg_wf ?f" by (simp add: agg_for_def)
  then have "length (agg_bitmap ?f) = 1024 * BITVEC_BITS" by (simp add: agg_wf_def)
  then obtain y where y: "zstd_compress (bl_bloom lib) 10 (agg_bitmap ?f) = Some y" "zstd_decompress (bl_bloom lib) y (1024 * BITVEC_BITS) = Some (agg_bitmap ?f)"
    using lib unfolding block_lib_ok_def bloom_lib_ok_def by blast
  then have db': "db' = db\<lparr> bd_running_row := (agg_from_block ?f, agg_to_block ?f, y, n) \<rparr>"
    using store f(2) by (simp add: store_running_event_filter_def agg_compress_bitmap_def Let_def)
  have "running_row_ok (bl_bloom lib) n ?evs db'" using y(2) wf f(1) unfolding running_row_ok_def db' by auto
  moreover have "events_for_block lib hs block db' = events_for_block lib hs block db" for block
    by (rule events_for_block_tables) (simp_all add: db')
  ultimately show ?thesis using inv unfolding event_inv_def filters_ok_def rows_upto_def by (simp add: db')
qed

section \<open>Restart\<close>

text \<open>The filters of the rows, and inserting them.\<close>

lemma row_events:
  assumes "event_inv lib n hs hdr E db" and "(b, txs, events) \<in> set (bd_transactions db)"
  shows "\<exists>blob evs. events = Some blob \<and> decode_events lib blob = Some evs \<and> concat evs = concat (map snd (E b)) \<and> b < n"
proof -
  have rows: "rows_upto n db" and hs: "headers_upto n hs hdr" using assms(1) by (simp_all add: event_inv_def)
  then obtain blob where b: "b < n" "events = Some blob" using assms(2) by (auto simp: rows_upto_def)
  have row: "map_of (bd_transactions db) b = Some (txs, Some blob)" using rows assms(2) b(2) by (simp add: rows_upto_def)
  have "events_for_block lib hs (BlockNumber b) db = Inr (Some (E b))" using assms(1) b(1) by (simp add: event_inv_def)
  then obtain evs where evs: "decode_events lib blob = Some evs" and E: "length evs = length (query_transaction_infos_by_block b db)"
    "E b = zip (query_transaction_infos_by_block b db) evs"
    by (auto simp: events_for_block_def headers_upto_number [OF hs b(1)] query_events_by_block_def row context_some_def Let_def split: option.splits if_splits)
  then have "map snd (E b) = evs" by simp
  then show ?thesis using evs b by auto
qed

lemma no_row_no_events:
  assumes "event_inv lib n hs hdr E db" and "b < n" and "b \<notin> fst ` set (bd_transactions db)"
  shows "concat (map snd (E b)) = []"
proof -
  have hs: "headers_upto n hs hdr" using assms(1) by (simp add: event_inv_def)
  have row: "map_of (bd_transactions db) b = None" using assms(3) by (simp add: map_of_eq_None_iff)
  have "events_for_block lib hs (BlockNumber b) db = Inr (Some (E b))" using assms(1,2) by (simp add: event_inv_def)
  then have "E b = zip (query_transaction_infos_by_block b db) []"
    by (auto simp: events_for_block_def headers_upto_number [OF hs assms(2)] query_events_by_block_def row Let_def split: if_splits)
  then show ?thesis by simp
qed

lemma rebuild_insert_covers:
  assumes "agg_wf a" and "\<forall>(b, bloom) \<in> set xs. agg_from_block a \<le> b \<and> b \<le> agg_to_block a \<and> bloom_of_events lib (evs b) = Inr bloom"
  shows "\<exists>a'. rebuild_insert (map Some xs) a = Inr a' \<and> agg_wf a' \<and> agg_from_block a' = agg_from_block a \<and> agg_to_block a' = agg_to_block a \<and>
    (\<forall>b es. agg_from_block a \<le> b \<and> b \<le> agg_to_block a \<longrightarrow> agg_covers lib a b es \<or> (b \<in> fst ` set xs \<and> es = evs b) \<longrightarrow> agg_covers lib a' b es)"
  using assms
proof (induction xs arbitrary: a)
  case (Cons x xs)
  obtain b bloom where x: "x = (b, bloom)" by (cases x)
  have b: "agg_from_block a \<le> b" "b \<le> agg_to_block a" "bloom_of_events lib (evs b) = Inr bloom" using Cons.prems(2) x by auto
  from agg_covers_insert [OF Cons.prems(1) b] obtain a1 where
    a1: "agg_insert bloom b a = Inr a1" "agg_wf a1" "agg_from_block a1 = agg_from_block a" "agg_to_block a1 = agg_to_block a" "agg_covers lib a1 b (evs b)"
    "\<forall>b evs. agg_from_block a \<le> b \<and> b \<le> agg_to_block a \<longrightarrow> agg_covers lib a b evs \<longrightarrow> agg_covers lib a1 b evs" by blast
  have "\<forall>(b, bloom) \<in> set xs. agg_from_block a1 \<le> b \<and> b \<le> agg_to_block a1 \<and> bloom_of_events lib (evs b) = Inr bloom" using Cons.prems(2) a1(3,4) by simp
  from Cons.IH [OF a1(2) this] obtain a2 where
    a2: "rebuild_insert (map Some xs) a1 = Inr a2" "agg_wf a2" "agg_from_block a2 = agg_from_block a" "agg_to_block a2 = agg_to_block a"
    "\<And>b es. agg_from_block a \<le> b \<Longrightarrow> b \<le> agg_to_block a \<Longrightarrow> agg_covers lib a1 b es \<or> (b \<in> fst ` set xs \<and> es = evs b) \<Longrightarrow> agg_covers lib a2 b es"
    unfolding a1(3,4) by blast
  have "agg_covers lib a2 c es" if "agg_from_block a \<le> c" "c \<le> agg_to_block a" "agg_covers lib a c es \<or> (c \<in> fst ` set (x # xs) \<and> es = evs c)" for c es
    using a2(5) [OF that(1,2)] that a1(5,6) by (auto simp: x)
  then show ?case using a1(1) a2(1-4) by (auto simp: x)
qed auto

lemma rebuild_filters_ok:
  assumes inv: "event_inv lib n hs hdr E db"
  shows "\<exists>xs. rebuild_filters lib first db = Inr (map Some xs) \<and> fst ` set xs = {b \<in> fst ` set (bd_transactions db). first \<le> b} \<and>
    (\<forall>(b, bloom) \<in> set xs. bloom_of_events (bl_bloom lib) (concat (map snd (E b))) = Inr bloom)"
proof -
  let ?evs = "\<lambda>b. concat (map snd (E b))" and ?rows = "filter (\<lambda>(block, _). first \<le> block) (bd_transactions db)"
  let ?bloom = "\<lambda>row. (fst row, projr (bloom_of_events (bl_bloom lib) (?evs (fst row))))"
  have "sorted (map fst (bd_transactions db))" using inv by (simp add: event_inv_def rows_upto_def)
  then have sort: "sort_key fst ?rows = ?rows" by (intro sort_key_id_if_sorted sorted_filter)
  have blooms: "bloom_of_events (bl_bloom lib) es = Inr (projr (bloom_of_events (bl_bloom lib) es))" for es using bloom_of_events_ok [of "bl_bloom lib" es] by auto
  have "map_outcome (\<lambda>(block, _, events_blob). case events_blob of None \<Rightarrow> Inr None
       | Some blob \<Rightarrow> bind_outcome (context_some ''Deserializing events'' (decode_events lib blob)) (\<lambda>events.
           bind_outcome (bloom_of_events (bl_bloom lib) (concat events)) (\<lambda>bloom. Inr (Some (block, bloom))))) ?rows = Inr (map (\<lambda>row. Some (?bloom row)) ?rows)"
  proof (rule map_outcome_total)
    fix row assume "row \<in> set ?rows"
    moreover obtain b txs events where row: "row = (b, txs, events)" by (cases row)
    ultimately have "(b, txs, events) \<in> set (bd_transactions db)" by auto
    from row_events [OF inv this] obtain blob evs where r: "events = Some blob" "decode_events lib blob = Some evs" "concat evs = ?evs b" by blast
    show "(case row of (block, _, events_blob) \<Rightarrow> case events_blob of None \<Rightarrow> Inr None
       | Some blob \<Rightarrow> bind_outcome (context_some ''Deserializing events'' (decode_events lib blob)) (\<lambda>events.
           bind_outcome (bloom_of_events (bl_bloom lib) (concat events)) (\<lambda>bloom. Inr (Some (block, bloom))))) = Inr (Some (?bloom row))"
      unfolding row prod.case r(1,2) option.case context_some_simps bind_outcome_simps r(3) by (subst blooms) simp
  qed
  then have "rebuild_filters lib first db = Inr (map Some (map ?bloom ?rows))" unfolding rebuild_filters_def sort map_map comp_def .
  moreover have "fst ` set (map ?bloom ?rows) = {b \<in> fst ` set (bd_transactions db). first \<le> b}" by force
  moreover have "\<forall>(b, bloom) \<in> set (map ?bloom ?rows). bloom_of_events (bl_bloom lib) (?evs b) = Inr bloom" using blooms by auto
  ultimately show ?thesis by blast
qed

lemma rebuild_from_ok:
  assumes inv: "event_inv lib n hs hdr E db" and first: "first = range_start (unat n div 8192)" "first \<le> n - 1" and "n \<noteq> 0"
  shows "\<exists>a. running_filter_rebuild_from lib first (n - 1) db = Inr \<lparr> rf_filter = a, rf_next_block = n \<rparr> \<and>
    agg_for (bl_bloom lib) n (\<lambda>b. concat (map snd (E b))) (unat n div 8192) a"
proof -
  let ?evs = "\<lambda>b. concat (map snd (E b))" and ?k = "unat n div 8192"
  have n: "unat n + 16384 < 2 ^ 63" using inv by (simp add: event_inv_def filters_ok_def)
  have "?k * 8192 \<le> unat n" by simp
  then have k: "?k * 8192 + 8192 < 2 ^ 63" using n by linarith
  then have f: "unat first = ?k * 8192" using first(1) unat_range_start [of ?k] by simp
  then have "unat first + 8192 < 2 ^ 64" using k by simp
  from agg_new_ok [OF this] obtain a where a: "agg_new first = Inr a" "agg_wf a" "agg_from_block a = first" by blast
  have to: "agg_to_block a = range_start ?k + 8191" using a by (simp add: agg_wf_def first(1))
  obtain xs where xs: "rebuild_filters lib first db = Inr (map Some xs)" "fst ` set xs = {b \<in> fst ` set (bd_transactions db). first \<le> b}"
    "\<forall>(b, bloom) \<in> set xs. bloom_of_events (bl_bloom lib) (?evs b) = Inr bloom" using rebuild_filters_ok [OF inv] by blast
  have below: "b < n" if "b \<in> fst ` set (bd_transactions db)" for b using that row_events [OF inv] by force
  have upto: "b \<le> agg_to_block a" if "b < n" for b
    using that in_range_iff(2) [OF k, of b] to by (simp add: word_less_nat_alt div_le_mono)
  have "\<forall>(b, bloom) \<in> set xs. agg_from_block a \<le> b \<and> b \<le> agg_to_block a \<and> bloom_of_events (bl_bloom lib) (?evs b) = Inr bloom"
  proof clarify
    fix b bloom assume x: "(b, bloom) \<in> set xs"
    then have "b \<in> fst ` set xs" by force
    then have "first \<le> b" "b < n" using xs(2) below by auto
    then show "agg_from_block a \<le> b \<and> b \<le> agg_to_block a \<and> bloom_of_events (bl_bloom lib) (?evs b) = Inr bloom" using a(3) upto xs(3) x by auto
  qed
  from rebuild_insert_covers [OF a(2) this] obtain a' where
    a': "rebuild_insert (map Some xs) a = Inr a'" "agg_wf a'" "agg_from_block a' = first"
    "\<And>b. first \<le> b \<Longrightarrow> b \<le> agg_to_block a \<Longrightarrow> b \<in> fst ` set xs \<Longrightarrow> agg_covers (bl_bloom lib) a' b (?evs b)" unfolding a(3) by blast
  have cover: "agg_covers (bl_bloom lib) a' b (?evs b)" if "b < n" "first \<le> b" for b
  proof (cases "b \<in> fst ` set (bd_transactions db)")
    case True
    then show ?thesis using a'(4) that upto xs(2) by blast
  next
    case False
    then show ?thesis using no_row_no_events [OF inv that(1)] by (simp add: agg_covers_def)
  qed
  have "block_add (n - 1) 1 = Inr n"
  proof -
    have "unat (n - 1) = unat n - 1" using unat_sub [of 1 n] assms(4) by (simp add: word_le_nat_alt unat_gt_0 Suc_le_eq)
    then show ?thesis using n by (simp add: block_add_def)
  qed
  then have "running_filter_rebuild_from lib first (n - 1) db = Inr \<lparr> rf_filter = a', rf_next_block = n \<rparr>"
    using first(2) xs(1) a(1) a'(1) by (simp add: running_filter_rebuild_from_def)
  then show ?thesis using a'(2,3) cover first(1) unfolding agg_for_def by auto
qed

lemma last_filter_ok:
  assumes "list_all2 (row_ok lib n evs) [0..<k] (bd_event_filters db)" and "k * 8192 < 2 ^ 63"
  shows "last_filter_to_block db = (if k = 0 then None else Some (range_start (k - 1) + 8191))"
proof (cases "k = 0")
  case True
  then show ?thesis using assms(1) by (simp add: last_filter_to_block_def)
next
  case False
  have keys: "map fst (bd_event_filters db) = map range_key [0..<k]"
    using assms(1) by (intro nth_equalityI) (auto simp: list_all2_conv_all_nth row_ok_def)
  have "[0..<k] = [0..<k - 1] @ [k - 1]" using False by (cases k) simp_all
  moreover have "\<forall>s \<in> set (map range_key [0..<k - 1]). fst s \<le> fst (range_key (k - 1))"
  proof
    fix s assume "s \<in> set (map range_key [0..<k - 1])"
    then obtain j where j: "j < k - 1" "s = range_key j" by auto
    then have "range_start j < range_start (k - 1)" using range_start_less(1) [of j "k - 1"] assms(2) by simp
    then show "fst s \<le> fst (range_key (k - 1))" using j(2) by (simp add: range_key_def)
  qed
  ultimately have "latest_row (map fst (bd_event_filters db)) = Some (range_key (k - 1))"
    unfolding keys using latest_row_snoc [of "map range_key [0..<k - 1]" "range_key (k - 1)"] by (simp only: map_append list.map)
  then show ?thesis using False by (simp add: last_filter_to_block_def range_key_def)
qed

lemma rebuild_ok:
  assumes inv: "event_inv lib n hs hdr E db" and "n \<noteq> 0"
  shows "\<exists>a. running_filter_rebuild lib (n - 1) db = Inr \<lparr> rf_filter = a, rf_next_block = n \<rparr> \<and>
    agg_for (bl_bloom lib) n (\<lambda>b. concat (map snd (E b))) (unat n div 8192) a"
proof -
  let ?k = "unat n div 8192" and ?evs = "\<lambda>b. concat (map snd (E b))"
  have ok: "filters_ok (bl_bloom lib) n ?evs db" using inv by (simp add: event_inv_def)
  then have n: "unat n + 16384 < 2 ^ 63" and rows: "list_all2 (row_ok (bl_bloom lib) n ?evs) [0..<?k] (bd_event_filters db)" by (simp_all add: filters_ok_def)
  have kn: "?k * 8192 \<le> unat n" by simp
  then have k: "?k * 8192 < 2 ^ 63" using n by linarith
  have n1: "unat (n - 1) = unat n - 1" "0 < unat n" using unat_sub [of 1 n] assms(2) by (simp_all add: word_le_nat_alt unat_gt_0 Suc_le_eq)
  then have next_block: "block_add (n - 1) 1 = Inr n" using n by (simp add: block_add_def)
  note last = last_filter_ok [OF rows k]
  show ?thesis
  proof (cases "?k = 0")
    case True
    then have "unat (n - 1) < 8192" using n1 by (simp add: div_eq_0_iff)
    then have "(n - 1) mod AGGREGATE_BLOOM_BLOCK_RANGE_LEN = n - 1"
      by (simp add: AGGREGATE_BLOOM_BLOCK_RANGE_LEN_def word_unat_eq_iff unat_mod_distrib)
    then have "(n - 1) - (n - 1) mod AGGREGATE_BLOOM_BLOCK_RANGE_LEN = range_start ?k" unfolding True range_start_def by simp
    then show ?thesis using rebuild_from_ok [OF inv refl _ assms(2)] True last by (simp add: running_filter_rebuild_def range_start_def)
  next
    case False
    have km: "(?k - 1) * 8192 < 2 ^ 63" "(?k - 1) * 8192 + 8191 = ?k * 8192 - 1" using k False by (simp_all add: diff_mult_distrib)
    have to: "unat (range_start (?k - 1) + 8191) = ?k * 8192 - 1" using unat_range_end [OF km(1)] km(2) by simp
    have l: "last_filter_to_block db = Some (range_start (?k - 1) + 8191)" using last False by simp
    show ?thesis
    proof (cases "range_start (?k - 1) + 8191 = n - 1")
      case True
      have "?k * 8192 - 1 = unat n - 1" using to n1(1) unfolding True by simp
      then have "unat n = ?k * 8192" using n1(2) kn False by linarith
      from agg_new_for [OF n this] obtain a where "agg_new n = Inr a" "agg_for (bl_bloom lib) n ?evs ?k a" by blast
      then show ?thesis using True l next_block by (simp add: running_filter_rebuild_def)
    next
      case neq: False
      have "block_add (range_start (?k - 1) + 8191) 1 = Inr (range_start ?k)"
      proof -
        have "range_start (?k - 1) + 8191 + 1 = range_start ?k" using False by (cases ?k) (simp_all add: range_start_def)
        then show ?thesis using to k False by (simp add: block_add_def)
      qed
      moreover have "range_start ?k \<le> n - 1"
      proof -
        have "?k * 8192 - 1 \<noteq> unat n - 1" using neq to n1(1) by (metis word_unat_eq_iff)
        then have "?k * 8192 \<le> unat n - 1" using kn by linarith
        then show ?thesis using n1(1) unat_range_start [OF k] by (simp add: word_le_nat_alt)
      qed
      ultimately show ?thesis using rebuild_from_ok [OF inv refl _ assms(2)] l neq by (simp add: running_filter_rebuild_def)
    qed
  qed
qed

lemma load_ok:
  assumes inv: "event_inv lib n hs hdr E db" and load: "running_filter_load lib hs db = Inr rf"
  shows "rf_next_block rf = n \<and> agg_for (bl_bloom lib) n (\<lambda>b. concat (map snd (E b))) (unat n div 8192) (rf_filter rf)"
proof -
  let ?evs = "\<lambda>b. concat (map snd (E b))"
  have hs: "headers_upto n hs hdr" and n: "unat n + 16384 < 2 ^ 63" and row: "running_row_ok (bl_bloom lib) n ?evs db"
    using inv by (simp_all add: event_inv_def filters_ok_def)
  obtain from_block to_block bitmap next_block where r: "bd_running_row db = (from_block, to_block, bitmap, next_block)" by (metis prod_cases4)
  from row obtain a where a: "zstd_decompress (bl_bloom lib) bitmap (1024 * BITVEC_BITS) = Some (agg_bitmap a)" "agg_wf a"
    "agg_from_block a = from_block" "agg_to_block a = to_block" "next_block = n \<longrightarrow> agg_for (bl_bloom lib) n ?evs (unat n div 8192) a"
    by (auto simp: running_row_ok_def r)
  have stored: "agg_from_existing_compressed (bl_bloom lib) from_block to_block bitmap = Inr a"
    using a(1-4) agg_from_parts_ok [OF a(2)] by (simp add: agg_from_existing_compressed_def)
  show ?thesis
  proof (cases "n = 0")
    case True
    from agg_new_for [OF n, of 0] True obtain f where "agg_new 0 = Inr f" "agg_for (bl_bloom lib) 0 ?evs 0 f" by auto
    then show ?thesis using load headers_upto_latest [OF hs] True by (auto simp: running_filter_load_def)
  next
    case False
    have "unat (n - 1) = unat n - 1" "0 < unat n" using unat_sub [of 1 n] False by (simp_all add: word_le_nat_alt unat_gt_0 Suc_le_eq)
    then have next_ok: "block_add (n - 1) 1 = Inr n" using n by (simp add: block_add_def)
    show ?thesis using load headers_upto_latest [OF hs] False rebuild_ok [OF inv False] a(5)
      by (auto simp: running_filter_load_def r stored next_ok split: if_splits)
  qed
qed

lemma event_inv_restart:
  assumes inv: "event_inv lib n hs hdr E db" and load: "running_filter_load lib hs db = Inr rf"
  shows "event_inv lib n hs hdr E (db\<lparr> running_filter := rf, filter_cache := cache_reset \<rparr>)"
proof -
  let ?db = "db\<lparr> running_filter := rf, filter_cache := cache_reset \<rparr>"
  have "events_for_block lib hs block ?db = events_for_block lib hs block db" for block by (rule events_for_block_tables) simp_all
  then show ?thesis using inv load_ok [OF assms] by (simp add: event_inv_def rows_upto_def filters_ok_def running_row_ok_def cache_reset_def)
qed

section \<open>The chain\<close>

lemma event_chain_inv:
  assumes "event_chain lib n hs hdr E db" and "block_lib_ok lib"
  shows "event_inv lib n hs hdr E db"
  using assms
proof (induction rule: event_chain.induct)
  case (start f bitmap hdr E)
  have "agg_for (bl_bloom lib) 0 (\<lambda>b. concat (map snd (E b))) 0 f" using agg_new_for [of 0 0] start(1) by auto
  moreover from this have "length (agg_bitmap f) = 1024 * BITVEC_BITS" "agg_wf f" unfolding agg_for_def agg_wf_def by blast+
  moreover from this(1) have "zstd_decompress (bl_bloom lib) bitmap (1024 * BITVEC_BITS) = Some (agg_bitmap f)"
    using start(2,3) by (auto simp: agg_compress_bitmap_def block_lib_ok_def bloom_lib_ok_def)
  ultimately show ?case
    by (auto simp: event_inv_def headers_upto_def rows_upto_def filters_ok_def running_row_ok_def empty_block_db_def cache_reset_def)
qed (blast intro: event_inv_block event_inv_query event_inv_shutdown event_inv_restart)+

end
