(* ===== verification/EventFollow.thy ===== *)
theory EventFollow
  imports EventChain
begin

text \<open>
  A client that follows the continuation tokens: it asks again from the block and the offset of each token,
  until a page has none. It ends, and has seen every matching event once and in order.
\<close>

section \<open>Splitting a range\<close>

definition events_after :: "(block_number \<Rightarrow> emitted_event list) \<Rightarrow> block_number \<Rightarrow> block_number \<Rightarrow> emitted_event list" where
  "events_after M m e = concat (map M (map of_nat [Suc (unat m)..<Suc (unat e)]))"

lemma events_between_split:
  assumes "s \<le> m" "m \<le> e"
  shows "events_between M s e = events_between M s m @ events_after M m e"
  unfolding events_between_def events_after_def blocks_between_split [OF assms] by simp

lemma events_after_next:
  assumes "m < e"
  shows "events_after M m e = events_between M (m + 1) e"
proof -
  have "unat e < 2 ^ LENGTH(64)" by (rule unsigned_less)
  then have "unat (m + 1) = Suc (unat m)" using unat_block_next [of m] assms by (simp add: word_less_nat_alt)
  then show ?thesis by (simp add: events_after_def events_between_def blocks_between_def)
qed

section \<open>Following the tokens\<close>

fun follow_tokens :: "nat \<Rightarrow> block_lib \<Rightarrow> header_table \<Rightarrow> event_constraints \<Rightarrow> u64 \<Rightarrow> block_db \<Rightarrow> event_filter_error + (emitted_event list \<times> block_db)" where
  "follow_tokens 0 lib hs constraints limit db = Inl (Internal OutOfFuel)"
| "follow_tokens (Suc fuel) lib hs constraints limit db =
     bind_outcome (tx_events lib False hs constraints limit db) (\<lambda>(page, db). case pe_token page of
         None \<Rightarrow> Inr (pe_events page, db)
       | Some token \<Rightarrow>
           bind_outcome (follow_tokens fuel lib hs (constraints\<lparr> ec_from_block := Some (ct_block_number token), ec_offset := ct_offset token \<rparr>) limit db)
             (\<lambda>(events, db). Inr (pe_events page @ events, db)))"

lemma matching_in_position [simp]:
  "matching_in hdr E (constraints\<lparr> ec_from_block := s, ec_offset := off \<rparr>) = matching_in hdr E constraints"
  by (simp add: matching_in_def)

lemma range_end_mono:
  assumes "0 < limit" "s \<le> b" "b \<le> to" "unat to + unat limit < 2 ^ 64"
  shows "range_end limit to s \<le> range_end limit to b"
proof -
  have "1 \<le> limit" using assms(1) by (simp add: word_less_nat_alt word_le_nat_alt)
  have u: "unat (x + limit - 1) = unat x + unat limit - 1" if "x \<le> to" for x
  proof -
    have sum: "unat (x + limit) = unat x + unat limit" using that assms(4) by (simp add: word_le_nat_alt unat_word_ariths)
    then have "1 \<le> x + limit" using \<open>1 \<le> limit\<close> by (simp add: word_le_nat_alt)
    from unat_sub [OF this] sum show ?thesis by simp
  qed
  have "s + limit - 1 \<le> b + limit - 1" using u [of s] u [of b] assms by (simp add: word_le_nat_alt)
  then show ?thesis unfolding range_end_def by (rule min.mono [OF order.refl])
qed

text \<open>What is left after a page.\<close>

lemma page_rest:
  assumes page: "page_ok p (events_between M) s off hi to page" and "s \<le> hi" "hi \<le> to" and off: "off \<le> length (events_between M s hi)" and "1 \<le> p"
  shows "pe_token page = None \<Longrightarrow> pe_events page = drop off (events_between M s to)"
    and "pe_token page = Some t \<Longrightarrow> drop off (events_between M s to) = pe_events page @ drop (ct_offset t) (events_between M (ct_block_number t) to) \<and>
      s \<le> ct_block_number t \<and> ct_block_number t \<le> to \<and>
      (ct_block_number t \<le> hi \<and> ct_offset t < length (events_between M (ct_block_number t) hi) \<and> pe_events page \<noteq> [] \<or> hi < ct_block_number t \<and> ct_offset t = 0)"
proof -
  let ?A = "events_between M s hi" and ?X = "events_after M hi to"
  have all: "events_between M s to = ?A @ ?X" by (rule events_between_split [OF assms(2,3)])
  have ev: "pe_events page = take p (drop off ?A)" using page by (simp add: page_ok_def)
  have rest: "drop off (events_between M s to) = drop off ?A @ ?X" using off by (simp add: all)
  {
    assume none: "pe_token page = None"
    then have "\<not> off + p < length ?A" "\<not> hi < to" using page by (auto simp: page_ok_def split: if_splits)
    then have "hi = to" "pe_events page = drop off ?A" using assms(3) ev by simp_all
    then show "pe_events page = drop off (events_between M s to)" by simp
  }
  assume t: "pe_token page = Some t"
  show "drop off (events_between M s to) = pe_events page @ drop (ct_offset t) (events_between M (ct_block_number t) to) \<and>
      s \<le> ct_block_number t \<and> ct_block_number t \<le> to \<and>
      (ct_block_number t \<le> hi \<and> ct_offset t < length (events_between M (ct_block_number t) hi) \<and> pe_events page \<noteq> [] \<or> hi < ct_block_number t \<and> ct_offset t = 0)"
  proof (cases "off + p < length ?A")
    case True
    with page t obtain b o' where b: "t = \<lparr> ct_block_number = b, ct_offset = o' \<rparr>" "s \<le> b" "b \<le> hi" "o' < length (events_between M b hi)"
      "drop o' (events_between M b hi) = drop (off + p) ?A" by (auto simp: page_ok_def)
    have "drop o' (events_between M b to) = drop (off + p) ?A @ ?X"
      using b(4,5) by (simp add: events_between_split [OF b(3) assms(3)])
    moreover have "drop off ?A = pe_events page @ drop (off + p) ?A" unfolding ev by (metis add.commute append_take_drop_id drop_drop)
    moreover have "pe_events page \<noteq> []" using True assms(5) unfolding ev by auto
    ultimately show ?thesis using b assms(3) rest by simp
  next
    case False
    then have "hi < to" "t = \<lparr> ct_block_number = hi + 1, ct_offset = 0 \<rparr>" using page t by (auto simp: page_ok_def split: if_splits)
    moreover have "pe_events page = drop off ?A" using False ev by simp
    moreover have "hi < hi + 1" "hi + 1 \<le> to"
    proof -
      have "unat to < 2 ^ LENGTH(64)" by (rule unsigned_less)
      then have "unat (hi + 1) = unat hi + 1" using unat_block_next [of hi] \<open>hi < to\<close> by (simp add: word_less_nat_alt)
      then show "hi < hi + 1" "hi + 1 \<le> to" using \<open>hi < to\<close> by (simp_all add: word_less_nat_alt word_le_nat_alt)
    qed
    ultimately show ?thesis using rest events_after_next [of hi to M] assms(2) by simp
  qed
qed

lemma follow_tokens_ok:
  assumes lib: "bloom_lib_ok (bl_bloom lib)" and keys: "length (ec_keys constraints) \<le> 16"
    and p: "1 \<le> ec_page_size constraints" "ec_page_size constraints < usize_max" and limit: "0 < limit" "unat n + unat limit < 2 ^ 64"
    and to: "to = query_end constraints (n - 1)"
    and st: "events_stored lib hs n hdr E db" and s: "s = (case ec_from_block constraints of None \<Rightarrow> 0 | Some s \<Rightarrow> s)" "s \<le> to"
    and off: "ec_offset constraints \<le> length (matching_in hdr E constraints s (range_end limit to s))"
    and m: "length (drop (ec_offset constraints) (matching_in hdr E constraints s to)) + (unat to - unat s) < m"
  shows "\<exists>c. follow_tokens m lib hs constraints limit db =
    Inr (drop (ec_offset constraints) (matching_in hdr E constraints s to), db\<lparr> filter_cache := c \<rparr>)"
  using assms
proof (induction m arbitrary: constraints s db)
  case (Suc m)
  let ?p = "ec_page_size constraints" and ?off = "ec_offset constraints" and ?hi = "range_end limit to s"
  define M where "M = block_matching hdr E (ec_contract_addresses constraints) (ec_keys constraints)"
  have M: "matching_in hdr E constraints = events_between M" by (simp add: matching_in_def M_def)
  from tx_events_ok [OF lib Suc.prems(8,9) _ Suc.prems(2,3,4,5,6)] Suc.prems(7,10) obtain page c where
    page: "tx_events lib False hs constraints limit db = Inr (page, db\<lparr> filter_cache := c \<rparr>)" and st: "events_stored lib hs n hdr E (db\<lparr> filter_cache := c \<rparr>)"
    and ok: "page_ok ?p (events_between M) s ?off ?hi to page" unfolding M by blast
  have to: "unat to + unat limit < 2 ^ 64"
  proof -
    have "to \<le> n - 1" unfolding Suc.prems(7) query_end_def by (cases "ec_to_block constraints") auto
    moreover have "0 < n" using st by (simp add: events_stored_def)
    then have "unat (n - 1) < unat n" using unat_sub [of 1 n] by (simp add: word_less_nat_alt word_le_nat_alt Suc_le_eq)
    ultimately show ?thesis using Suc.prems(6) by (simp add: word_le_nat_alt)
  qed
  note hi = range_end_bounds(1,2) [OF Suc.prems(5,10) to]
  note rest = page_rest [OF ok hi Suc.prems(11) [unfolded M] Suc.prems(3)]
  show ?case
  proof (cases "pe_token page")
    case None
    then show ?thesis using page rest(1) by (auto simp: M)
  next
    case (Some t)
    let ?c = "constraints\<lparr> ec_from_block := Some (ct_block_number t), ec_offset := ct_offset t \<rparr>"
    note r = rest(2) [OF Some]
    have M': "matching_in hdr E ?c = events_between M" using M by simp
    have "\<exists>c'. follow_tokens m lib hs ?c limit (db\<lparr> filter_cache := c \<rparr>) =
        Inr (drop (ec_offset ?c) (matching_in hdr E ?c (ct_block_number t) to), db\<lparr> filter_cache := c, filter_cache := c' \<rparr>)"
    proof (rule Suc.IH)
      have "ct_block_number t \<le> ?hi \<Longrightarrow> length (events_between M (ct_block_number t) ?hi) \<le> length (events_between M (ct_block_number t) (range_end limit to (ct_block_number t)))"
        using events_between_split [of "ct_block_number t" ?hi "range_end limit to (ct_block_number t)" M] range_end_mono [OF Suc.prems(5) _ _ to] r by simp
      then show "ec_offset ?c \<le> length (matching_in hdr E ?c (ct_block_number t) (range_end limit to (ct_block_number t)))" unfolding M' using r by auto
      have "length (drop ?off (events_between M s to)) = length (pe_events page) + length (drop (ct_offset t) (events_between M (ct_block_number t) to))"
        using r by (metis length_append)
      moreover have "unat s \<le> unat (ct_block_number t)" "unat (ct_block_number t) \<le> unat to" "unat s \<le> unat ?hi" using r hi(1) by (simp_all add: word_le_nat_alt)
      moreover have "0 < length (pe_events page) \<or> unat ?hi < unat (ct_block_number t)" using r by (auto simp: word_less_nat_alt)
      moreover have "length (drop ?off (events_between M s to)) + (unat to - unat s) < Suc m" using Suc.prems(12) unfolding M .
      ultimately have "length (drop (ct_offset t) (events_between M (ct_block_number t) to)) + (unat to - unat (ct_block_number t)) < m" by linarith
      then show "length (drop (ec_offset ?c) (matching_in hdr E ?c (ct_block_number t) to)) + (unat to - unat (ct_block_number t)) < m" unfolding M' by simp
    qed (use Suc.prems st r in \<open>simp_all add: query_end_def\<close>)
    then show ?thesis using page Some r by (auto simp: M M')
  qed
qed simp

end
