(* ===== verification/Event_Properties.thy ===== *)
theory Event_Properties
  imports EventFollow
begin

text \<open>
  The properties of the stored events: \<^verbatim>\<open>crates/storage/src/connection/event.rs\<close> and \<^verbatim>\<open>transaction.rs\<close> over every
  sequence of stored blocks, queries, shutdowns and restarts.
\<close>

section \<open>An example\<close>

text \<open>Libraries that keep their input, and a chain of one block with one event.\<close>

definition example_bloom_lib :: bloom_lib where
  "example_bloom_lib = \<lparr> sip13 = (\<lambda>_ _ _. 0), zstd_compress = (\<lambda>_. Some), zstd_decompress = (\<lambda>x _. Some x),
     cache_touch = (\<lambda>_ c. c), cache_set = (\<lambda>k v c. (k, v) # c) \<rparr>"

definition example_event :: event where
  "example_event = \<lparr> ev_data = [], ev_from_address = felt_ZERO, ev_keys = [felt_ZERO] \<rparr>"

definition example_block_lib :: block_lib where
  "example_block_lib = \<lparr> bl_bloom = example_bloom_lib,
     encode_events = (\<lambda>events. if events = [[example_event]] then Some [1] else None),
     decode_events = (\<lambda>blob. if blob = [1] then Some [[example_event]] else None),
     encode_transactions = (\<lambda>_. Some []), decode_transactions = (\<lambda>_. None) \<rparr>"

definition example_header :: block_header where
  "example_header = \<lparr> hd_hash = felt_ZERO, hd_parent_hash = felt_ZERO, hd_number = 0, hd_timestamp = 0, hd_eth_l1_gas_price = 0,
     hd_strk_l1_gas_price = 0, hd_eth_l1_data_gas_price = 0, hd_strk_l1_data_gas_price = 0, hd_eth_l2_gas_price = 0,
     hd_strk_l2_gas_price = 0, hd_sequencer_address = felt_ZERO, hd_starknet_version = (0, 0, 0, 0), hd_event_commitment = felt_ZERO,
     hd_state_commitment = felt_ZERO, hd_transaction_commitment = felt_ZERO, hd_transaction_count = 1, hd_event_count = 1,
     hd_l1_da_mode = Calldata, hd_receipt_commitment = felt_ZERO, hd_state_diff_commitment = felt_ZERO, hd_state_diff_length = 0 \<rparr>"

definition example_events :: "block_number \<Rightarrow> ((felt \<times> u64) \<times> event list) list" where
  "example_events = (\<lambda>_. [])(0 := [((felt_ZERO, 0), [example_event])])"

definition example_emitted :: emitted_event where
  "example_emitted = \<lparr> em_from_address = felt_ZERO, em_data = [], em_keys = [felt_ZERO], em_block_hash = felt_ZERO, em_block_number = 0,
     em_transaction_hash = felt_ZERO, em_transaction_index = 0, em_event_index = 0 \<rparr>"

lemma example_block_lib_ok: "block_lib_ok example_block_lib"
  by (simp add: block_lib_ok_def bloom_lib_ok_def example_block_lib_def example_bloom_lib_def)

lemma example_event_chain:
  "\<exists>db. event_chain example_block_lib 1 [example_header] ((\<lambda>_. example_header)(0 := example_header)) example_events db"
proof -
  let ?lib = "example_block_lib"
  obtain f where f: "agg_new 0 = Inr f" using agg_new_ok [of 0] by auto
  have "agg_compress_bitmap (bl_bloom ?lib) f = Inr (agg_bitmap f)" by (simp add: agg_compress_bitmap_def example_block_lib_def example_bloom_lib_def)
  note start = event_chain.start [OF f this, of "\<lambda>_. example_header" "\<lambda>_. []"]
  from event_chain_inv [OF start example_block_lib_ok] have "filters_ok (bl_bloom ?lib) 0 (\<lambda>b. concat (map snd [])) (empty_block_db f (agg_bitmap f))"
    by (simp add: event_inv_def)
  moreover have "bloom_lib_ok (bl_bloom ?lib)" using example_block_lib_ok by (simp add: block_lib_ok_def)
  ultimately obtain rf tbl where up: "upsert_block_event_filters (bl_bloom ?lib) 0 [example_event] (empty_block_db f (agg_bitmap f)) =
      Inr ((empty_block_db f (agg_bitmap f))\<lparr> bd_event_filters := tbl, running_filter := rf \<rparr>)"
    using upsert_filters_ok [of "bl_bloom ?lib" 0 "\<lambda>b. concat (map snd [])" "empty_block_db f (agg_bitmap f)" "[example_event]"] by auto
  have "\<exists>db. insert_transaction_data ?lib [example_header] 0 [(felt_ZERO, [])] (Some [[example_event]]) (empty_block_db f (agg_bitmap f)) = Inr db"
    using up by (simp add: insert_transaction_data_def insert_transaction_hash_def header_block_exists_def example_header_def empty_block_db_def
      example_block_lib_def)
  then obtain db where "insert_transaction_data ?lib [example_header] 0 [(felt_ZERO, [])] (Some [[example_event]]) (empty_block_db f (agg_bitmap f)) = Inr db" by blast
  from event_chain.block [OF start _ _ _ _ this, of example_header] show ?thesis
    by (auto simp: insert_header_def example_header_def i64_max_def transaction_infos_def example_events_def)
qed

lemma example_matching:
  "block_matching ((\<lambda>_. example_header)(0 := example_header)) example_events [] [] 0 = [example_emitted]"
  by (simp add: block_matching_def matching_events_def numbered_events_def address_matches_def keys_match_def emit_def example_events_def
    example_event_def example_emitted_def example_header_def)

section \<open>Helper lemmas\<close>

lemma event_chain_stored:
  assumes "event_chain lib n hs hdr E db" and "block_lib_ok lib" and "0 < n"
  shows "events_stored lib hs n hdr E db"
  using event_inv_stored [OF event_chain_inv [OF assms(1,2)] assms(3)] .

lemma bloom_part_ok: "block_lib_ok lib \<Longrightarrow> bloom_lib_ok (bl_bloom lib)"
  by (simp add: block_lib_ok_def)

lemma truncate_keys_length: "length (truncate_keys keys) \<le> length keys"
  using length_dropWhile_le [of "\<lambda>k. k = []" "rev keys"] by (simp add: truncate_keys_def)

lemma below_latest:
  fixes n :: block_number
  assumes "0 < n" and "b \<le> n - 1"
  shows "b < n"
proof -
  have "1 \<le> n" using assms(1) by (simp add: word_less_nat_alt word_le_nat_alt)
  from unat_sub [OF this] assms show ?thesis by (simp add: word_less_nat_alt word_le_nat_alt)
qed

lemma events_in_range_stored:
  assumes lib: "bloom_lib_ok (bl_bloom lib)" and st: "events_stored lib hs n hdr E db"
    and s: "s \<le> t" "s \<le> n - 1" and keys: "length keys \<le> 16"
  shows "\<exists>c. events_in_range lib hs s t addresses keys db =
    Inr ((events_between (block_matching hdr E addresses (truncate_keys keys)) s (min t (n - 1)), Some (min t (n - 1))), db\<lparr> filter_cache := c \<rparr>)"
proof -
  define e ks where "e = min t (n - 1)" and "ks = truncate_keys keys"
  have n: "0 < n" and latest: "header_block_number hs BlockLatest = Some (n - 1)"
    and ok: "filters_ok (bl_bloom lib) n (\<lambda>b. concat (map snd (E b))) db" using st by (simp_all add: events_stored_def)
  have e: "s \<le> e" "e < n" using s below_latest [OF n, of e] by (simp_all add: e_def)
  have "length ks \<le> 16" using truncate_keys_length [of keys] keys by (simp add: ks_def)
  from blocks_to_scan_ok [OF lib ok e this, of addresses] obtain fs c checked cand where
    load: "load_event_filter_range (bl_bloom lib) s e db = Inr (fs, db\<lparr> filter_cache := c \<rparr>)"
    and chk: "map_outcome (agg_check (bl_bloom lib) addresses ks) fs = Inr checked"
    and cand: "filter (\<lambda>b. s \<le> b \<and> b \<le> e) (concat checked) = filter cand (blocks_between s e)"
    and all: "\<forall>b \<in> set (blocks_between s e). (\<exists>ev \<in> set (concat (map snd (E b))). event_matches addresses ks ev) \<longrightarrow> cand b"
    by (elim exE conjE)
  have skip: "block_matching hdr E addresses ks b = []" if "b \<in> set (blocks_between s e)" "\<not> cand b" for b
    using bspec [OF all that(1)] that(2) block_matching_empty [of E b addresses ks hdr] by blast
  have blocks: "header_at hs (BlockNumber b) = Some (hdr b) \<and> events_for_block lib hs (BlockNumber b) (db\<lparr> filter_cache := c \<rparr>) = Inr (Some (E b))"
    if "b \<in> set (filter cand (blocks_between s e))" for b
    using stored_blocks(1) [OF st blocks_below [OF e(2)], of b s] that by simp
  have "scan_blocks lib hs addresses ks (db\<lparr> filter_cache := c \<rparr>) (filter cand (blocks_between s e)) [] =
      Inr (events_between (block_matching hdr E addresses ks) s e)"
  proof -
    have "concat (map (block_matching hdr E addresses ks) (filter cand (blocks_between s e))) =
        concat (map (block_matching hdr E addresses ks) (blocks_between s e))" by (rule concat_skip) (rule skip)
    moreover have "scan_blocks lib hs addresses ks (db\<lparr> filter_cache := c \<rparr>) (filter cand (blocks_between s e)) [] =
        Inr ([] @ concat (map (block_matching hdr E addresses ks) (filter cand (blocks_between s e))))" by (rule scan_blocks_eq) (rule blocks)
    ultimately show ?thesis unfolding events_between_def by simp
  qed
  then have "events_in_range lib hs s t addresses keys db =
      Inr ((events_between (block_matching hdr E addresses ks) s e, Some e), db\<lparr> filter_cache := c \<rparr>)"
    using latest s(2) load chk cand by (simp add: events_in_range_def Let_def flip: e_def ks_def)
  then show ?thesis unfolding e_def ks_def by blast
qed

lemma page_loop_from_block:
  "page_loop lib hs (constraints\<lparr> ec_from_block := a \<rparr>) first db blocks offset emitted =
     page_loop lib hs constraints first db blocks offset emitted"
  by (induction blocks arbitrary: offset emitted) (simp_all add: Let_def cong: if_cong option.case_cong)

lemma events_page_from_block:
  "events_page lib hs (constraints\<lparr> ec_from_block := a \<rparr>) first to_block limited db = events_page lib hs constraints first to_block limited db"
  unfolding events_page_def page_loop_from_block by simp

section \<open>Properties\<close>



text \<open>
  C7: \<^verbatim>\<open>events_in_range\<close> returns exactly the matching events of the range, in order: the Bloom filters, stored,
  cached or running, make it skip only blocks without a match. It changes nothing but the cache.
\<close>

theorem events_in_range_complete:
  assumes "event_chain lib n hs hdr E db" and "block_lib_ok lib" and "0 < n"
    and "s \<le> t" and "s \<le> n - 1" and "length keys \<le> 16"
  shows "\<exists>c. events_in_range lib hs s t addresses keys db =
    Inr ((events_between (block_matching hdr E addresses (truncate_keys keys)) s (min t (n - 1)), Some (min t (n - 1))), db\<lparr> filter_cache := c \<rparr>)"
  using events_in_range_stored [OF bloom_part_ok [OF assms(2)] event_chain_stored [OF assms(1-3)] assms(4-6)] .

theorem events_in_range_complete_witness:
  "\<exists>db db'. event_chain example_block_lib 1 [example_header] ((\<lambda>_. example_header)(0 := example_header)) example_events db \<and>
    events_in_range example_block_lib [example_header] 0 5 [] [] db = Inr (([example_emitted], Some 0), db')"
proof -
  obtain db where db: "event_chain example_block_lib 1 [example_header] ((\<lambda>_. example_header)(0 := example_header)) example_events db"
    using example_event_chain by blast
  from events_in_range_complete [OF db example_block_lib_ok, of 0 5 "[]" "[]"] example_matching db show ?thesis
    by (auto simp: events_between_def blocks_between_def truncate_keys_def)
qed





text \<open>
  C34: With blockchain pruning the first block of a query has no effect: \<^verbatim>\<open>events\<close> starts at the earliest block of
  the database whichever block was asked for. A continuation token, which is passed as the first block
  of the next query, is so ignored but for its offset.
\<close>

theorem pruning_ignores_from_block:
  "tx_events lib True hs (constraints\<lparr> ec_from_block := Some a \<rparr>) limit db =
   tx_events lib True hs (constraints\<lparr> ec_from_block := Some b \<rparr>) limit db"
proof -
  have "events_from_block True hs (constraints\<lparr> ec_from_block := Some a \<rparr>) = events_from_block True hs (constraints\<lparr> ec_from_block := Some b \<rparr>)"
    by (simp add: events_from_block_def)
  then show ?thesis unfolding tx_events_def events_page_from_block by (simp split: option.split)
qed

end
