(* ===== verification/Spec2Isabelle.thy ===== *)
theory Spec2Isabelle
  imports Field_Properties Felt_Properties State_Properties Event_Properties
begin

text \<open>
  Pathfinder, a Starknet full node (\<^verbatim>\<open>src/crates\<close>): a verification of the part of the node that decides what
  it commits to and what it answers. The node receives blocks, computes the commitment of the state after each
  of them, stores state, headers, transactions and events in SQLite, and serves queries from there.

  \<^bold>\<open>Parts and theories.\<close> Each group is a theory with the code (its name is the module's) and theories with the
  lemmas about it; properties are in the theories whose name ends in \<^verbatim>\<open>_Properties\<close>.

    \<^item> \<open>Prelude\<close>, \<open>Bytes\<close>, \<open>Loops\<close>: machine integers as words, the sum type \<open>outcome\<close> for a returned error, a
      panic or exhausted fuel, Rust slices, big-endian bytes, loops whose body may fail.
    \<^item> \<open>Limbs\<close>, \<open>Montgomery\<close>, \<open>MontFelt\<close>, \<open>CurveOrder\<close>, \<open>FieldConvert\<close> (\<^verbatim>\<open>crypto/src/algebra/field\<close>): the base field
      and the scalar field of the curve on four 64-bit limbs. The two modules of the source are the same code for
      two moduli, so the code is written once with the constants as an argument. \<open>Montgomery_Correct\<close> proves each
      operation to be that of the integers modulo \<open>P\<close> in the locale \<open>montgomery\<close>, interpreted for both moduli
      (\<open>mf\<close>, \<open>co\<close>); \<open>Montgomery_Inverse\<close> that inversion ends; \<open>FieldPrime\<close> that the modulus is prime.
    \<^item> \<open>Felt\<close>, \<open>Felt_Correct\<close> (\<^verbatim>\<open>felt.rs\<close>): the 32-byte field element of the rest of the node.
    \<^item> \<open>Poseidon\<close>, \<open>Poseidon_Correct\<close> (\<^verbatim>\<open>crypto/src/hash/poseidon\<close>): the permutation against the textbook rounds, the
      hashes, the incremental hasher; the locale \<open>felt_hash_function\<close> is what the trees need of a hash.
    \<^item> \<open>MerkleNode\<close>, \<open>MerkleTree\<close>, \<open>MerkleCommit\<close> (\<^verbatim>\<open>merkle-tree/src/tree.rs\<close>, \<^verbatim>\<open>merkle_node.rs\<close>, \<^verbatim>\<open>storage.rs\<close>): the
      Merkle-Patricia tree, lazily loaded from a storage. \<open>MerkleSpec\<close> has the reference commitment of a map and
      the relation between a tree and the map it holds; \<open>MerkleTree_Correct\<close> the refinement.
    \<^item> \<open>TrieStorage\<close> (\<^verbatim>\<open>storage/src/connection/trie.rs\<close>): nodes and roots in tables, with pruning. \<open>TrieStorage_Correct\<close>,
      \<open>TriePersist\<close>: what is written is read back. \<open>TrieOwned\<close>, \<open>TrieLive\<close>, \<open>TrieRoots\<close>, \<open>TrieForest\<close>, \<open>TrieSize\<close>, \<open>TrieWrite\<close>:
      which rows belong to which tree, so that pruning never removes a row of a kept block.
    \<^item> \<open>Header\<close> (\<^verbatim>\<open>common/src/header.rs\<close>, \<^verbatim>\<open>storage/src/connection/block.rs\<close>): block numbers and the table of headers.
    \<^item> \<open>StateTables\<close>, \<open>StateTrees\<close> (\<^verbatim>\<open>state_update.rs\<close>, \<^verbatim>\<open>class.rs\<close>, \<^verbatim>\<open>contract.rs\<close>, \<^verbatim>\<open>contract_state.rs\<close>,
      \<^verbatim>\<open>starknet_state.rs\<close>): the tables of the state and the update of the three tries by a block.
      \<open>StarknetState\<close> is the abstract state and what a block does to it. \<open>ContractUpdate\<close>, \<open>ContractUpdates\<close>,
      \<open>StateUpdate_Correct\<close>, \<open>StateRows\<close>, \<open>StateChain\<close>, \<open>Chain\<close>: every chain of blocks keeps the database invariant
      \<open>chain_ok\<close>, by rule induction on the relation \<open>chain\<close>.
    \<^item> \<open>Bloom\<close>, \<open>TransactionTables\<close>, \<open>EventStore\<close> (\<^verbatim>\<open>storage/src/bloom.rs\<close>, \<^verbatim>\<open>connection/transaction.rs\<close>,
      \<^verbatim>\<open>connection/event.rs\<close>): transactions and events of the blocks, the aggregate Bloom filters over ranges of 8192
      blocks, the running filter, the cache and the two event queries. \<open>Bloom_Correct\<close>, \<open>EventFilter_Correct\<close>: filters
      have no false negatives. \<open>EventRange_Correct\<close>, \<open>EventScan_Correct\<close>: the filters of a range, and the blocks they report.
      \<open>EventStore_Correct\<close>, \<open>EventPaging\<close>: queries return exactly the matching events, page by page.
      \<open>EventInsert_Correct\<close>: storing a block keeps the invariant of the filters.
      \<open>EventChain\<close>: stored blocks, queries, shutdowns and restarts keep the invariant of the event tables.
      \<open>EventFollow\<close>: following the continuation tokens ends and gives every matching event once, in order.
      \<open>Event_Properties\<close>: the properties of the stored events.

  \<^bold>\<open>Correspondence.\<close> A \<^verbatim>\<open>&mut\<close> argument is returned; an \<^verbatim>\<open>Rc<RefCell<_>>\<close> node is the node itself, as no node has two
  parents; a table is a list of its rows or a function of the columns it is queried by; a query is a function of
  the tables it reads. Arithmetic that may overflow is on words or has the panic of the checked operation written
  out: the release profile has overflow checks. Every \<^verbatim>\<open>expect\<close>, \<^verbatim>\<open>unwrap\<close> and \<^verbatim>\<open>assert\<close> is a \<open>Panic\<close>, every returned
  error an \<open>Err\<close>.

  \<^bold>\<open>Code outside the repository\<close> is an argument with its documented laws as hypotheses, each shown satisfiable by
  a concrete instance: bincode, the padding bits of a \<^verbatim>\<open>BitVec\<close> and the keys SQLite assigns (record \<open>engine\<close>, law
  \<open>engine_ok\<close>); SipHash, zstd and the sized cache (record \<open>bloom_lib\<close>, law \<open>bloom_lib_ok\<close>); the encoded transactions and
  events (record \<open>block_lib\<close>, law \<open>block_lib_ok\<close>); random words. The state theorems hold for every hash function with the laws of the
  locale \<open>felt_valued_hash\<close> in the place of Pedersen.

  \<^bold>\<open>Fuel and bounds.\<close> The inversion loop has 512 iterations of at most 256 halvings, and is proved to end within
  them. Recursion on trees is on the remaining height (251 for the tries of the state). Following continuation tokens
  needs no more steps than there are matching events and blocks in the range, plus one. Block numbers are
  64-bit words; theorems on stored events ask for block numbers two filter ranges below \<open>2 ^ 63\<close>, the largest SQLite
  integer.

  \<^bold>\<open>Not modelled\<close>: the Pedersen hash and the curve with its generated tables of 67,000 lines, ECDSA, Merkle proofs,
  block hashes and commitments over transactions and receipts, class hashes, reverting state for a reorganisation,
  the schema migrations, and all input and output: networking, JSON-RPC, the gateway and Ethereum clients,
  the synchronisation tasks, the executor and the compiler, which call external programs.
\<close>

end
